(* ===== verification/Prelude.thy ===== *)
theory Prelude
  imports Main "HOL-Library.Word"
begin

text \<open>
  Shared vocabulary of the development: bytes and the little-endian digit lists they form, the
  object representation of an unsigned integer on a host of either byte order, the unsigned
  subtraction of \<open>size_t\<close>, and the state-and-error computations in which the stateful classes of
  the program are written. The collections \<open>byte_simps\<close> and \<open>run_simps\<close> carry the facts the
  component theories share.
\<close>

named_theorems byte_simps
named_theorems run_simps

type_synonym byte = "8 word"
type_synonym u16 = "16 word"
type_synonym u32 = "32 word"
type_synonym u64 = "64 word"

section \<open>Computations with a state and an error\<close>

text \<open>
  A method that updates its object and may throw takes the object and returns the updated object
  together with the error it throws (\<open>Inl\<close>) or its result (\<open>Inr\<close>): the object is visible after a
  throw as well, as it is to the code that catches the exception.
\<close>

type_synonym ('s, 'e, 'a) run = "'s \<Rightarrow> 's \<times> ('e + 'a)"

definition ret :: "'a \<Rightarrow> ('s, 'e, 'a) run" where
  "ret a s = (s, Inr a)"

definition throw :: "'e \<Rightarrow> ('s, 'e, 'a) run" where
  "throw e s = (s, Inl e)"

definition andthen :: "('s, 'e, 'a) run \<Rightarrow> ('a \<Rightarrow> ('s, 'e, 'b) run) \<Rightarrow> ('s, 'e, 'b) run" where
  "andthen m f s = (case m s of (s', Inl e) \<Rightarrow> (s', Inl e) | (s', Inr a) \<Rightarrow> f a s')"

definition seq :: "('s, 'e, 'a) run \<Rightarrow> ('s, 'e, 'b) run \<Rightarrow> ('s, 'e, 'b) run" where
  "seq m n = andthen m (\<lambda>_. n)"

text \<open>\<open>catching h m\<close> runs \<open>m\<close>; when it throws, \<open>h\<close> adjusts the object and the error propagates.\<close>

definition catching :: "('s \<Rightarrow> 's) \<Rightarrow> ('s, 'e, 'a) run \<Rightarrow> ('s, 'e, 'a) run" where
  "catching h m s = (case m s of (s', Inl e) \<Rightarrow> (h s', Inl e) | (s', Inr a) \<Rightarrow> (s', Inr a))"

lemma ret_run [run_simps]: "ret a s = (s, Inr a)"
  by (simp add: ret_def)

lemma throw_run [run_simps]: "throw e s = (s, Inl e)"
  by (simp add: throw_def)

lemma andthen_Inr [run_simps]: "m s = (s', Inr a) \<Longrightarrow> andthen m f s = f a s'"
  by (simp add: andthen_def)

lemma andthen_Inl [run_simps]: "m s = (s', Inl e) \<Longrightarrow> andthen m f s = (s', Inl e)"
  by (simp add: andthen_def)

lemma seq_Inr [run_simps]: "m s = (s', Inr a) \<Longrightarrow> seq m n s = n s'"
  by (simp add: seq_def andthen_Inr)

lemma seq_Inl [run_simps]: "m s = (s', Inl e) \<Longrightarrow> seq m n s = (s', Inl e)"
  by (simp add: seq_def andthen_Inl)

lemma catching_Inr [run_simps]: "m s = (s', Inr a) \<Longrightarrow> catching h m s = (s', Inr a)"
  by (simp add: catching_def)

lemma catching_Inl [run_simps]: "m s = (s', Inl e) \<Longrightarrow> catching h m s = (h s', Inl e)"
  by (simp add: catching_def)

lemma andthen_assoc: "andthen (andthen m f) g = andthen m (\<lambda>a. andthen (f a) g)"
  by (simp add: andthen_def fun_eq_iff split: prod.split sum.split)

lemma seq_andthen: "seq m (andthen n f) = andthen (seq m n) f"
  by (simp add: seq_def andthen_assoc)

lemma andthen_cases:
  assumes "andthen m f s = (t, r)"
  obtains (Throw) e where "m s = (t, Inl e)" and "r = Inl e"
  | (Return) s' a where "m s = (s', Inr a)" and "f a s' = (t, r)"
proof (cases "m s")
  case (Pair s' x)
  with assms that show thesis by (cases x) (auto simp: andthen_def)
qed

lemma catching_cases:
  assumes "catching h m s = (t, r)"
  obtains (Throw) s' e where "m s = (s', Inl e)" and "t = h s'" and "r = Inl e"
  | (Return) a where "m s = (t, Inr a)" and "r = Inr a"
proof (cases "m s")
  case (Pair s' x)
  with assms that show thesis by (cases x) (auto simp: catching_def)
qed

section \<open>Computations with an error only\<close>

text \<open>A sequence of steps of which each may end with an error, when the state is a result like any other.\<close>

definition chain :: "'e + 'a \<Rightarrow> ('a \<Rightarrow> 'e + 'b) \<Rightarrow> 'e + 'b" where
  "chain m f = (case m of Inl e \<Rightarrow> Inl e | Inr a \<Rightarrow> f a)"

lemma chain_simps [simp]: "chain (Inl e) f = Inl e" "chain (Inr a) f = f a"
  by (simp_all add: chain_def)

lemma chain_cong [fundef_cong]:
  "m = m' \<Longrightarrow> (\<And>a. m' = Inr a \<Longrightarrow> f a = f' a) \<Longrightarrow> chain m f = chain m' f'"
  by (cases m') simp_all

lemma chain_Inr: "chain m f = Inr b \<longleftrightarrow> (\<exists>a. m = Inr a \<and> f a = Inr b)"
  by (cases m) simp_all

section \<open>Sequences of operations\<close>

text \<open>
  Operations applied one after the other; \<open>None\<close> is an operation that fails. An implementation
  refines a specification when, on the states of its invariant, every operation succeeds, keeps
  the invariant and acts on the abstract state as specified; then so does every sequence.
\<close>

primrec run_ops :: "('op \<Rightarrow> 's \<Rightarrow> 's option) \<Rightarrow> 'op list \<Rightarrow> 's \<Rightarrow> 's option" where
  "run_ops step [] s = Some s"
| "run_ops step (p # ps) s = Option.bind (step p s) (run_ops step ps)"

lemma run_ops_append: "run_ops step (ps @ qs) s = Option.bind (run_ops step ps s) (run_ops step qs)"
  by (induction ps arbitrary: s) (auto simp: Option.bind_eq_None_conv split: bind_splits)

locale refines_spec =
  fixes inv :: "'s \<Rightarrow> bool" and abs :: "'s \<Rightarrow> 'a" and step :: "'op \<Rightarrow> 's \<Rightarrow> 's option"
    and spec :: "'op \<Rightarrow> 'a \<Rightarrow> 'a" and valid :: "'op \<Rightarrow> bool"
  assumes step_refines: "inv s \<Longrightarrow> valid p \<Longrightarrow> \<exists>s'. step p s = Some s' \<and> inv s' \<and> abs s' = spec p (abs s)"
begin

lemma run_refines:
  "inv s \<Longrightarrow> list_all valid ps \<Longrightarrow> \<exists>s'. run_ops step ps s = Some s' \<and> inv s' \<and> abs s' = fold spec ps (abs s)"
proof (induction ps arbitrary: s)
  case (Cons p ps)
  then obtain s' where "step p s = Some s'" "inv s'" "abs s' = spec p (abs s)" using step_refines by fastforce
  then show ?case using Cons.IH [of s'] Cons.prems(2) by simp
qed simp

end

section \<open>Unsigned subtraction\<close>

text \<open>\<open>a - b\<close> on \<open>size_t\<close>: wraps around below zero.\<close>

definition size_sub :: "nat \<Rightarrow> nat \<Rightarrow> nat" where
  "size_sub a b = (if b \<le> a then a - b else 2 ^ 64 + a - b)"

lemma size_sub_le [simp]: "b \<le> a \<Longrightarrow> size_sub a b = a - b"
  by (simp add: size_sub_def)

section \<open>Little-endian digits\<close>

primrec le_nat :: "nat \<Rightarrow> nat \<Rightarrow> byte list" where
  "le_nat 0 x = []"
| "le_nat (Suc n) x = word_of_nat x # le_nat n (x div 256)"

primrec le_val :: "byte list \<Rightarrow> nat" where
  "le_val [] = 0"
| "le_val (b # bs) = unat b + 256 * le_val bs"

lemma length_le_nat [simp]: "length (le_nat n x) = n"
  by (induction n arbitrary: x) auto

lemma le_nat_zero: "le_nat n 0 = replicate n 0"
  by (induction n) auto

lemma le_nat_step: "0 < n \<Longrightarrow> le_nat n x = word_of_nat x # le_nat (n - 1) (x div 256)"
  by (cases n) auto

lemma le_nat_unfold [byte_simps]:
  "le_nat 1 x = [word_of_nat x]"
  "le_nat 2 x = [word_of_nat x, word_of_nat (x div 256)]"
  "le_nat 4 x = [word_of_nat x, word_of_nat (x div 256), word_of_nat (x div 65536),
     word_of_nat (x div 16777216)]"
  "le_nat 8 x = [word_of_nat x, word_of_nat (x div 256), word_of_nat (x div 65536),
     word_of_nat (x div 16777216)] @ le_nat 4 (x div 4294967296)"
  by (simp_all add: le_nat_step div_mult2_eq [symmetric])

lemma unat_byte_of_nat: "unat (word_of_nat x :: byte) = x mod 256"
  by (simp add: unat_of_nat)

lemma le_val_le_nat [byte_simps]: "le_val (le_nat n x) = x mod 256 ^ n"
proof (induction n arbitrary: x)
  case (Suc n)
  have "x mod (256 * 256 ^ n) = x mod 256 + 256 * (x div 256 mod 256 ^ n)"
    by (simp add: mod_mult2_eq)
  with Suc show ?case by (simp add: unat_byte_of_nat)
qed simp

lemma byte_256: "(256 :: byte) = 0"
  by simp

lemma unat_byte_less: "unat (b :: byte) < 256"
  using unsigned_less [of b] by simp

lemma le_val_less: "le_val bs < 256 ^ length bs"
proof (induction bs)
  case (Cons b bs)
  have "unat b + 256 * le_val bs < 256 * (le_val bs + 1)"
    using unat_byte_less [of b] by simp
  also have "\<dots> \<le> 256 * 256 ^ length bs"
    using Cons by (intro mult_le_mono2) simp
  finally show ?case by simp
qed simp

lemma le_nat_le_val [byte_simps]: "length bs = n \<Longrightarrow> le_nat n (le_val bs) = bs"
proof (induction bs arbitrary: n)
  case (Cons b bs)
  have "word_of_nat (unat b + 256 * le_val bs) = b"
    by (simp add: byte_256)
  moreover have "(unat b + 256 * le_val bs) div 256 = le_val bs"
    using unat_byte_less [of b] by simp
  ultimately show ?case using Cons by auto
qed simp

section \<open>Object representation\<close>

text \<open>The byte order of a host (\<open>enum class ByteSequence\<close>).\<close>

datatype ByteSequence = BigEndian | LittleEndian

text \<open>The bytes of an \<open>n\<close>-byte unsigned integer in the memory of a host, at ascending addresses.\<close>

definition object_rep :: "ByteSequence \<Rightarrow> nat \<Rightarrow> nat \<Rightarrow> byte list" where
  "object_rep h n x = (case h of LittleEndian \<Rightarrow> le_nat n x | BigEndian \<Rightarrow> rev (le_nat n x))"

definition object_val :: "ByteSequence \<Rightarrow> byte list \<Rightarrow> nat" where
  "object_val h bs = (case h of LittleEndian \<Rightarrow> le_val bs | BigEndian \<Rightarrow> le_val (rev bs))"

lemma length_object_rep [simp]: "length (object_rep h n x) = n"
  by (simp add: object_rep_def split: ByteSequence.split)

lemma object_val_rep [byte_simps]: "object_val h (object_rep h n x) = x mod 256 ^ n"
  by (simp add: object_val_def object_rep_def byte_simps split: ByteSequence.split)

lemma object_rep_val [byte_simps]: "length bs = n \<Longrightarrow> object_rep h n (object_val h bs) = bs"
  by (simp add: object_val_def object_rep_def byte_simps split: ByteSequence.split)

text \<open>The object representation of a word and the word a representation denotes.\<close>

definition mem_of :: "ByteSequence \<Rightarrow> 'a::len word \<Rightarrow> byte list" where
  "mem_of h w = object_rep h (LENGTH('a) div 8) (unat w)"

definition word_at :: "ByteSequence \<Rightarrow> byte list \<Rightarrow> 'a::len word" where
  "word_at h bs = word_of_nat (object_val h bs)"

lemma length_mem_of [simp]: "length (mem_of h (w :: 'a::len word)) = LENGTH('a) div 8"
  by (simp add: mem_of_def)

lemma power_256: "(256::nat) ^ n = 2 ^ (8 * n)"
  by (simp add: power_mult)

lemma word_at_mem_of [byte_simps]:
  "8 dvd LENGTH('a::len) \<Longrightarrow> word_at h (mem_of h (w :: 'a word)) = w"
  by (simp add: word_at_def mem_of_def byte_simps power_256 unsigned_less)

lemma mem_of_word_at [byte_simps]:
  assumes "8 dvd LENGTH('a::len)" and "length bs = LENGTH('a) div 8"
  shows "mem_of h (word_at h bs :: 'a word) = bs"
proof -
  have "object_val h bs < 2 ^ LENGTH('a)"
    using le_val_less [of bs] le_val_less [of "rev bs"] assms
    by (auto simp: object_val_def power_256 split: ByteSequence.split)
  then show ?thesis
    using assms by (simp add: word_at_def mem_of_def unat_of_nat byte_simps)
qed

lemma mem_of_BigEndian: "rev (mem_of BigEndian w) = mem_of LittleEndian w"
  by (simp add: mem_of_def object_rep_def)

lemma word_at_rev: "word_at BigEndian bs = word_at LittleEndian (rev bs)"
  by (simp add: word_at_def object_val_def)

section \<open>Lists\<close>

lemma drop_append_split:
  assumes "drop p xs = ys @ zs" and "p \<le> length xs"
  shows "xs = take p xs @ ys @ zs" and "p + length ys \<le> length xs"
    and "take (length ys) (drop p xs) = ys" and "drop (p + length ys) xs = zs"
proof -
  show "xs = take p xs @ ys @ zs" using assms(1) by (metis append_take_drop_id)
  have "length (drop p xs) = length ys + length zs" using assms(1) by simp
  then show "p + length ys \<le> length xs" using assms(2) by simp
  show "take (length ys) (drop p xs) = ys" using assms(1) by simp
  have "drop (p + length ys) xs = drop (length ys) (drop p xs)"
    by (simp add: add.commute)
  then show "drop (p + length ys) xs = zs" using assms(1) by simp
qed

end
