(* ===== verification/Serializer.thy ===== *)
theory Serializer
  imports Prelude
begin

text \<open>
  The class \<open>BinarySerializer\<close> of \<open>src/include/serializer\<close>: its state, the basic operations on
  the byte stream, one definition per \<open>input\<close> overload and one per \<open>output\<close> overload. The
  overload sets are tied together at the end by \<open>input\<close> and \<open>output\<close>, which select the overload
  by the constructor of the value and of the C++ type, as overload resolution does.

  A read outside the stored bytes, or a write outside a \<open>std::array\<close>, is undefined behaviour in
  C++ and is the error \<open>OutOfRange\<close> here; a loop that never ends is the error \<open>NoReturn\<close>. The
  heap is unbounded: \<open>reserve\<close> and \<open>resize\<close> do not fail.
\<close>

section \<open>Data types, limits and error numbers (util.h)\<close>

datatype BinaryDataType =
    BOOL | INT16 | INT32 | INT64 | UINT16 | UINT32 | UINT64 | FLOAT | DOUBLE | CHAR_T | STRING
  | BYTES | UBYTES | VECTOR | LIST | MAP | TUPLE | HASHMAP | SET | MUSECLASS | ARRAY | UINT8

fun type_code :: "BinaryDataType \<Rightarrow> byte" where
  "type_code BOOL = 0"
| "type_code INT16 = 1"
| "type_code INT32 = 2"
| "type_code INT64 = 3"
| "type_code UINT16 = 4"
| "type_code UINT32 = 5"
| "type_code UINT64 = 6"
| "type_code FLOAT = 7"
| "type_code DOUBLE = 8"
| "type_code CHAR_T = 9"
| "type_code STRING = 10"
| "type_code BYTES = 11"
| "type_code UBYTES = 12"
| "type_code VECTOR = 13"
| "type_code LIST = 14"
| "type_code MAP = 15"
| "type_code TUPLE = 16"
| "type_code HASHMAP = 17"
| "type_code SET = 18"
| "type_code MUSECLASS = 19"
| "type_code ARRAY = 20"
| "type_code UINT8 = 21"

declare type_code.simps [simp del]

datatype ErrorNumber =
    DataTypeError | InsufficientRemainingMemory | TheStringLengthExceedsTheLimit
  | IllegalStringLength | TheBytesCountExceedsTheLimit | IllegalBytesCount
  | ReadIllegalBytesCount | TheVectorCountExceedsTheLimit | IllegalVectorCount
  | TheListCountExceedsTheLimit | IllegalListCount | TheMapKVCountExceedsTheLimit
  | IllegalMapKVCount | TheTupleCountExceedsTheLimit | IllegalTupleCount
  | IllegalParameterTupleCount | TheHashMapKVCountExceedsTheLimit | IllegalHashMapKVCount
  | ErrorReadingSubElements | TheSetSizeExceedsTheLimit | IllegalSetCount
  | NoDataToStoreInFile | TheArrayCountExceedsTheLimit | IllegalArrayCount

definition MUSE_DEFAULT_CAPACITY :: nat where "MUSE_DEFAULT_CAPACITY = 32"
definition MUSE_MAX_STRING_LENGTH :: nat where "MUSE_MAX_STRING_LENGTH = 1048576"
definition MUSE_MAX_BYTE_COUNT :: nat where "MUSE_MAX_BYTE_COUNT = 65536"
definition MUSE_MAX_VECTOR_COUNT :: nat where "MUSE_MAX_VECTOR_COUNT = 16777216"
definition MUSE_MAX_ARRAY_COUNT :: nat where "MUSE_MAX_ARRAY_COUNT = 16777216"
definition MUSE_MAX_LIST_COUNT :: nat where "MUSE_MAX_LIST_COUNT = 16777216"
definition MUSE_MAX_MAP_COUNT :: nat where "MUSE_MAX_MAP_COUNT = 16777216"
definition MUSE_MAX_TUPLE_COUNT :: nat where "MUSE_MAX_TUPLE_COUNT = 64"
definition MUSE_MAX_SET_COUNT :: nat where "MUSE_MAX_SET_COUNT = 16777216"

lemmas limit_defs =
  MUSE_DEFAULT_CAPACITY_def MUSE_MAX_STRING_LENGTH_def MUSE_MAX_BYTE_COUNT_def
  MUSE_MAX_VECTOR_COUNT_def MUSE_MAX_ARRAY_COUNT_def MUSE_MAX_LIST_COUNT_def
  MUSE_MAX_MAP_COUNT_def MUSE_MAX_TUPLE_COUNT_def MUSE_MAX_SET_COUNT_def

text \<open>\<open>getByteSequence\<close> on a host of byte order \<open>h\<close>: copy the integer to memory, look at byte 0.\<close>

definition getByteSequence :: "ByteSequence \<Rightarrow> ByteSequence" where
  "getByteSequence h =
     (let testValue = (0x01234567 :: u32); bytes = mem_of h testValue
      in if bytes ! 0 = 0x01 then BigEndian else LittleEndian)"

text \<open>
  \<open>BinarySerializerException\<close> with its error number, \<open>std::logic_error\<close>, undefined behaviour, and
  a call that does not return.
\<close>

datatype ser_error = SerEx ErrorNumber | LogicError | OutOfRange | NoReturn

section \<open>The state of a serializer and its basic operations\<close>

record BinarySerializer =
  byteStream :: "byte list"
  capacity :: nat
  readPosition :: nat
  byteSequence :: ByteSequence

type_synonym 'a ser_run = "(BinarySerializer, ser_error, 'a) run"

text \<open>\<open>reserve\<close> on the empty stream gives the initial capacity.\<close>

definition new_serializer :: "ByteSequence \<Rightarrow> BinarySerializer" where
  "new_serializer h =
     \<lparr>byteStream = [], capacity = MUSE_DEFAULT_CAPACITY, readPosition = 0,
      byteSequence = getByteSequence h\<rparr>"

text \<open>The loop of \<open>expansion\<close>; \<open>None\<close> when it never ends.\<close>

partial_function (option) expansion_loop :: "nat \<Rightarrow> nat \<Rightarrow> nat \<Rightarrow> nat option" where
  "expansion_loop cap hasSize len =
     (if cap - hasSize < len then expansion_loop (cap * 2) hasSize len else Some cap)"

definition expansion :: "nat \<Rightarrow> unit ser_run" where
  "expansion len s =
     (if capacity s - length (byteStream s) < len
      then case expansion_loop (capacity s) (length (byteStream s)) len of
             None \<Rightarrow> (s, Inl NoReturn)
           | Some cap \<Rightarrow> (s\<lparr>capacity := cap\<rparr>, Inr ())
      else (s, Inr ()))"

text \<open>\<open>write(data, len)\<close>, with \<open>data\<close> the \<open>len\<close> bytes at the pointer.\<close>

definition ser_write :: "byte list \<Rightarrow> unit ser_run" where
  "ser_write data s =
     (if 0 < length data
      then seq (expansion (length data))
             (\<lambda>s'. (s'\<lparr>byteStream := byteStream s' @ data\<rparr>, Inr ())) s
      else (s, Inr ()))"

text \<open>\<open>read(data, len)\<close>: \<open>None\<close> is the return value false; \<open>readPosition + len\<close> is unsigned.\<close>

definition ser_read :: "nat \<Rightarrow> BinarySerializer \<Rightarrow> BinarySerializer \<times> byte list option" where
  "ser_read len s =
     (if length (byteStream s) < readPosition s + len then (s, None)
      else (s\<lparr>readPosition := readPosition s + len\<rparr>,
            Some (take len (drop (readPosition s) (byteStream s)))))"

definition ser_clear :: "BinarySerializer \<Rightarrow> BinarySerializer" where
  "ser_clear s = s\<lparr>byteStream := [], capacity := MUSE_DEFAULT_CAPACITY, readPosition := 0\<rparr>"

definition ser_reset :: "BinarySerializer \<Rightarrow> BinarySerializer" where
  "ser_reset s = s\<lparr>readPosition := 0\<rparr>"

definition byteCount :: "BinarySerializer \<Rightarrow> nat" where
  "byteCount s = length (byteStream s)"

definition getReadPosition :: "BinarySerializer \<Rightarrow> nat" where
  "getReadPosition s = readPosition s"

definition getBinaryStream :: "BinarySerializer \<Rightarrow> byte list" where
  "getBinaryStream s = byteStream s"

text \<open>\<open>saveToFile\<close>: \<open>opens\<close> is whether the file opens; the result is its content.\<close>

definition saveToFile :: "bool \<Rightarrow> BinarySerializer \<Rightarrow> ser_error + byte list" where
  "saveToFile opens s =
     (if byteStream s = [] then Inl (SerEx NoDataToStoreInFile)
      else if opens then Inr (byteStream s) else Inl LogicError)"

text \<open>
  \<open>loadFromFile\<close>: the parameter is what the successive calls of \<open>readsome\<close> deliver, at most 1024
  bytes each, or \<open>None\<close> when the file does not open; the first empty piece ends the loop.
\<close>

primrec load_loop :: "byte list list \<Rightarrow> unit ser_run" where
  "load_loop [] = ret ()"
| "load_loop (piece # pieces) =
     (if 0 < length piece then seq (ser_write piece) (load_loop pieces) else ret ())"

definition loadFromFile :: "byte list list option \<Rightarrow> unit ser_run" where
  "loadFromFile file s =
     (case file of
        None \<Rightarrow> throw LogicError s
      | Some pieces \<Rightarrow> load_loop pieces (s\<lparr>byteStream := [], readPosition := 0\<rparr>))"

text \<open>
  The move constructor and the move assignment: the new object and the object moved from. A moved
  from \<open>std::vector\<close> is empty and holds no storage, so its capacity is 0; the constructor leaves
  the byte order of the source in place.
\<close>

definition ser_move :: "BinarySerializer \<Rightarrow> BinarySerializer \<times> BinarySerializer" where
  "ser_move other =
     (\<lparr>byteStream = byteStream other, capacity = capacity other,
       readPosition = readPosition other, byteSequence = byteSequence other\<rparr>,
      other\<lparr>byteStream := [], capacity := 0, readPosition := 0\<rparr>)"

definition ser_move_assign ::
  "BinarySerializer \<Rightarrow> BinarySerializer \<Rightarrow> BinarySerializer \<times> BinarySerializer" where
  "ser_move_assign this other =
     (this\<lparr>byteStream := byteStream other, capacity := capacity other,
           readPosition := readPosition other\<rparr>,
      other\<lparr>byteStream := [], capacity := 0, readPosition := 0\<rparr>)"

text \<open>\<open>byteStream[i]\<close>, and \<open>n\<close> bytes from \<open>&byteStream[i]\<close>.\<close>

definition byte_at :: "nat \<Rightarrow> byte ser_run" where
  "byte_at i s = (if i < length (byteStream s) then (s, Inr (byteStream s ! i))
                  else (s, Inl OutOfRange))"

definition bytes_at :: "nat \<Rightarrow> nat \<Rightarrow> byte list ser_run" where
  "bytes_at i n s = (if i + n \<le> length (byteStream s)
                     then (s, Inr (take n (drop i (byteStream s))))
                     else (s, Inl OutOfRange))"

definition move_to :: "nat \<Rightarrow> unit ser_run" where
  "move_to p s = (s\<lparr>readPosition := p\<rparr>, Inr ())"

definition checkDataTypeRightForward :: "BinaryDataType \<Rightarrow> bool ser_run" where
  "checkDataTypeRightForward dt s =
     (if readPosition s = length (byteStream s)
      then throw (SerEx InsufficientRemainingMemory) s
      else andthen (byte_at (readPosition s))
        (\<lambda>b. if b = type_code dt then seq (move_to (readPosition s + 1)) (ret True)
             else ret False) s)"

section \<open>The input overloads of basic types (binarySerializer.cpp)\<close>

text \<open>The last \<open>n\<close> bytes are reversed on a big-endian host.\<close>

definition to_little_endian :: "nat \<Rightarrow> unit ser_run" where
  "to_little_endian n s =
     (if byteSequence s = BigEndian
      then (let k = length (byteStream s) - n
            in (s\<lparr>byteStream := take k (byteStream s) @ rev (drop k (byteStream s))\<rparr>, Inr ()))
      else (s, Inr ()))"

definition MUSE_CONVERT_TO_LITTLE_ENDIAN ::
  "BinaryDataType \<Rightarrow> 'a::len word \<Rightarrow> unit ser_run" where
  "MUSE_CONVERT_TO_LITTLE_ENDIAN type value s =
     seq (ser_write [type_code type])
       (seq (ser_write (mem_of (byteSequence s) value))
         (to_little_endian (LENGTH('a) div 8))) s"

definition input_bool :: "bool \<Rightarrow> unit ser_run" where
  "input_bool value = seq (ser_write [type_code BOOL]) (ser_write [if value then 1 else 0])"

definition input_char :: "byte \<Rightarrow> unit ser_run" where
  "input_char value = seq (ser_write [type_code CHAR_T]) (ser_write [value])"

definition input_uchar :: "byte \<Rightarrow> unit ser_run" where
  "input_uchar value = seq (ser_write [type_code UINT8]) (ser_write [value])"

definition input_int16 :: "u16 \<Rightarrow> unit ser_run" where
  "input_int16 value = MUSE_CONVERT_TO_LITTLE_ENDIAN INT16 value"

definition input_int32 :: "u32 \<Rightarrow> unit ser_run" where
  "input_int32 value = MUSE_CONVERT_TO_LITTLE_ENDIAN INT32 value"

definition input_int64 :: "u64 \<Rightarrow> unit ser_run" where
  "input_int64 value = MUSE_CONVERT_TO_LITTLE_ENDIAN INT64 value"

definition input_uint16 :: "u16 \<Rightarrow> unit ser_run" where
  "input_uint16 value = MUSE_CONVERT_TO_LITTLE_ENDIAN UINT16 value"

definition input_uint32 :: "u32 \<Rightarrow> unit ser_run" where
  "input_uint32 value = MUSE_CONVERT_TO_LITTLE_ENDIAN UINT32 value"

definition input_uint64 :: "u64 \<Rightarrow> unit ser_run" where
  "input_uint64 value = MUSE_CONVERT_TO_LITTLE_ENDIAN UINT64 value"

text \<open>A floating-point number is its IEEE 754 bit pattern.\<close>

definition input_float :: "u32 \<Rightarrow> unit ser_run" where
  "input_float value = MUSE_CONVERT_TO_LITTLE_ENDIAN FLOAT value"

definition input_double :: "u64 \<Rightarrow> unit ser_run" where
  "input_double value = MUSE_CONVERT_TO_LITTLE_ENDIAN DOUBLE value"

definition write_u32 :: "u32 \<Rightarrow> unit ser_run" where
  "write_u32 len s = seq (ser_write (mem_of (byteSequence s) len)) (to_little_endian 4) s"

definition input_string :: "byte list \<Rightarrow> unit ser_run" where
  "input_string value =
     (let len = (word_of_nat (length value) :: u32)
      in if MUSE_MAX_STRING_LENGTH < unat len then throw (SerEx TheStringLengthExceedsTheLimit)
         else seq (ser_write [type_code STRING])
                (seq (write_u32 len) (ser_write (take (unat len) value))))"

text \<open>\<open>value\<close> is the buffer at the pointer, which must hold at least \<open>len\<close> bytes.\<close>

definition write_buffer :: "byte list \<Rightarrow> nat \<Rightarrow> unit ser_run" where
  "write_buffer value len =
     (if len \<le> length value then ser_write (take len value) else throw OutOfRange)"

definition input_bytes :: "byte list \<Rightarrow> u32 \<Rightarrow> unit ser_run" where
  "input_bytes value len =
     (if MUSE_MAX_BYTE_COUNT < unat len then throw (SerEx TheBytesCountExceedsTheLimit)
      else seq (ser_write [type_code BYTES])
             (seq (write_u32 len) (write_buffer value (unat len))))"

definition input_ubytes :: "byte list \<Rightarrow> u32 \<Rightarrow> unit ser_run" where
  "input_ubytes value len =
     (if MUSE_MAX_BYTE_COUNT < unat len then throw (SerEx TheBytesCountExceedsTheLimit)
      else seq (ser_write [type_code UBYTES])
             (seq (write_u32 len) (write_buffer value (unat len))))"

section \<open>The input overloads of containers (binarySerializer.h)\<close>

text \<open>
  The parameter \<open>inp\<close> is the overload the element type selects. The element count is a \<open>size_t\<close>
  of which the code writes the first \<open>sizeof(uint32_t)\<close> bytes in memory.
\<close>

primrec input_each :: "('v \<Rightarrow> unit ser_run) \<Rightarrow> 'v list \<Rightarrow> unit ser_run" where
  "input_each inp [] = ret ()"
| "input_each inp (x # xs) = seq (inp x) (input_each inp xs)"

definition write_count :: "nat \<Rightarrow> unit ser_run" where
  "write_count elementCount s =
     seq (ser_write (take 4 (mem_of (byteSequence s) (word_of_nat elementCount :: u64))))
       (to_little_endian 4) s"

definition input_vector :: "('v \<Rightarrow> unit ser_run) \<Rightarrow> 'v list \<Rightarrow> unit ser_run" where
  "input_vector inp value =
     seq (ser_write [type_code VECTOR])
       (if MUSE_MAX_VECTOR_COUNT < length value then throw (SerEx TheVectorCountExceedsTheLimit)
        else seq (write_count (length value)) (input_each inp value))"

text \<open>\<open>std::array<T,N>\<close>: the count is the \<open>uint32_t\<close> constant \<open>N\<close>.\<close>

definition input_array :: "('v \<Rightarrow> unit ser_run) \<Rightarrow> 'v list \<Rightarrow> unit ser_run" where
  "input_array inp value =
     seq (ser_write [type_code ARRAY])
       (seq (write_u32 (word_of_nat (length value))) (input_each inp value))"

definition input_list :: "('v \<Rightarrow> unit ser_run) \<Rightarrow> 'v list \<Rightarrow> unit ser_run" where
  "input_list inp value =
     seq (ser_write [type_code LIST])
       (if MUSE_MAX_LIST_COUNT < length value then throw (SerEx TheListCountExceedsTheLimit)
        else seq (write_count (length value)) (input_each inp value))"

definition input_map ::
  "('k \<Rightarrow> unit ser_run) \<Rightarrow> ('v \<Rightarrow> unit ser_run) \<Rightarrow> ('k \<times> 'v) list \<Rightarrow> unit ser_run" where
  "input_map inpk inpv value =
     seq (ser_write [type_code MAP])
       (if MUSE_MAX_MAP_COUNT < length value then throw (SerEx TheMapKVCountExceedsTheLimit)
        else seq (write_count (length value))
               (input_each (\<lambda>kv. seq (inpk (fst kv)) (inpv (snd kv))) value))"

definition input_hashmap ::
  "('k \<Rightarrow> unit ser_run) \<Rightarrow> ('v \<Rightarrow> unit ser_run) \<Rightarrow> ('k \<times> 'v) list \<Rightarrow> unit ser_run" where
  "input_hashmap inpk inpv value =
     seq (ser_write [type_code HASHMAP])
       (if MUSE_MAX_MAP_COUNT < length value then throw (SerEx TheHashMapKVCountExceedsTheLimit)
        else seq (write_count (length value))
               (input_each (\<lambda>kv. seq (inpk (fst kv)) (inpv (snd kv))) value))"

definition input_set :: "('v \<Rightarrow> unit ser_run) \<Rightarrow> 'v list \<Rightarrow> unit ser_run" where
  "input_set inp value =
     seq (ser_write [type_code SET])
       (if MUSE_MAX_LIST_COUNT < length value then throw (SerEx TheSetSizeExceedsTheLimit)
        else seq (write_count (length value)) (input_each inp value))"

text \<open>\<open>inputArgs\<close> calls the overload of each argument in turn.\<close>

primrec inputArgs :: "unit ser_run list \<Rightarrow> unit ser_run" where
  "inputArgs [] = ret ()"
| "inputArgs (i # is) = seq i (inputArgs is)"

definition write_u16 :: "u16 \<Rightarrow> unit ser_run" where
  "write_u16 len s = seq (ser_write (mem_of (byteSequence s) len)) (to_little_endian 2) s"

text \<open>A tuple is given by its components' \<open>input\<close> calls; the overload for \<open>std::tuple<>\<close> writes nothing.\<close>

definition input_tuple :: "unit ser_run list \<Rightarrow> unit ser_run" where
  "input_tuple tpl =
     (if tpl = [] then ret ()
      else seq (ser_write [type_code TUPLE])
        (let tupleSize = (word_of_nat (length tpl) :: u16)
         in if MUSE_MAX_TUPLE_COUNT < unat tupleSize
            then throw (SerEx TheTupleCountExceedsTheLimit)
            else seq (write_u16 tupleSize) (inputArgs tpl)))"

text \<open>\<open>serialize\<close> as the macro \<open>MUSE_IBinarySerializable(members)\<close> defines it.\<close>

definition serialize_members :: "unit ser_run list \<Rightarrow> unit ser_run" where
  "serialize_members ms = seq (ser_write [type_code MUSECLASS]) (inputArgs ms)"


section \<open>The output overloads of basic types (binarySerializer.cpp)\<close>

definition MUSE_CHECK_LEGITIMACY :: "BinaryDataType \<Rightarrow> nat \<Rightarrow> unit ser_run" where
  "MUSE_CHECK_LEGITIMACY type n s =
     (let needLength = 1 + n
      in if size_sub (length (byteStream s)) (readPosition s) < needLength
         then throw (SerEx InsufficientRemainingMemory) s
         else andthen (byte_at (readPosition s))
           (\<lambda>b. if b \<noteq> type_code type then throw (SerEx DataTypeError) else ret ()) s)"

definition MUSE_PREVENT_BOUNDARY :: "unit ser_run" where
  "MUSE_PREVENT_BOUNDARY s =
     (if readPosition s = length (byteStream s)
      then throw (SerEx InsufficientRemainingMemory) s else ret () s)"

text \<open>An unsigned integer of the stream: its bytes are loaded and, on a big-endian host, reversed.\<close>

definition load_word :: "nat \<Rightarrow> 'a::len word ser_run" where
  "load_word i s =
     andthen (bytes_at i (LENGTH('a) div 8))
       (\<lambda>bs. ret (word_at (byteSequence s)
          (if byteSequence s = BigEndian then rev bs else bs))) s"

text \<open>\<open>value = *((T*)(&byteStream[++readPosition]))\<close>, then \<open>MUSE_CONVERT_TO_BIG_ENDIAN(T)\<close>.\<close>

definition output_word :: "'a::len word ser_run" where
  "output_word s =
     andthen (seq (move_to (readPosition s + 1)) (load_word (readPosition s + 1)))
       (\<lambda>value. seq (move_to (readPosition s + 1 + LENGTH('a) div 8)) (ret value)) s"

definition output_byte :: "byte ser_run" where
  "output_byte s =
     andthen (seq (move_to (readPosition s + 1)) (byte_at (readPosition s + 1)))
       (\<lambda>value. seq (move_to (readPosition s + 2)) (ret value)) s"

definition output_bool :: "bool ser_run" where
  "output_bool = seq (MUSE_CHECK_LEGITIMACY BOOL 1) (andthen output_byte (\<lambda>b. ret (b \<noteq> 0)))"

definition output_char :: "byte ser_run" where
  "output_char = seq (MUSE_CHECK_LEGITIMACY CHAR_T 1) output_byte"

definition output_uchar :: "byte ser_run" where
  "output_uchar = seq (MUSE_CHECK_LEGITIMACY UINT8 1) output_byte"

definition output_int16 :: "u16 ser_run" where
  "output_int16 = seq (MUSE_CHECK_LEGITIMACY INT16 2) output_word"

definition output_int32 :: "u32 ser_run" where
  "output_int32 = seq (MUSE_CHECK_LEGITIMACY INT32 4) output_word"

definition output_int64 :: "u64 ser_run" where
  "output_int64 = seq (MUSE_CHECK_LEGITIMACY INT64 8) output_word"

definition output_uint16 :: "u16 ser_run" where
  "output_uint16 = seq (MUSE_CHECK_LEGITIMACY UINT16 2) output_word"

definition output_uint32 :: "u32 ser_run" where
  "output_uint32 = seq (MUSE_CHECK_LEGITIMACY UINT32 4) output_word"

definition output_uint64 :: "u64 ser_run" where
  "output_uint64 = seq (MUSE_CHECK_LEGITIMACY UINT64 8) output_word"

definition output_float :: "u32 ser_run" where
  "output_float = seq (MUSE_CHECK_LEGITIMACY FLOAT 4) output_word"

definition output_double :: "u64 ser_run" where
  "output_double = seq (MUSE_CHECK_LEGITIMACY DOUBLE 8) output_word"

text \<open>The type byte is compared and the position moves past it, with no change when it differs.\<close>

definition expect_type :: "BinaryDataType \<Rightarrow> unit ser_run" where
  "expect_type type s =
     andthen (byte_at (readPosition s))
       (\<lambda>b. if b \<noteq> type_code type then throw (SerEx DataTypeError)
            else move_to (readPosition s + 1)) s"

text \<open>
  The length after the type byte: the space check and the limit check, both of which put the
  read position back to \<open>defaultPosition\<close>.
\<close>

definition load_length :: "nat \<Rightarrow> nat \<Rightarrow> ErrorNumber \<Rightarrow> nat ser_run" where
  "load_length defaultPosition limit err s =
     (let leftSize = size_sub (length (byteStream s)) (readPosition s)
      in if leftSize < 4
         then seq (move_to defaultPosition) (throw (SerEx InsufficientRemainingMemory)) s
         else andthen (load_word (readPosition s) :: u32 ser_run)
           (\<lambda>n. if limit < unat n then seq (move_to defaultPosition) (throw (SerEx err))
                else ret (unat n)) s)"

text \<open>
  The payload: the remaining space is measured from \<open>defaultPosition\<close>, the position of the type
  byte, and not from the payload.
\<close>

definition load_payload :: "nat \<Rightarrow> nat \<Rightarrow> byte list ser_run" where
  "load_payload defaultPosition stringLength s =
     (let pos = readPosition s + 4;
          leftSize = size_sub (length (byteStream s)) defaultPosition
      in if leftSize < stringLength
         then seq (move_to defaultPosition) (throw (SerEx InsufficientRemainingMemory)) s
         else seq (move_to pos)
           (andthen (bytes_at pos stringLength)
             (\<lambda>bs. seq (move_to (pos + stringLength)) (ret bs))) s)"

definition output_string :: "byte list ser_run" where
  "output_string s =
     (let defaultPosition = readPosition s
      in seq MUSE_PREVENT_BOUNDARY
          (seq (expect_type STRING)
            (andthen (load_length defaultPosition MUSE_MAX_STRING_LENGTH IllegalStringLength)
              (\<lambda>stringLength. load_payload defaultPosition stringLength))) s)"

text \<open>When the stored count is not \<open>len\<close> the position is not put back.\<close>

definition output_bytes :: "nat \<Rightarrow> byte list ser_run" where
  "output_bytes len s =
     (let defaultPosition = readPosition s
      in seq MUSE_PREVENT_BOUNDARY
          (seq (expect_type BYTES)
            (andthen (load_length defaultPosition MUSE_MAX_BYTE_COUNT IllegalBytesCount)
              (\<lambda>stringLength.
                 if stringLength \<noteq> len then throw (SerEx ReadIllegalBytesCount)
                 else load_payload defaultPosition stringLength))) s)"

definition output_ubytes :: "nat \<Rightarrow> byte list ser_run" where
  "output_ubytes len s =
     (let defaultPosition = readPosition s
      in seq MUSE_PREVENT_BOUNDARY
          (seq (expect_type UBYTES)
            (andthen (load_length defaultPosition MUSE_MAX_BYTE_COUNT IllegalBytesCount)
              (\<lambda>stringLength.
                 if stringLength \<noteq> len then throw (SerEx ReadIllegalBytesCount)
                 else load_payload defaultPosition stringLength))) s)"

section \<open>The output overloads of containers (binarySerializer.h)\<close>

text \<open>
  The loop over the elements: \<open>add\<close> is \<open>emplace_back\<close>, \<open>emplace\<close> or \<open>value[k] = v\<close> and the
  container is built from \<open>value.clear()\<close>. The whole loop stands in a \<open>try\<close> whose handlers put
  the position back and throw again.
\<close>

primrec output_loop :: "('v \<Rightarrow> 'c \<Rightarrow> 'c) \<Rightarrow> 'v ser_run \<Rightarrow> nat \<Rightarrow> 'c \<Rightarrow> 'c ser_run" where
  "output_loop add out 0 value = ret value"
| "output_loop add out (Suc i) value = andthen out (\<lambda>v. output_loop add out i (add v value))"

definition output_container ::
  "BinaryDataType \<Rightarrow> nat \<Rightarrow> ErrorNumber \<Rightarrow> (nat \<Rightarrow> 'c ser_run) \<Rightarrow> 'c ser_run" where
  "output_container type limit err body s =
     (let defaultPosition = readPosition s
      in seq MUSE_PREVENT_BOUNDARY
          (seq (expect_type type)
            (andthen (load_length defaultPosition limit err)
              (\<lambda>n s'. seq (move_to (readPosition s' + 4))
                 (catching (\<lambda>t. t\<lparr>readPosition := defaultPosition\<rparr>) (body n)) s'))) s)"

definition emplace_back :: "'v \<Rightarrow> 'v list \<Rightarrow> 'v list" where
  "emplace_back v value = value @ [v]"

definition output_vector :: "'v ser_run \<Rightarrow> 'v list ser_run" where
  "output_vector out =
     output_container VECTOR MUSE_MAX_VECTOR_COUNT IllegalVectorCount
       (\<lambda>vectorSize. output_loop emplace_back out vectorSize [])"

definition output_list :: "'v ser_run \<Rightarrow> 'v list ser_run" where
  "output_list out =
     output_container LIST MUSE_MAX_LIST_COUNT IllegalListCount
       (\<lambda>listSize. output_loop emplace_back out listSize [])"

text \<open>
  \<open>output(value[i])\<close> for \<open>i\<close> below the count in the stream, into an array of \<open>N\<close> elements; the
  count is not compared with \<open>N\<close>. The result holds the elements written; the others of the
  \<open>N\<close> keep what the caller's array held.
\<close>

primrec output_slots :: "'v ser_run \<Rightarrow> nat \<Rightarrow> nat \<Rightarrow> 'v list \<Rightarrow> 'v list ser_run" where
  "output_slots out N 0 value = ret value"
| "output_slots out N (Suc k) value =
     (if length value < N then andthen out (\<lambda>v. output_slots out N k (value @ [v]))
      else throw OutOfRange)"

definition output_array :: "nat \<Rightarrow> 'v ser_run \<Rightarrow> 'v list ser_run" where
  "output_array N out =
     output_container ARRAY MUSE_MAX_ARRAY_COUNT IllegalVectorCount
       (\<lambda>arraySize. output_slots out N arraySize [])"

text \<open>
  A \<open>std::set\<close> and a \<open>std::map\<close> are lists in the order of their keys under \<open>lt\<close>: \<open>emplace\<close>
  keeps an equivalent element, \<open>value[k] = v\<close> replaces its mapped value.
\<close>

primrec set_emplace :: "('k \<Rightarrow> 'k \<Rightarrow> bool) \<Rightarrow> 'k \<Rightarrow> 'k list \<Rightarrow> 'k list" where
  "set_emplace lt k [] = [k]"
| "set_emplace lt k (x # xs) =
     (if lt k x then k # x # xs else if lt x k then x # set_emplace lt k xs else x # xs)"

primrec map_assign ::
  "('k \<Rightarrow> 'k \<Rightarrow> bool) \<Rightarrow> 'k \<times> 'v \<Rightarrow> ('k \<times> 'v) list \<Rightarrow> ('k \<times> 'v) list" where
  "map_assign lt kv [] = [kv]"
| "map_assign lt kv (x # xs) =
     (if lt (fst kv) (fst x) then kv # x # xs
      else if lt (fst x) (fst kv) then x # map_assign lt kv xs else (fst x, snd kv) # xs)"

text \<open>A \<open>std::unordered_map\<close> is the list of its entries; \<open>eq\<close> is the equality of its keys.\<close>

primrec hashmap_assign ::
  "('k \<Rightarrow> 'k \<Rightarrow> bool) \<Rightarrow> 'k \<times> 'v \<Rightarrow> ('k \<times> 'v) list \<Rightarrow> ('k \<times> 'v) list" where
  "hashmap_assign eq kv [] = [kv]"
| "hashmap_assign eq kv (x # xs) =
     (if eq (fst kv) (fst x) then (fst x, snd kv) # xs else x # hashmap_assign eq kv xs)"

definition output_set :: "('v \<Rightarrow> 'v \<Rightarrow> bool) \<Rightarrow> 'v ser_run \<Rightarrow> 'v list ser_run" where
  "output_set lt out =
     output_container SET MUSE_MAX_SET_COUNT IllegalSetCount
       (\<lambda>setSize. output_loop (set_emplace lt) out setSize [])"

definition output_pair :: "'k ser_run \<Rightarrow> 'v ser_run \<Rightarrow> ('k \<times> 'v) ser_run" where
  "output_pair outk outv = andthen outk (\<lambda>k. andthen outv (\<lambda>v. ret (k, v)))"

definition output_map ::
  "('k \<Rightarrow> 'k \<Rightarrow> bool) \<Rightarrow> 'k ser_run \<Rightarrow> 'v ser_run \<Rightarrow> ('k \<times> 'v) list ser_run" where
  "output_map lt outk outv =
     output_container MAP MUSE_MAX_MAP_COUNT IllegalMapKVCount
       (\<lambda>mapKVSize. output_loop (map_assign lt) (output_pair outk outv) mapKVSize [])"

definition output_hashmap ::
  "('k \<Rightarrow> 'k \<Rightarrow> bool) \<Rightarrow> 'k ser_run \<Rightarrow> 'v ser_run \<Rightarrow> ('k \<times> 'v) list ser_run" where
  "output_hashmap eq outk outv =
     output_container HASHMAP MUSE_MAX_MAP_COUNT IllegalHashMapKVCount
       (\<lambda>mapKVSize. output_loop (hashmap_assign eq) (output_pair outk outv) mapKVSize [])"

primrec outputArgs :: "'v ser_run list \<Rightarrow> 'v list ser_run" where
  "outputArgs [] = ret []"
| "outputArgs (out # outs) = andthen out (\<lambda>v. andthen (outputArgs outs) (\<lambda>vs. ret (v # vs)))"

text \<open>The tuple's count is a \<open>uint16_t\<close>, checked against the limit and against the arity.\<close>

definition load_tuple_size :: "nat \<Rightarrow> nat \<Rightarrow> unit ser_run" where
  "load_tuple_size defaultPosition N s =
     (let leftSize = size_sub (length (byteStream s)) (readPosition s)
      in if leftSize < 2
         then seq (move_to defaultPosition) (throw (SerEx InsufficientRemainingMemory)) s
         else andthen (load_word (readPosition s) :: u16 ser_run)
           (\<lambda>tupleSize.
              if MUSE_MAX_TUPLE_COUNT < unat tupleSize
              then seq (move_to defaultPosition) (throw (SerEx IllegalTupleCount))
              else if unat tupleSize \<noteq> N
              then seq (move_to defaultPosition) (throw (SerEx IllegalParameterTupleCount))
              else move_to (readPosition s + 2)) s)"

definition output_tuple :: "'v ser_run list \<Rightarrow> 'v list ser_run" where
  "output_tuple outs s =
     (if outs = [] then ret [] s
      else let defaultPosition = readPosition s
        in seq MUSE_PREVENT_BOUNDARY
            (seq (expect_type TUPLE)
              (seq (load_tuple_size defaultPosition (length outs))
                (catching (\<lambda>t. t\<lparr>readPosition := defaultPosition\<rparr>) (outputArgs outs)))) s)"

text \<open>\<open>deserialize(BinarySerializer&)\<close> as the macro \<open>MUSE_IBinarySerializable(members)\<close> defines it.\<close>

definition deserialize_members :: "'v ser_run list \<Rightarrow> 'v list ser_run" where
  "deserialize_members outs =
     seq MUSE_PREVENT_BOUNDARY
       (andthen (checkDataTypeRightForward MUSECLASS)
         (\<lambda>result. if \<not> result then throw (SerEx DataTypeError) else outputArgs outs))"

end
