(* ===== verification/Wire_Format.thy ===== *)
theory Wire_Format
  imports Serializer
begin

text \<open>
  Values and types of the serializer, the overload resolution of \<open>input\<close> and \<open>output\<close> over them,
  and the wire format \<open>enc\<close> as an independent specification. The theorems: \<open>input\<close> appends
  exactly the encoding (on a little-endian host; on a big-endian host for values without a
  counted container), \<open>output\<close> reads it back on either host, and the composition is the identity.
\<close>

section \<open>Values and C++ types\<close>

text \<open>
  Integers and floating-point numbers are bit patterns; a \<open>std::map\<close> and a \<open>std::set\<close> are in
  iteration order; \<open>VKept\<close> stands for an array element that deserialization did not write.
\<close>

datatype sval =
    VBool bool | VChar byte | VUChar byte
  | VInt16 u16 | VInt32 u32 | VInt64 u64 | VUInt16 u16 | VUInt32 u32 | VUInt64 u64
  | VFloat u32 | VDouble u64
  | VString "byte list" | VBytes "byte list" | VUBytes "byte list"
  | VVector "sval list" | VArray "sval list" | VList "sval list" | VSet "sval list"
  | VMap "(sval \<times> sval) list" | VHashMap "(sval \<times> sval) list"
  | VTuple "sval list" | VClass "sval list" | VKept

datatype cty =
    TBool | TChar | TUChar
  | TInt16 | TInt32 | TInt64 | TUInt16 | TUInt32 | TUInt64
  | TFloat | TDouble
  | TString | TBytes nat | TUBytes nat
  | TVector cty | TArray nat cty | TList cty | TSet cty
  | TMap cty cty | THashMap cty cty
  | TTuple "cty list" | TClass "cty list"

text \<open>The order and the equality of the key types, which \<open>std::map\<close>, \<open>std::set\<close> and \<open>std::unordered_map\<close> use.\<close>

record key_ops =
  key_less :: "sval \<Rightarrow> sval \<Rightarrow> bool"
  key_eq :: "sval \<Rightarrow> sval \<Rightarrow> bool"

primrec input_val :: "sval \<Rightarrow> unit ser_run" where
  "input_val (VBool b) = input_bool b"
| "input_val (VChar c) = input_char c"
| "input_val (VUChar c) = input_uchar c"
| "input_val (VInt16 w) = input_int16 w"
| "input_val (VInt32 w) = input_int32 w"
| "input_val (VInt64 w) = input_int64 w"
| "input_val (VUInt16 w) = input_uint16 w"
| "input_val (VUInt32 w) = input_uint32 w"
| "input_val (VUInt64 w) = input_uint64 w"
| "input_val (VFloat w) = input_float w"
| "input_val (VDouble w) = input_double w"
| "input_val (VString bs) = input_string bs"
| "input_val (VBytes bs) = input_bytes bs (word_of_nat (length bs))"
| "input_val (VUBytes bs) = input_ubytes bs (word_of_nat (length bs))"
| "input_val (VVector vs) = input_vector id (map input_val vs)"
| "input_val (VArray vs) = input_array id (map input_val vs)"
| "input_val (VList vs) = input_list id (map input_val vs)"
| "input_val (VSet vs) = input_set id (map input_val vs)"
| "input_val (VMap kvs) = input_map id id (map (map_prod input_val input_val) kvs)"
| "input_val (VHashMap kvs) = input_hashmap id id (map (map_prod input_val input_val) kvs)"
| "input_val (VTuple vs) = input_tuple (map input_val vs)"
| "input_val (VClass vs) = serialize_members (map input_val vs)"
| "input_val VKept = ret ()"

definition fmap_run :: "('a \<Rightarrow> 'b) \<Rightarrow> ('s, 'e, 'a) run \<Rightarrow> ('s, 'e, 'b) run" where
  "fmap_run f m = andthen m (\<lambda>a. ret (f a))"

definition pad_array :: "nat \<Rightarrow> sval list \<Rightarrow> sval" where
  "pad_array n vs = VArray (vs @ replicate (n - length vs) VKept)"

primrec output_val :: "key_ops \<Rightarrow> cty \<Rightarrow> sval ser_run" where
  "output_val K TBool = fmap_run VBool output_bool"
| "output_val K TChar = fmap_run VChar output_char"
| "output_val K TUChar = fmap_run VUChar output_uchar"
| "output_val K TInt16 = fmap_run VInt16 output_int16"
| "output_val K TInt32 = fmap_run VInt32 output_int32"
| "output_val K TInt64 = fmap_run VInt64 output_int64"
| "output_val K TUInt16 = fmap_run VUInt16 output_uint16"
| "output_val K TUInt32 = fmap_run VUInt32 output_uint32"
| "output_val K TUInt64 = fmap_run VUInt64 output_uint64"
| "output_val K TFloat = fmap_run VFloat output_float"
| "output_val K TDouble = fmap_run VDouble output_double"
| "output_val K TString = fmap_run VString output_string"
| "output_val K (TBytes n) = fmap_run VBytes (output_bytes n)"
| "output_val K (TUBytes n) = fmap_run VUBytes (output_ubytes n)"
| "output_val K (TVector t) = fmap_run VVector (output_vector (output_val K t))"
| "output_val K (TArray n t) = fmap_run (pad_array n) (output_array n (output_val K t))"
| "output_val K (TList t) = fmap_run VList (output_list (output_val K t))"
| "output_val K (TSet t) = fmap_run VSet (output_set (key_less K) (output_val K t))"
| "output_val K (TMap k t) = fmap_run VMap (output_map (key_less K) (output_val K k) (output_val K t))"
| "output_val K (THashMap k t) =
     fmap_run VHashMap (output_hashmap (key_eq K) (output_val K k) (output_val K t))"
| "output_val K (TTuple ts) = fmap_run VTuple (output_tuple (map (output_val K) ts))"
| "output_val K (TClass ts) = fmap_run VClass (deserialize_members (map (output_val K) ts))"

section \<open>The wire format\<close>

definition le4 :: "nat \<Rightarrow> byte list" where
  "le4 n = le_nat 4 n"

primrec enc :: "sval \<Rightarrow> byte list" where
  "enc (VBool b) = [type_code BOOL, if b then 1 else 0]"
| "enc (VChar c) = [type_code CHAR_T, c]"
| "enc (VUChar c) = [type_code UINT8, c]"
| "enc (VInt16 w) = type_code INT16 # mem_of LittleEndian w"
| "enc (VInt32 w) = type_code INT32 # mem_of LittleEndian w"
| "enc (VInt64 w) = type_code INT64 # mem_of LittleEndian w"
| "enc (VUInt16 w) = type_code UINT16 # mem_of LittleEndian w"
| "enc (VUInt32 w) = type_code UINT32 # mem_of LittleEndian w"
| "enc (VUInt64 w) = type_code UINT64 # mem_of LittleEndian w"
| "enc (VFloat w) = type_code FLOAT # mem_of LittleEndian w"
| "enc (VDouble w) = type_code DOUBLE # mem_of LittleEndian w"
| "enc (VString bs) = type_code STRING # le4 (length bs) @ bs"
| "enc (VBytes bs) = type_code BYTES # le4 (length bs) @ bs"
| "enc (VUBytes bs) = type_code UBYTES # le4 (length bs) @ bs"
| "enc (VVector vs) = type_code VECTOR # le4 (length vs) @ concat (map enc vs)"
| "enc (VArray vs) = type_code ARRAY # le4 (length vs) @ concat (map enc vs)"
| "enc (VList vs) = type_code LIST # le4 (length vs) @ concat (map enc vs)"
| "enc (VSet vs) = type_code SET # le4 (length vs) @ concat (map enc vs)"
| "enc (VMap kvs) = type_code MAP # le4 (length kvs) @
     concat (map (\<lambda>kv. fst kv @ snd kv) (map (map_prod enc enc) kvs))"
| "enc (VHashMap kvs) = type_code HASHMAP # le4 (length kvs) @
     concat (map (\<lambda>kv. fst kv @ snd kv) (map (map_prod enc enc) kvs))"
| "enc (VTuple vs) =
     (if vs = [] then [] else type_code TUPLE # le_nat 2 (length vs) @ concat (map enc vs))"
| "enc (VClass vs) = type_code MUSECLASS # concat (map enc vs)"
| "enc VKept = []"

text \<open>The values of a type that respect the limits of \<open>util.h\<close>; sets and maps are ordered by their keys.\<close>

primrec has_type :: "key_ops \<Rightarrow> cty \<Rightarrow> sval \<Rightarrow> bool" where
  "has_type K TBool v = (case v of VBool b \<Rightarrow> True | _ \<Rightarrow> False)"
| "has_type K TChar v = (case v of VChar c \<Rightarrow> True | _ \<Rightarrow> False)"
| "has_type K TUChar v = (case v of VUChar c \<Rightarrow> True | _ \<Rightarrow> False)"
| "has_type K TInt16 v = (case v of VInt16 w \<Rightarrow> True | _ \<Rightarrow> False)"
| "has_type K TInt32 v = (case v of VInt32 w \<Rightarrow> True | _ \<Rightarrow> False)"
| "has_type K TInt64 v = (case v of VInt64 w \<Rightarrow> True | _ \<Rightarrow> False)"
| "has_type K TUInt16 v = (case v of VUInt16 w \<Rightarrow> True | _ \<Rightarrow> False)"
| "has_type K TUInt32 v = (case v of VUInt32 w \<Rightarrow> True | _ \<Rightarrow> False)"
| "has_type K TUInt64 v = (case v of VUInt64 w \<Rightarrow> True | _ \<Rightarrow> False)"
| "has_type K TFloat v = (case v of VFloat w \<Rightarrow> True | _ \<Rightarrow> False)"
| "has_type K TDouble v = (case v of VDouble w \<Rightarrow> True | _ \<Rightarrow> False)"
| "has_type K TString v = (case v of VString bs \<Rightarrow> length bs \<le> MUSE_MAX_STRING_LENGTH | _ \<Rightarrow> False)"
| "has_type K (TBytes n) v =
     (case v of VBytes bs \<Rightarrow> length bs = n \<and> n \<le> MUSE_MAX_BYTE_COUNT | _ \<Rightarrow> False)"
| "has_type K (TUBytes n) v =
     (case v of VUBytes bs \<Rightarrow> length bs = n \<and> n \<le> MUSE_MAX_BYTE_COUNT | _ \<Rightarrow> False)"
| "has_type K (TVector t) v =
     (case v of VVector vs \<Rightarrow> length vs \<le> MUSE_MAX_VECTOR_COUNT \<and> list_all (has_type K t) vs
      | _ \<Rightarrow> False)"
| "has_type K (TArray n t) v =
     (case v of VArray vs \<Rightarrow> length vs = n \<and> n < MUSE_MAX_ARRAY_COUNT \<and> list_all (has_type K t) vs
      | _ \<Rightarrow> False)"
| "has_type K (TList t) v =
     (case v of VList vs \<Rightarrow> length vs \<le> MUSE_MAX_LIST_COUNT \<and> list_all (has_type K t) vs
      | _ \<Rightarrow> False)"
| "has_type K (TSet t) v =
     (case v of VSet vs \<Rightarrow> length vs \<le> MUSE_MAX_SET_COUNT \<and> list_all (has_type K t) vs \<and>
        sorted_wrt (key_less K) vs
      | _ \<Rightarrow> False)"
| "has_type K (TMap k t) v =
     (case v of VMap kvs \<Rightarrow> length kvs \<le> MUSE_MAX_MAP_COUNT \<and>
        list_all (\<lambda>kv. has_type K k (fst kv) \<and> has_type K t (snd kv)) kvs \<and>
        sorted_wrt (key_less K) (map fst kvs)
      | _ \<Rightarrow> False)"
| "has_type K (THashMap k t) v =
     (case v of VHashMap kvs \<Rightarrow> length kvs \<le> MUSE_MAX_MAP_COUNT \<and>
        list_all (\<lambda>kv. has_type K k (fst kv) \<and> has_type K t (snd kv)) kvs \<and>
        sorted_wrt (\<lambda>a b. \<not> key_eq K b a) (map fst kvs)
      | _ \<Rightarrow> False)"
| "has_type K (TTuple ts) v =
     (case v of VTuple vs \<Rightarrow> length vs \<le> MUSE_MAX_TUPLE_COUNT \<and>
        list_all2 (\<lambda>p v. p v) (map (has_type K) ts) vs
      | _ \<Rightarrow> False)"
| "has_type K (TClass ts) v =
     (case v of VClass vs \<Rightarrow> list_all2 (\<lambda>p v. p v) (map (has_type K) ts) vs | _ \<Rightarrow> False)"

text \<open>Types with no container whose count the code takes from a \<open>size_t\<close>.\<close>

primrec portable :: "cty \<Rightarrow> bool" where
  "portable TBool = True" | "portable TChar = True" | "portable TUChar = True"
| "portable TInt16 = True" | "portable TInt32 = True" | "portable TInt64 = True"
| "portable TUInt16 = True" | "portable TUInt32 = True" | "portable TUInt64 = True"
| "portable TFloat = True" | "portable TDouble = True"
| "portable TString = True" | "portable (TBytes n) = True" | "portable (TUBytes n) = True"
| "portable (TVector t) = False" | "portable (TArray n t) = portable t"
| "portable (TList t) = False" | "portable (TSet t) = False"
| "portable (TMap k t) = False" | "portable (THashMap k t) = False"
| "portable (TTuple ts) = list_all id (map portable ts)"
| "portable (TClass ts) = list_all id (map portable ts)"

section \<open>Writing\<close>

lemma getByteSequence_host: "getByteSequence h = h"
  by (cases h) (simp_all add: getByteSequence_def mem_of_def object_rep_def le_nat_unfold(3))

text \<open>A serializer that can be written to: the storage holds the stream and is not empty.\<close>

definition writable :: "ByteSequence \<Rightarrow> BinarySerializer \<Rightarrow> bool" where
  "writable h s \<longleftrightarrow> byteSequence s = h \<and> 0 < capacity s \<and> length (byteStream s) \<le> capacity s"

definition appended :: "BinarySerializer \<Rightarrow> byte list \<Rightarrow> nat \<Rightarrow> BinarySerializer" where
  "appended s bs c = s\<lparr>byteStream := byteStream s @ bs, capacity := c\<rparr>"

definition appends :: "ByteSequence \<Rightarrow> unit ser_run \<Rightarrow> byte list \<Rightarrow> bool" where
  "appends h m bs \<longleftrightarrow>
     (\<forall>s. writable h s \<longrightarrow> (\<exists>c. m s = (appended s bs c, Inr ()) \<and> writable h (appended s bs c)))"

lemma appendsD:
  assumes "appends h m bs" and "writable h s"
  obtains c where "m s = (appended s bs c, Inr ())" and "writable h (appended s bs c)"
  using assms unfolding appends_def by blast

lemma expansion_loop_returns:
  assumes "0 < cap" and "hasSize \<le> cap"
  shows "\<exists>c. expansion_loop cap hasSize len = Some c \<and> cap \<le> c \<and> len \<le> c - hasSize"
  using assms
proof (induction "len - (cap - hasSize)" arbitrary: cap rule: less_induct)
  case less
  show ?case
  proof (cases "cap - hasSize < len")
    case True
    have "len - (cap * 2 - hasSize) < len - (cap - hasSize)" using True less.prems by simp
    then obtain c where "expansion_loop (cap * 2) hasSize len = Some c" "cap * 2 \<le> c"
      "len \<le> c - hasSize"
      using less.hyps [of "cap * 2"] less.prems by fastforce
    with True show ?thesis by (subst expansion_loop.simps) auto
  next
    case False
    then show ?thesis by (subst expansion_loop.simps) auto
  qed
qed

lemma appended_simps [simp]:
  "byteStream (appended s bs c) = byteStream s @ bs" "capacity (appended s bs c) = c"
  "readPosition (appended s bs c) = readPosition s" "byteSequence (appended s bs c) = byteSequence s"
  "appended (appended s bs c) cs d = appended s (bs @ cs) d"
  by (simp_all add: appended_def)

lemma appended_Nil: "appended s [] (capacity s) = s"
  by (simp add: appended_def)

lemma appends_Nil: "(\<And>s. m s = (s, Inr ())) \<Longrightarrow> appends h m []"
  unfolding appends_def by (metis appended_Nil)

lemma appends_ret: "appends h (ret ()) []"
  by (simp add: appends_Nil ret_def)

lemma expansion_fits:
  assumes "writable h s"
  obtains c where "expansion len s = (s\<lparr>capacity := c\<rparr>, Inr ())"
    and "capacity s \<le> c" and "length (byteStream s) + len \<le> c"
proof (cases "capacity s - length (byteStream s) < len")
  case True
  obtain c where "expansion_loop (capacity s) (length (byteStream s)) len = Some c"
    "capacity s \<le> c" "len \<le> c - length (byteStream s)"
    using expansion_loop_returns [of "capacity s" "length (byteStream s)" len] assms
    by (auto simp: writable_def)
  with True assms that [of c] show thesis by (simp add: expansion_def writable_def)
next
  case False
  with assms have "length (byteStream s) + len \<le> capacity s" by (auto simp: writable_def)
  with False that [of "capacity s"] show thesis by (simp add: expansion_def)
qed

lemma appends_ser_write: "appends h (ser_write bs) bs"
proof (cases "bs = []")
  case True
  then show ?thesis by (simp add: appends_Nil ser_write_def)
next
  case False
  show ?thesis unfolding appends_def
  proof (intro allI impI)
    fix s assume w: "writable h s"
    then obtain c where c: "expansion (length bs) s = (s\<lparr>capacity := c\<rparr>, Inr ())"
      "capacity s \<le> c" "length (byteStream s) + length bs \<le> c"
      by (rule expansion_fits)
    with False have "ser_write bs s = (appended s bs c, Inr ())"
      by (simp add: ser_write_def run_simps appended_def)
    moreover have "writable h (appended s bs c)"
      using w c by (simp add: writable_def)
    ultimately show "\<exists>c. ser_write bs s = (appended s bs c, Inr ()) \<and> writable h (appended s bs c)"
      by blast
  qed
qed

lemma appends_seq:
  assumes "appends h m bs" and "appends h n cs"
  shows "appends h (seq m n) (bs @ cs)"
  unfolding appends_def
proof (intro allI impI)
  fix s assume "writable h s"
  then obtain c where c: "m s = (appended s bs c, Inr ())" "writable h (appended s bs c)"
    using assms(1) by (auto elim: appendsD)
  then obtain d where "n (appended s bs c) = (appended s (bs @ cs) d, Inr ())"
    "writable h (appended s (bs @ cs) d)"
    using assms(2) by (auto elim: appendsD)
  with c show "\<exists>c. seq m n s = (appended s (bs @ cs) c, Inr ()) \<and> writable h (appended s (bs @ cs) c)"
    by (auto simp: run_simps)
qed

text \<open>Writing the host's representation and converting leaves the little-endian digits.\<close>

lemma appends_cong:
  "(\<And>s. writable h s \<Longrightarrow> m s = m' s) \<Longrightarrow> appends h m' bs \<Longrightarrow> appends h m bs"
  by (simp add: appends_def)

lemma appends_converted:
  assumes "length bs = n"
  shows "appends h (seq (ser_write bs) (to_little_endian n))
           (if h = BigEndian then rev bs else bs)"
  unfolding appends_def
proof (intro allI impI)
  fix s assume w: "writable h s"
  let ?le = "if h = BigEndian then rev bs else bs"
  obtain c where c: "ser_write bs s = (appended s bs c, Inr ())" "writable h (appended s bs c)"
    using appends_ser_write w by (rule appendsD)
  have "to_little_endian n (appended s bs c) = (appended s ?le c, Inr ())"
    using w assms by (simp add: to_little_endian_def Let_def appended_def writable_def)
  moreover have "writable h (appended s ?le c)" using c(2) by (simp add: writable_def)
  ultimately show "\<exists>c. seq (ser_write bs) (to_little_endian n) s = (appended s ?le c, Inr ()) \<and>
      writable h (appended s ?le c)"
    using c(1) by (auto simp: run_simps)
qed

lemma little_endian_mem: "(if h = BigEndian then rev (mem_of h w) else mem_of h w) = mem_of LittleEndian w"
  by (cases h) (simp_all add: mem_of_BigEndian)

lemma appends_word:
  fixes w :: "'a::len word"
  shows "appends h (seq (ser_write (mem_of h w)) (to_little_endian (LENGTH('a) div 8)))
           (mem_of LittleEndian w)"
  using appends_converted [of "mem_of h w" "LENGTH('a) div 8" h] by (simp add: little_endian_mem)

lemma appends_write_u32: "appends h (write_u32 w) (mem_of LittleEndian w)"
  by (rule appends_cong [OF _ appends_word]) (simp add: write_u32_def writable_def)

lemma appends_write_u16: "appends h (write_u16 w) (mem_of LittleEndian w)"
  by (rule appends_cong [OF _ appends_word]) (simp add: write_u16_def writable_def)

lemma appends_tag:
  assumes "appends h m bs"
  shows "appends h (seq (ser_write [type_code ty]) m) (type_code ty # bs)"
  using appends_seq [OF appends_ser_write assms, of "[type_code ty]"] by simp

lemma appends_scalar:
  "appends h (MUSE_CONVERT_TO_LITTLE_ENDIAN ty w) (type_code ty # mem_of LittleEndian w)"
  by (rule appends_cong [OF _ appends_tag [OF appends_word]])
     (simp add: MUSE_CONVERT_TO_LITTLE_ENDIAN_def writable_def)

lemma le4_word: "n < 2 ^ 32 \<Longrightarrow> mem_of LittleEndian (word_of_nat n :: u32) = le4 n"
  by (simp add: mem_of_def object_rep_def le4_def unat_of_nat)

lemma le2_word: "n < 2 ^ 16 \<Longrightarrow> mem_of LittleEndian (word_of_nat n :: u16) = le_nat 2 n"
  by (simp add: mem_of_def object_rep_def unat_of_nat)

lemma take_le_nat: "m \<le> n \<Longrightarrow> take m (le_nat n x) = le_nat m x"
proof (induction m arbitrary: n x)
  case (Suc m)
  then show ?case by (cases n) auto
qed simp

lemma appends_write_count:
  assumes "n < 2 ^ 32"
  shows "appends LittleEndian (write_count n) (le4 n)"
proof -
  have "take 4 (mem_of LittleEndian (word_of_nat n :: u64)) = le4 n"
    using assms by (simp add: mem_of_def object_rep_def le4_def unat_of_nat take_le_nat)
  moreover have "length (le4 n) = 4" by (simp add: le4_def)
  ultimately have "appends LittleEndian
      (seq (ser_write (take 4 (mem_of LittleEndian (word_of_nat n :: u64)))) (to_little_endian 4))
      (le4 n)"
    using appends_converted [of "le4 n" 4 LittleEndian] by simp
  then show ?thesis
    by (rule appends_cong [rotated]) (simp add: write_count_def writable_def)
qed

lemma appends_input_each:
  "list_all2 (\<lambda>x. appends h (inp x)) xs bss \<Longrightarrow> appends h (input_each inp xs) (concat bss)"
  by (induction xs bss rule: list_all2_induct) (auto intro: appends_seq appends_ret)

lemma appends_inputArgs:
  "list_all2 (appends h) ms bss \<Longrightarrow> appends h (inputArgs ms) (concat bss)"
  by (induction ms bss rule: list_all2_induct) (auto intro: appends_seq appends_ret)

lemma appends_write_buffer: "appends h (write_buffer bs (length bs)) bs"
  by (simp add: write_buffer_def appends_ser_write)

lemma appends_counted:
  assumes "length xs < 2 ^ 32" and "list_all2 (\<lambda>x. appends LittleEndian (inp x)) xs bss"
  shows "appends LittleEndian (seq (write_count (length xs)) (input_each inp xs))
           (le4 (length xs) @ concat bss)"
  using assms by (intro appends_seq appends_write_count appends_input_each)

lemma list_all_appends:
  "list_all (\<lambda>v. appends h (f v) (g v)) vs \<Longrightarrow> list_all2 (\<lambda>x. appends h (id x)) (map f vs) (map g vs)"
  by (induction vs) auto

lemma list_all_appends_pair:
  "list_all (\<lambda>kv. appends h (f (fst kv)) (g (fst kv)) \<and> appends h (f (snd kv)) (g (snd kv))) kvs \<Longrightarrow>
   list_all2 (\<lambda>kv. appends h (seq (fst kv) (snd kv))) (map (map_prod f f) kvs)
     (map ((\<lambda>kv. fst kv @ snd kv) \<circ> map_prod g g) kvs)"
  by (induction kvs) (auto intro: appends_seq)

lemma list_all2_appends:
  assumes "list_all2 (\<lambda>p v. p v) (map (has_type K) ts) vs"
    and "\<And>t v. t \<in> set ts \<Longrightarrow> has_type K t v \<Longrightarrow> appends h (f v) (g v)"
  shows "list_all2 (appends h) (map f vs) (map g vs)"
  using assms by (auto simp: list_all2_conv_all_nth) (metis nth_mem)

lemma unat_count: "n \<le> 16777216 \<Longrightarrow> unat (word_of_nat n :: u32) = n"
  by (simp add: unat_of_nat)

lemma unat_count16: "n \<le> 64 \<Longrightarrow> unat (word_of_nat n :: u16) = n"
  by (simp add: unat_of_nat)

lemma appends_sized:
  assumes "n \<le> 16777216" and "appends h m bs"
  shows "appends h (seq (write_u32 (word_of_nat n)) m) (le4 n @ bs)"
  using appends_seq [OF appends_write_u32 assms(2), of "word_of_nat n"] assms(1)
  by (simp add: le4_word)

lemma appends_input_string:
  "length bs \<le> MUSE_MAX_STRING_LENGTH \<Longrightarrow> appends h (input_string bs) (enc (VString bs))"
  by (simp add: input_string_def Let_def limit_defs unat_count appends_tag appends_sized
      appends_ser_write)

lemma appends_input_bytes:
  "length bs \<le> MUSE_MAX_BYTE_COUNT \<Longrightarrow>
   appends h (input_bytes bs (word_of_nat (length bs))) (enc (VBytes bs))"
  by (simp add: input_bytes_def limit_defs unat_count appends_tag appends_sized
      appends_write_buffer)

lemma appends_input_ubytes:
  "length bs \<le> MUSE_MAX_BYTE_COUNT \<Longrightarrow>
   appends h (input_ubytes bs (word_of_nat (length bs))) (enc (VUBytes bs))"
  by (simp add: input_ubytes_def limit_defs unat_count appends_tag appends_sized
      appends_write_buffer)

text \<open>The counted containers, for elements that append \<open>bss\<close>.\<close>

lemma appends_input_container:
  assumes "list_all2 (\<lambda>x. appends LittleEndian (inp x)) ms bss" and "length ms \<le> 16777216"
  shows "appends LittleEndian (input_vector inp ms) (type_code VECTOR # le4 (length ms) @ concat bss)"
    and "appends LittleEndian (input_list inp ms) (type_code LIST # le4 (length ms) @ concat bss)"
    and "appends LittleEndian (input_set inp ms) (type_code SET # le4 (length ms) @ concat bss)"
  using assms
  by (simp_all add: input_vector_def input_list_def input_set_def limit_defs appends_tag
      appends_counted)

lemma appends_input_maps:
  assumes "list_all2 (\<lambda>kv. appends LittleEndian (seq (f (fst kv)) (g (snd kv)))) ms bss"
    and "length ms \<le> 16777216"
  shows "appends LittleEndian (input_map f g ms) (type_code MAP # le4 (length ms) @ concat bss)"
    and "appends LittleEndian (input_hashmap f g ms) (type_code HASHMAP # le4 (length ms) @ concat bss)"
  using assms
  by (simp_all add: input_map_def input_hashmap_def limit_defs appends_tag appends_counted)

lemma appends_input_array:
  assumes "list_all2 (\<lambda>x. appends h (inp x)) ms bss" and "length ms \<le> 16777216"
  shows "appends h (input_array inp ms) (type_code ARRAY # le4 (length ms) @ concat bss)"
  using assms by (simp add: input_array_def appends_tag appends_sized appends_input_each)

lemma appends_input_tuple:
  assumes "list_all2 (appends h) ms bss" and "length ms \<le> MUSE_MAX_TUPLE_COUNT" and "ms \<noteq> []"
  shows "appends h (input_tuple ms) (type_code TUPLE # le_nat 2 (length ms) @ concat bss)"
  using assms appends_seq [OF appends_write_u16 appends_inputArgs [OF assms(1)],
      of "word_of_nat (length ms)"]
  by (simp add: input_tuple_def Let_def limit_defs unat_count16 le2_word appends_tag)

lemma appends_input_tuple_empty: "appends h (input_tuple []) []"
  by (simp add: input_tuple_def appends_ret)

lemma appends_serialize_members:
  "list_all2 (appends h) ms bss \<Longrightarrow>
   appends h (serialize_members ms) (type_code MUSECLASS # concat bss)"
  by (simp add: serialize_members_def appends_tag appends_inputArgs)

lemmas input_defs =
  input_bool_def input_char_def input_uchar_def input_int16_def input_int32_def input_int64_def
  input_uint16_def input_uint32_def input_uint64_def input_float_def input_double_def

lemmas appends_elements =
  list_all_appends [OF list.pred_mono_strong] list_all_appends_pair [OF list.pred_mono_strong]

lemma input_val_appends:
  "has_type K t v \<Longrightarrow> h = LittleEndian \<or> portable t \<Longrightarrow> appends h (input_val v) (enc v)"
proof (induction t arbitrary: v)
  case (TVector t)
  then show ?case
    by (auto split: sval.splits simp: limit_defs
        intro!: appends_input_container(1) [where ms = "map f xs" for f xs, simplified]
          appends_elements(1))
next
  case (TArray n t)
  then show ?case
    by (auto split: sval.splits simp: limit_defs
        intro!: appends_input_array [where ms = "map f xs" for f xs, simplified]
          appends_elements(1))
next
  case (TList t)
  then show ?case
    by (auto split: sval.splits simp: limit_defs
        intro!: appends_input_container(2) [where ms = "map f xs" for f xs, simplified]
          appends_elements(1))
next
  case (TSet t)
  then show ?case
    by (auto split: sval.splits simp: limit_defs
        intro!: appends_input_container(3) [where ms = "map f xs" for f xs, simplified]
          appends_elements(1))
next
  case (TMap k t)
  then show ?case
    by (auto split: sval.splits simp: limit_defs
        intro!: appends_input_maps(1) [where ms = "map f xs" for f xs, simplified length_map]
          appends_elements(2))
next
  case (THashMap k t)
  then show ?case
    by (auto split: sval.splits simp: limit_defs
        intro!: appends_input_maps(2) [where ms = "map f xs" for f xs, simplified length_map]
          appends_elements(2))
next
  case (TTuple ts)
  then show ?case
    by (auto split: sval.splits simp: list_all_iff
        intro!: appends_input_tuple [where ms = "map f xs" for f xs, simplified length_map]
          list_all2_appends appends_input_tuple_empty)
next
  case (TClass ts)
  then show ?case
    by (auto split: sval.splits simp: list_all_iff
        intro!: appends_serialize_members list_all2_appends)
qed (auto split: sval.splits simp: input_defs simp del: enc.simps(12-14)
  intro: appends_scalar appends_tag appends_ser_write
    appends_input_string appends_input_bytes appends_input_ubytes)


section \<open>Reading\<close>

definition unread :: "BinarySerializer \<Rightarrow> byte list \<Rightarrow> bool" where
  "unread s bs \<longleftrightarrow>
     readPosition s \<le> length (byteStream s) \<and> drop (readPosition s) (byteStream s) = bs"

abbreviation advanced :: "BinarySerializer \<Rightarrow> nat \<Rightarrow> BinarySerializer" where
  "advanced s n \<equiv> s\<lparr>readPosition := readPosition s + n\<rparr>"

definition reads :: "'a ser_run \<Rightarrow> byte list \<Rightarrow> 'a \<Rightarrow> bool" where
  "reads m bs a \<longleftrightarrow> (\<forall>s rest. unread s (bs @ rest) \<longrightarrow> m s = (advanced s (length bs), Inr a))"

lemma readsD: "reads m bs a \<Longrightarrow> unread s (bs @ rest) \<Longrightarrow> m s = (advanced s (length bs), Inr a)"
  unfolding reads_def by blast

lemma unread_advance: "unread s (bs @ rest) \<Longrightarrow> unread (advanced s (length bs)) rest"
  using drop_append_split [of "readPosition s" "byteStream s" bs rest] by (simp add: unread_def)

lemma unread_size:
  "unread s bs \<Longrightarrow> size_sub (length (byteStream s)) (readPosition s) = length bs"
  by (auto simp: unread_def)

lemma unread_not_end: "unread s (b # bs) \<Longrightarrow> readPosition s \<noteq> length (byteStream s)"
  by (auto simp: unread_def)

lemma byte_at_unread: "unread s (b # rest) \<Longrightarrow> byte_at (readPosition s) s = (s, Inr b)"
  using unread_not_end [of s b rest] by (auto simp: unread_def byte_at_def nth_via_drop)

lemma bytes_at_unread:
  assumes "unread s (pre @ bs @ rest)"
  shows "bytes_at (readPosition s + length pre) (length bs) s = (s, Inr bs)"
proof -
  have "drop (readPosition s + length pre) (byteStream s) = bs @ rest"
    using assms unread_advance [of s pre] by (simp add: unread_def)
  moreover have "length (byteStream s) = readPosition s + length (pre @ bs @ rest)"
    using assms by (metis add_diff_inverse_nat length_drop not_less unread_def)
  ultimately show ?thesis by (simp add: bytes_at_def)
qed

lemma advanced_0 [simp]: "advanced s 0 = s"
  by simp

lemma reads_ret: "reads (ret a) [] a"
  by (simp add: reads_def ret_def)

lemma reads_andthen:
  assumes "reads m bs a" and "reads (f a) cs b"
  shows "reads (andthen m f) (bs @ cs) b"
  unfolding reads_def
proof (intro allI impI)
  fix s rest assume u: "unread s ((bs @ cs) @ rest)"
  then have "m s = (advanced s (length bs), Inr a)" using readsD [OF assms(1), of s "cs @ rest"] by simp
  moreover have "unread (advanced s (length bs)) (cs @ rest)" using u by (simp add: unread_advance)
  then have "f a (advanced s (length bs)) = (advanced (advanced s (length bs)) (length cs), Inr b)"
    by (rule readsD [OF assms(2)])
  ultimately show "andthen m f s = (advanced s (length (bs @ cs)), Inr b)"
    by (simp add: run_simps add.assoc)
qed

lemma reads_fmap: "reads m bs a \<Longrightarrow> reads (fmap_run f m) bs (f a)"
  using reads_andthen [OF _ reads_ret] by (fastforce simp: fmap_run_def)

lemma reads_catching: "reads m bs a \<Longrightarrow> reads (catching h m) bs a"
  by (simp add: reads_def run_simps)

text \<open>Either host loads the value whose little-endian digits stand in the stream.\<close>

lemma load_word_unread:
  fixes w :: "'a::len word"
  assumes "unread s (pre @ mem_of LittleEndian w @ rest)" and "8 dvd LENGTH('a)"
  shows "load_word (readPosition s + length pre) s = (s, Inr w)"
proof -
  have "bytes_at (readPosition s + length pre) (LENGTH('a) div 8) s = (s, Inr (mem_of LittleEndian w))"
    using bytes_at_unread [OF assms(1)] by simp
  then show ?thesis
    using assms(2) word_at_mem_of [of LittleEndian w]
    by (cases "byteSequence s") (simp_all add: load_word_def run_simps word_at_rev)
qed

lemma reads_scalar:
  fixes w :: "'a::len word"
  assumes "8 dvd LENGTH('a)" and "n = LENGTH('a) div 8"
  shows "reads (seq (MUSE_CHECK_LEGITIMACY ty n) output_word) (type_code ty # mem_of LittleEndian w) w"
  unfolding reads_def
proof (intro allI impI)
  fix s rest assume u: "unread s ((type_code ty # mem_of LittleEndian w) @ rest)"
  have "MUSE_CHECK_LEGITIMACY ty n s = (s, Inr ())"
    using u assms(2) unread_size [OF u] byte_at_unread [of s "type_code ty"]
    by (simp add: MUSE_CHECK_LEGITIMACY_def Let_def run_simps)
  moreover have "load_word (readPosition s + 1) (s\<lparr>readPosition := readPosition s + 1\<rparr>) =
      (s\<lparr>readPosition := readPosition s + 1\<rparr>, Inr w)"
    using load_word_unread [of "s\<lparr>readPosition := readPosition s + 1\<rparr>" "[]" w rest] assms(1)
      unread_advance [of s "[type_code ty]"] u
    by simp
  ultimately show "seq (MUSE_CHECK_LEGITIMACY ty n) output_word s =
      (advanced s (length (type_code ty # mem_of LittleEndian w)), Inr w)"
    by (simp add: run_simps output_word_def move_to_def)
qed

lemma reads_byte: "reads (seq (MUSE_CHECK_LEGITIMACY ty 1) output_byte) [type_code ty, b] b"
  unfolding reads_def
proof (intro allI impI)
  fix s rest assume u: "unread s ([type_code ty, b] @ rest)"
  have "MUSE_CHECK_LEGITIMACY ty 1 s = (s, Inr ())"
    using u unread_size [OF u] byte_at_unread [of s "type_code ty"]
    by (simp add: MUSE_CHECK_LEGITIMACY_def Let_def run_simps)
  moreover have "byte_at (readPosition s + 1) (s\<lparr>readPosition := readPosition s + 1\<rparr>) =
      (s\<lparr>readPosition := readPosition s + 1\<rparr>, Inr b)"
    using byte_at_unread [of "s\<lparr>readPosition := readPosition s + 1\<rparr>" b rest]
      unread_advance [of s "[type_code ty]"] u by simp
  ultimately show "seq (MUSE_CHECK_LEGITIMACY ty 1) output_byte s =
      (advanced s (length [type_code ty, b]), Inr b)"
    by (simp add: run_simps output_byte_def move_to_def)
qed

lemma reads_bool: "reads output_bool (enc (VBool b)) b"
  using reads_andthen [OF reads_byte [of BOOL "if b then 1 else 0"],
      of "\<lambda>b. ret (b \<noteq> 0)" "[]" b] reads_ret [of b]
  by (cases b) (simp_all add: output_bool_def seq_andthen)

lemma boundary_unread: "unread s (b # bs) \<Longrightarrow> MUSE_PREVENT_BOUNDARY s = (s, Inr ())"
  by (simp add: MUSE_PREVENT_BOUNDARY_def unread_not_end ret_def)

lemma expect_type_unread:
  "unread s (type_code ty # rest) \<Longrightarrow> expect_type ty s = (advanced s 1, Inr ())"
  using byte_at_unread [of s "type_code ty"]
  by (simp add: expect_type_def run_simps move_to_def)

lemma load_length_unread:
  assumes "unread s (le4 n @ rest)" and "n \<le> limit" and "n \<le> 16777216"
  shows "load_length d limit err s = (s, Inr n)"
proof -
  have "load_word (readPosition s) s = (s, Inr (word_of_nat n :: u32))"
    using load_word_unread [of s "[]" "word_of_nat n :: u32" rest] assms by (simp add: le4_word)
  then show ?thesis
    using assms unread_size [OF assms(1)]
    by (simp add: load_length_def Let_def run_simps unat_count le4_def)
qed

text \<open>The type byte and the length are consumed in front of what the continuation reads.\<close>

lemma reads_container:
  assumes "reads (body n) bs c" and "n \<le> limit" and "n \<le> 16777216"
  shows "reads (output_container ty limit err body) (type_code ty # le4 n @ bs) c"
  unfolding reads_def
proof (intro allI impI)
  fix s rest assume u: "unread s ((type_code ty # le4 n @ bs) @ rest)"
  let ?s1 = "advanced s 1" and ?d = "readPosition s"
  have u1: "unread ?s1 (le4 n @ bs @ rest)" using u unread_advance [of s "[type_code ty]"] by simp
  have "unread (advanced ?s1 4) (bs @ rest)"
    using unread_advance [OF u1] by (simp add: le4_def)
  from readsD [OF reads_catching [OF assms(1)] this, of "\<lambda>t. t\<lparr>readPosition := ?d\<rparr>"]
  show "output_container ty limit err body s =
      (advanced s (length (type_code ty # le4 n @ bs)), Inr c)"
    using boundary_unread [of s "type_code ty"] expect_type_unread [of s ty] u
      load_length_unread [OF u1 assms(2,3), of ?d err]
    by (simp add: output_container_def Let_def run_simps move_to_def le4_def)
qed

lemma load_payload_unread:
  assumes "unread s (le4 n @ bs @ rest)" and "length bs = n" and "d \<le> readPosition s"
  shows "load_payload d n s = (advanced s (4 + n), Inr bs)"
proof -
  have "size_sub (length (byteStream s)) d \<ge> n"
    using assms unread_size [OF assms(1)] by (auto simp: unread_def)
  moreover have "bytes_at (readPosition s + 4) n (advanced s 4) = (advanced s 4, Inr bs)"
    using bytes_at_unread [of "advanced s 4" "[]" bs rest] unread_advance [OF assms(1)] assms(2)
    by (simp add: le4_def)
  ultimately show ?thesis
    by (simp add: load_payload_def Let_def run_simps move_to_def add.assoc)
qed

lemma reads_payload:
  assumes "length bs \<le> limit" and "length bs \<le> 16777216"
    and "\<And>s. m s = seq MUSE_PREVENT_BOUNDARY (seq (expect_type ty)
          (andthen (load_length (readPosition s) limit err) (p (readPosition s)))) s"
    and "\<And>d. p d (length bs) = load_payload d (length bs)"
  shows "reads m (type_code ty # le4 (length bs) @ bs) bs"
  unfolding reads_def
proof (intro allI impI)
  fix s rest assume u: "unread s ((type_code ty # le4 (length bs) @ bs) @ rest)"
  have u1: "unread (advanced s 1) (le4 (length bs) @ bs @ rest)"
    using u unread_advance [of s "[type_code ty]"] by simp
  show "m s = (advanced s (length (type_code ty # le4 (length bs) @ bs)), Inr bs)"
    using boundary_unread [of s "type_code ty"] expect_type_unread [of s ty] u
      load_length_unread [OF u1 assms(1,2), of "readPosition s" err]
      load_payload_unread [OF u1, of "readPosition s"]
    by (simp add: assms(3,4) run_simps le4_def)
qed

lemma reads_string: "length bs \<le> MUSE_MAX_STRING_LENGTH \<Longrightarrow> reads output_string (enc (VString bs)) bs"
  by (simp, rule reads_payload [where p = load_payload])
     (auto simp: output_string_def Let_def limit_defs)

lemma reads_bytes:
  "length bs \<le> MUSE_MAX_BYTE_COUNT \<Longrightarrow> reads (output_bytes (length bs)) (enc (VBytes bs)) bs"
  by (simp, rule reads_payload [where p = "\<lambda>d n. if n \<noteq> length bs then throw (SerEx ReadIllegalBytesCount)
       else load_payload d n"])
     (auto simp: output_bytes_def Let_def limit_defs)

lemma reads_ubytes:
  "length bs \<le> MUSE_MAX_BYTE_COUNT \<Longrightarrow> reads (output_ubytes (length bs)) (enc (VUBytes bs)) bs"
  by (simp, rule reads_payload [where p = "\<lambda>d n. if n \<noteq> length bs then throw (SerEx ReadIllegalBytesCount)
       else load_payload d n"])
     (auto simp: output_ubytes_def Let_def limit_defs)

text \<open>The loops over elements.\<close>

lemma reads_output_loop:
  "list_all2 (reads out) bss vs \<Longrightarrow>
   reads (output_loop add out (length vs) c) (concat bss) (fold add vs c)"
  by (induction bss vs arbitrary: c rule: list_all2_induct) (auto intro: reads_andthen reads_ret)

lemma reads_output_slots:
  "list_all2 (reads out) bss vs \<Longrightarrow> length acc + length vs \<le> N \<Longrightarrow>
   reads (output_slots out N (length vs) acc) (concat bss) (acc @ vs)"
proof (induction bss vs arbitrary: acc rule: list_all2_induct)
  case (Cons bs bss v vs)
  then have "reads (output_slots out N (length vs) (acc @ [v])) (concat bss) (acc @ v # vs)"
    using Cons.IH [of "acc @ [v]"] by simp
  with Cons show ?case by (auto intro: reads_andthen)
qed (simp add: reads_ret)

lemma reads_output_pair:
  "reads outk bs k \<Longrightarrow> reads outv cs v \<Longrightarrow> reads (output_pair outk outv) (bs @ cs) (k, v)"
  using reads_andthen [OF _ reads_andthen [OF _ reads_ret]] by (fastforce simp: output_pair_def)

lemma reads_outputArgs:
  "list_all2 (\<lambda>out (bs, v). reads out bs v) outs (zip bss vs) \<Longrightarrow> length bss = length vs \<Longrightarrow>
   reads (outputArgs outs) (concat bss) vs"
proof (induction outs arbitrary: bss vs)
  case Nil
  then show ?case by (cases bss; cases vs) (auto simp: reads_ret)
next
  case (Cons out outs)
  then obtain bs bss' v vs' where eq: "bss = bs # bss'" "vs = v # vs'"
    by (cases bss; cases vs) auto
  with Cons have "reads out bs v" "reads (outputArgs outs) (concat bss') vs'" by auto
  then have "reads (andthen (outputArgs outs) (\<lambda>vs. ret (v # vs))) (concat bss') (v # vs')"
    using reads_andthen [OF _ reads_ret] by fastforce
  with \<open>reads out bs v\<close> show ?case by (auto simp: eq intro: reads_andthen)
qed

section \<open>Ordered insertion\<close>

lemma fold_emplace_back: "fold emplace_back vs acc = acc @ vs"
  by (induction vs arbitrary: acc) (auto simp: emplace_back_def)

text \<open>
  What the standard requires of a key order, as far as reading back an ordered container needs
  it; inserting keys in ascending order appends them.
\<close>

locale key_order =
  fixes lt :: "'k \<Rightarrow> 'k \<Rightarrow> bool"
  assumes asym: "lt a b \<Longrightarrow> \<not> lt b a"
begin

lemma set_emplace_last: "\<forall>x \<in> set xs. lt x k \<Longrightarrow> set_emplace lt k xs = xs @ [k]"
  by (induction xs) (auto dest: asym)

lemma map_assign_last: "\<forall>x \<in> set xs. lt (fst x) (fst kv) \<Longrightarrow> map_assign lt kv xs = xs @ [kv]"
  by (induction xs) (auto dest: asym)

lemma fold_set_emplace:
  "sorted_wrt lt (acc @ ks) \<Longrightarrow> fold (set_emplace lt) ks acc = acc @ ks"
proof (induction ks arbitrary: acc)
  case (Cons k ks)
  then have "set_emplace lt k acc = acc @ [k]"
    by (intro set_emplace_last) (auto simp: sorted_wrt_append)
  with Cons show ?case by simp
qed simp

lemma fold_map_assign:
  "sorted_wrt lt (map fst (acc @ kvs)) \<Longrightarrow> fold (map_assign lt) kvs acc = acc @ kvs"
proof (induction kvs arbitrary: acc)
  case (Cons kv kvs)
  then have "map_assign lt kv acc = acc @ [kv]"
    by (intro map_assign_last) (auto simp: sorted_wrt_append)
  with Cons show ?case by simp
qed simp

text \<open>An ordered set stays ordered under \<open>emplace\<close>.\<close>

lemma set_emplace_set: "set (set_emplace lt k xs) \<subseteq> insert k (set xs)"
  by (induction xs) auto

end

lemma hashmap_assign_last:
  "\<forall>x \<in> set xs. \<not> eq (fst kv) (fst x) \<Longrightarrow> hashmap_assign eq kv xs = xs @ [kv]"
  by (induction xs) auto

lemma fold_hashmap_assign:
  "sorted_wrt (\<lambda>a b. \<not> eq b a) (map fst (acc @ kvs)) \<Longrightarrow>
   fold (hashmap_assign eq) kvs acc = acc @ kvs"
proof (induction kvs arbitrary: acc)
  case (Cons kv kvs)
  then have "hashmap_assign eq kv acc = acc @ [kv]"
    by (intro hashmap_assign_last) (auto simp: sorted_wrt_append)
  with Cons show ?case by simp
qed simp

section \<open>Reading back a value\<close>

lemma load_tuple_size_unread:
  assumes "unread s (le_nat 2 n @ rest)" and "n \<le> MUSE_MAX_TUPLE_COUNT"
  shows "load_tuple_size d n s = (advanced s 2, Inr ())"
proof -
  have "n \<le> 64" using assms(2) by (simp add: limit_defs)
  then have "load_word (readPosition s) s = (s, Inr (word_of_nat n :: u16))"
    using load_word_unread [of s "[]" "word_of_nat n :: u16" rest] assms by (simp add: le2_word)
  with \<open>n \<le> 64\<close> assms unread_size [OF assms(1)] show ?thesis
    by (simp add: load_tuple_size_def Let_def run_simps unat_count16 move_to_def)
qed

lemma reads_tuple:
  assumes "reads (outputArgs outs) bs vs" and "length outs \<le> MUSE_MAX_TUPLE_COUNT" and "outs \<noteq> []"
  shows "reads (output_tuple outs) (type_code TUPLE # le_nat 2 (length outs) @ bs) vs"
  unfolding reads_def
proof (intro allI impI)
  fix s rest assume u: "unread s ((type_code TUPLE # le_nat 2 (length outs) @ bs) @ rest)"
  let ?s1 = "advanced s 1" and ?d = "readPosition s"
  have u1: "unread ?s1 (le_nat 2 (length outs) @ bs @ rest)"
    using u unread_advance [of s "[type_code TUPLE]"] by simp
  have "unread (advanced ?s1 2) (bs @ rest)" using unread_advance [OF u1] by simp
  from readsD [OF reads_catching [OF assms(1)] this, of "\<lambda>t. t\<lparr>readPosition := ?d\<rparr>"]
  show "output_tuple outs s =
      (advanced s (length (type_code TUPLE # le_nat 2 (length outs) @ bs)), Inr vs)"
    using boundary_unread [of s "type_code TUPLE"] expect_type_unread [of s TUPLE] u assms(3)
      load_tuple_size_unread [OF u1 assms(2), of ?d]
    by (simp add: output_tuple_def Let_def run_simps)
qed

lemma reads_deserialize_members:
  assumes "reads (outputArgs outs) bs vs"
  shows "reads (deserialize_members outs) (type_code MUSECLASS # bs) vs"
  unfolding reads_def
proof (intro allI impI)
  fix s rest assume u: "unread s ((type_code MUSECLASS # bs) @ rest)"
  have "unread (advanced s 1) (bs @ rest)"
    using u unread_advance [of s "[type_code MUSECLASS]"] by simp
  from readsD [OF assms this]
  show "deserialize_members outs s = (advanced s (length (type_code MUSECLASS # bs)), Inr vs)"
    using boundary_unread [of s "type_code MUSECLASS"] byte_at_unread [of s "type_code MUSECLASS"]
      unread_not_end [of s "type_code MUSECLASS"] u
    by (simp add: deserialize_members_def checkDataTypeRightForward_def run_simps move_to_def)
qed

lemma list_all_reads:
  "list_all (\<lambda>v. reads m (g v) v) vs \<Longrightarrow> list_all2 (reads m) (map g vs) vs"
  by (induction vs) auto

lemma list_all_reads_pair:
  "list_all (\<lambda>kv. reads m (g (fst kv)) (fst kv) \<and> reads n (g (snd kv)) (snd kv)) kvs \<Longrightarrow>
   list_all2 (reads (output_pair m n)) (map ((\<lambda>kv. fst kv @ snd kv) \<circ> map_prod g g) kvs) kvs"
  by (induction kvs) (auto intro!: reads_output_pair)

lemma reads_members:
  assumes "list_all2 (\<lambda>p v. p v) (map (has_type K) ts) vs"
    and "\<And>t v. t \<in> set ts \<Longrightarrow> has_type K t v \<Longrightarrow> reads (output_val K t) (enc v) v"
  shows "reads (outputArgs (map (output_val K) ts)) (concat (map enc vs)) vs"
proof (rule reads_outputArgs)
  show "list_all2 (\<lambda>out (bs, v). reads out bs v) (map (output_val K) ts) (zip (map enc vs) vs)"
    using assms by (auto simp: list_all2_conv_all_nth)
qed simp

lemma reads_val_tuple:
  assumes "list_all2 (\<lambda>p v. p v) (map (has_type K) ts) vs" and "length vs \<le> MUSE_MAX_TUPLE_COUNT"
    and "\<And>t v. t \<in> set ts \<Longrightarrow> has_type K t v \<Longrightarrow> reads (output_val K t) (enc v) v"
  shows "reads (output_tuple (map (output_val K) ts)) (enc (VTuple vs)) vs"
proof (cases "vs = []")
  case True
  with assms(1) show ?thesis by (simp add: reads_def output_tuple_def ret_def)
next
  case False
  have "length ts = length vs" using assms(1) by (auto dest: list_all2_lengthD)
  with False assms(2) reads_tuple [OF reads_members [OF assms(1,3)]] show ?thesis by fastforce
qed

lemma reads_val_class:
  assumes "list_all2 (\<lambda>p v. p v) (map (has_type K) ts) vs"
    and "\<And>t v. t \<in> set ts \<Longrightarrow> has_type K t v \<Longrightarrow> reads (output_val K t) (enc v) v"
  shows "reads (deserialize_members (map (output_val K) ts)) (enc (VClass vs)) vs"
  using reads_deserialize_members [OF reads_members [OF assms]] by simp

lemma reads_sequence:
  assumes "list_all (\<lambda>v. reads m (enc v) v) vs" and "length vs \<le> 16777216"
  shows "reads (output_vector m) (enc (VVector vs)) vs"
    and "reads (output_list m) (enc (VList vs)) vs"
    and "reads (output_array (length vs) m) (enc (VArray vs)) vs"
    and "key_order lt \<Longrightarrow> sorted_wrt lt vs \<Longrightarrow> reads (output_set lt m) (enc (VSet vs)) vs"
proof -
  have r: "list_all2 (reads m) (map enc vs) vs" using assms(1) by (rule list_all_reads)
  have l: "reads (output_loop add m (length vs) []) (concat (map enc vs)) (fold add vs [])" for add
    using r by (rule reads_output_loop)
  show "reads (output_vector m) (enc (VVector vs)) vs" "reads (output_list m) (enc (VList vs)) vs"
    using l [of emplace_back] assms(2)
    by (auto simp: output_vector_def output_list_def limit_defs fold_emplace_back intro!: reads_container)
  show "reads (output_array (length vs) m) (enc (VArray vs)) vs"
    using reads_output_slots [OF r, of "[]" "length vs"] assms(2)
    by (auto simp: output_array_def limit_defs intro!: reads_container)
  assume "key_order lt" and "sorted_wrt lt vs"
  with l [of "set_emplace lt"] assms(2) show "reads (output_set lt m) (enc (VSet vs)) vs"
    by (auto simp: output_set_def limit_defs key_order.fold_set_emplace [of lt "[]"]
        intro!: reads_container)
qed

lemma reads_maps:
  assumes "list_all (\<lambda>kv. reads m (enc (fst kv)) (fst kv) \<and> reads n (enc (snd kv)) (snd kv)) kvs"
    and "length kvs \<le> 16777216"
  shows "key_order lt \<Longrightarrow> sorted_wrt lt (map fst kvs) \<Longrightarrow> reads (output_map lt m n) (enc (VMap kvs)) kvs"
    and "sorted_wrt (\<lambda>a b. \<not> eq b a) (map fst kvs) \<Longrightarrow>
      reads (output_hashmap eq m n) (enc (VHashMap kvs)) kvs"
proof -
  note l = reads_output_loop [OF list_all_reads_pair [OF assms(1)], where c = "[]"]
  show "reads (output_map lt m n) (enc (VMap kvs)) kvs"
    if "key_order lt" "sorted_wrt lt (map fst kvs)"
    using l [of "map_assign lt"] assms(2) that
    by (auto simp: output_map_def limit_defs key_order.fold_map_assign [of lt "[]"]
        intro!: reads_container)
  show "reads (output_hashmap eq m n) (enc (VHashMap kvs)) kvs"
    if "sorted_wrt (\<lambda>a b. \<not> eq b a) (map fst kvs)"
    using l [of "hashmap_assign eq"] assms(2) that
    by (auto simp: output_hashmap_def limit_defs fold_hashmap_assign [of eq "[]"]
        intro!: reads_container)
qed

lemmas output_defs =
  output_bool_def output_char_def output_uchar_def output_int16_def output_int32_def
  output_int64_def output_uint16_def output_uint32_def output_uint64_def output_float_def
  output_double_def

lemma reads_basic:
  "reads output_char (enc (VChar c)) c" "reads output_uchar (enc (VUChar c)) c"
  "reads output_int16 (enc (VInt16 w16)) w16" "reads output_uint16 (enc (VUInt16 w16)) w16"
  "reads output_int32 (enc (VInt32 w32)) w32" "reads output_uint32 (enc (VUInt32 w32)) w32"
  "reads output_int64 (enc (VInt64 w64)) w64" "reads output_uint64 (enc (VUInt64 w64)) w64"
  "reads output_float (enc (VFloat w32)) w32" "reads output_double (enc (VDouble w64)) w64"
  unfolding output_defs enc.simps by (rule reads_byte reads_scalar | simp)+

lemma output_val_reads:
  assumes "key_order (key_less K)"
  shows "has_type K t v \<Longrightarrow> reads (output_val K t) (enc v) v"
proof (induction t arbitrary: v)
  case (TArray n t)
  then obtain vs where v: "v = VArray vs" "length vs = n" "n \<le> 16777216" "list_all (has_type K t) vs"
    by (auto split: sval.splits simp: limit_defs)
  then have "list_all (\<lambda>v. reads (output_val K t) (enc v) v) vs"
    using TArray.IH by (auto elim: list.pred_mono_strong)
  then have "reads (output_array n (output_val K t)) (enc v) vs"
    using reads_sequence(3) [of "output_val K t" vs] v by simp
  from reads_fmap [OF this, of "pad_array n"] show ?case using v by (simp add: pad_array_def)
qed (use assms in \<open>auto split: sval.splits simp: limit_defs simp del: enc.simps
    intro!: reads_fmap reads_val_tuple reads_val_class reads_bool reads_basic reads_string reads_bytes reads_ubytes reads_sequence
      reads_maps elim!: list.pred_mono_strong\<close>)

text \<open>What \<open>input\<close> wrote, \<open>output\<close> returns, and the read position ends behind it.\<close>

lemma input_output_val:
  assumes "key_order (key_less K)" and "has_type K t v" and "h = LittleEndian \<or> portable t"
    and "writable h s" and "readPosition s = length (byteStream s)" and "input_val v s = (s', r)"
  shows "r = Inr () \<and> byteStream s' = byteStream s @ enc v \<and>
         output_val K t s' = (s'\<lparr>readPosition := length (byteStream s')\<rparr>, Inr v)"
proof -
  obtain c where c: "input_val v s = (appended s (enc v) c, Inr ())"
    using input_val_appends [OF assms(2,3)] assms(4) by (auto elim: appendsD)
  then have s': "s' = appended s (enc v) c" "r = Inr ()" using assms(6) by auto
  then have "unread s' (enc v @ [])" using assms(5) by (simp add: unread_def)
  from readsD [OF output_val_reads [OF assms(1,2)] this] show ?thesis
    using s' assms(5) by simp
qed

end

