(* ===== verification/Std_Keys.thy ===== *)
theory Std_Keys
  imports Wire_Format
begin

text \<open>
  The comparison \<open>operator<\<close> and the equality of the C++ types that a \<open>std::map\<close>, \<open>std::set\<close> or
  \<open>std::unordered_map\<close> of the program takes as keys, which instantiates the key order of
  \<open>Wire_Format\<close>. Floating-point numbers compare by IEEE 754, sequences lexicographically, \<open>char\<close>
  is signed. No two values of a class are ordered here: a class that is a key brings its own
  \<open>operator<\<close>, which is another instance of the key order.
\<close>

section \<open>Three-way comparison\<close>

definition cmp_int :: "int \<Rightarrow> int \<Rightarrow> int" where
  "cmp_int a b = (if a < b then -1 else if b < a then 1 else 0)"

text \<open>
  A binary floating-point number of \<open>n\<close> bits with \<open>f\<close> fraction bits: not a number when the
  exponent is all ones and the fraction is not 0; otherwise ordered as sign and magnitude.
\<close>

definition magnitude :: "nat \<Rightarrow> nat \<Rightarrow> nat" where
  "magnitude n w = w mod 2 ^ (n - 1)"

definition is_nan :: "nat \<Rightarrow> nat \<Rightarrow> nat \<Rightarrow> bool" where
  "is_nan n f w \<longleftrightarrow> 2 ^ (n - 1) - 2 ^ f < magnitude n w"

definition signed_magnitude :: "nat \<Rightarrow> nat \<Rightarrow> int" where
  "signed_magnitude n w =
     (if 2 ^ (n - 1) \<le> w then - int (magnitude n w) else int (magnitude n w))"

definition cmp_ieee :: "nat \<Rightarrow> nat \<Rightarrow> nat \<Rightarrow> nat \<Rightarrow> int" where
  "cmp_ieee n f a b =
     (if is_nan n f a \<or> is_nan n f b then 0
      else cmp_int (signed_magnitude n a) (signed_magnitude n b))"

definition eq_ieee :: "nat \<Rightarrow> nat \<Rightarrow> nat \<Rightarrow> nat \<Rightarrow> bool" where
  "eq_ieee n f a b \<longleftrightarrow> \<not> is_nan n f a \<and> \<not> is_nan n f b \<and> signed_magnitude n a = signed_magnitude n b"

text \<open>\<open>std::lexicographical_compare\<close>; the first list holds the comparisons with its elements.\<close>

fun lex_cmp :: "('b \<Rightarrow> int) list \<Rightarrow> 'b list \<Rightarrow> int" where
  "lex_cmp [] [] = 0"
| "lex_cmp [] (y # ys) = -1"
| "lex_cmp (c # cs) [] = 1"
| "lex_cmp (c # cs) (y # ys) = (if c y \<noteq> 0 then c y else lex_cmp cs ys)"

definition pair_cmp :: "('b \<Rightarrow> int) \<times> ('b \<Rightarrow> int) \<Rightarrow> 'b \<times> 'b \<Rightarrow> int" where
  "pair_cmp c p = (if fst c (fst p) \<noteq> 0 then fst c (fst p) else snd c (snd p))"

primrec std_cmp :: "sval \<Rightarrow> sval \<Rightarrow> int" where
  "std_cmp (VBool a) v = (case v of VBool b \<Rightarrow> cmp_int (of_bool a) (of_bool b) | _ \<Rightarrow> 0)"
| "std_cmp (VChar a) v = (case v of VChar b \<Rightarrow> cmp_int (sint a) (sint b) | _ \<Rightarrow> 0)"
| "std_cmp (VUChar a) v = (case v of VUChar b \<Rightarrow> cmp_int (uint a) (uint b) | _ \<Rightarrow> 0)"
| "std_cmp (VInt16 a) v = (case v of VInt16 b \<Rightarrow> cmp_int (sint a) (sint b) | _ \<Rightarrow> 0)"
| "std_cmp (VInt32 a) v = (case v of VInt32 b \<Rightarrow> cmp_int (sint a) (sint b) | _ \<Rightarrow> 0)"
| "std_cmp (VInt64 a) v = (case v of VInt64 b \<Rightarrow> cmp_int (sint a) (sint b) | _ \<Rightarrow> 0)"
| "std_cmp (VUInt16 a) v = (case v of VUInt16 b \<Rightarrow> cmp_int (uint a) (uint b) | _ \<Rightarrow> 0)"
| "std_cmp (VUInt32 a) v = (case v of VUInt32 b \<Rightarrow> cmp_int (uint a) (uint b) | _ \<Rightarrow> 0)"
| "std_cmp (VUInt64 a) v = (case v of VUInt64 b \<Rightarrow> cmp_int (uint a) (uint b) | _ \<Rightarrow> 0)"
| "std_cmp (VFloat a) v = (case v of VFloat b \<Rightarrow> cmp_ieee 32 23 (unat a) (unat b) | _ \<Rightarrow> 0)"
| "std_cmp (VDouble a) v = (case v of VDouble b \<Rightarrow> cmp_ieee 64 52 (unat a) (unat b) | _ \<Rightarrow> 0)"
| "std_cmp (VString a) v =
     (case v of VString b \<Rightarrow> lex_cmp (map (\<lambda>x y. cmp_int (uint x) (uint y)) a) b | _ \<Rightarrow> 0)"
| "std_cmp (VBytes a) v = 0"
| "std_cmp (VUBytes a) v = 0"
| "std_cmp (VVector a) v = (case v of VVector b \<Rightarrow> lex_cmp (map std_cmp a) b | _ \<Rightarrow> 0)"
| "std_cmp (VArray a) v = (case v of VArray b \<Rightarrow> lex_cmp (map std_cmp a) b | _ \<Rightarrow> 0)"
| "std_cmp (VList a) v = (case v of VList b \<Rightarrow> lex_cmp (map std_cmp a) b | _ \<Rightarrow> 0)"
| "std_cmp (VSet a) v = (case v of VSet b \<Rightarrow> lex_cmp (map std_cmp a) b | _ \<Rightarrow> 0)"
| "std_cmp (VMap a) v =
     (case v of VMap b \<Rightarrow> lex_cmp (map pair_cmp (map (map_prod std_cmp std_cmp) a)) b | _ \<Rightarrow> 0)"
| "std_cmp (VHashMap a) v = 0"
| "std_cmp (VTuple a) v = (case v of VTuple b \<Rightarrow> lex_cmp (map std_cmp a) b | _ \<Rightarrow> 0)"
| "std_cmp (VClass a) v = 0"
| "std_cmp VKept v = 0"

definition std_less :: "sval \<Rightarrow> sval \<Rightarrow> bool" where
  "std_less a b \<longleftrightarrow> std_cmp a b < 0"

definition std_eq :: "sval \<Rightarrow> sval \<Rightarrow> bool" where
  "std_eq a b =
     (case (a, b) of
        (VFloat x, VFloat y) \<Rightarrow> eq_ieee 32 23 (unat x) (unat y)
      | (VDouble x, VDouble y) \<Rightarrow> eq_ieee 64 52 (unat x) (unat y)
      | _ \<Rightarrow> a = b)"

definition std_ops :: key_ops where
  "std_ops = \<lparr>key_less = std_less, key_eq = std_eq\<rparr>"

section \<open>The order is asymmetric\<close>

lemma cmp_int_swap: "cmp_int a b = - cmp_int b a"
  by (simp add: cmp_int_def)

lemma cmp_ieee_swap: "cmp_ieee n f a b = - cmp_ieee n f b a"
  by (auto simp: cmp_ieee_def cmp_int_swap [of "signed_magnitude n a"])

lemma lex_cmp_swap:
  "(\<And>x y. x \<in> set xs \<Longrightarrow> f x y = - f y x) \<Longrightarrow> lex_cmp (map f xs) ys = - lex_cmp (map f ys) xs"
proof (induction xs arbitrary: ys)
  case Nil
  then show ?case by (cases ys) auto
next
  case (Cons x xs)
  show ?case
  proof (cases ys)
    case (Cons y ys')
    have "f x y = - f y x" using Cons.prems by simp
    moreover have "lex_cmp (map f xs) ys' = - lex_cmp (map f ys') xs"
      using Cons.IH Cons.prems by simp
    ultimately show ?thesis using \<open>ys = y # ys'\<close> by simp
  qed simp
qed

lemma pair_cmp_swap:
  assumes "\<And>y. f (fst p) y = - f y (fst p)" and "\<And>y. f (snd p) y = - f y (snd p)"
  shows "pair_cmp (map_prod f f p) q = - pair_cmp (map_prod f f q) p"
  using assms(1) [of "fst q"] assms(2) [of "snd q"] by (simp add: pair_cmp_def)

lemma map_cmp_swap:
  assumes "\<And>p y. p \<in> set xs \<Longrightarrow> f (fst p) y = - f y (fst p)"
    and "\<And>p y. p \<in> set xs \<Longrightarrow> f (snd p) y = - f y (snd p)"
  shows "lex_cmp (map pair_cmp (map (map_prod f f) xs)) ys =
         - lex_cmp (map pair_cmp (map (map_prod f f) ys)) xs"
proof -
  have "lex_cmp (map (\<lambda>p. pair_cmp (map_prod f f p)) xs) ys =
      - lex_cmp (map (\<lambda>p. pair_cmp (map_prod f f p)) ys) xs"
    by (rule lex_cmp_swap, rule pair_cmp_swap) (use assms in blast)+
  then show ?thesis by (simp add: comp_def)
qed

lemma std_cmp_swap: "std_cmp a b = - std_cmp b a"
proof (induction a arbitrary: b)
  case (VString x)
  then show ?case by (cases b) (auto intro: lex_cmp_swap cmp_int_swap)
next
  case (VVector x)
  then show ?case by (cases b) (auto intro: lex_cmp_swap)
next
  case (VArray x)
  then show ?case by (cases b) (auto intro: lex_cmp_swap)
next
  case (VList x)
  then show ?case by (cases b) (auto intro: lex_cmp_swap)
next
  case (VSet x)
  then show ?case by (cases b) (auto intro: lex_cmp_swap)
next
  case (VTuple x)
  then show ?case by (cases b) (auto intro: lex_cmp_swap)
next
  case (VMap x)
  have "std_cmp (fst p) y = - std_cmp y (fst p)" "std_cmp (snd p) y = - std_cmp y (snd p)"
    if "p \<in> set x" for p y
    using VMap that by (cases p; fastforce)+
  then show ?case by (cases b) (simp_all del: map_map add: map_cmp_swap [of x])
qed (case_tac b; auto simp: cmp_int_def cmp_ieee_def)+

lemma std_less_asym: "std_less a b \<Longrightarrow> \<not> std_less b a"
  using std_cmp_swap [of a b] by (simp add: std_less_def)

interpretation std: key_order std_less
  by unfold_locales (rule std_less_asym)

end
