(* ===== verification/Serializer_Safety.thy ===== *)
theory Serializer_Safety
  imports Std_Keys
begin

text \<open>
  What a \<open>BinarySerializer\<close> guarantees on every stream, well formed or not: reading never changes
  the stream and never moves the position past its end, a failed read puts the position back where
  the code does so, a write returns for every object but one moved from; and the inputs on which
  the code reads or writes outside its storage.
\<close>

section \<open>Reading keeps the stream\<close>

definition in_stream :: "BinarySerializer \<Rightarrow> bool" where
  "in_stream s \<longleftrightarrow> readPosition s \<le> length (byteStream s)"

text \<open>A computation that only moves the read position, within the stream.\<close>

definition only_reads :: "'a ser_run \<Rightarrow> bool" where
  "only_reads m \<longleftrightarrow> (\<forall>s s' r. in_stream s \<longrightarrow> m s = (s', r) \<longrightarrow>
     in_stream s' \<and> s' = s\<lparr>readPosition := readPosition s'\<rparr>)"

lemma only_readsD:
  "only_reads m \<Longrightarrow> in_stream s \<Longrightarrow> m s = (s', r) \<Longrightarrow>
   in_stream s' \<and> s' = s\<lparr>readPosition := readPosition s'\<rparr>"
  unfolding only_reads_def by blast

lemma repositioned:
  "s' = s\<lparr>readPosition := p\<rparr> \<Longrightarrow> s'\<lparr>readPosition := q\<rparr> = s\<lparr>readPosition := q\<rparr>"
  by simp

lemma only_reads_ret [intro!]: "only_reads (ret a)"
  by (simp add: only_reads_def ret_def)

lemma only_reads_throw [intro!]: "only_reads (throw e)"
  by (simp add: only_reads_def throw_def)

lemma only_reads_andthen [intro]:
  assumes "only_reads m" and "\<And>a. only_reads (f a)"
  shows "only_reads (andthen m f)"
  unfolding only_reads_def
proof (intro allI impI)
  fix s s' r assume s: "in_stream s" and "andthen m f s = (s', r)"
  from this(2) show "in_stream s' \<and> s' = s\<lparr>readPosition := readPosition s'\<rparr>"
  proof (cases rule: andthen_cases)
    case (Throw e)
    then show ?thesis using only_readsD [OF assms(1) s] by blast
  next
    case (Return t a)
    then have t: "in_stream t" "t = s\<lparr>readPosition := readPosition t\<rparr>"
      using only_readsD [OF assms(1) s] by blast+
    then show ?thesis using only_readsD [OF assms(2) t(1) Return(2)] repositioned by metis
  qed
qed

lemma only_reads_seq [intro]: "only_reads m \<Longrightarrow> only_reads n \<Longrightarrow> only_reads (seq m n)"
  unfolding seq_def by (rule only_reads_andthen)

lemma only_reads_catching:
  assumes "only_reads m" and "d \<le> length (byteStream s)" and "in_stream s"
    and "catching (\<lambda>t. t\<lparr>readPosition := d\<rparr>) m s = (s', r)"
  shows "in_stream s' \<and> s' = s\<lparr>readPosition := readPosition s'\<rparr>"
  using assms(4)
proof (cases rule: catching_cases)
  case (Throw t e)
  then have "t = s\<lparr>readPosition := readPosition t\<rparr>" using only_readsD [OF assms(1,3)] by blast
  then have "t\<lparr>readPosition := d\<rparr> = s\<lparr>readPosition := d\<rparr>"
    by (rule repositioned)
  then show ?thesis using Throw assms(2) by (simp add: in_stream_def)
next
  case (Return a)
  then show ?thesis using only_readsD [OF assms(1,3)] by blast
qed

lemmas access_defs = byte_at_def bytes_at_def move_to_def load_word_def
lemmas run_defs = andthen_def seq_def ret_def throw_def

lemma only_reads_word:
  "n = LENGTH('a::len) div 8 \<Longrightarrow>
   only_reads (seq (MUSE_CHECK_LEGITIMACY ty n) (output_word :: 'a word ser_run))"
  by (auto simp: only_reads_def MUSE_CHECK_LEGITIMACY_def output_word_def access_defs run_defs
      in_stream_def Let_def split: if_splits)

lemma only_reads_byte: "only_reads (seq (MUSE_CHECK_LEGITIMACY ty 1) output_byte)"
  by (auto simp: only_reads_def MUSE_CHECK_LEGITIMACY_def output_byte_def access_defs run_defs
      in_stream_def Let_def split: if_splits)

text \<open>
  The header of a counted value: it throws a serializer error with the state unchanged, or stands
  behind the type byte with at least the 4 bytes of the count left.
\<close>

lemma counted_header_cases:
  assumes "in_stream s"
    and "seq MUSE_PREVENT_BOUNDARY (seq (expect_type ty)
           (andthen (load_length (readPosition s) limit err) body)) s = (s', r)"
  obtains (Error) e where "s' = s" and "r = Inl (SerEx e)"
  | (Body) n where "n \<le> limit" and "readPosition s + 5 \<le> length (byteStream s)"
      and "body n (s\<lparr>readPosition := readPosition s + 1\<rparr>) = (s', r)"
proof -
  have "readPosition s + 4 < length (byteStream s)"
    if "\<not> length (byteStream s) - Suc (readPosition s) < 4"
    using that by simp
  with assms that show thesis
    by (auto simp: in_stream_def MUSE_PREVENT_BOUNDARY_def expect_type_def load_length_def
        access_defs run_defs Let_def not_less split: if_splits)
qed

lemma load_payload_only_reads:
  assumes "d \<le> readPosition s" and "readPosition s + 4 \<le> length (byteStream s)"
    and "load_payload d n s = (s', r)"
  shows "in_stream s' \<and> s' = s\<lparr>readPosition := readPosition s'\<rparr>"
    and "r = Inl (SerEx e) \<Longrightarrow> readPosition s' = d"
  using assms
  by (auto simp: load_payload_def access_defs run_defs Let_def in_stream_def split: if_splits)

lemma payload_only_reads:
  assumes "\<And>s. m s = seq MUSE_PREVENT_BOUNDARY (seq (expect_type ty)
          (andthen (load_length (readPosition s) limit err) (p (readPosition s)))) s"
    and "\<And>d n. p d n = load_payload d n \<or> p d n = throw (SerEx ReadIllegalBytesCount)"
  shows "only_reads m"
  unfolding only_reads_def
proof (intro allI impI)
  fix s s' r assume s: "in_stream s" and m: "m s = (s', r)"
  show "in_stream s' \<and> s' = s\<lparr>readPosition := readPosition s'\<rparr>"
    using s m unfolding assms(1)
  proof (cases rule: counted_header_cases)
    case (Body n)
    then show ?thesis
      using assms(2) [of "readPosition s" n]
        load_payload_only_reads(1) [of "readPosition s" "s\<lparr>readPosition := readPosition s + 1\<rparr>" n s' r]
      by (auto simp: throw_def in_stream_def)
  qed (use s in simp)
qed

lemma only_reads_container:
  assumes "\<And>n. only_reads (body n)"
  shows "only_reads (output_container ty limit err body)"
  unfolding only_reads_def
proof (intro allI impI)
  fix s s' r assume s: "in_stream s" and "output_container ty limit err body s = (s', r)"
  from s this(2) [unfolded output_container_def Let_def]
  show "in_stream s' \<and> s' = s\<lparr>readPosition := readPosition s'\<rparr>"
  proof (cases rule: counted_header_cases)
    case (Body n)
    then show ?thesis
      using only_reads_catching [OF assms, of "readPosition s" "s\<lparr>readPosition := 5 + readPosition s\<rparr>" n s' r] s
      by (auto simp: run_simps move_to_def in_stream_def)
  qed (use s in simp)
qed

lemma only_reads_loop [intro]: "only_reads out \<Longrightarrow> only_reads (output_loop add out n c)"
  by (induction n arbitrary: c) auto

lemma only_reads_slots [intro]: "only_reads out \<Longrightarrow> only_reads (output_slots out N n c)"
  by (induction n arbitrary: c) auto

lemma only_reads_args [intro]: "list_all only_reads outs \<Longrightarrow> only_reads (outputArgs outs)"
  by (induction outs) auto

lemma tuple_header_cases:
  assumes "in_stream s"
    and "seq MUSE_PREVENT_BOUNDARY (seq (expect_type ty)
           (seq (load_tuple_size (readPosition s) N) body)) s = (s', r)"
  obtains (Error) e where "s' = s" and "r = Inl (SerEx e)"
  | (Body) "readPosition s + 3 \<le> length (byteStream s)"
      and "body (s\<lparr>readPosition := readPosition s + 3\<rparr>) = (s', r)"
proof -
  have "readPosition s + 2 < length (byteStream s)"
    if "\<not> length (byteStream s) - Suc (readPosition s) < 2"
    using that by simp
  with assms that show thesis
    by (auto simp: in_stream_def MUSE_PREVENT_BOUNDARY_def expect_type_def load_tuple_size_def
        access_defs run_defs Let_def not_less numeral_3_eq_3 split: if_splits)
qed

lemma only_reads_tuple:
  assumes "list_all only_reads outs"
  shows "only_reads (output_tuple outs)"
  unfolding only_reads_def
proof (intro allI impI)
  fix s s' r assume s: "in_stream s" and o: "output_tuple outs s = (s', r)"
  show "in_stream s' \<and> s' = s\<lparr>readPosition := readPosition s'\<rparr>"
  proof (cases "outs = []")
    case True
    with o s show ?thesis by (simp add: output_tuple_def ret_def)
  next
    case False
    from s o [unfolded output_tuple_def Let_def if_not_P [OF False]] show ?thesis
    proof (cases rule: tuple_header_cases)
      case Body
      then show ?thesis
        using only_reads_catching [OF only_reads_args [OF assms], of "readPosition s"
          "s\<lparr>readPosition := readPosition s + 3\<rparr>" s' r] s
        by (auto simp: in_stream_def)
    qed (use s in simp)
  qed
qed

lemma only_reads_members:
  assumes "list_all only_reads outs"
  shows "only_reads (deserialize_members outs)"
proof -
  have "only_reads MUSE_PREVENT_BOUNDARY"
    by (auto simp: only_reads_def MUSE_PREVENT_BOUNDARY_def run_defs split: if_splits)
  moreover have "only_reads (checkDataTypeRightForward ty)" for ty
    by (auto simp: only_reads_def checkDataTypeRightForward_def in_stream_def access_defs run_defs
        split: if_splits)
  ultimately show ?thesis
    unfolding deserialize_members_def using assms
    by (intro only_reads_seq only_reads_andthen) auto
qed

lemma only_reads_basic:
  "only_reads output_bool" "only_reads output_char" "only_reads output_uchar"
  "only_reads output_int16" "only_reads output_uint16" "only_reads output_int32"
  "only_reads output_uint32" "only_reads output_int64" "only_reads output_uint64"
  "only_reads output_float" "only_reads output_double"
  unfolding output_defs seq_andthen
  by (rule only_reads_word only_reads_byte only_reads_andthen only_reads_ret | simp)+

lemma only_reads_payloads:
  "only_reads output_string" "only_reads (output_bytes n)" "only_reads (output_ubytes n)"
  unfolding output_string_def [abs_def] output_bytes_def [abs_def] output_ubytes_def [abs_def] Let_def
  by (rule payload_only_reads, rule refl, simp)+

lemma only_reads_fmap [intro!]: "only_reads m \<Longrightarrow> only_reads (fmap_run f m)"
  unfolding fmap_run_def by auto

lemma only_reads_pair [intro]: "only_reads m \<Longrightarrow> only_reads n \<Longrightarrow> only_reads (output_pair m n)"
  unfolding output_pair_def by auto

lemmas container_defs = output_vector_def output_list_def output_array_def output_set_def
  output_map_def output_hashmap_def

lemma output_val_only_reads: "only_reads (output_val K t)"
  by (induction t)
     (auto simp: list_all_iff container_defs
       intro!: only_reads_container only_reads_tuple only_reads_members
         only_reads_basic only_reads_payloads)

section \<open>A failed read puts the position back\<close>

definition restores :: "'a ser_run \<Rightarrow> bool" where
  "restores m \<longleftrightarrow> (\<forall>s s' e. in_stream s \<longrightarrow> m s = (s', Inl (SerEx e)) \<longrightarrow> s' = s)"

lemma restores_fmap: "restores m \<Longrightarrow> restores (fmap_run f m)"
  unfolding restores_def fmap_run_def by (auto elim!: andthen_cases simp: ret_def)

lemma restores_word:
  "n = LENGTH('a::len) div 8 \<Longrightarrow>
   restores (seq (MUSE_CHECK_LEGITIMACY ty n) (output_word :: 'a word ser_run))"
  by (auto simp: restores_def MUSE_CHECK_LEGITIMACY_def output_word_def access_defs run_defs
      in_stream_def Let_def split: if_splits)

lemma restores_byte: "restores (seq (MUSE_CHECK_LEGITIMACY ty 1) output_byte)"
  by (auto simp: restores_def MUSE_CHECK_LEGITIMACY_def output_byte_def access_defs run_defs
      in_stream_def Let_def split: if_splits)

lemma restores_basic:
  "restores output_bool" "restores output_char" "restores output_uchar"
  "restores output_int16" "restores output_uint16" "restores output_int32"
  "restores output_uint32" "restores output_int64" "restores output_uint64"
  "restores output_float" "restores output_double"
  unfolding output_defs seq_andthen unfolding fmap_run_def [symmetric]
  by (rule restores_fmap restores_word restores_byte | simp)+

lemma restores_string: "restores output_string"
  unfolding restores_def
proof (intro allI impI)
  fix s s' e assume s: "in_stream s" and "output_string s = (s', Inl (SerEx e))"
  from s this(2) [unfolded output_string_def Let_def] show "s' = s"
  proof (cases rule: counted_header_cases)
    case (Body n)
    let ?t = "s\<lparr>readPosition := readPosition s + 1\<rparr>"
    show ?thesis
      using load_payload_only_reads(1) [of "readPosition s" ?t n s' "Inl (SerEx e)"]
        load_payload_only_reads(2) [of "readPosition s" ?t n s' "Inl (SerEx e)" e] Body by auto
  qed
qed

lemma catching_restores:
  assumes "only_reads m" and "in_stream t" and "t = s\<lparr>readPosition := p\<rparr>"
    and "catching (\<lambda>t. t\<lparr>readPosition := readPosition s\<rparr>) m t = (s', Inl e)"
  shows "s' = s"
proof -
  obtain u where "m t = (u, Inl e)" and "s' = u\<lparr>readPosition := readPosition s\<rparr>"
    using assms(4) by (auto elim: catching_cases)
  moreover from this have "u = t\<lparr>readPosition := readPosition u\<rparr>"
    using only_readsD [OF assms(1,2)] by blast
  then have "u\<lparr>readPosition := readPosition s\<rparr> = t\<lparr>readPosition := readPosition s\<rparr>"
    by (rule repositioned)
  ultimately show ?thesis using assms(3) by simp
qed

lemma restores_container:
  assumes "\<And>n. only_reads (body n)"
  shows "restores (output_container ty limit err body)"
  unfolding restores_def
proof (intro allI impI)
  fix s s' e assume s: "in_stream s"
    and "output_container ty limit err body s = (s', Inl (SerEx e))"
  from s this(2) [unfolded output_container_def Let_def] show "s' = s"
  proof (cases rule: counted_header_cases)
    case (Body n)
    then show ?thesis
      using catching_restores [OF assms, where s = s and t = "s\<lparr>readPosition := 5 + readPosition s\<rparr>" and s' = s'
            and p = "5 + readPosition s" and n1 = n]
      by (simp add: run_simps move_to_def in_stream_def)
  qed
qed

lemma restores_tuple:
  assumes "list_all only_reads outs"
  shows "restores (output_tuple outs)"
  unfolding restores_def
proof (intro allI impI)
  fix s s' e assume s: "in_stream s" and o: "output_tuple outs s = (s', Inl (SerEx e))"
  then have "outs \<noteq> []" by (auto simp: output_tuple_def ret_def)
  from s o [unfolded output_tuple_def Let_def if_not_P [OF this]] show "s' = s"
  proof (cases rule: tuple_header_cases)
    case Body
    then show ?thesis
      using catching_restores [OF only_reads_args [OF assms],
          where t = "s\<lparr>readPosition := readPosition s + 3\<rparr>" and s' = s']
      by (simp add: in_stream_def)
  qed
qed

text \<open>The types whose \<open>output\<close> puts the position back: all but raw byte buffers and classes.\<close>

primrec restoring :: "cty \<Rightarrow> bool" where
  "restoring TBool = True" | "restoring TChar = True" | "restoring TUChar = True"
| "restoring TInt16 = True" | "restoring TInt32 = True" | "restoring TInt64 = True"
| "restoring TUInt16 = True" | "restoring TUInt32 = True" | "restoring TUInt64 = True"
| "restoring TFloat = True" | "restoring TDouble = True"
| "restoring TString = True" | "restoring (TBytes n) = False" | "restoring (TUBytes n) = False"
| "restoring (TVector t) = True" | "restoring (TArray n t) = True"
| "restoring (TList t) = True" | "restoring (TSet t) = True"
| "restoring (TMap k t) = True" | "restoring (THashMap k t) = True"
| "restoring (TTuple ts) = True" | "restoring (TClass ts) = False"

lemma output_val_restores: "restoring t \<Longrightarrow> restores (output_val K t)"
  by (cases t)
     (auto simp: list_all_iff container_defs
       intro!: restores_fmap restores_basic restores_string restores_container restores_tuple
         output_val_only_reads)

section \<open>Writing returns, except after a move\<close>

lemma expansion_loop_zero: "expansion_loop cap hasSize len = Some c \<Longrightarrow> cap = 0 \<longrightarrow> len = 0"
  by (erule expansion_loop.raw_induct [rotated]) (auto split: if_splits)

lemma write_moved_from:
  "data \<noteq> [] \<Longrightarrow> snd (ser_write data (snd (ser_move s))) = Inl NoReturn"
  using expansion_loop_zero [of 0 0 "length data"]
  by (cases "expansion_loop 0 0 (length data)")
     (auto simp: ser_write_def ser_move_def expansion_def run_simps split: option.split)

text \<open>A file that was saved is loaded again, however \<open>readsome\<close> cuts it into pieces.\<close>

lemma load_loop_appends: "\<forall>p \<in> set pieces. p \<noteq> [] \<Longrightarrow> appends h (load_loop pieces) (concat pieces)"
  by (induction pieces) (auto intro: appends_ret appends_seq appends_ser_write)

lemma save_load:
  assumes "saveToFile True s = Inr content" and "concat pieces = content" and "\<forall>p \<in> set pieces. p \<noteq> []"
    and "writable h t"
  shows "\<exists>t'. loadFromFile (Some pieces) t = (t', Inr ()) \<and> byteStream t' = byteStream s \<and> readPosition t' = 0"
proof -
  let ?t = "t\<lparr>byteStream := [], readPosition := 0\<rparr>"
  have "writable h ?t" using assms(4) by (simp add: writable_def)
  with load_loop_appends [OF assms(3)]
  obtain c where "load_loop pieces ?t = (appended ?t (concat pieces) c, Inr ())" by (rule appendsD)
  moreover have "content = byteStream s" using assms(1) by (simp add: saveToFile_def split: if_splits)
  ultimately show ?thesis using assms(2) by (simp add: loadFromFile_def)
qed

section \<open>Counts on a big-endian host\<close>

lemma object_rep_small:
  "x < 256 ^ n \<Longrightarrow> n \<le> m \<Longrightarrow> take (m - n) (object_rep BigEndian m x) = replicate (m - n) 0"
proof -
  have z: "drop n (le_nat m x) = replicate (m - n) 0" if "x < 256 ^ n" "n \<le> m" for n m x
    using that
  proof (induction n arbitrary: m x)
    case 0
    then show ?case by (induction m) auto
  next
    case (Suc n)
    then show ?case by (cases m) (auto simp: less_mult_imp_div_less mult.commute)
  qed
  assume a: "x < 256 ^ n" "n \<le> m"
  have "take (m - n) (rev (le_nat m x)) = rev (drop n (le_nat m x))"
    using a(2) by (simp add: take_rev)
  with z [OF a] show ?thesis by (simp add: object_rep_def)
qed

lemma write_count_big_endian:
  assumes "n < 2 ^ 32"
  shows "appends BigEndian (write_count n) (le4 0)"
proof -
  have z: "take 4 (mem_of BigEndian (word_of_nat n :: u64)) = replicate 4 0"
    using object_rep_small [of n 4 8] assms by (simp add: mem_of_def unat_of_nat)
  have "rev (replicate 4 (0 :: byte)) = le4 0"
    by (simp add: le4_def le_nat_zero)
  with appends_converted [of "replicate 4 0" 4 BigEndian]
  have "appends BigEndian (seq (ser_write (replicate 4 0)) (to_little_endian 4)) (le4 0)" by simp
  then show ?thesis
    by (rule appends_cong [rotated]) (simp add: write_count_def writable_def z)
qed

lemma input_vector_big_endian:
  assumes "list_all (\<lambda>v. appends BigEndian (input_val v) (enc v)) vs"
    and "length vs \<le> MUSE_MAX_VECTOR_COUNT"
  shows "appends BigEndian (input_val (VVector vs)) (type_code VECTOR # le4 0 @ concat (map enc vs))"
proof -
  have "appends BigEndian (seq (write_count (length vs)) (input_each id (map input_val vs)))
      (le4 0 @ concat (map enc vs))"
    using assms
    by (intro appends_seq write_count_big_endian appends_input_each list_all_appends)
       (auto simp: limit_defs)
  then show ?thesis using assms(2) by (simp add: input_vector_def limit_defs appends_tag)
qed

section \<open>Reads and writes outside the storage\<close>

lemma load_payload_truncated:
  assumes "unread s (le4 n @ bs)" and "length bs < n" and "d < readPosition s"
  shows "load_payload d n s =
      (if n \<le> readPosition s - d + 4 + length bs
       then (s\<lparr>readPosition := readPosition s + 4\<rparr>, Inl OutOfRange)
       else (s\<lparr>readPosition := d\<rparr>, Inl (SerEx InsufficientRemainingMemory)))"
proof -
  have len: "length (byteStream s) = readPosition s + 4 + length bs"
    using assms(1) unread_size [OF assms(1)] by (simp add: unread_def le4_def)
  then have "size_sub (length (byteStream s)) d = readPosition s - d + 4 + length bs"
    using assms(3) by simp
  with len assms(2) show ?thesis
    by (simp add: load_payload_def Let_def run_defs access_defs)
qed

lemma output_string_header:
  assumes "unread s (type_code STRING # le4 n @ bs)" and "n \<le> MUSE_MAX_STRING_LENGTH"
  shows "output_string s = load_payload (readPosition s) n (advanced s 1)"
proof -
  have u: "unread (advanced s 1) (le4 n @ bs)"
    using assms(1) unread_advance [of s "[type_code STRING]"] by simp
  show ?thesis
    using boundary_unread [OF assms(1)] expect_type_unread [OF assms(1)] assms(2)
      load_length_unread [OF u assms(2), of "readPosition s"]
    by (simp add: output_string_def Let_def run_simps limit_defs)
qed

lemma output_slots_overflow:
  assumes "list_all2 (reads out) bss vs" and "N < length acc + length vs" and "length acc \<le> N"
    and "unread s (concat bss @ rest)"
  shows "snd (output_slots out N (length vs) acc s) = Inl OutOfRange"
  using assms
proof (induction bss vs arbitrary: acc s rule: list_all2_induct)
  case (Cons bs bss v vs)
  show ?case
  proof (cases "length acc < N")
    case True
    have "out s = (advanced s (length bs), Inr v)"
      using readsD [OF Cons.hyps(1), of s "concat bss @ rest"] Cons.prems by simp
    moreover have "unread (advanced s (length bs)) (concat bss @ rest)"
      using unread_advance [of s bs] Cons.prems by simp
    ultimately show ?thesis
      using Cons.IH [of "acc @ [v]" "advanced s (length bs)"] Cons.prems True
      by (simp add: run_simps)
  qed (simp add: throw_def)
qed simp

lemma container_header:
  assumes "unread s (type_code ty # le4 n @ bs)" and "n \<le> limit" and "n \<le> 16777216"
  shows "output_container ty limit err body s =
      catching (\<lambda>t. t\<lparr>readPosition := readPosition s\<rparr>) (body n) (advanced s 5)"
    and "unread (advanced s 5) bs"
proof -
  have u: "unread (advanced s 1) (le4 n @ bs)"
    using assms(1) unread_advance [of s "[type_code ty]"] by simp
  then show "unread (advanced s 5) bs"
    using unread_advance [of s "type_code ty # le4 n" bs] assms(1) by (simp add: le4_def)
  show "output_container ty limit err body s =
      catching (\<lambda>t. t\<lparr>readPosition := readPosition s\<rparr>) (body n) (advanced s 5)"
    using boundary_unread [OF assms(1)] expect_type_unread [OF assms(1)]
      load_length_unread [OF u assms(2,3), of "readPosition s" err]
    by (simp add: output_container_def Let_def run_simps move_to_def add.commute [of 5])
qed

lemma catching_error: "snd (m s) = Inl e \<Longrightarrow> snd (catching h m s) = Inl e"
  by (cases "m s") (simp add: run_simps)

lemma fmap_error: "snd (m s) = Inl e \<Longrightarrow> snd (fmap_run f m s) = Inl e"
  by (cases "m s") (simp add: fmap_run_def run_simps)

section \<open>Properties\<close>

text \<open>
  C5 Round trip of the serializer. Let the host be little-endian, or let the type hold no container
  whose count is taken from a \<open>size_t\<close>; let the keys be compared by any asymmetric order \<open>operator<\<close>
  (that of the standard types, or one that a class defines for itself) and equality; and let the
  stream be writable and read to its end. Then for every value of every serializable type within the
  limits of \<open>util.h\<close>, nested containers, tuples and classes included, its ordered containers in the
  order of their keys, \<open>input\<close> returns and appends exactly the wire encoding, and \<open>output\<close> at the old
  end of the stream returns the same value and leaves the read position at the end.
\<close>

theorem serializer_roundtrip:
  assumes "key_order (key_less K)" and "has_type K t v" and "h = LittleEndian \<or> portable t" and "writable h s"
    and "readPosition s = length (byteStream s)"
  shows "\<exists>s'. input_val v s = (s', Inr ()) \<and> byteStream s' = byteStream s @ enc v \<and>
    output_val K t s' = (s'\<lparr>readPosition := length (byteStream s')\<rparr>, Inr v)"
proof -
  obtain s' r where i: "input_val v s = (s', r)" by fastforce
  from input_output_val [OF assms i] i show ?thesis by auto
qed

abbreviation "sample_type \<equiv> TMap TString (TVector (TTuple [TUInt32, TBool]))"
abbreviation "sample_value \<equiv>
  VMap [(VString [97], VVector [VTuple [VUInt32 7, VBool True]]), (VString [98], VVector [])]"

text \<open>Classes as keys: an \<open>operator<\<close> that compares the members in turn.\<close>

definition member_less :: "sval \<Rightarrow> sval \<Rightarrow> bool" where
  "member_less a b =
     (case a of
        VClass x \<Rightarrow> (case b of VClass y \<Rightarrow> lex_cmp (map std_cmp x) y < 0 | _ \<Rightarrow> std_less a b)
      | _ \<Rightarrow> std_less a b)"

definition member_ops :: key_ops where
  "member_ops = \<lparr>key_less = member_less, key_eq = std_eq\<rparr>"

interpretation member_order: key_order member_less
proof
  fix a b
  have other: "member_less a b = std_less a b" if "\<nexists>x y. a = VClass x \<and> b = VClass y" for a b
    using that by (simp add: member_less_def split: sval.split) blast
  show "member_less a b \<Longrightarrow> \<not> member_less b a"
  proof (cases "\<exists>x y. a = VClass x \<and> b = VClass y")
    case True
    then obtain x y where "a = VClass x" "b = VClass y" by blast
    moreover have "lex_cmp (map std_cmp x) y = - lex_cmp (map std_cmp y) x" by (rule lex_cmp_swap, rule std_cmp_swap)
    ultimately show "member_less a b \<Longrightarrow> \<not> member_less b a" by (simp add: member_less_def)
  next
    case False
    then have "\<nexists>x y. b = VClass x \<and> a = VClass y" by blast
    then show "member_less a b \<Longrightarrow> \<not> member_less b a"
      using other [OF False] other [of b a] std_less_asym [of a b] by simp
  qed
qed

theorem serializer_roundtrip_witness:
  "(\<exists>s'. input_val sample_value (new_serializer LittleEndian) = (s', Inr ()) \<and>
    byteStream s' = enc sample_value \<and>
    output_val std_ops sample_type s' =
      (s'\<lparr>readPosition := length (byteStream s')\<rparr>, Inr sample_value)) \<and>
   (\<exists>s'. input_val (VSet [VClass [VUInt32 1], VClass [VUInt32 2]]) (new_serializer LittleEndian) = (s', Inr ()) \<and>
    output_val member_ops (TSet (TClass [TUInt32])) s' =
      (s'\<lparr>readPosition := length (byteStream s')\<rparr>, Inr (VSet [VClass [VUInt32 1], VClass [VUInt32 2]])))"
proof -
  have t: "has_type std_ops sample_type sample_value"
    "has_type member_ops (TSet (TClass [TUInt32])) (VSet [VClass [VUInt32 1], VClass [VUInt32 2]])"
    by (simp_all add: std_ops_def member_ops_def member_less_def std_less_def limit_defs cmp_int_def)
  have k: "key_order (key_less std_ops)" "key_order (key_less member_ops)"
    by (simp_all add: std_ops_def member_ops_def std.key_order_axioms member_order.key_order_axioms)
  have w: "writable LittleEndian (new_serializer LittleEndian)"
    by (simp add: writable_def new_serializer_def getByteSequence_host limit_defs)
  show ?thesis
    using serializer_roundtrip [OF k(1) t(1) _ w] serializer_roundtrip [OF k(2) t(2) _ w]
    by (auto simp: new_serializer_def)
qed

text \<open>
  Reading is safe for the object. On any stream, well formed or not, and for any type, \<open>output\<close>
  changes nothing but the read position, and leaves it within the stream, whether it returns or
  throws.
\<close>

theorem output_keeps_stream:
  assumes "in_stream s" and "output_val std_ops t s = (s', r)"
  shows "in_stream s' \<and> s' = s\<lparr>readPosition := readPosition s'\<rparr>"
  using only_readsD [OF output_val_only_reads assms] .

theorem output_keeps_stream_witness:
  "in_stream (fst (output_val std_ops (TVector TInt16) (appended (new_serializer LittleEndian) [13, 9] 32)))"
proof -
  let ?s = "appended (new_serializer LittleEndian) [13, 9] 32"
  have "in_stream ?s" by (simp add: in_stream_def new_serializer_def)
  with output_keeps_stream [of ?s "TVector TInt16"] show ?thesis
    by (metis prod.collapse)
qed

text \<open>
  A failed \<open>output\<close> of any type but raw byte buffers and classes leaves the object as it was,
  so that the caller can try another type at the same position.
\<close>

theorem output_failure_restores:
  assumes "restoring t" and "in_stream s" and "output_val std_ops t s = (s', Inl (SerEx e))"
  shows "s' = s"
  using output_val_restores [OF assms(1), of std_ops] assms(2,3) unfolding restores_def by blast

abbreviation "bad_list \<equiv> appended (new_serializer LittleEndian) [14, 1, 0, 0, 0, 0] 32"

theorem output_failure_restores_witness:
  "output_val std_ops (TList TBool) bad_list = (bad_list, Inl (SerEx InsufficientRemainingMemory))"
proof -
  have "snd (output_val std_ops (TList TBool) bad_list) = Inl (SerEx InsufficientRemainingMemory)"
    by (simp add: new_serializer_def output_list_def output_container_def output_bool_def
        output_byte_def MUSE_PREVENT_BOUNDARY_def MUSE_CHECK_LEGITIMACY_def expect_type_def
        load_length_def access_defs run_defs catching_def fmap_run_def Let_def getByteSequence_host
        type_code.simps word_at_def object_val_def limit_defs)
  moreover have "in_stream bad_list" by (simp add: in_stream_def new_serializer_def)
  ultimately show ?thesis
    using output_failure_restores [of "TList TBool" bad_list] by (metis prod.collapse restoring.simps(17))
qed

text \<open>
  A string whose payload is cut short. The remaining space is measured from the type byte: when
  at most 5 bytes are missing, \<open>output(std::string&)\<close> reads past the end of the stream; when more
  are missing it throws \<open>InsufficientRemainingMemory\<close> and leaves the object as it was.
\<close>

theorem output_string_truncated:
  assumes "unread s (type_code STRING # le4 n @ bs)" and "n \<le> MUSE_MAX_STRING_LENGTH"
    and "length bs < n"
  shows "snd (output_string s) =
           Inl (if n \<le> 5 + length bs then OutOfRange else SerEx InsufficientRemainingMemory) \<and>
         (5 + length bs < n \<longrightarrow> fst (output_string s) = s)"
proof -
  have "unread (advanced s 1) (le4 n @ bs)"
    using assms(1) unread_advance [of s "[type_code STRING]"] by simp
  from load_payload_truncated [OF this assms(3), of "readPosition s"]
  show ?thesis by (simp add: output_string_header [OF assms(1,2)])
qed

abbreviation "cut_string n \<equiv> appended (new_serializer LittleEndian) (10 # le4 n @ [65]) 32"

theorem output_string_truncated_witness:
  "snd (output_string (cut_string 6)) = Inl OutOfRange \<and>
   output_string (cut_string 7) = (cut_string 7, Inl (SerEx InsufficientRemainingMemory))"
proof -
  have "unread (cut_string n) (type_code STRING # le4 n @ [65])" for n
    by (simp add: unread_def new_serializer_def type_code.simps)
  with output_string_truncated [of "cut_string 6" 6 "[65]"]
    output_string_truncated [of "cut_string 7" 7 "[65]"]
  show ?thesis by (auto simp: limit_defs prod_eq_iff)
qed

text \<open>
  A \<open>std::array<T,N>\<close> and a stream with more than \<open>N\<close> elements. The count in the stream is
  compared with the limit only, so every well-formed encoding of a longer array is written past
  the end of the caller's array.
\<close>

theorem output_array_overflow:
  assumes "list_all (has_type std_ops t) vs" and "N < length vs" and "length vs \<le> MUSE_MAX_ARRAY_COUNT"
    and "unread s (enc (VArray vs) @ rest)"
  shows "snd (output_val std_ops (TArray N t) s) = Inl OutOfRange"
proof -
  have "list_all (\<lambda>v. reads (output_val std_ops t) (enc v) v) vs"
    using assms(1) output_val_reads [of std_ops t] std.key_order_axioms
    by (auto simp: std_ops_def elim: list.pred_mono_strong)
  then have l: "list_all2 (reads (output_val std_ops t)) (map enc vs) vs" by (rule list_all_reads)
  have n: "length vs \<le> 16777216" using assms(3) by (simp add: limit_defs)
  have u: "unread s (type_code ARRAY # le4 (length vs) @ concat (map enc vs) @ rest)"
    using assms(4) by simp
  note h = container_header [OF u assms(3) n]
  have "snd (output_slots (output_val std_ops t) N (length vs) [] (advanced s 5)) = Inl OutOfRange"
    using output_slots_overflow [OF l _ _ h(2), of N "[]"] assms(2) by simp
  then show ?thesis by (simp add: output_array_def h(1) fmap_error catching_error)
qed

abbreviation "three_bools \<equiv> VArray [VBool True, VBool False, VBool True]"

theorem output_array_overflow_witness:
  "snd (output_val std_ops (TArray 2 TBool)
     (appended (new_serializer LittleEndian) (enc three_bools) 32)) = Inl OutOfRange"
  using output_array_overflow [of TBool "[VBool True, VBool False, VBool True]" 2
      "appended (new_serializer LittleEndian) (enc three_bools) 32" "[]"]
  by (simp add: limit_defs unread_def new_serializer_def)

text \<open>
  Container counts on a big-endian host. The code writes the first 4 bytes of a \<open>size_t\<close>, which
  are 0 there: a \<open>std::vector\<close> of any length is written with the count 0 in front of its elements
  and is read back as the empty vector.
\<close>

theorem vector_count_big_endian:
  assumes "has_type std_ops (TVector t) (VVector vs)" and "portable t"
    and "writable BigEndian s" and "readPosition s = length (byteStream s)"
  shows "\<exists>s'. input_val (VVector vs) s = (s', Inr ()) \<and>
    byteStream s' = byteStream s @ type_code VECTOR # [0, 0, 0, 0] @ concat (map enc vs) \<and>
    output_val std_ops (TVector t) s' =
      (s'\<lparr>readPosition := readPosition s + 5\<rparr>, Inr (VVector []))"
proof -
  have a: "list_all (\<lambda>v. appends BigEndian (input_val v) (enc v)) vs"
    using assms(1,2) input_val_appends [of std_ops t] by (auto elim!: list.pred_mono_strong)
  have n: "length vs \<le> MUSE_MAX_VECTOR_COUNT" using assms(1) by simp
  obtain c where c: "input_val (VVector vs) s =
      (appended s (type_code VECTOR # le4 0 @ concat (map enc vs)) c, Inr ())" (is "_ = (?s', _)")
    using appendsD [OF input_vector_big_endian [OF a n] assms(3)] by metis
  have "reads (output_val std_ops (TVector t)) (enc (VVector [])) (VVector [])"
    by (rule output_val_reads) (simp_all add: std_ops_def std.key_order_axioms)
  moreover have "unread ?s' (enc (VVector []) @ concat (map enc vs))"
    using assms(4) by (simp add: unread_def)
  ultimately have "output_val std_ops (TVector t) ?s' = (advanced ?s' 5, Inr (VVector []))"
    using readsD by (fastforce simp: le4_def)
  moreover have "le4 0 = [0, 0, 0, 0]" by (simp add: le4_def le_nat_unfold)
  ultimately show ?thesis using c by simp
qed

theorem vector_count_big_endian_witness:
  "\<exists>s'. input_val (VVector [VUInt16 7]) (new_serializer BigEndian) = (s', Inr ()) \<and>
    byteStream s' = [13, 0, 0, 0, 0, 4, 7, 0] \<and>
    output_val std_ops (TVector TUInt16) s' = (s'\<lparr>readPosition := 5\<rparr>, Inr (VVector []))"
  using vector_count_big_endian [of TUInt16 "[VUInt16 7]" "new_serializer BigEndian"]
  by (simp add: limit_defs writable_def new_serializer_def getByteSequence_host type_code.simps
      mem_of_def object_rep_def le_nat_unfold)

text \<open>
  Writing to an object moved from never returns: its capacity is 0 and the growth loop doubles it
  for ever. Every other object, whose storage is not empty, grows to a capacity that holds the
  data and appends them.
\<close>

theorem write_returns_unless_moved:
  assumes "data \<noteq> []" and "writable h s"
  shows "snd (ser_write data (snd (ser_move s))) = Inl NoReturn \<and>
    (\<exists>c. ser_write data s = (appended s data c, Inr ()) \<and> length (byteStream s) + length data \<le> c)"
  using write_moved_from [OF assms(1)] appends_ser_write [of h data] assms(2)
  by (auto elim!: appendsD simp: writable_def)

theorem write_returns_unless_moved_witness:
  "snd (ser_write [1] (snd (ser_move (new_serializer LittleEndian)))) = Inl NoReturn \<and>
   (\<exists>c. ser_write [1] (new_serializer LittleEndian) = (appended (new_serializer LittleEndian) [1] c, Inr ()))"
  using write_returns_unless_moved [of "[1]" LittleEndian "new_serializer LittleEndian"]
  by (auto simp: writable_def new_serializer_def getByteSequence_host limit_defs)

end
