(* ===== verification/Deserialize_View.thy ===== *)
theory Deserialize_View
  imports Serializer_Safety
begin

text \<open>
  The class \<open>BinaryDeserializeView\<close> of \<open>src/include/serializer\<close>, which reads a stream in a
  buffer it does not own: a pointer, a size and a read position. Its \<open>output\<close> overloads are a
  second implementation of those of \<open>BinarySerializer\<close>; the main theorem shows that a view of
  exactly the bytes of a serializer behaves as that serializer on every input, so that the
  theorems of \<open>Serializer_Safety\<close> carry over.

  The buffer is a list of bytes, \<open>None\<close> for the null pointer. A read outside the buffer is
  \<open>OutOfRange\<close>; a read behind \<open>byteStreamSize\<close> and still inside the buffer succeeds, as in memory.
\<close>

section \<open>State and basic operations\<close>

record BinaryDeserializeView =
  viewBytes :: "byte list option"
  byteStreamSize :: nat
  viewPosition :: nat
  viewSequence :: ByteSequence

type_synonym 'a view_run = "(BinaryDeserializeView, ser_error, 'a) run"

definition new_view :: "ByteSequence \<Rightarrow> BinaryDeserializeView" where
  "new_view h = \<lparr>viewBytes = None, byteStreamSize = 0, viewPosition = 0, viewSequence = getByteSequence h\<rparr>"

definition make_view :: "ByteSequence \<Rightarrow> byte list \<Rightarrow> nat \<Rightarrow> BinaryDeserializeView" where
  "make_view h buf sz =
     \<lparr>viewBytes = Some buf, byteStreamSize = sz, viewPosition = 0, viewSequence = getByteSequence h\<rparr>"

text \<open>The move constructor and the move assignment: the new object and the object moved from.\<close>

definition view_move :: "BinaryDeserializeView \<Rightarrow> BinaryDeserializeView \<times> BinaryDeserializeView" where
  "view_move other = (other, other\<lparr>viewBytes := None, viewPosition := 0\<rparr>)"

definition view_move_assign ::
  "BinaryDeserializeView \<Rightarrow> BinaryDeserializeView \<Rightarrow> BinaryDeserializeView \<times> BinaryDeserializeView" where
  "view_move_assign this other =
     (this\<lparr>viewBytes := viewBytes other, byteStreamSize := byteStreamSize other,
           viewPosition := viewPosition other\<rparr>,
      other\<lparr>viewBytes := None, byteStreamSize := 0, viewPosition := 0\<rparr>)"

definition view_clear :: "BinaryDeserializeView \<Rightarrow> BinaryDeserializeView" where
  "view_clear s = s\<lparr>viewBytes := None, viewPosition := 0\<rparr>"

definition view_reset :: "BinaryDeserializeView \<Rightarrow> BinaryDeserializeView" where
  "view_reset s = s\<lparr>viewPosition := 0\<rparr>"

definition reset_bytestream :: "byte list \<Rightarrow> nat \<Rightarrow> BinaryDeserializeView \<Rightarrow> BinaryDeserializeView" where
  "reset_bytestream buf sz s =
     s\<lparr>viewBytes := Some buf, byteStreamSize := sz, viewPosition := 0\<rparr>"

definition view_byteCount :: "BinaryDeserializeView \<Rightarrow> nat" where
  "view_byteCount s = byteStreamSize s"

definition view_getReadPosition :: "BinaryDeserializeView \<Rightarrow> nat" where
  "view_getReadPosition s = viewPosition s"

definition view_saveToFile :: "bool \<Rightarrow> BinaryDeserializeView \<Rightarrow> ser_error + byte list" where
  "view_saveToFile opens s =
     (case viewBytes s of
        None \<Rightarrow> Inl (SerEx NoDataToStoreInFile)
      | Some buf \<Rightarrow>
          if byteStreamSize s = 0 then Inl (SerEx NoDataToStoreInFile)
          else if \<not> opens then Inl LogicError
          else if byteStreamSize s \<le> length buf then Inr (take (byteStreamSize s) buf)
          else Inl OutOfRange)"

text \<open>\<open>byteStream[i]\<close>, and \<open>n\<close> bytes from \<open>&byteStream[i]\<close>.\<close>

definition view_byte_at :: "nat \<Rightarrow> byte view_run" where
  "view_byte_at i s =
     (case viewBytes s of
        None \<Rightarrow> (s, Inl OutOfRange)
      | Some buf \<Rightarrow> if i < length buf then (s, Inr (buf ! i)) else (s, Inl OutOfRange))"

definition view_bytes_at :: "nat \<Rightarrow> nat \<Rightarrow> byte list view_run" where
  "view_bytes_at i n s =
     (case viewBytes s of
        None \<Rightarrow> (s, Inl OutOfRange)
      | Some buf \<Rightarrow> if i + n \<le> length buf then (s, Inr (take n (drop i buf)))
                    else (s, Inl OutOfRange))"

definition view_move_to :: "nat \<Rightarrow> unit view_run" where
  "view_move_to p s = (s\<lparr>viewPosition := p\<rparr>, Inr ())"

text \<open>\<open>read(data, len)\<close>: \<open>Inr None\<close> is the return value false.\<close>

definition view_read :: "nat \<Rightarrow> byte list option view_run" where
  "view_read len s =
     (if byteStreamSize s < viewPosition s + len then ret None s
      else andthen (view_bytes_at (viewPosition s) len)
        (\<lambda>bs. seq (view_move_to (viewPosition s + len)) (ret (Some bs))) s)"

definition view_checkDataTypeRightForward :: "BinaryDataType \<Rightarrow> bool view_run" where
  "view_checkDataTypeRightForward dt s =
     (if viewPosition s = byteStreamSize s
      then throw (SerEx InsufficientRemainingMemory) s
      else andthen (view_byte_at (viewPosition s))
        (\<lambda>b. if b = type_code dt then seq (view_move_to (viewPosition s + 1)) (ret True)
             else ret False) s)"

section \<open>The output overloads of basic types (binaryDeserializeView.cpp)\<close>

definition MUSE_VIEW_CHECK_LEGITIMACY :: "BinaryDataType \<Rightarrow> nat \<Rightarrow> unit view_run" where
  "MUSE_VIEW_CHECK_LEGITIMACY type n s =
     (let needLength = 1 + n
      in if size_sub (byteStreamSize s) (viewPosition s) < needLength
         then throw (SerEx InsufficientRemainingMemory) s
         else andthen (view_byte_at (viewPosition s))
           (\<lambda>b. if b \<noteq> type_code type then throw (SerEx DataTypeError) else ret ()) s)"

definition MUSE_VIEW_PREVENT_BOUNDARY :: "unit view_run" where
  "MUSE_VIEW_PREVENT_BOUNDARY s =
     (if viewPosition s = byteStreamSize s
      then throw (SerEx InsufficientRemainingMemory) s else ret () s)"

text \<open>An unsigned integer of the stream: its bytes are loaded and, on a big-endian host, reversed.\<close>

definition view_load_word :: "nat \<Rightarrow> 'a::len word view_run" where
  "view_load_word i s =
     andthen (view_bytes_at i (LENGTH('a) div 8))
       (\<lambda>bs. ret (word_at (viewSequence s)
          (if viewSequence s = BigEndian then rev bs else bs))) s"

text \<open>\<open>value = *((T*)(&byteStream[++readPosition]))\<close>, then \<open>MUSE_VIEW_CONVERT_TO_BIG_ENDIAN(T)\<close>.\<close>

definition view_output_word :: "'a::len word view_run" where
  "view_output_word s =
     andthen (seq (view_move_to (viewPosition s + 1)) (view_load_word (viewPosition s + 1)))
       (\<lambda>value. seq (view_move_to (viewPosition s + 1 + LENGTH('a) div 8)) (ret value)) s"

definition view_output_byte :: "byte view_run" where
  "view_output_byte s =
     andthen (seq (view_move_to (viewPosition s + 1)) (view_byte_at (viewPosition s + 1)))
       (\<lambda>value. seq (view_move_to (viewPosition s + 2)) (ret value)) s"

definition view_output_bool :: "bool view_run" where
  "view_output_bool = seq (MUSE_VIEW_CHECK_LEGITIMACY BOOL 1) (andthen view_output_byte (\<lambda>b. ret (b \<noteq> 0)))"

definition view_output_char :: "byte view_run" where
  "view_output_char = seq (MUSE_VIEW_CHECK_LEGITIMACY CHAR_T 1) view_output_byte"

definition view_output_uchar :: "byte view_run" where
  "view_output_uchar = seq (MUSE_VIEW_CHECK_LEGITIMACY UINT8 1) view_output_byte"

definition view_output_int16 :: "u16 view_run" where
  "view_output_int16 = seq (MUSE_VIEW_CHECK_LEGITIMACY INT16 2) view_output_word"

definition view_output_int32 :: "u32 view_run" where
  "view_output_int32 = seq (MUSE_VIEW_CHECK_LEGITIMACY INT32 4) view_output_word"

definition view_output_int64 :: "u64 view_run" where
  "view_output_int64 = seq (MUSE_VIEW_CHECK_LEGITIMACY INT64 8) view_output_word"

definition view_output_uint16 :: "u16 view_run" where
  "view_output_uint16 = seq (MUSE_VIEW_CHECK_LEGITIMACY UINT16 2) view_output_word"

definition view_output_uint32 :: "u32 view_run" where
  "view_output_uint32 = seq (MUSE_VIEW_CHECK_LEGITIMACY UINT32 4) view_output_word"

definition view_output_uint64 :: "u64 view_run" where
  "view_output_uint64 = seq (MUSE_VIEW_CHECK_LEGITIMACY UINT64 8) view_output_word"

definition view_output_float :: "u32 view_run" where
  "view_output_float = seq (MUSE_VIEW_CHECK_LEGITIMACY FLOAT 4) view_output_word"

definition view_output_double :: "u64 view_run" where
  "view_output_double = seq (MUSE_VIEW_CHECK_LEGITIMACY DOUBLE 8) view_output_word"

text \<open>The type byte is compared and the position moves past it, with no change when it differs.\<close>

definition view_expect_type :: "BinaryDataType \<Rightarrow> unit view_run" where
  "view_expect_type type s =
     andthen (view_byte_at (viewPosition s))
       (\<lambda>b. if b \<noteq> type_code type then throw (SerEx DataTypeError)
            else view_move_to (viewPosition s + 1)) s"

text \<open>
  The length after the type byte: the space check and the limit check, both of which put the
  read position back to \<open>defaultPosition\<close>.
\<close>

definition view_load_length :: "nat \<Rightarrow> nat \<Rightarrow> ErrorNumber \<Rightarrow> nat view_run" where
  "view_load_length defaultPosition limit err s =
     (let leftSize = size_sub (byteStreamSize s) (viewPosition s)
      in if leftSize < 4
         then seq (view_move_to defaultPosition) (throw (SerEx InsufficientRemainingMemory)) s
         else andthen (view_load_word (viewPosition s) :: u32 view_run)
           (\<lambda>n. if limit < unat n then seq (view_move_to defaultPosition) (throw (SerEx err))
                else ret (unat n)) s)"

text \<open>
  The payload: the remaining space is measured from \<open>defaultPosition\<close>, the position of the type
  byte, and not from the payload.
\<close>

definition view_load_payload :: "nat \<Rightarrow> nat \<Rightarrow> byte list view_run" where
  "view_load_payload defaultPosition stringLength s =
     (let pos = viewPosition s + 4;
          leftSize = size_sub (byteStreamSize s) defaultPosition
      in if leftSize < stringLength
         then seq (view_move_to defaultPosition) (throw (SerEx InsufficientRemainingMemory)) s
         else seq (view_move_to pos)
           (andthen (view_bytes_at pos stringLength)
             (\<lambda>bs. seq (view_move_to (pos + stringLength)) (ret bs))) s)"

definition view_output_string :: "byte list view_run" where
  "view_output_string s =
     (let defaultPosition = viewPosition s
      in seq MUSE_VIEW_PREVENT_BOUNDARY
          (seq (view_expect_type STRING)
            (andthen (view_load_length defaultPosition MUSE_MAX_STRING_LENGTH IllegalStringLength)
              (\<lambda>stringLength. view_load_payload defaultPosition stringLength))) s)"

text \<open>When the stored count is not \<open>len\<close> the position is not put back.\<close>

definition view_output_bytes :: "nat \<Rightarrow> byte list view_run" where
  "view_output_bytes len s =
     (let defaultPosition = viewPosition s
      in seq MUSE_VIEW_PREVENT_BOUNDARY
          (seq (view_expect_type BYTES)
            (andthen (view_load_length defaultPosition MUSE_MAX_BYTE_COUNT IllegalBytesCount)
              (\<lambda>stringLength.
                 if stringLength \<noteq> len then throw (SerEx ReadIllegalBytesCount)
                 else view_load_payload defaultPosition stringLength))) s)"

definition view_output_ubytes :: "nat \<Rightarrow> byte list view_run" where
  "view_output_ubytes len s =
     (let defaultPosition = viewPosition s
      in seq MUSE_VIEW_PREVENT_BOUNDARY
          (seq (view_expect_type UBYTES)
            (andthen (view_load_length defaultPosition MUSE_MAX_BYTE_COUNT IllegalBytesCount)
              (\<lambda>stringLength.
                 if stringLength \<noteq> len then throw (SerEx ReadIllegalBytesCount)
                 else view_load_payload defaultPosition stringLength))) s)"

section \<open>The output overloads of containers (binaryDeserializeView.hpp)\<close>

text \<open>
  The loop over the elements: \<open>add\<close> is \<open>emplace_back\<close>, \<open>emplace\<close> or \<open>value[k] = v\<close> and the
  container is built from \<open>value.clear()\<close>. The whole loop stands in a \<open>try\<close> whose handlers put
  the position back and throw again.
\<close>

primrec view_output_loop :: "('v \<Rightarrow> 'c \<Rightarrow> 'c) \<Rightarrow> 'v view_run \<Rightarrow> nat \<Rightarrow> 'c \<Rightarrow> 'c view_run" where
  "view_output_loop add out 0 value = ret value"
| "view_output_loop add out (Suc i) value = andthen out (\<lambda>v. view_output_loop add out i (add v value))"

definition view_output_container ::
  "BinaryDataType \<Rightarrow> nat \<Rightarrow> ErrorNumber \<Rightarrow> (nat \<Rightarrow> 'c view_run) \<Rightarrow> 'c view_run" where
  "view_output_container type limit err body s =
     (let defaultPosition = viewPosition s
      in seq MUSE_VIEW_PREVENT_BOUNDARY
          (seq (view_expect_type type)
            (andthen (view_load_length defaultPosition limit err)
              (\<lambda>n s'. seq (view_move_to (viewPosition s' + 4))
                 (catching (\<lambda>t. t\<lparr>viewPosition := defaultPosition\<rparr>) (body n)) s'))) s)"

definition view_output_vector :: "'v view_run \<Rightarrow> 'v list view_run" where
  "view_output_vector out =
     view_output_container VECTOR MUSE_MAX_VECTOR_COUNT IllegalVectorCount
       (\<lambda>vectorSize. view_output_loop emplace_back out vectorSize [])"

definition view_output_list :: "'v view_run \<Rightarrow> 'v list view_run" where
  "view_output_list out =
     view_output_container LIST MUSE_MAX_LIST_COUNT IllegalListCount
       (\<lambda>listSize. view_output_loop emplace_back out listSize [])"

text \<open>
  \<open>output(value[i])\<close> for \<open>i\<close> below the count in the stream, into an array of \<open>N\<close> elements; the
  count is not compared with \<open>N\<close>. The result holds the elements written; the others of the
  \<open>N\<close> keep what the caller's array held.
\<close>

primrec view_output_slots :: "'v view_run \<Rightarrow> nat \<Rightarrow> nat \<Rightarrow> 'v list \<Rightarrow> 'v list view_run" where
  "view_output_slots out N 0 value = ret value"
| "view_output_slots out N (Suc k) value =
     (if length value < N then andthen out (\<lambda>v. view_output_slots out N k (value @ [v]))
      else throw OutOfRange)"

definition view_output_array :: "nat \<Rightarrow> 'v view_run \<Rightarrow> 'v list view_run" where
  "view_output_array N out =
     view_output_container ARRAY MUSE_MAX_ARRAY_COUNT IllegalVectorCount
       (\<lambda>arraySize. view_output_slots out N arraySize [])"

definition view_output_set :: "('v \<Rightarrow> 'v \<Rightarrow> bool) \<Rightarrow> 'v view_run \<Rightarrow> 'v list view_run" where
  "view_output_set lt out =
     view_output_container SET MUSE_MAX_SET_COUNT IllegalSetCount
       (\<lambda>setSize. view_output_loop (set_emplace lt) out setSize [])"

definition view_output_pair :: "'k view_run \<Rightarrow> 'v view_run \<Rightarrow> ('k \<times> 'v) view_run" where
  "view_output_pair outk outv = andthen outk (\<lambda>k. andthen outv (\<lambda>v. ret (k, v)))"

definition view_output_map ::
  "('k \<Rightarrow> 'k \<Rightarrow> bool) \<Rightarrow> 'k view_run \<Rightarrow> 'v view_run \<Rightarrow> ('k \<times> 'v) list view_run" where
  "view_output_map lt outk outv =
     view_output_container MAP MUSE_MAX_MAP_COUNT IllegalMapKVCount
       (\<lambda>mapKVSize. view_output_loop (map_assign lt) (view_output_pair outk outv) mapKVSize [])"

definition view_output_hashmap ::
  "('k \<Rightarrow> 'k \<Rightarrow> bool) \<Rightarrow> 'k view_run \<Rightarrow> 'v view_run \<Rightarrow> ('k \<times> 'v) list view_run" where
  "view_output_hashmap eq outk outv =
     view_output_container HASHMAP MUSE_MAX_MAP_COUNT IllegalHashMapKVCount
       (\<lambda>mapKVSize. view_output_loop (hashmap_assign eq) (view_output_pair outk outv) mapKVSize [])"

primrec view_outputArgs :: "'v view_run list \<Rightarrow> 'v list view_run" where
  "view_outputArgs [] = ret []"
| "view_outputArgs (out # outs) = andthen out (\<lambda>v. andthen (view_outputArgs outs) (\<lambda>vs. ret (v # vs)))"

text \<open>The tuple's count is a \<open>uint16_t\<close>, checked against the limit and against the arity.\<close>

definition view_load_tuple_size :: "nat \<Rightarrow> nat \<Rightarrow> unit view_run" where
  "view_load_tuple_size defaultPosition N s =
     (let leftSize = size_sub (byteStreamSize s) (viewPosition s)
      in if leftSize < 2
         then seq (view_move_to defaultPosition) (throw (SerEx InsufficientRemainingMemory)) s
         else andthen (view_load_word (viewPosition s) :: u16 view_run)
           (\<lambda>tupleSize.
              if MUSE_MAX_TUPLE_COUNT < unat tupleSize
              then seq (view_move_to defaultPosition) (throw (SerEx IllegalTupleCount))
              else if unat tupleSize \<noteq> N
              then seq (view_move_to defaultPosition) (throw (SerEx IllegalParameterTupleCount))
              else view_move_to (viewPosition s + 2)) s)"

definition view_output_tuple :: "'v view_run list \<Rightarrow> 'v list view_run" where
  "view_output_tuple outs s =
     (if outs = [] then ret [] s
      else let defaultPosition = viewPosition s
        in seq MUSE_VIEW_PREVENT_BOUNDARY
            (seq (view_expect_type TUPLE)
              (seq (view_load_tuple_size defaultPosition (length outs))
                (catching (\<lambda>t. t\<lparr>viewPosition := defaultPosition\<rparr>) (view_outputArgs outs)))) s)"

text \<open>\<open>deserialize(BinaryDeserializeView&)\<close> as the macro \<open>MUSE_IBinarySerializable(members)\<close> defines it.\<close>

definition view_deserialize_members :: "'v view_run list \<Rightarrow> 'v list view_run" where
  "view_deserialize_members outs =
     seq MUSE_VIEW_PREVENT_BOUNDARY
       (andthen (view_checkDataTypeRightForward MUSECLASS)
         (\<lambda>result. if \<not> result then throw (SerEx DataTypeError) else view_outputArgs outs))"


section \<open>Overload resolution\<close>

primrec view_output_val :: "key_ops \<Rightarrow> cty \<Rightarrow> sval view_run" where
  "view_output_val K TBool = fmap_run VBool view_output_bool"
| "view_output_val K TChar = fmap_run VChar view_output_char"
| "view_output_val K TUChar = fmap_run VUChar view_output_uchar"
| "view_output_val K TInt16 = fmap_run VInt16 view_output_int16"
| "view_output_val K TInt32 = fmap_run VInt32 view_output_int32"
| "view_output_val K TInt64 = fmap_run VInt64 view_output_int64"
| "view_output_val K TUInt16 = fmap_run VUInt16 view_output_uint16"
| "view_output_val K TUInt32 = fmap_run VUInt32 view_output_uint32"
| "view_output_val K TUInt64 = fmap_run VUInt64 view_output_uint64"
| "view_output_val K TFloat = fmap_run VFloat view_output_float"
| "view_output_val K TDouble = fmap_run VDouble view_output_double"
| "view_output_val K TString = fmap_run VString view_output_string"
| "view_output_val K (TBytes n) = fmap_run VBytes (view_output_bytes n)"
| "view_output_val K (TUBytes n) = fmap_run VUBytes (view_output_ubytes n)"
| "view_output_val K (TVector t) = fmap_run VVector (view_output_vector (view_output_val K t))"
| "view_output_val K (TArray n t) = fmap_run (pad_array n) (view_output_array n (view_output_val K t))"
| "view_output_val K (TList t) = fmap_run VList (view_output_list (view_output_val K t))"
| "view_output_val K (TSet t) = fmap_run VSet (view_output_set (key_less K) (view_output_val K t))"
| "view_output_val K (TMap k t) = fmap_run VMap (view_output_map (key_less K) (view_output_val K k) (view_output_val K t))"
| "view_output_val K (THashMap k t) =
     fmap_run VHashMap (view_output_hashmap (key_eq K) (view_output_val K k) (view_output_val K t))"
| "view_output_val K (TTuple ts) = fmap_run VTuple (view_output_tuple (map (view_output_val K) ts))"
| "view_output_val K (TClass ts) = fmap_run VClass (view_deserialize_members (map (view_output_val K) ts))"

section \<open>A view of a serializer's bytes behaves as the serializer\<close>

definition view_of :: "BinarySerializer \<Rightarrow> BinaryDeserializeView" where
  "view_of s =
     \<lparr>viewBytes = Some (byteStream s), byteStreamSize = length (byteStream s),
      viewPosition = readPosition s, viewSequence = byteSequence s\<rparr>"

definition mirrors :: "'a view_run \<Rightarrow> 'a ser_run \<Rightarrow> bool" where
  "mirrors vm m \<longleftrightarrow> (\<forall>s. vm (view_of s) = map_prod view_of id (m s))"

lemma view_of_simps [simp]:
  "viewBytes (view_of s) = Some (byteStream s)" "byteStreamSize (view_of s) = length (byteStream s)"
  "viewPosition (view_of s) = readPosition s" "viewSequence (view_of s) = byteSequence s"
  "(view_of s)\<lparr>viewPosition := p\<rparr> = view_of (s\<lparr>readPosition := p\<rparr>)"
  by (simp_all add: view_of_def)

lemma mirrorsD: "mirrors vm m \<Longrightarrow> vm (view_of s) = map_prod view_of id (m s)"
  by (simp add: mirrors_def)

lemma mirrors_ret: "mirrors (ret a) (ret a)"
  by (simp add: mirrors_def ret_def)

lemma mirrors_throw: "mirrors (throw e) (throw e)"
  by (simp add: mirrors_def throw_def)

lemma andthen_mirror:
  assumes "vm (view_of s) = map_prod view_of id (m s)" and "\<And>a. mirrors (vf a) (f a)"
  shows "andthen vm vf (view_of s) = map_prod view_of id (andthen m f s)"
  using assms by (cases "m s"; cases "snd (m s)") (auto simp: andthen_def mirrors_def)

lemma mirrors_andthen:
  "mirrors vm m \<Longrightarrow> (\<And>a. mirrors (vf a) (f a)) \<Longrightarrow> mirrors (andthen vm vf) (andthen m f)"
  by (simp add: mirrors_def andthen_mirror)

lemma mirrors_seq: "mirrors vm m \<Longrightarrow> mirrors vn n \<Longrightarrow> mirrors (seq vm vn) (seq m n)"
  unfolding seq_def by (rule mirrors_andthen)

lemma mirrors_if: "mirrors vm m \<Longrightarrow> mirrors vn n \<Longrightarrow> mirrors (if b then vm else vn) (if b then m else n)"
  by simp

lemma mirrors_catching:
  "mirrors vm m \<Longrightarrow> mirrors (catching (\<lambda>t. t\<lparr>viewPosition := d\<rparr>) vm) (catching (\<lambda>t. t\<lparr>readPosition := d\<rparr>) m)"
  unfolding mirrors_def
proof (intro allI)
  fix s assume "\<forall>s. vm (view_of s) = map_prod view_of id (m s)"
  then show "catching (\<lambda>t. t\<lparr>viewPosition := d\<rparr>) vm (view_of s) =
      map_prod view_of id (catching (\<lambda>t. t\<lparr>readPosition := d\<rparr>) m s)"
    by (cases "m s"; cases "snd (m s)") (auto simp: catching_def)
qed

lemma mirror_if:
  "vm (view_of s) = map_prod view_of id (m s) \<Longrightarrow> vn (view_of s) = map_prod view_of id (n s) \<Longrightarrow>
   (if b then vm (view_of s) else vn (view_of s)) = map_prod view_of id (if b then m s else n s)"
  by simp

lemma mirrors_byte_at: "mirrors (view_byte_at i) (byte_at i)"
  by (simp add: mirrors_def view_byte_at_def byte_at_def)

lemma mirrors_bytes_at: "mirrors (view_bytes_at i n) (bytes_at i n)"
  by (simp add: mirrors_def view_bytes_at_def bytes_at_def)

lemma mirrors_move_to: "mirrors (view_move_to p) (move_to p)"
  by (simp add: mirrors_def view_move_to_def move_to_def)

lemmas mirrors_basic = mirrors_ret mirrors_throw mirrors_andthen mirrors_seq mirrors_if
  mirrors_byte_at mirrors_bytes_at mirrors_move_to

lemma mirrors_load_word: "mirrors (view_load_word i) (load_word i)"
  unfolding mirrors_def view_load_word_def load_word_def view_of_simps
  by (intro allI mirrorsD mirrors_basic)

lemma mirrors_boundary: "mirrors MUSE_VIEW_PREVENT_BOUNDARY MUSE_PREVENT_BOUNDARY"
  by (auto simp: mirrors_def MUSE_VIEW_PREVENT_BOUNDARY_def MUSE_PREVENT_BOUNDARY_def run_simps)

lemma mirrors_check: "mirrors (MUSE_VIEW_CHECK_LEGITIMACY ty n) (MUSE_CHECK_LEGITIMACY ty n)"
  unfolding mirrors_def MUSE_VIEW_CHECK_LEGITIMACY_def MUSE_CHECK_LEGITIMACY_def Let_def view_of_simps
  by (intro allI mirror_if mirrorsD mirrors_basic)

lemma mirrors_forward: "mirrors (view_checkDataTypeRightForward ty) (checkDataTypeRightForward ty)"
  unfolding mirrors_def view_checkDataTypeRightForward_def checkDataTypeRightForward_def view_of_simps
  by (intro allI mirror_if mirrorsD mirrors_basic)

lemma mirrors_word: "mirrors view_output_word output_word"
  unfolding mirrors_def view_output_word_def output_word_def view_of_simps
  by (intro allI mirrorsD mirrors_basic mirrors_load_word)

lemma mirrors_byte: "mirrors view_output_byte output_byte"
  unfolding mirrors_def view_output_byte_def output_byte_def view_of_simps
  by (intro allI mirrorsD mirrors_basic)

lemma mirrors_expect_type: "mirrors (view_expect_type ty) (expect_type ty)"
  unfolding mirrors_def view_expect_type_def expect_type_def view_of_simps
  by (intro allI mirrorsD mirrors_basic)

lemma mirrors_load_length: "mirrors (view_load_length d limit err) (load_length d limit err)"
  unfolding mirrors_def view_load_length_def load_length_def Let_def view_of_simps
  by (intro allI mirror_if mirrorsD mirrors_basic mirrors_load_word)

lemma mirrors_load_payload: "mirrors (view_load_payload d n) (load_payload d n)"
  unfolding mirrors_def view_load_payload_def load_payload_def Let_def view_of_simps
  by (intro allI mirror_if mirrorsD mirrors_basic)

lemma mirrors_load_tuple_size: "mirrors (view_load_tuple_size d n) (load_tuple_size d n)"
  unfolding mirrors_def view_load_tuple_size_def load_tuple_size_def Let_def view_of_simps
  by (intro allI mirror_if mirrorsD mirrors_basic mirrors_load_word)

lemmas mirrors_parts = mirrors_basic mirrors_boundary mirrors_check mirrors_forward mirrors_word
  mirrors_byte mirrors_expect_type mirrors_load_length mirrors_load_payload mirrors_load_tuple_size

lemma mirrors_payloads:
  "mirrors view_output_string output_string"
  "mirrors (view_output_bytes n) (output_bytes n)"
  "mirrors (view_output_ubytes n) (output_ubytes n)"
  unfolding mirrors_def view_output_string_def output_string_def view_output_bytes_def
    output_bytes_def view_output_ubytes_def output_ubytes_def Let_def view_of_simps
  by (intro allI mirrorsD mirrors_parts)+

lemma mirrors_moved:
  assumes "mirrors vm m"
  shows "mirrors (\<lambda>t. seq (view_move_to (viewPosition t + n)) vm t) (\<lambda>t. seq (move_to (readPosition t + n)) m t)"
  unfolding mirrors_def view_of_simps by (intro allI mirrorsD mirrors_parts assms)

lemma mirrors_container:
  assumes "\<And>n. mirrors (vb n) (b n)"
  shows "mirrors (view_output_container ty limit err vb) (output_container ty limit err b)"
  unfolding mirrors_def view_output_container_def output_container_def Let_def view_of_simps
  by (intro allI mirrorsD mirrors_parts mirrors_moved mirrors_catching assms)

lemma mirrors_loop: "mirrors vm m \<Longrightarrow> mirrors (view_output_loop add vm n c) (output_loop add m n c)"
  by (induction n arbitrary: c) (simp_all add: mirrors_parts)

lemma mirrors_slots: "mirrors vm m \<Longrightarrow> mirrors (view_output_slots vm N n c) (output_slots m N n c)"
  by (induction n arbitrary: c) (simp_all add: mirrors_parts)

lemma mirrors_pair: "mirrors vm m \<Longrightarrow> mirrors vn n \<Longrightarrow> mirrors (view_output_pair vm vn) (output_pair m n)"
  unfolding view_output_pair_def output_pair_def by (intro mirrors_parts)

lemma mirrors_args: "list_all2 mirrors vms ms \<Longrightarrow> mirrors (view_outputArgs vms) (outputArgs ms)"
  by (induction rule: list_all2_induct) (simp_all add: mirrors_parts)

lemma mirrors_tuple:
  assumes "list_all2 mirrors vms ms"
  shows "mirrors (view_output_tuple vms) (output_tuple ms)"
proof -
  have e: "length vms = length ms" "vms = [] \<longleftrightarrow> ms = []" using assms by (auto dest: list_all2_lengthD)
  show ?thesis
    unfolding mirrors_def view_output_tuple_def output_tuple_def Let_def view_of_simps e
    by (intro allI mirror_if mirrorsD mirrors_parts mirrors_catching mirrors_args assms)
qed

lemma mirrors_members:
  "list_all2 mirrors vms ms \<Longrightarrow> mirrors (view_deserialize_members vms) (deserialize_members ms)"
  unfolding view_deserialize_members_def deserialize_members_def
  by (intro mirrors_parts mirrors_args)

lemma mirrors_fmap: "mirrors vm m \<Longrightarrow> mirrors (fmap_run f vm) (fmap_run f m)"
  unfolding fmap_run_def by (intro mirrors_parts)

lemmas view_output_defs = view_output_bool_def view_output_char_def view_output_uchar_def
  view_output_int16_def view_output_int32_def view_output_int64_def view_output_uint16_def
  view_output_uint32_def view_output_uint64_def view_output_float_def view_output_double_def

lemmas view_container_defs = view_output_vector_def view_output_list_def view_output_array_def
  view_output_set_def view_output_map_def view_output_hashmap_def

lemma mirrors_output_val: "mirrors (view_output_val K t) (output_val K t)"
  by (induction t)
     (auto simp: output_defs view_output_defs container_defs view_container_defs
        list_all2_conv_all_nth
        intro!: mirrors_fmap mirrors_parts mirrors_payloads mirrors_container mirrors_loop
          mirrors_slots mirrors_pair mirrors_tuple mirrors_members)

section \<open>Readers of encoded values\<close>

text \<open>
  The interface a client of either class relies on: in front of the encoding of a value of the
  requested type, \<open>output\<close> returns the value and leaves the rest. Several values are then read
  back in the order they were written.
\<close>

primrec run_all :: "('s, 'e, 'a) run list \<Rightarrow> ('s, 'e, 'a list) run" where
  "run_all [] = ret []"
| "run_all (m # ms) = andthen m (\<lambda>v. andthen (run_all ms) (\<lambda>vs. ret (v # vs)))"

locale value_reader =
  fixes out :: "cty \<Rightarrow> ('s, ser_error, sval) run"
    and remaining :: "'s \<Rightarrow> byte list option"
  assumes out_value: "has_type std_ops t v \<Longrightarrow> remaining s = Some (enc v @ rest) \<Longrightarrow>
      \<exists>s'. out t s = (s', Inr v) \<and> remaining s' = Some rest"
begin

lemma read_values:
  "list_all2 (has_type std_ops) ts vs \<Longrightarrow> remaining s = Some (concat (map enc vs) @ rest) \<Longrightarrow>
   \<exists>s'. run_all (map out ts) s = (s', Inr vs) \<and> remaining s' = Some rest"
proof (induction ts vs arbitrary: s rule: list_all2_induct)
  case (Cons t ts v vs)
  then obtain s1 where s1: "out t s = (s1, Inr v)" "remaining s1 = Some (concat (map enc vs) @ rest)"
    using out_value [of t v s] by auto
  with Cons.IH obtain s' where "run_all (map out ts) s1 = (s', Inr vs)" "remaining s' = Some rest"
    by blast
  with s1 show ?case by (auto simp: run_simps)
qed (simp add: ret_def)

lemma read_values_fail:
  "out t s = (s', Inl e) \<Longrightarrow> run_all (map out (t # ts)) s = (s', Inl e)"
  by (simp add: run_simps)

end

definition ser_remaining :: "BinarySerializer \<Rightarrow> byte list option" where
  "ser_remaining s = (if in_stream s then Some (drop (readPosition s) (byteStream s)) else None)"

definition view_remaining :: "BinaryDeserializeView \<Rightarrow> byte list option" where
  "view_remaining v =
     (case viewBytes v of
        None \<Rightarrow> None
      | Some buf \<Rightarrow> if byteStreamSize v = length buf \<and> viewPosition v \<le> length buf
                    then Some (drop (viewPosition v) buf) else None)"

lemma ser_remaining_unread: "ser_remaining s = Some bs \<longleftrightarrow> unread s bs"
  by (auto simp: ser_remaining_def unread_def in_stream_def)

lemma view_remaining_of: "view_remaining (view_of s) = ser_remaining s"
  by (simp add: view_remaining_def ser_remaining_def in_stream_def)

lemma view_is_of:
  assumes "view_remaining v = Some bs"
  obtains s where "v = view_of s"
proof -
  from assms obtain buf where "viewBytes v = Some buf" "byteStreamSize v = length buf"
    by (auto simp: view_remaining_def split: option.splits if_splits)
  then have "v = view_of \<lparr>byteStream = buf, capacity = 0, readPosition = viewPosition v,
      byteSequence = viewSequence v\<rparr>"
    by (simp add: view_of_def)
  with that show thesis .
qed

interpretation ser_reader: value_reader "output_val std_ops" ser_remaining
proof
  fix t v s rest assume "has_type std_ops t v" and r: "ser_remaining s = Some (enc v @ rest)"
  moreover have "key_order (key_less std_ops)" by (simp add: std_ops_def std.key_order_axioms)
  ultimately have "output_val std_ops t s = (advanced s (length (enc v)), Inr v)"
    using output_val_reads readsD by (metis ser_remaining_unread)
  with r show "\<exists>s'. output_val std_ops t s = (s', Inr v) \<and> ser_remaining s' = Some rest"
    by (auto simp: ser_remaining_unread intro: unread_advance)
qed

interpretation view_reader: value_reader "view_output_val std_ops" view_remaining
proof
  fix t v s rest assume t: "has_type std_ops t v" and r: "view_remaining s = Some (enc v @ rest)"
  from r obtain s0 where s: "s = view_of s0" by (rule view_is_of)
  obtain s1 where "output_val std_ops t s0 = (s1, Inr v)" "ser_remaining s1 = Some rest"
    using ser_reader.out_value [OF t, of s0 rest] r s by (auto simp: view_remaining_of)
  with mirrorsD [OF mirrors_output_val, of std_ops t s0]
  show "\<exists>s'. view_output_val std_ops t s = (s', Inr v) \<and> view_remaining s' = Some rest"
    unfolding s by (auto simp: view_remaining_of)
qed

lemma view_outputArgs_run_all: "view_outputArgs = run_all"
proof
  show "view_outputArgs outs = run_all outs" for outs :: "'a view_run list"
    by (induction outs) simp_all
qed

section \<open>Properties\<close>

text \<open>
  C13 The view and the serializer agree. For every type and every stream, a view of exactly the bytes
  of a serializer returns the same value or throws the same error and moves to the same position
  as \<open>BinarySerializer::output\<close>.
\<close>

theorem view_output_equals_serializer:
  "view_output_val K t (view_of s) = map_prod view_of id (output_val K t s)"
  by (rule mirrorsD [OF mirrors_output_val])

text \<open>
  Arguments across hosts. A sender of byte order \<open>h\<close> writes several values with \<open>inputArgs\<close>; a
  receiver of any byte order \<open>h'\<close> that looks at exactly these bytes reads back the same values
  with \<open>outputArgs\<close>. The sender is little-endian, or no type holds a container counted by a
  \<open>size_t\<close>.
\<close>

theorem arguments_across_hosts:
  assumes "list_all2 (has_type std_ops) ts vs" and "h = LittleEndian \<or> list_all portable ts"
    and "inputArgs (map input_val vs) (new_serializer h) = (s, r)"
  shows "r = Inr () \<and>
    snd (view_outputArgs (map (view_output_val std_ops) ts)
          (make_view h' (getBinaryStream s) (byteCount s))) = Inr vs"
proof -
  have "list_all2 (appends h) (map input_val vs) (map enc vs)"
    using assms(1,2) input_val_appends [of std_ops _ _ h]
    by (auto simp: list_all2_conv_all_nth list_all_length)
  then have "appends h (inputArgs (map input_val vs)) (concat (map enc vs))"
    by (rule appends_inputArgs)
  moreover have "writable h (new_serializer h)"
    by (simp add: writable_def new_serializer_def getByteSequence_host limit_defs)
  ultimately have "r = Inr ()" "byteStream s = concat (map enc vs)"
    using assms(3) by (auto elim!: appendsD simp: new_serializer_def)
  moreover from this have "view_remaining (make_view h' (getBinaryStream s) (byteCount s)) =
      Some (concat (map enc vs) @ [])"
    by (simp add: view_remaining_def make_view_def getBinaryStream_def byteCount_def)
  ultimately show ?thesis
    using view_reader.read_values [OF assms(1)] by (fastforce simp: view_outputArgs_run_all)
qed

theorem arguments_across_hosts_witness:
  "snd (view_outputArgs (map (view_output_val std_ops) [TString, TUInt32])
     (make_view BigEndian
       (getBinaryStream (fst (inputArgs (map input_val [VString [104, 105], VUInt32 9]) (new_serializer LittleEndian))))
       (byteCount (fst (inputArgs (map input_val [VString [104, 105], VUInt32 9]) (new_serializer LittleEndian))))))
   = Inr [VString [104, 105], VUInt32 9]"
  using arguments_across_hosts [of "[TString, TUInt32]" "[VString [104, 105], VUInt32 9]" LittleEndian
      "fst (inputArgs (map input_val [VString [104, 105], VUInt32 9]) (new_serializer LittleEndian))"
      "snd (inputArgs (map input_val [VString [104, 105], VUInt32 9]) (new_serializer LittleEndian))" BigEndian]
  by (simp add: limit_defs)

text \<open>
  A view of the front part of a larger buffer does not keep to its size. When a string's payload
  is cut short by at most 5 bytes by \<open>byteStreamSize\<close> and the buffer goes on, \<open>output\<close> returns a
  string that ends in bytes outside the view and leaves the position past its end.
\<close>

theorem view_string_reads_past_size:
  assumes "length bs < n" and "n \<le> 5 + length bs" and "n \<le> length bs + length rest"
    and "n \<le> MUSE_MAX_STRING_LENGTH"
  shows "\<exists>v'. view_output_string (make_view h (type_code STRING # le4 n @ bs @ rest) (5 + length bs)) =
      (v', Inr (bs @ take (n - length bs) rest)) \<and> byteStreamSize v' < viewPosition v'"
proof -
  let ?v = "make_view h (type_code STRING # le4 n @ bs @ rest) (5 + length bs)"
  have len: "length (le4 n) = 4" by (simp add: le4_def)
  have w: "word_at h (if h = BigEndian then rev (le4 n) else le4 n) = (word_of_nat n :: u32)"
    using word_at_mem_of [of LittleEndian "word_of_nat n :: u32"] assms(4)
    by (cases h) (simp_all add: le4_word limit_defs word_at_rev)
  have "view_load_length 0 MUSE_MAX_STRING_LENGTH IllegalStringLength (?v\<lparr>viewPosition := 1\<rparr>) =
      (?v\<lparr>viewPosition := 1\<rparr>, Inr n)"
    using assms(4) w
    by (simp add: view_load_length_def view_load_word_def view_bytes_at_def make_view_def Let_def len
        run_simps getByteSequence_host unat_count limit_defs)
  moreover have "view_load_payload 0 n (?v\<lparr>viewPosition := 1\<rparr>) =
      (?v\<lparr>viewPosition := 5 + n\<rparr>, Inr (take n (bs @ rest)))"
    using assms(1-3)
    by (simp add: view_load_payload_def view_bytes_at_def view_move_to_def make_view_def Let_def len
        run_simps)
  ultimately have "view_output_string ?v = (?v\<lparr>viewPosition := 5 + n\<rparr>, Inr (take n (bs @ rest)))"
    by (simp add: view_output_string_def MUSE_VIEW_PREVENT_BOUNDARY_def view_expect_type_def
        view_byte_at_def view_move_to_def Let_def run_simps make_view_def)
  then show ?thesis using assms(1) by (simp add: make_view_def)
qed

theorem view_string_reads_past_size_witness:
  "\<exists>v'. view_output_string (make_view LittleEndian (type_code STRING # le4 2 @ [104] @ [33, 44]) 6) =
      (v', Inr [104, 33]) \<and> byteStreamSize v' < viewPosition v'"
  using view_string_reads_past_size [of "[104]" 2 "[33, 44]" LittleEndian] by (simp add: limit_defs)

end
