(* ===== verification/Protocol.thy ===== *)
theory Protocol
  imports Serializer "HOL-Library.Monad_Syntax"
begin

text \<open>
  The packet header of the RPC protocol (\<open>src/include/rpc/protocol\<close>): the 26 bytes in network
  order in front of every datagram, their initialisation, the two parsers and the accessors that
  overwrite one field in place. A buffer is the list of bytes at the pointer; an access outside it
  is undefined behaviour and the result \<open>None\<close>.
\<close>

section \<open>Phases, types and the header\<close>

datatype CommunicationPhase = PhaseRequest | PhaseResponse

datatype ProtocolType =
    RequestSend | HearBeat | ReceiverACK | RequestACK | TimedOutRequestHeartbeat
  | TimedOutResponseHeartbeat | UnsupportedNetworkProtocol | StateReset | TheServerResourcesExhausted

primrec phase_code :: "CommunicationPhase \<Rightarrow> byte" where
  "phase_code PhaseRequest = 0"
| "phase_code PhaseResponse = 1"

primrec protocol_code :: "ProtocolType \<Rightarrow> byte" where
  "protocol_code RequestSend = 0"
| "protocol_code HearBeat = 1"
| "protocol_code ReceiverACK = 2"
| "protocol_code RequestACK = 3"
| "protocol_code TimedOutRequestHeartbeat = 4"
| "protocol_code TimedOutResponseHeartbeat = 5"
| "protocol_code UnsupportedNetworkProtocol = 6"
| "protocol_code StateReset = 7"
| "protocol_code TheServerResourcesExhausted = 8"

record ProtocolHeader =
  synchronousWord :: byte
  phase :: CommunicationPhase
  type :: ProtocolType
  pieceOrder :: u16
  pieceSize :: u16
  acceptMinOrder :: u16
  timePoint :: u64
  totalCount :: u16
  pieceStandardSize :: u16
  totalSize :: u32
  acceptOrder :: u16

text \<open>\<open>ProtocolHeader header{}\<close>: every field is zero.\<close>

definition zero_header :: ProtocolHeader where
  "zero_header = \<lparr>synchronousWord = 0, phase = PhaseRequest, type = RequestSend, pieceOrder = 0,
     pieceSize = 0, acceptMinOrder = 0, timePoint = 0, totalCount = 0, pieceStandardSize = 0,
     totalSize = 0, acceptOrder = 0\<rparr>"

definition protocolHeaderSize :: nat where "protocolHeaderSize = 26"
definition defaultPieceLimitSize :: nat where "defaultPieceLimitSize = 548 - protocolHeaderSize"
definition FullPieceSize :: nat where "FullPieceSize = protocolHeaderSize + defaultPieceLimitSize"
definition defaultSynchronousWord :: byte where "defaultSynchronousWord = 0xF0"

section \<open>Memory accesses\<close>

definition update :: "nat \<Rightarrow> byte list \<Rightarrow> byte list \<Rightarrow> byte list" where
  "update off bs buf = take off buf @ bs @ drop (off + length bs) buf"

definition seg :: "nat \<Rightarrow> nat \<Rightarrow> byte list \<Rightarrow> byte list" where
  "seg off n buf = take n (drop off buf)"

definition store :: "nat \<Rightarrow> byte list \<Rightarrow> byte list \<Rightarrow> byte list option" where
  "store off bs buf = (if off + length bs \<le> length buf then Some (update off bs buf) else None)"

definition load :: "nat \<Rightarrow> nat \<Rightarrow> byte list \<Rightarrow> byte list option" where
  "load off n buf = (if off + n \<le> length buf then Some (seg off n buf) else None)"

text \<open>\<open>*reinterpret_cast<T*>(protocol + off)\<close> on a host of byte order \<open>h\<close>, as an lvalue and as a value.\<close>

definition store_word :: "ByteSequence \<Rightarrow> nat \<Rightarrow> 'a::len word \<Rightarrow> byte list \<Rightarrow> byte list option" where
  "store_word h off w buf = store off (mem_of h w) buf"

definition load_raw :: "ByteSequence \<Rightarrow> nat \<Rightarrow> byte list \<Rightarrow> 'a::len word option" where
  "load_raw h off buf = map_option (word_at h) (load off (LENGTH('a) div 8) buf)"

text \<open>\<open>htons\<close> and \<open>htonl\<close>: the bytes are exchanged on a little-endian host.\<close>

definition byte_swap :: "'a::len word \<Rightarrow> 'a word" where
  "byte_swap w = word_at BigEndian (mem_of LittleEndian w)"

definition hton :: "ByteSequence \<Rightarrow> 'a::len word \<Rightarrow> 'a word" where
  "hton h w = (case h of LittleEndian \<Rightarrow> byte_swap w | BigEndian \<Rightarrow> w)"

text \<open>\<open>std::reverse\<close> on a piece of the buffer.\<close>

definition reverse_at :: "nat \<Rightarrow> nat \<Rightarrow> byte list \<Rightarrow> byte list option" where
  "reverse_at off n buf = Option.bind (load off n buf) (\<lambda>bs. store off (rev bs) buf)"

section \<open>The operations of class Protocol\<close>

text \<open>The number of pieces: a \<open>uint16_t\<close>, so that it wraps for large messages.\<close>

definition piece_count :: "u32 \<Rightarrow> u16" where
  "piece_count tsize =
     word_of_nat (unat tsize div defaultPieceLimitSize +
       (if unat tsize mod defaultPieceLimitSize = 0 then 0 else 1))"

text \<open>\<open>by\<close> is the byte order the constructor stores, the host's by \<open>getByteSequence\<close>.\<close>

definition initiateSenderProtocolHeader ::
  "ByteSequence \<Rightarrow> byte list \<Rightarrow> u64 \<Rightarrow> u32 \<Rightarrow> nat \<Rightarrow> (byte list \<times> bool) option" where
  "initiateSenderProtocolHeader bo protocol time tsize protocolSize =
     (if protocolSize < protocolHeaderSize then Some (protocol, False)
      else do {
        b \<leftarrow> store 0 [defaultSynchronousWord] protocol;
        b \<leftarrow> store 1 [or (push_bit 4 (phase_code PhaseRequest)) (protocol_code RequestSend)] b;
        b \<leftarrow> store_word bo 2 (0 :: u16) b;
        b \<leftarrow> store_word bo 6 (0 :: u16) b;
        b \<leftarrow> (if bo = LittleEndian then do {
                b \<leftarrow> store_word bo 4 (hton bo (word_of_nat protocolHeaderSize :: u16)) b;
                b \<leftarrow> store_word bo 8 time b;
                b \<leftarrow> reverse_at 8 8 b;
                b \<leftarrow> store_word bo 16 (hton bo (piece_count tsize)) b;
                b \<leftarrow> store_word bo 18 (hton bo (word_of_nat defaultPieceLimitSize :: u16)) b;
                store_word bo 20 (hton bo tsize) b }
              else do {
                b \<leftarrow> store_word bo 4 (word_of_nat protocolHeaderSize :: u16) b;
                b \<leftarrow> store_word bo 8 time b;
                b \<leftarrow> store_word bo 16 (piece_count tsize) b;
                b \<leftarrow> store_word bo 18 (word_of_nat defaultPieceLimitSize :: u16) b;
                store_word bo 20 tsize b });
        b \<leftarrow> store_word bo 24 (0 :: u16) b;
        Some (b, True) })"

definition phase_of :: "byte \<Rightarrow> CommunicationPhase option" where
  "phase_of c = (if c = phase_code PhaseRequest then Some PhaseRequest
     else if c = phase_code PhaseResponse then Some PhaseResponse else None)"

definition type_of :: "byte \<Rightarrow> ProtocolType option" where
  "type_of c = (if c = protocol_code RequestSend then Some RequestSend
     else if c = protocol_code HearBeat then Some HearBeat
     else if c = protocol_code ReceiverACK then Some ReceiverACK
     else if c = protocol_code RequestACK then Some RequestACK
     else if c = protocol_code TimedOutRequestHeartbeat then Some TimedOutRequestHeartbeat
     else if c = protocol_code TimedOutResponseHeartbeat then Some TimedOutResponseHeartbeat
     else if c = protocol_code UnsupportedNetworkProtocol then Some UnsupportedNetworkProtocol
     else if c = protocol_code StateReset then Some StateReset
     else if c = protocol_code TheServerResourcesExhausted then Some TheServerResourcesExhausted
     else None)"

text \<open>The eight integer fields, as both branches on the byte order read them.\<close>

definition read_fields :: "ByteSequence \<Rightarrow> byte list \<Rightarrow> ProtocolHeader \<Rightarrow> ProtocolHeader option" where
  "read_fields bo b header =
     (if bo = LittleEndian then do {
        order \<leftarrow> load_raw bo 2 b; sz \<leftarrow> load_raw bo 4 b; amin \<leftarrow> load_raw bo 6 b;
        tp \<leftarrow> load_raw bo 8 b; count \<leftarrow> load_raw bo 16 b; std \<leftarrow> load_raw bo 18 b;
        tsize \<leftarrow> load_raw bo 20 b; accept \<leftarrow> load_raw bo 24 b;
        Some (header\<lparr>pieceOrder := hton bo order, pieceSize := hton bo sz,
          acceptMinOrder := hton bo amin,
          timePoint := word_at bo (rev (mem_of bo (tp :: u64))),
          totalCount := hton bo count, pieceStandardSize := hton bo std,
          totalSize := hton bo tsize, acceptOrder := hton bo accept\<rparr>) }
      else do {
        order \<leftarrow> load_raw bo 2 b; sz \<leftarrow> load_raw bo 4 b; amin \<leftarrow> load_raw bo 6 b;
        tp \<leftarrow> load_raw bo 8 b; count \<leftarrow> load_raw bo 16 b; std \<leftarrow> load_raw bo 18 b;
        tsize \<leftarrow> load_raw bo 20 b; accept \<leftarrow> load_raw bo 24 b;
        Some (header\<lparr>pieceOrder := order, pieceSize := sz, acceptMinOrder := amin,
          timePoint := tp, totalCount := count, pieceStandardSize := std,
          totalSize := tsize, acceptOrder := accept\<rparr>) })"

text \<open>\<open>parse\<close>: the header it returns and the reference parameter \<open>success\<close>.\<close>

definition parse :: "ByteSequence \<Rightarrow> byte list \<Rightarrow> nat \<Rightarrow> (ProtocolHeader \<times> bool) option" where
  "parse bo protocol protocolSize =
     (let header = zero_header
      in if protocolSize < protocolHeaderSize then Some (header, False)
      else do {
        sync \<leftarrow> load_raw bo 0 protocol;
        let header = header\<lparr>synchronousWord := sync\<rparr>;
        if sync \<noteq> defaultSynchronousWord then Some (header, False)
        else do {
          phaseAndType \<leftarrow> load_raw bo 1 protocol;
          case phase_of (drop_bit 4 phaseAndType) of
            None \<Rightarrow> Some (header, False)
          | Some p \<Rightarrow>
              let header = header\<lparr>phase := p\<rparr>
              in case type_of (and phaseAndType 15) of
                   None \<Rightarrow> Some (header, False)
                 | Some t \<Rightarrow>
                     map_option (\<lambda>hd. (hd, True)) (read_fields bo protocol (header\<lparr>type := t\<rparr>)) } })"

text \<open>\<open>memory_parse\<close>: the inner \<open>None\<close> is the null pointer.\<close>

definition memory_parse :: "ByteSequence \<Rightarrow> byte list \<Rightarrow> nat \<Rightarrow> ProtocolHeader option option" where
  "memory_parse bo protocol protocolSize =
     (if protocolSize < protocolHeaderSize then Some None
      else do {
        sync \<leftarrow> load_raw bo 0 protocol;
        if sync \<noteq> defaultSynchronousWord then Some None
        else do {
          phaseAndType \<leftarrow> load_raw bo 1 protocol;
          case phase_of (drop_bit 4 phaseAndType) of
            None \<Rightarrow> Some None
          | Some p \<Rightarrow>
              (case type_of (and phaseAndType 15) of
                 None \<Rightarrow> Some None
               | Some t \<Rightarrow>
                   map_option Some (read_fields bo protocol
                     (zero_header\<lparr>synchronousWord := sync, phase := p, type := t\<rparr>))) } })"

definition setProtocolType :: "byte list \<Rightarrow> ProtocolType \<Rightarrow> byte list option" where
  "setProtocolType protocol t = do {
     bs \<leftarrow> load 1 1 protocol;
     store 1 [or (and (hd bs) 0xF0) (protocol_code t)] protocol }"

text \<open>\<open>getProtocolType\<close> and \<open>getProtocolPhase\<close> throw \<open>runtime_error\<close>: the inner \<open>None\<close>.\<close>

definition getProtocolType :: "byte list \<Rightarrow> ProtocolType option option" where
  "getProtocolType protocol = do { bs \<leftarrow> load 1 1 protocol; Some (type_of (and (hd bs) 15)) }"

definition setProtocolPhase :: "byte list \<Rightarrow> CommunicationPhase \<Rightarrow> byte list option" where
  "setProtocolPhase protocol p = do {
     bs \<leftarrow> load 1 1 protocol;
     store 1 [or (push_bit 4 (phase_code p)) (and (hd bs) 15)] protocol }"

definition getProtocolPhase :: "byte list \<Rightarrow> CommunicationPhase option option" where
  "getProtocolPhase protocol = do { bs \<leftarrow> load 1 1 protocol; Some (phase_of (drop_bit 4 (hd bs))) }"

definition setProtocolOrderAndSize :: "ByteSequence \<Rightarrow> byte list \<Rightarrow> u16 \<Rightarrow> u16 \<Rightarrow> byte list option" where
  "setProtocolOrderAndSize bo protocol order sz =
     (if bo = LittleEndian then do {
        b \<leftarrow> store_word bo 2 (hton bo order) protocol; store_word bo 4 (hton bo sz) b }
      else do { b \<leftarrow> store_word bo 2 order protocol; store_word bo 4 sz b })"

definition setACKAcceptOrder :: "ByteSequence \<Rightarrow> byte list \<Rightarrow> u16 \<Rightarrow> byte list option" where
  "setACKAcceptOrder bo protocol order =
     (if bo = BigEndian then store_word bo 24 order protocol
      else store_word bo 24 (hton bo order) protocol)"

definition setAcceptMinOrder :: "ByteSequence \<Rightarrow> byte list \<Rightarrow> u16 \<Rightarrow> byte list option" where
  "setAcceptMinOrder bo protocol order =
     (if bo = LittleEndian then store_word bo 6 (hton bo order) protocol
      else store_word bo 6 order protocol)"

definition getAcceptMinOrder :: "ByteSequence \<Rightarrow> byte list \<Rightarrow> u16 option" where
  "getAcceptMinOrder bo protocol =
     (if bo = LittleEndian then map_option (hton bo) (load_raw bo 6 protocol)
      else load_raw bo 6 protocol)"

definition getSendCount :: "u16 \<Rightarrow> int" where
  "getSendCount pieces =
     (if pieces \<le> 3 then 1 else if 3 < pieces \<and> pieces \<le> 10 then 3
      else if 10 < pieces \<and> pieces \<le> 1024 then 5 else 7)"

section \<open>The layout of the header\<close>

text \<open>The specification: the fields one after the other, the integers in network order.\<close>

definition pack_byte :: "CommunicationPhase \<Rightarrow> ProtocolType \<Rightarrow> byte" where
  "pack_byte p t = or (push_bit 4 (phase_code p)) (protocol_code t)"

definition header_bytes :: "ProtocolHeader \<Rightarrow> byte list" where
  "header_bytes hdr =
     [synchronousWord hdr, pack_byte (phase hdr) (type hdr)] @
     mem_of BigEndian (pieceOrder hdr) @ mem_of BigEndian (pieceSize hdr) @
     mem_of BigEndian (acceptMinOrder hdr) @ mem_of BigEndian (timePoint hdr) @
     mem_of BigEndian (totalCount hdr) @ mem_of BigEndian (pieceStandardSize hdr) @
     mem_of BigEndian (totalSize hdr) @ mem_of BigEndian (acceptOrder hdr)"

named_theorems buffer_simps

lemma length_header_bytes [simp]: "length (header_bytes hdr) = 26"
  by (simp add: header_bytes_def)

lemma byte_swap_mem: "8 dvd LENGTH('a::len) \<Longrightarrow> mem_of LittleEndian (byte_swap (w :: 'a word)) = mem_of BigEndian w"
  by (simp add: byte_swap_def word_at_rev mem_of_word_at) (metis mem_of_BigEndian rev_rev_ident)

lemma hton_mem [buffer_simps]: "8 dvd LENGTH('a::len) \<Longrightarrow> mem_of h (hton h (w :: 'a word)) = mem_of BigEndian w"
  by (cases h) (simp_all add: hton_def byte_swap_mem)

lemma hton_word_at [buffer_simps]:
  assumes "8 dvd LENGTH('a::len)" and "length bs = LENGTH('a) div 8"
  shows "hton h (word_at h bs :: 'a word) = word_at BigEndian bs"
  using assms by (cases h) (simp_all add: hton_def byte_swap_def mem_of_word_at)

lemma word_at_BigEndian_mem [buffer_simps]:
  "8 dvd LENGTH('a::len) \<Longrightarrow> word_at BigEndian (mem_of BigEndian (w :: 'a word)) = w"
  by (rule word_at_mem_of)

lemma reversed_load [buffer_simps]:
  assumes "8 dvd LENGTH('a::len)" and "length bs = LENGTH('a) div 8"
  shows "word_at LittleEndian (rev (mem_of LittleEndian (word_at LittleEndian bs :: 'a word))) =
         (word_at BigEndian bs :: 'a word)"
  using assms by (simp add: mem_of_word_at word_at_rev)

lemma length_update [buffer_simps]: "off + length bs \<le> length buf \<Longrightarrow> length (update off bs buf) = length buf"
  by (simp add: update_def)

lemma length_seg [buffer_simps]: "off + n \<le> length buf \<Longrightarrow> length (seg off n buf) = n"
  by (simp add: seg_def)

lemma seg_update_same [buffer_simps]:
  "off + length bs \<le> length buf \<Longrightarrow> n = length bs \<Longrightarrow> seg off n (update off bs buf) = bs"
  by (simp add: seg_def update_def)

lemma seg_update_other [buffer_simps]:
  assumes "off + length bs \<le> length buf" and "off' + n \<le> off \<or> off + length bs \<le> off'"
  shows "seg off' n (update off bs buf) = seg off' n buf"
  using assms
proof (elim disjE)
  assume "off' + n \<le> off"
  with assms(1) show ?thesis by (auto simp: seg_def update_def drop_take min_def)
next
  assume "off + length bs \<le> off'"
  then obtain k where "off' = off + length bs + k" using le_Suc_ex by blast
  with assms(1) show ?thesis by (simp add: seg_def update_def add.commute add.left_commute)
qed

lemma store_Some [buffer_simps]: "off + length bs \<le> length buf \<Longrightarrow> store off bs buf = Some (update off bs buf)"
  by (simp add: store_def)

lemma load_Some [buffer_simps]: "off + n \<le> length buf \<Longrightarrow> load off n buf = Some (seg off n buf)"
  by (simp add: load_def)

lemma seg_split: "seg off n buf @ seg (off + n) m buf = seg off (n + m) buf"
  by (simp add: seg_def take_add add.commute [of off n])

text \<open>A buffer is its header fields and the rest.\<close>

lemma buffer_fields:
  "take 26 buf = seg 0 1 buf @ seg 1 1 buf @ seg 2 2 buf @ seg 4 2 buf @ seg 6 2 buf @ seg 8 8 buf @
     seg 16 2 buf @ seg 18 2 buf @ seg 20 4 buf @ seg 24 2 buf"
proof -
  have "take 26 buf = seg 0 (1 + (1 + (2 + (2 + (2 + (8 + (2 + (2 + (4 + 2))))))))) buf"
    by (simp add: seg_def)
  also have "\<dots> = seg 0 1 buf @ seg 1 1 buf @ seg 2 2 buf @ seg 4 2 buf @ seg 6 2 buf @ seg 8 8 buf @
     seg 16 2 buf @ seg 18 2 buf @ seg 20 4 buf @ seg 24 2 buf"
    by (simp only: seg_split [symmetric]) (simp add: numeral_eq_Suc)
  finally show ?thesis .
qed

lemma header_segs [buffer_simps]:
  "seg 0 1 (header_bytes hdr @ rest) = [synchronousWord hdr]"
  "seg 1 1 (header_bytes hdr @ rest) =
     [pack_byte (phase hdr) (type hdr)]"
  "seg 2 2 (header_bytes hdr @ rest) = mem_of BigEndian (pieceOrder hdr)"
  "seg 4 2 (header_bytes hdr @ rest) = mem_of BigEndian (pieceSize hdr)"
  "seg 6 2 (header_bytes hdr @ rest) = mem_of BigEndian (acceptMinOrder hdr)"
  "seg 8 8 (header_bytes hdr @ rest) = mem_of BigEndian (timePoint hdr)"
  "seg 16 2 (header_bytes hdr @ rest) = mem_of BigEndian (totalCount hdr)"
  "seg 18 2 (header_bytes hdr @ rest) = mem_of BigEndian (pieceStandardSize hdr)"
  "seg 20 4 (header_bytes hdr @ rest) = mem_of BigEndian (totalSize hdr)"
  "seg 24 2 (header_bytes hdr @ rest) = mem_of BigEndian (acceptOrder hdr)"
  by (simp_all add: seg_def header_bytes_def)

lemma phase_of_code [simp]: "phase_of (phase_code p) = Some p"
  by (cases p) (simp_all add: phase_of_def)

lemma type_of_code [simp]: "type_of (protocol_code t) = Some t"
  by (cases t) (simp_all add: type_of_def)

lemma phase_of_Some: "phase_of c = Some p \<Longrightarrow> phase_code p = c"
  by (auto simp: phase_of_def split: if_splits)

lemma type_of_Some: "type_of c = Some t \<Longrightarrow> protocol_code t = c"
  by (auto simp: type_of_def split: if_splits)

lemma pack_phase [buffer_simps]: "drop_bit 4 (pack_byte p t) = phase_code p"
  by (cases p; cases t; simp add: pack_byte_def)

lemma pack_type [buffer_simps]: "and (pack_byte p t) 15 = protocol_code t"
  by (cases p; cases t; simp add: pack_byte_def)

lemma pack_high [buffer_simps]: "and (pack_byte p t) 0xF0 = push_bit 4 (phase_code p)"
  by (cases p; cases t; simp add: pack_byte_def)

lemma unpack_byte:
  assumes "phase_of (drop_bit 4 c) = Some p" and "type_of (and c 15) = Some t"
  shows "c = pack_byte p t"
proof -
  have "(15 :: byte) = mask 4" by (simp add: mask_eq_exp_minus_1)
  then have "or (push_bit 4 (drop_bit 4 c)) (and c 15) = c" by (auto simp: bit_eq_iff bit_simps)
  with assms show ?thesis by (simp add: pack_byte_def phase_of_Some type_of_Some)
qed

section \<open>The operations on the layout\<close>

lemma load_header [buffer_simps]:
  "off + n \<le> 26 \<Longrightarrow> load off n (header_bytes hdr @ rest) = Some (seg off n (header_bytes hdr @ rest))"
  by (simp add: buffer_simps)

lemma read_fields_value:
  assumes "26 \<le> length buf"
  shows "read_fields h buf hdr = Some (hdr\<lparr>pieceOrder := word_at BigEndian (seg 2 2 buf),
     pieceSize := word_at BigEndian (seg 4 2 buf), acceptMinOrder := word_at BigEndian (seg 6 2 buf),
     timePoint := word_at BigEndian (seg 8 8 buf), totalCount := word_at BigEndian (seg 16 2 buf),
     pieceStandardSize := word_at BigEndian (seg 18 2 buf),
     totalSize := word_at BigEndian (seg 20 4 buf), acceptOrder := word_at BigEndian (seg 24 2 buf)\<rparr>)"
  using assms by (cases h) (simp_all add: read_fields_def load_raw_def buffer_simps)

lemma seg_one: "off < length buf \<Longrightarrow> seg off 1 buf = [buf ! off]"
  by (simp add: seg_def hd_drop_conv_nth take_Suc)

lemma load_raw_byte: "off < length buf \<Longrightarrow> load_raw h off buf = Some (buf ! off :: byte)"
  using seg_one [of off buf]
  by (cases h) (simp_all add: load_raw_def load_Some word_at_def object_val_def)

text \<open>When a parse succeeds, and with which header.\<close>

lemma parse_value:
  assumes "26 \<le> length buf" and "26 \<le> n"
  shows "parse h buf n = Some (hdr, True) \<longleftrightarrow>
     synchronousWord hdr = defaultSynchronousWord \<and> header_bytes hdr = take 26 buf"
proof
  assume p: "parse h buf n = Some (hdr, True)"
  have len: "length (seg off k buf) = k" if "off + k \<le> 26" for off k
    using that assms(1) by (simp add: seg_def)
  have one: "seg 0 1 buf = [buf ! 0]" "seg 1 1 buf = [buf ! 1]"
    using assms(1) by (rule_tac seg_one, linarith)+
  have raw: "load_raw h 0 buf = Some (buf ! 0)" "load_raw h 1 buf = Some (buf ! 1)"
    using assms(1) by (rule_tac load_raw_byte, linarith)+
  obtain pp t where t: "phase_of (drop_bit 4 (buf ! 1)) = Some pp" "type_of (and (buf ! 1) 15) = Some t"
    "buf ! 0 = defaultSynchronousWord"
    "read_fields h buf (zero_header\<lparr>synchronousWord := buf ! 0, phase := pp, type := t\<rparr>) = Some hdr"
    using p assms
    by (auto simp: parse_def protocolHeaderSize_def Let_def raw raw [simplified] split: if_splits option.splits)
  then have "buf ! 1 = pack_byte pp t" by (intro unpack_byte)
  with t show "synchronousWord hdr = defaultSynchronousWord \<and> header_bytes hdr = take 26 buf"
    using read_fields_value [OF assms(1)]
    by (auto simp: buffer_fields header_bytes_def one one [simplified] mem_of_word_at len)
next
  assume hdr: "synchronousWord hdr = defaultSynchronousWord \<and> header_bytes hdr = take 26 buf"
  then obtain rest where b: "buf = header_bytes hdr @ rest" by (metis append_take_drop_id)
  have n: "buf ! 0 = synchronousWord hdr"
    "buf ! 1 = pack_byte (phase hdr) (type hdr)"
    by (simp_all add: b header_bytes_def)
  have "load_raw h 0 buf = Some (buf ! 0)" "load_raw h 1 buf = Some (buf ! 1)"
    using assms(1) by (rule_tac load_raw_byte, linarith)+
  moreover have "read_fields h buf (zero_header\<lparr>synchronousWord := synchronousWord hdr,
      phase := phase hdr, type := type hdr\<rparr>) = Some hdr"
    using read_fields_value [OF assms(1)] by (simp add: b buffer_simps)
  ultimately show "parse h buf n = Some (hdr, True)"
    using assms hdr n
    by (simp add: parse_def protocolHeaderSize_def pack_phase pack_type)
qed

lemma memory_parse_eq:
  "memory_parse h buf n = map_option (\<lambda>(hdr, ok). if ok then Some hdr else None) (parse h buf n)"
  by (auto simp: memory_parse_def parse_def Let_def option.map_comp comp_def
      split: option.splits bind_splits)

lemma store_type:
  "store 1 [pack_byte p t] (header_bytes hdr @ rest) =
   Some (header_bytes (hdr\<lparr>phase := p, type := t\<rparr>) @ rest)"
  by (simp add: store_def update_def header_bytes_def)

lemma type_setters_layout:
  "setProtocolType (header_bytes hdr @ rest) t = Some (header_bytes (hdr\<lparr>type := t\<rparr>) @ rest)"
  "setProtocolPhase (header_bytes hdr @ rest) p = Some (header_bytes (hdr\<lparr>phase := p\<rparr>) @ rest)"
  unfolding setProtocolType_def setProtocolPhase_def
  by (simp_all add: load_header header_segs pack_high pack_type store_type
      pack_byte_def [symmetric] del: One_nat_def)

lemma order_setters_layout:
  "setProtocolOrderAndSize h (header_bytes hdr @ rest) order sz =
     Some (header_bytes (hdr\<lparr>pieceOrder := order, pieceSize := sz\<rparr>) @ rest)"
  "setACKAcceptOrder h (header_bytes hdr @ rest) order =
     Some (header_bytes (hdr\<lparr>acceptOrder := order\<rparr>) @ rest)"
  "setAcceptMinOrder h (header_bytes hdr @ rest) order =
     Some (header_bytes (hdr\<lparr>acceptMinOrder := order\<rparr>) @ rest)"
  by (cases h; simp add: setProtocolOrderAndSize_def setACKAcceptOrder_def setAcceptMinOrder_def
      store_word_def store_def update_def hton_mem header_bytes_def)+

lemma getters_layout:
  "getProtocolType (header_bytes hdr @ rest) = Some (Some (type hdr))"
  "getProtocolPhase (header_bytes hdr @ rest) = Some (Some (phase hdr))"
  "getAcceptMinOrder h (header_bytes hdr @ rest) = Some (acceptMinOrder hdr)"
  by (cases h; simp add: getProtocolType_def getProtocolPhase_def getAcceptMinOrder_def load_raw_def
      load_header header_segs pack_type pack_phase hton_word_at word_at_mem_of del: One_nat_def)+

definition sender_header :: "u64 \<Rightarrow> u32 \<Rightarrow> ProtocolHeader" where
  "sender_header time tsize =
     zero_header\<lparr>synchronousWord := defaultSynchronousWord, pieceSize := 26, timePoint := time,
       totalCount := piece_count tsize, pieceStandardSize := 522, totalSize := tsize\<rparr>"

lemma mem_of_rev [buffer_simps]: "rev (mem_of LittleEndian w) = mem_of BigEndian w"
  by (metis mem_of_BigEndian rev_rev_ident)

lemma mem_of_0 [buffer_simps]: "mem_of LittleEndian (0 :: 'a::len word) = mem_of BigEndian (0 :: 'a word)"
  by (simp add: mem_of_def object_rep_def le_nat_zero)

lemma buffer_split:
  assumes "26 \<le> length buf"
  obtains s0 s1 s2 s4 s6 s8 s16 s18 s20 s24 :: "byte list" and rest
  where "buf = s0 @ s1 @ s2 @ s4 @ s6 @ s8 @ s16 @ s18 @ s20 @ s24 @ rest" and "drop 26 buf = rest"
    and "length s0 = 1" "length s1 = 1" "length s2 = 2" "length s4 = 2" "length s6 = 2"
    and "length s8 = 8" "length s16 = 2" "length s18 = 2" "length s20 = 4" "length s24 = 2"
proof -
  have "length (seg off k buf) = k" if "off + k \<le> 26" for off k
    using that assms by (simp add: seg_def)
  moreover have "buf = take 26 buf @ drop 26 buf" by simp
  ultimately show thesis
    using that [of "seg 0 1 buf" "seg 1 1 buf" "seg 2 2 buf" "seg 4 2 buf" "seg 6 2 buf" "seg 8 8 buf"
        "seg 16 2 buf" "seg 18 2 buf" "seg 20 4 buf" "seg 24 2 buf" "drop 26 buf"]
    by (simp add: buffer_fields)
qed

lemma initiate_layout:
  assumes "26 \<le> length buf" and "26 \<le> n"
  shows "initiateSenderProtocolHeader h buf time tsize n =
     Some (header_bytes (sender_header time tsize) @ drop 26 buf, True)"
  using assms(1)
proof (cases rule: buffer_split)
  case (1 s0 s1 s2 s4 s6 s8 s16 s18 s20 s24 rest)
  with assms(2) show ?thesis
    by (cases h)
       (simp_all add: initiateSenderProtocolHeader_def store_word_def store_def update_def
        reverse_at_def load_def seg_def hton_mem mem_of_rev mem_of_0
        header_bytes_def sender_header_def zero_header_def pack_byte_def protocolHeaderSize_def
        defaultPieceLimitSize_def)
qed

section \<open>Fields overwritten in place\<close>

text \<open>
  The contract of an accessor that overwrites one field of a packet: on a buffer that starts with
  the layout of a header it returns the layout of the updated header and keeps the payload. A
  receiver then parses the updated header.
\<close>

locale header_field =
  fixes put :: "'v \<Rightarrow> byte list \<Rightarrow> byte list option"
    and upd :: "'v \<Rightarrow> ProtocolHeader \<Rightarrow> ProtocolHeader"
  assumes put_layout: "put v (header_bytes hdr @ rest) = Some (header_bytes (upd v hdr) @ rest)"
    and upd_sync: "synchronousWord (upd v hdr) = synchronousWord hdr"
begin

lemma parse_put:
  assumes "parse h buf n = Some (hdr, True)" and "26 \<le> length buf" and "26 \<le> n"
  shows "\<exists>buf'. put v buf = Some buf' \<and> parse h' buf' n = Some (upd v hdr, True) \<and>
    drop 26 buf' = drop 26 buf \<and> length buf' = length buf"
proof -
  have hdr: "synchronousWord hdr = defaultSynchronousWord" "header_bytes hdr = take 26 buf"
    using assms parse_value by blast+
  then have b: "buf = header_bytes hdr @ drop 26 buf" by simp
  let ?b = "header_bytes (upd v hdr) @ drop 26 buf"
  have "put v buf = Some ?b" using put_layout b by metis
  moreover have "parse h' ?b n = Some (upd v hdr, True)"
    using assms(3) hdr(1) by (subst parse_value) (simp_all add: upd_sync)
  ultimately show ?thesis using assms(2) by auto
qed

end

interpretation type_field: header_field "\<lambda>t buf. setProtocolType buf t" "\<lambda>t hdr. hdr\<lparr>type := t\<rparr>"
  by unfold_locales (simp_all add: type_setters_layout)

interpretation phase_field: header_field "\<lambda>p buf. setProtocolPhase buf p" "\<lambda>p hdr. hdr\<lparr>phase := p\<rparr>"
  by unfold_locales (simp_all add: type_setters_layout)

interpretation order_field: header_field "\<lambda>(order, sz) buf. setProtocolOrderAndSize h buf order sz"
  "\<lambda>(order, sz) hdr. hdr\<lparr>pieceOrder := order, pieceSize := sz\<rparr>" for h
  by unfold_locales (auto simp: order_setters_layout)

interpretation ack_field: header_field "\<lambda>order buf. setACKAcceptOrder h buf order"
  "\<lambda>order hdr. hdr\<lparr>acceptOrder := order\<rparr>" for h
  by unfold_locales (simp_all add: order_setters_layout)

interpretation min_field: header_field "\<lambda>order buf. setAcceptMinOrder h buf order"
  "\<lambda>order hdr. hdr\<lparr>acceptMinOrder := order\<rparr>" for h
  by unfold_locales (simp_all add: order_setters_layout)

lemma ceil_div: "(x + 521) div 522 = x div 522 + (if x mod 522 = 0 then 0 else (1 :: nat))"
proof (rule div_nat_eqI)
  have "522 * (x div 522) + x mod 522 = x" "x mod 522 < 522" by simp_all
  then show "522 * (x div 522 + (if x mod 522 = 0 then 0 else 1)) \<le> x + 521"
    "x + 521 < 522 * Suc (x div 522 + (if x mod 522 = 0 then 0 else 1))"
    by (cases "x mod 522 = 0"; simp; linarith)+
qed

lemma piece_count_value:
  "unat (piece_count tsize) = ((unat tsize + 521) div 522) mod 65536"
  by (simp only: ceil_div piece_count_def defaultPieceLimitSize_def protocolHeaderSize_def unat_of_nat)
     simp

section \<open>Properties\<close>

text \<open>
  C15 A packet header survives the network. Whatever the byte orders of sender and receiver, the
  header that \<open>initiateSenderProtocolHeader\<close> writes into a buffer of at least 26 bytes is parsed
  with the time point and the total size the sender gave, the computed number of pieces, phase
  \<open>Request\<close> and type \<open>RequestSend\<close>; the payload behind the header is not touched.
\<close>

theorem header_survives_network:
  assumes "protocolHeaderSize \<le> length buf" and "protocolHeaderSize \<le> n" and "protocolHeaderSize \<le> n'"
  shows "\<exists>b. initiateSenderProtocolHeader h buf time tsize n = Some (b, True) \<and>
    drop protocolHeaderSize b = drop protocolHeaderSize buf \<and>
    parse h' b n' = Some (sender_header time tsize, True)"
proof -
  let ?b = "header_bytes (sender_header time tsize) @ drop 26 buf"
  have "parse h' ?b n' = Some (sender_header time tsize, True)"
    using assms by (subst parse_value) (simp_all add: sender_header_def protocolHeaderSize_def)
  with initiate_layout [of buf n h time tsize] assms show ?thesis
    by (simp add: protocolHeaderSize_def)
qed

theorem header_survives_network_witness:
  "\<exists>b. initiateSenderProtocolHeader LittleEndian (replicate 548 1) 77 1000 548 = Some (b, True) \<and>
    drop protocolHeaderSize b = drop protocolHeaderSize (replicate 548 1) \<and>
    parse BigEndian b 548 = Some (sender_header 77 1000, True)"
  using header_survives_network [of "replicate 548 1" 548 548 LittleEndian 77 1000 BigEndian]
  by (simp add: protocolHeaderSize_def)

text \<open>
  \<open>parse\<close> accepts exactly the packets whose first 26 bytes are the layout of a header with the
  synchronisation word 0xF0, and returns that header.
\<close>

theorem parse_accepts_layout:
  assumes "protocolHeaderSize \<le> length buf" and "protocolHeaderSize \<le> n"
  shows "parse h buf n = Some (hdr, True) \<longleftrightarrow>
     synchronousWord hdr = defaultSynchronousWord \<and> header_bytes hdr = take protocolHeaderSize buf"
  using parse_value assms by (simp add: protocolHeaderSize_def)

theorem parse_accepts_layout_witness:
  "parse LittleEndian (header_bytes (sender_header 5 6)) 26 = Some (sender_header 5 6, True)"
  using parse_accepts_layout [of "header_bytes (sender_header 5 6)" 26 LittleEndian "sender_header 5 6"]
  by (simp add: protocolHeaderSize_def sender_header_def)

text \<open>
  The two parsers agree: \<open>memory_parse\<close> returns the header of \<open>parse\<close> when \<open>parse\<close> reports
  success and the null pointer otherwise, and one is undefined exactly when the other is.
\<close>

theorem memory_parse_agrees:
  "memory_parse h buf n = map_option (\<lambda>(hdr, ok). if ok then Some hdr else None) (parse h buf n)"
  by (rule memory_parse_eq)

text \<open>
  Fields are overwritten in place. On a buffer that parses to a header, each of the five setters
  returns, changes exactly its field of the parsed header on either host, and keeps the payload.
\<close>

theorem setters_update_parsed_header:
  assumes "parse h buf n = Some (hdr, True)" and "protocolHeaderSize \<le> length buf"
    and "protocolHeaderSize \<le> n"
  shows "(\<exists>b. setProtocolType buf t = Some b \<and> parse h' b n = Some (hdr\<lparr>type := t\<rparr>, True)) \<and>
    (\<exists>b. setProtocolPhase buf p = Some b \<and> parse h' b n = Some (hdr\<lparr>phase := p\<rparr>, True)) \<and>
    (\<exists>b. setProtocolOrderAndSize h buf order sz = Some b \<and>
       parse h' b n = Some (hdr\<lparr>pieceOrder := order, pieceSize := sz\<rparr>, True)) \<and>
    (\<exists>b. setACKAcceptOrder h buf order = Some b \<and>
       parse h' b n = Some (hdr\<lparr>acceptOrder := order\<rparr>, True)) \<and>
    (\<exists>b. setAcceptMinOrder h buf order = Some b \<and>
       parse h' b n = Some (hdr\<lparr>acceptMinOrder := order\<rparr>, True))"
proof -
  have l: "26 \<le> length buf" "26 \<le> n" using assms by (simp_all add: protocolHeaderSize_def)
  show ?thesis
    using type_field.parse_put [OF assms(1) l, of t h'] phase_field.parse_put [OF assms(1) l, of p h']
      order_field.parse_put [OF assms(1) l, of h "(order, sz)" h']
      ack_field.parse_put [OF assms(1) l, of h order h']
      min_field.parse_put [OF assms(1) l, of h order h']
    by auto
qed

theorem setters_update_parsed_header_witness:
  "\<exists>b. setACKAcceptOrder LittleEndian (header_bytes (sender_header 5 6)) 3 = Some b \<and>
       parse BigEndian b 26 = Some ((sender_header 5 6)\<lparr>acceptOrder := 3\<rparr>, True)"
proof -
  have "parse LittleEndian (header_bytes (sender_header 5 6)) 26 = Some (sender_header 5 6, True)"
    by (subst parse_value) (simp_all add: sender_header_def)
  from setters_update_parsed_header [OF this] show ?thesis by (simp add: protocolHeaderSize_def)
qed

text \<open>
  The number of pieces. The pieces announced in the header hold the whole message exactly when
  the message has at most 34209270 bytes; a longer one wraps the 16 bit count. Up to there the
  count is the least that is enough.
\<close>

theorem piece_count_covers:
  "(unat tsize \<le> unat (piece_count tsize) * defaultPieceLimitSize \<longleftrightarrow> unat tsize \<le> 34209270) \<and>
   (0 < unat tsize \<and> unat tsize \<le> 34209270 \<longrightarrow>
      (unat (piece_count tsize) - 1) * defaultPieceLimitSize < unat tsize)"
proof -
  define k where "k = (unat tsize + 521) div 522"
  have c: "unat (piece_count tsize) = k mod 65536" by (simp add: piece_count_value k_def)
  have k: "unat tsize \<le> k * 522" "k * 522 < unat tsize + 522"
    using div_mult_mod_eq [of "unat tsize + 521" 522] mod_less_divisor [of 522 "unat tsize + 521"]
    by (simp_all add: k_def [symmetric])
  have "k \<le> 65535" if "unat tsize \<le> 34209270" using that k by linarith
  moreover have "k mod 65536 * 522 \<le> 34209270" using mod_less_divisor [of 65536 k] by linarith
  ultimately show ?thesis using k c by (auto simp: defaultPieceLimitSize_def protocolHeaderSize_def)
qed

theorem piece_count_covers_witness:
  "(unat (piece_count 1000) - 1) * defaultPieceLimitSize < 1000 \<and>
   1000 \<le> unat (piece_count 1000) * defaultPieceLimitSize"
  using piece_count_covers [of 1000] by simp

end
