(* ===== verification/Uint256.thy ===== *)
theory Uint256
  imports Serializer_Safety
begin

text \<open>
  The class \<open>base_binary<256>\<close> of \<open>src/include/db/uint256.hpp\<close>, a string of 32 bytes, with its
  two constructors from hexadecimal text, its order, its byte-wise sum and its serialization, and
  the hexadecimal printer \<open>hash_handler::convert_to_hex\<close>. Characters are their ASCII codes.
\<close>

section \<open>Printing\<close>

definition hex_chars :: "byte list" where
  "hex_chars = [48, 49, 50, 51, 52, 53, 54, 55, 56, 57, 97, 98, 99, 100, 101, 102]"

primrec convert_to_hex :: "byte list \<Rightarrow> byte list" where
  "convert_to_hex [] = []"
| "convert_to_hex (b # bs) =
     [hex_chars ! unat (and (drop_bit 4 b) 15), hex_chars ! unat (and b 15)] @ convert_to_hex bs"

section \<open>The class base_binary\<close>

type_synonym uint256 = "byte list"

definition Width :: nat where "Width = 32"

definition wf256 :: "uint256 \<Rightarrow> bool" where
  "wf256 x \<longleftrightarrow> length x = Width"

definition base_binary_default :: uint256 where
  "base_binary_default = replicate Width 0"

definition base_binary_fill :: "byte \<Rightarrow> uint256" where
  "base_binary_fill v = replicate Width v"

text \<open>\<open>base_binary(data, data_length)\<close>; \<open>None\<close> when the assertion fails or the data are too short.\<close>

definition base_binary_copy :: "byte list \<Rightarrow> nat \<Rightarrow> uint256 option" where
  "base_binary_copy d data_length =
     (if data_length = Width \<and> data_length \<le> length d then Some (take data_length d) else None)"

text \<open>The value of a hexadecimal digit; \<open>None\<close> is the exception \<open>std::invalid_argument\<close>.\<close>

definition hex_val :: "byte \<Rightarrow> byte option" where
  "hex_val c =
     (let val = (if 48 \<le> c \<and> c \<le> 57 then Some (c - 48)
                 else if 97 \<le> c \<and> c \<le> 122 then Some (c - 97 + 10)
                 else if 65 \<le> c \<and> c \<le> 90 then Some (c - 65 + 10) else None)
      in case val of None \<Rightarrow> None | Some v \<Rightarrow> if 16 \<le> v then None else Some v)"

text \<open>The loop over the digits, with the array and the number of digits stored so far.\<close>

primrec hex_loop :: "byte list \<Rightarrow> nat \<Rightarrow> byte list \<Rightarrow> (byte list \<times> nat) option" where
  "hex_loop [] half d = Some (d, half)"
| "hex_loop (c # cs) half d =
     (case hex_val c of
        None \<Rightarrow> None
      | Some val \<Rightarrow>
          let byte_place = half div 2;
              d' = (if half mod 2 = 0 then d[byte_place := 0] else d);
              val' = (if half mod 2 = 0 then push_bit 4 val else val)
          in hex_loop cs (half + 1) (d'[byte_place := or (d' ! byte_place) val']))"

text \<open>The last loop sets the bytes from \<open>half/2\<close> on to 0.\<close>

definition zero_from :: "nat \<Rightarrow> byte list \<Rightarrow> byte list" where
  "zero_from k d = take k d @ replicate (length d - k) 0"

text \<open>\<open>base_binary(vch, offset)\<close>; \<open>d\<close> is the content of the array before, which is not initialised.\<close>

definition base_binary_hex :: "byte list \<Rightarrow> byte list \<Rightarrow> uint256 option" where
  "base_binary_hex d vch =
     (if Width * 2 < length vch then None
      else map_option (\<lambda>(d', half). zero_from (half div 2) d') (hex_loop vch 0 d))"

text \<open>\<open>base_binary(vch)\<close> for text that starts with \<open>0x\<close>.\<close>

definition base_binary_0x :: "byte list \<Rightarrow> byte list \<Rightarrow> uint256 option" where
  "base_binary_0x d vch =
     (if length vch \<le> 2 then None
      else if vch ! 0 \<noteq> 48 \<or> vch ! 1 \<noteq> 120 then None
      else if Width * 2 < length vch - 2 then None
      else map_option (\<lambda>(d', half). zero_from (half div 2) d') (hex_loop (drop 2 vch) 0 d))"

text \<open>\<open>Compare\<close>: the sign of \<open>memcmp\<close>.\<close>

fun memcmp :: "byte list \<Rightarrow> byte list \<Rightarrow> int" where
  "memcmp (a # as) (b # bs) = (if a < b then -1 else if b < a then 1 else memcmp as bs)"
| "memcmp _ _ = 0"

definition Compare :: "uint256 \<Rightarrow> uint256 \<Rightarrow> int" where
  "Compare a b = memcmp (take Width a) (take Width b)"

definition uint256_eq :: "uint256 \<Rightarrow> uint256 \<Rightarrow> bool" where
  "uint256_eq a b \<longleftrightarrow> Compare a b = 0"

definition uint256_less :: "uint256 \<Rightarrow> uint256 \<Rightarrow> bool" where
  "uint256_less a b \<longleftrightarrow> Compare a b < 0"

definition get_hex :: "uint256 \<Rightarrow> byte list" where
  "get_hex x = convert_to_hex x"

text \<open>\<open>operator+\<close>: each byte modulo 256, without carry.\<close>

definition uint256_plus :: "uint256 \<Rightarrow> uint256 \<Rightarrow> uint256" where
  "uint256_plus a b = map2 (+) a b"

text \<open>\<open>operator[]\<close>: the outer \<open>None\<close> is \<open>std::out_of_range\<close>; the index \<open>Width\<close> passes the check.\<close>

definition uint256_index :: "uint256 \<Rightarrow> nat \<Rightarrow> (ser_error + byte) option" where
  "uint256_index x pos =
     (if Width < pos then None
      else Some (if pos < length x then Inr (x ! pos) else Inl OutOfRange))"

text \<open>The parameter \<open>sha3_256\<close> is the digest of the OpenSSL library.\<close>

definition get_sha3_256 :: "(byte list \<Rightarrow> byte list) \<Rightarrow> uint256 \<Rightarrow> uint256" where
  "get_sha3_256 sha3_256 x = sha3_256 x"

text \<open>\<open>MUSE_IBinarySerializable(data)\<close>, with \<open>data\<close> a \<open>std::array<uint8_t, 32>\<close>.\<close>

definition uint256_val :: "uint256 \<Rightarrow> sval" where
  "uint256_val x = VClass [VArray (map VUChar x)]"

definition uint256_type :: cty where
  "uint256_type = TClass [TArray Width TUChar]"

section \<open>Hexadecimal digits\<close>

lemma hex_val_chars: "list_all (\<lambda>n. hex_val (hex_chars ! n) = Some (word_of_nat n)) [0..<16]"
  by code_simp

lemma hex_val_digit: "hex_val (hex_chars ! unat (and b 15)) = Some (and b 15)"
proof -
  have "unat (and b 15) \<le> unat (15 :: byte)"
    using word_and_le1 [of b 15] by (simp add: word_le_nat_alt)
  then have "unat (and b 15) < 16" by simp
  then show ?thesis using hex_val_chars by (simp add: list_all_iff)
qed

lemma nibbles: "or (and (push_bit 4 (drop_bit 4 b)) 240) (and b 15) = (b :: byte)"
proof -
  have "(15 :: byte) = mask 4" "(240 :: byte) = push_bit 4 (mask 4)"
    by (simp_all add: mask_eq_exp_minus_1)
  then show ?thesis by (simp only: bit_eq_iff) (auto simp: bit_simps)
qed

lemma hex_loop_byte:
  assumes "k < length d"
  shows "hex_loop (convert_to_hex [b] @ cs) (2 * k) d = hex_loop cs (2 * Suc k) (d[k := b])"
  using assms by (simp add: hex_val_digit nibbles Let_def)

lemma convert_to_hex_Cons: "convert_to_hex (b # bs) = convert_to_hex [b] @ convert_to_hex bs"
  by simp

lemma hex_loop_bytes:
  "length pre + length bs \<le> length d \<Longrightarrow> take (length pre) d = pre \<Longrightarrow>
   hex_loop (convert_to_hex bs @ cs) (2 * length pre) d =
   hex_loop cs (2 * (length pre + length bs)) (pre @ bs @ drop (length pre + length bs) d)"
proof (induction bs arbitrary: pre d)
  case Nil
  then show ?case by (metis add.right_neutral append_Nil append_take_drop_id convert_to_hex.simps(1)
      list.size(3))
next
  case (Cons b bs)
  let ?d = "d[length pre := b]"
  have "take (Suc (length pre)) ?d = pre @ [b]"
    using Cons.prems by (simp add: take_Suc_conv_app_nth)
  with Cons.prems Cons.IH [of "pre @ [b]" ?d] show ?case
    by (simp add: hex_loop_byte convert_to_hex_Cons [of b bs] del: convert_to_hex.simps)
qed

lemma length_convert_to_hex [simp]: "length (convert_to_hex bs) = 2 * length bs"
  by (induction bs) simp_all

lemma hex_loop_print:
  assumes "length bs \<le> length d"
  shows "hex_loop (convert_to_hex bs @ cs) 0 d = hex_loop cs (2 * length bs) (bs @ drop (length bs) d)"
  using hex_loop_bytes [of "[]" bs d cs] assms by simp

lemma length_hex_loop: "hex_loop cs half d = Some (d', n) \<Longrightarrow> length d' = length d"
  by (induction cs arbitrary: half d) (auto simp: Let_def split: option.splits if_splits)

lemma length_zero_from: "length (zero_from k d) = length d \<or> length d < k"
  by (auto simp: zero_from_def)

lemma zero_from_append: "length bs = k \<Longrightarrow> zero_from k (bs @ d) = bs @ replicate (length d) 0"
  by (simp add: zero_from_def)

lemma hex_loop_half: "hex_loop cs half d = Some (d', n) \<Longrightarrow> n = half + length cs"
proof (induction cs arbitrary: half d)
  case (Cons c cs)
  then obtain d2 where "hex_loop cs (half + 1) d2 = Some (d', n)"
    by (auto simp: Let_def split: option.splits)
  from Cons.IH [OF this] show ?case by simp
qed simp

lemma base_binary_wf:
  assumes "length d = Width"
  shows "base_binary_hex d vch = Some x \<Longrightarrow> wf256 x" and "base_binary_0x d vch = Some x \<Longrightarrow> wf256 x"
proof -
  have "wf256 (zero_from (n div 2) d')" if "hex_loop cs 0 d = Some (d', n)" "length cs \<le> 2 * Width" for cs d' n
    using length_hex_loop [OF that(1)] hex_loop_half [OF that(1)] that(2) assms
    by (simp add: wf256_def zero_from_def)
  then show "base_binary_hex d vch = Some x \<Longrightarrow> wf256 x" "base_binary_0x d vch = Some x \<Longrightarrow> wf256 x"
    by (auto simp: base_binary_hex_def base_binary_0x_def split: if_splits)
qed

lemma base_binary_hex_digits:
  assumes "length d = Width" and "length bs \<le> Width"
  shows "base_binary_hex d (convert_to_hex bs) = Some (bs @ replicate (Width - length bs) 0)"
    and "bs \<noteq> [] \<Longrightarrow> base_binary_0x d ([48, 120] @ convert_to_hex bs) = Some (bs @ replicate (Width - length bs) 0)"
  using assms hex_loop_print [of bs d "[]"]
  by (auto simp: base_binary_hex_def base_binary_0x_def zero_from_append)

text \<open>A last digit without a partner is stored and then cleared by the last loop.\<close>

lemma base_binary_hex_odd:
  assumes "length d = Width" and "length bs < Width" and "hex_val c = Some v"
  shows "base_binary_hex d (convert_to_hex bs @ [c]) = Some (bs @ replicate (Width - length bs) 0)"
proof -
  have "hex_loop (convert_to_hex bs @ [c]) 0 d =
      Some ((bs @ drop (length bs) d)[length bs := push_bit 4 v], 2 * length bs + 1)"
    using assms hex_loop_print [of bs d "[c]"] by (simp add: Let_def)
  then show ?thesis
    using assms by (simp add: base_binary_hex_def zero_from_def)
qed

section \<open>The order\<close>

lemma memcmp_swap: "length a = length b \<Longrightarrow> memcmp a b = - memcmp b a"
  by (induction a b rule: memcmp.induct) auto

lemma memcmp_refl [simp]: "memcmp a a = 0"
  by (induction a) auto

lemma memcmp_eq: "length a = length b \<Longrightarrow> memcmp a b = 0 \<longleftrightarrow> a = b"
  by (induction a b rule: list_induct2) auto

lemma memcmp_asym: "memcmp a b < 0 \<Longrightarrow> \<not> memcmp b a < 0"
  by (induction a b rule: memcmp.induct) (auto split: if_splits)

lemma memcmp_trans:
  "length a = length b \<Longrightarrow> length b = length c \<Longrightarrow> memcmp a b < 0 \<Longrightarrow> memcmp b c < 0 \<Longrightarrow> memcmp a c < 0"
  by (induction a b c rule: list_induct3) (auto split: if_splits)

interpretation uint256_key: key_order uint256_less
  by unfold_locales (simp add: uint256_less_def Compare_def memcmp_asym)

lemma wf256_plus: "wf256 a \<Longrightarrow> wf256 b \<Longrightarrow> wf256 (uint256_plus a b)"
  by (simp add: wf256_def uint256_plus_def)

lemma uint256_plus_commute: "uint256_plus a b = uint256_plus b a"
proof -
  have "map2 (+) a b = map2 (+) b a"
    by (induction a arbitrary: b) (simp, case_tac b, simp_all add: add.commute)
  then show ?thesis by (simp add: uint256_plus_def)
qed

text \<open>The byte-wise difference undoes the byte-wise sum.\<close>

definition uint256_minus :: "uint256 \<Rightarrow> uint256 \<Rightarrow> uint256" where
  "uint256_minus a b = map2 (-) a b"

lemma uint256_plus_minus:
  assumes "wf256 a" and "wf256 b"
  shows "uint256_plus a (uint256_minus b a) = b"
proof -
  have "map2 (+) a (map2 (-) b a) = b" if "length a = length b" for a b :: "byte list"
    using that by (induction a b rule: list_induct2) simp_all
  with assms show ?thesis by (simp add: uint256_plus_def uint256_minus_def wf256_def)
qed

lemma wf256_minus: "wf256 a \<Longrightarrow> wf256 b \<Longrightarrow> wf256 (uint256_minus a b)"
  by (simp add: wf256_def uint256_minus_def)

section \<open>Properties\<close>

text \<open>
  Hexadecimal text. Printing a 256 bit number and constructing one from the text, with or without
  the prefix \<open>0x\<close>, gives the number back, whatever the array held before.
\<close>

theorem uint256_hex_roundtrip:
  assumes "wf256 x" and "length d = Width"
  shows "base_binary_hex d (get_hex x) = Some x \<and> base_binary_0x d ([48, 120] @ get_hex x) = Some x"
  using base_binary_hex_digits [of d x] assms
  by (cases x) (auto simp: get_hex_def wf256_def Width_def simp del: convert_to_hex.simps)

theorem uint256_hex_roundtrip_witness:
  "base_binary_hex (replicate Width 7) (get_hex (base_binary_fill 0xAB)) = Some (base_binary_fill 0xAB)"
  using uint256_hex_roundtrip [of "base_binary_fill 0xAB" "replicate Width 7"]
  by (simp add: wf256_def base_binary_fill_def)

text \<open>
  An odd number of digits. The constructor accepts the text and drops its last digit: the result
  is that of the text without it.
\<close>

theorem uint256_odd_digit_dropped:
  assumes "length d = Width" and "length bs < Width" and "hex_val c \<noteq> None"
  shows "base_binary_hex d (convert_to_hex bs @ [c]) = base_binary_hex d (convert_to_hex bs)"
  using base_binary_hex_odd [OF assms(1,2)] base_binary_hex_digits(1) [of d bs] assms by auto

theorem uint256_odd_digit_dropped_witness:
  "base_binary_hex (replicate Width 0) (convert_to_hex [18] @ [51]) =
   base_binary_hex (replicate Width 0) (convert_to_hex [18])"
  using uint256_odd_digit_dropped [of "replicate Width 0" "[18]" 51]
  by (simp add: hex_val_def Width_def word_le_nat_alt)

text \<open>
  \<open>operator<\<close> and \<open>operator==\<close> on 256 bit numbers are a strict total order and its equality, as
  the keys of an ordered map require.
\<close>

theorem uint256_order:
  assumes "wf256 a" and "wf256 b" and "wf256 c"
  shows "(uint256_eq a b \<longleftrightarrow> a = b) \<and> \<not> uint256_less a a \<and>
    (uint256_less a b \<or> a = b \<or> uint256_less b a) \<and>
    (uint256_less a b \<and> uint256_less b c \<longrightarrow> uint256_less a c)"
proof -
  have l: "length a = length b" "length b = length c" and t: "take Width a = a" "take Width b = b" "take Width c = c"
    using assms by (simp_all add: wf256_def)
  have "memcmp a b < 0 \<or> a = b \<or> memcmp b a < 0"
    using memcmp_swap [OF l(1)] memcmp_eq [OF l(1)] by linarith
  then show ?thesis
    using memcmp_trans [OF l] memcmp_eq [OF l(1)]
    by (auto simp: uint256_eq_def uint256_less_def Compare_def t)
qed

theorem uint256_order_witness:
  "uint256_less (base_binary_fill 0) (base_binary_fill 1) \<or> uint256_less (base_binary_fill 1) (base_binary_fill 0)"
proof -
  have "base_binary_fill 0 \<noteq> base_binary_fill 1" by (simp add: base_binary_fill_def Width_def)
  then show ?thesis
    using uint256_order [of "base_binary_fill 0" "base_binary_fill 1" "base_binary_fill 1"]
    by (simp add: wf256_def base_binary_fill_def)
qed

lemma uint256_has_type: "wf256 x \<Longrightarrow> has_type K uint256_type (uint256_val x)"
  by (simp add: uint256_type_def uint256_val_def wf256_def list_all_iff limit_defs Width_def)

text \<open>
  Serialization of a 256 bit number: \<open>serialize\<close> appends 70 bytes on either host and
  \<open>deserialize\<close> returns the same number.
\<close>

theorem uint256_serialized:
  assumes "wf256 x" and "writable h s" and "readPosition s = length (byteStream s)"
  shows "\<exists>s'. input_val (uint256_val x) s = (s', Inr ()) \<and>
    length (byteStream s') = length (byteStream s) + 70 \<and>
    output_val std_ops uint256_type s' =
      (s'\<lparr>readPosition := length (byteStream s')\<rparr>, Inr (uint256_val x))"
proof -
  have t: "has_type std_ops uint256_type (uint256_val x)"
    using assms(1) by (rule uint256_has_type)
  have p: "portable uint256_type" by (simp add: uint256_type_def)
  have "length (concat (map enc (map VUChar xs))) = 2 * length xs" for xs
    by (induction xs) simp_all
  then have "length (enc (uint256_val x)) = 70"
    using assms(1) by (simp add: uint256_val_def wf256_def Width_def le4_def)
  moreover obtain s' r where "input_val (uint256_val x) s = (s', r)" by fastforce
  ultimately show ?thesis
    using input_output_val [OF _ t disjI2 [OF p] assms(2,3)] std.key_order_axioms
    by (auto simp: std_ops_def)
qed

theorem uint256_serialized_witness:
  "\<exists>s'. input_val (uint256_val base_binary_default) (new_serializer BigEndian) = (s', Inr ()) \<and>
    length (byteStream s') = 70 \<and>
    output_val std_ops uint256_type s' =
      (s'\<lparr>readPosition := length (byteStream s')\<rparr>, Inr (uint256_val base_binary_default))"
  using uint256_serialized [of base_binary_default BigEndian "new_serializer BigEndian"]
  by (simp add: wf256_def base_binary_default_def writable_def new_serializer_def
      getByteSequence_host limit_defs)

end
