(* ===== verification/Merkle_Tree.thy ===== *)
theory Merkle_Tree
  imports Uint256
begin

text \<open>
  The class \<open>merkle_tree\<close> of \<open>src/include/db\<close>: the padding to a power of two, the three
  computations of the root (recursive on a vector, iterative on a queue and on a list), the
  generation of a proof and its verification. The digest \<open>sha3_256\<close> of the OpenSSL library is a
  parameter; two nodes combine as the digest of their byte-wise sum. \<open>None\<close> is the undefined
  behaviour of \<open>front()\<close> on an empty container.
\<close>

section \<open>Padding\<close>

text \<open>The loop of \<open>distance_power_of_2_n\<close> on \<open>uint32_t\<close>.\<close>

function distance_loop :: "u32 \<Rightarrow> u32 \<Rightarrow> u32" where
  "distance_loop n distance =
     (if 0 < n then distance_loop (drop_bit 1 n) (distance * 2) else distance)"
  by pat_completeness auto
termination
proof (relation "measure (\<lambda>(n, d). unat n)")
  fix n d :: u32 assume "0 < n"
  then have "unat (drop_bit 1 n) < unat n"
    by (simp add: drop_bit_eq_div unat_div unat_gt_0 flip: word_neq_0_conv)
  then show "((drop_bit 1 n, d * 2), (n, d)) \<in> measure (\<lambda>(n, d). unat n)" by simp
qed simp

declare distance_loop.simps [simp del]

definition distance_power_of_2_n :: "u32 \<Rightarrow> int" where
  "distance_power_of_2_n n =
     (if n = 0 then -1
      else if and n (n - 1) = 0 then 0
      else sint (distance_loop n 1 - n))"

text \<open>The last leaf is appended as often as the distance says.\<close>

definition pad_leaves :: "uint256 list \<Rightarrow> uint256 list" where
  "pad_leaves collection =
     (let distance = distance_power_of_2_n (word_of_nat (length collection))
      in if 0 < distance then collection @ replicate (nat distance) (last collection)
         else collection)"

section \<open>Roots\<close>

definition combine :: "(byte list \<Rightarrow> byte list) \<Rightarrow> uint256 \<Rightarrow> uint256 \<Rightarrow> uint256" where
  "combine sha3 left right = get_sha3_256 sha3 (uint256_plus left right)"

text \<open>The index loop of the worker on a vector: a last node without a partner is left out.\<close>

fun vector_level :: "(byte list \<Rightarrow> byte list) \<Rightarrow> uint256 list \<Rightarrow> uint256 list" where
  "vector_level sha3 (left # right # collection) =
     combine sha3 left right # vector_level sha3 collection"
| "vector_level sha3 _ = []"

lemma length_vector_level [simp]: "length (vector_level sha3 xs) = length xs div 2"
  by (induction sha3 xs rule: vector_level.induct) auto

function get_merkle_root_worker :: "(byte list \<Rightarrow> byte list) \<Rightarrow> uint256 list \<Rightarrow> uint256" where
  "get_merkle_root_worker sha3 collection =
     (if collection = [] then base_binary_fill 0
      else if length collection = 1 then collection ! 0
      else get_merkle_root_worker sha3 (vector_level sha3 collection))"
  by pat_completeness auto
termination
  by (relation "measure (\<lambda>(sha3, xs). length xs)") (auto simp: Suc_lessI)

declare get_merkle_root_worker.simps [simp del]

definition get_merkle_root_vector :: "(byte list \<Rightarrow> byte list) \<Rightarrow> uint256 list \<Rightarrow> uint256" where
  "get_merkle_root_vector sha3 collection =
     (if collection = [] then base_binary_fill 0
      else if length collection = 1 then collection ! 0
      else get_merkle_root_worker sha3 (pad_leaves collection))"

text \<open>The inner loop on a queue: two nodes are taken from the front until it is empty.\<close>

fun queue_level ::
  "(byte list \<Rightarrow> byte list) \<Rightarrow> uint256 list \<Rightarrow> uint256 list \<Rightarrow> uint256 list option" where
  "queue_level sha3 [] level = Some level"
| "queue_level sha3 [left] level = None"
| "queue_level sha3 (left # right # store_queue) level =
     queue_level sha3 store_queue (level @ [combine sha3 left right])"

lemma length_queue_level:
  "queue_level sha3 xs level = Some ys \<Longrightarrow> 2 * length ys = 2 * length level + length xs"
  by (induction sha3 xs level rule: queue_level.induct) auto

function queue_root :: "(byte list \<Rightarrow> byte list) \<Rightarrow> uint256 list \<Rightarrow> uint256 option" where
  "queue_root sha3 store_queue =
     (if 1 < length store_queue
      then case queue_level sha3 store_queue [] of
             None \<Rightarrow> None
           | Some level \<Rightarrow> queue_root sha3 level
      else if store_queue = [] then None else Some (hd store_queue))"
  by pat_completeness auto
termination
  by (relation "measure (\<lambda>(sha3, xs). length xs)") (auto dest!: length_queue_level)

declare queue_root.simps [simp del]

definition get_merkle_root_queue :: "(byte list \<Rightarrow> byte list) \<Rightarrow> uint256 list \<Rightarrow> uint256 option" where
  "get_merkle_root_queue sha3 store_queue =
     (if store_queue = [] then Some (base_binary_fill 0)
      else if length store_queue = 1 then Some (hd store_queue)
      else queue_root sha3 (pad_leaves store_queue))"

text \<open>The list version has the same loops on a \<open>std::list\<close>.\<close>

fun list_level ::
  "(byte list \<Rightarrow> byte list) \<Rightarrow> uint256 list \<Rightarrow> uint256 list \<Rightarrow> uint256 list option" where
  "list_level sha3 [] level = Some level"
| "list_level sha3 [left] level = None"
| "list_level sha3 (left # right # collection) level =
     list_level sha3 collection (level @ [combine sha3 left right])"

lemma list_level_queue: "list_level = queue_level"
proof (intro ext)
  show "list_level sha3 xs level = queue_level sha3 xs level" for sha3 xs level
    by (induction sha3 xs level rule: queue_level.induct) simp_all
qed

function list_root :: "(byte list \<Rightarrow> byte list) \<Rightarrow> uint256 list \<Rightarrow> uint256 option" where
  "list_root sha3 collection =
     (if 1 < length collection
      then case list_level sha3 collection [] of
             None \<Rightarrow> None
           | Some level \<Rightarrow> list_root sha3 level
      else if collection = [] then None else Some (hd collection))"
  by pat_completeness auto
termination
  by (relation "measure (\<lambda>(sha3, xs). length xs)")
     (auto simp: list_level_queue dest!: length_queue_level)

declare list_root.simps [simp del]

definition get_merkle_root_list :: "(byte list \<Rightarrow> byte list) \<Rightarrow> uint256 list \<Rightarrow> uint256 option" where
  "get_merkle_root_list sha3 collection =
     (if collection = [] then Some (base_binary_fill 0)
      else if length collection = 1 then Some (hd collection)
      else list_root sha3 (pad_leaves collection))"

section \<open>Proofs\<close>

text \<open>
  One level of \<open>get_merkle_proof\<close>: beside the next level it carries the node looked for and the
  proof so far. The comparison goes on with the parent after a match.
\<close>

fun proof_level ::
  "(byte list \<Rightarrow> byte list) \<Rightarrow> uint256 list \<Rightarrow> uint256 list \<times> uint256 \<times> uint256 list \<Rightarrow>
   (uint256 list \<times> uint256 \<times> uint256 list) option" where
  "proof_level sha3 [] st = Some st"
| "proof_level sha3 [left] st = None"
| "proof_level sha3 (left # right # collection) (level, tx_hash, pf) =
     (let inserted = combine sha3 left right;
          (tx_hash', pf') =
            (if uint256_eq left tx_hash then (inserted, pf @ [right])
             else if uint256_eq right tx_hash then (inserted, pf @ [left])
             else (tx_hash, pf))
      in proof_level sha3 collection (level @ [inserted], tx_hash', pf'))"

lemma proof_level_queue:
  "proof_level sha3 xs (level, tx, pf) = Some (level', tx', pf') \<Longrightarrow> queue_level sha3 xs level = Some level'"
  by (induction sha3 xs "(level, tx, pf)" arbitrary: level tx pf rule: proof_level.induct)
     (auto simp: Let_def split: if_splits)

function proof_loop ::
  "(byte list \<Rightarrow> byte list) \<Rightarrow> uint256 list \<Rightarrow> uint256 \<Rightarrow> uint256 list \<Rightarrow> uint256 list option" where
  "proof_loop sha3 collection tx_hash pf =
     (if 1 < length collection
      then case proof_level sha3 collection ([], tx_hash, pf) of
             None \<Rightarrow> None
           | Some (level, tx_hash', pf') \<Rightarrow> proof_loop sha3 level tx_hash' pf'
      else if collection = [] then None else Some (pf @ [last collection]))"
  by pat_completeness auto
termination
  by (relation "measure (\<lambda>(sha3, xs, tx, pf). length xs)")
     (auto dest!: proof_level_queue length_queue_level)

declare proof_loop.simps [simp del]

definition get_merkle_proof ::
  "(byte list \<Rightarrow> byte list) \<Rightarrow> uint256 \<Rightarrow> uint256 list \<Rightarrow> int \<Rightarrow> uint256 list option" where
  "get_merkle_proof sha3 tx_hash collection index =
     (if collection = [] then Some []
      else if length collection = 1 then Some [get_sha3_256 sha3 (hd collection)]
      else if index < 0 \<or> int (length collection) \<le> index then Some []
      else proof_loop sha3 (pad_leaves collection) tx_hash [])"

primrec verify_loop :: "(byte list \<Rightarrow> byte list) \<Rightarrow> uint256 list \<Rightarrow> uint256 \<Rightarrow> uint256" where
  "verify_loop sha3 [] target = target"
| "verify_loop sha3 (p # ps) target = verify_loop sha3 ps (combine sha3 target p)"

definition merkle_proof_verify ::
  "(byte list \<Rightarrow> byte list) \<Rightarrow> uint256 list \<Rightarrow> uint256 \<Rightarrow> uint256 \<Rightarrow> bool" where
  "merkle_proof_verify sha3 pf tx_hash root =
     (if pf = [] then False
      else if length pf = 1 then uint256_eq tx_hash root
      else if \<not> uint256_eq (last pf) root then False
      else uint256_eq (verify_loop sha3 (butlast pf) tx_hash) root)"

section \<open>Powers of two\<close>

fun bit_length :: "nat \<Rightarrow> nat" where
  "bit_length n = (if n = 0 then 0 else Suc (bit_length (n div 2)))"

declare bit_length.simps [simp del]

lemma bit_length_bounds: "n < 2 ^ bit_length n" "0 < n \<Longrightarrow> 2 ^ (bit_length n - 1) \<le> n"
proof (induction n rule: bit_length.induct)
  case (1 n)
  {
    case 1
    show ?case using "1.IH"(1) by (cases "n = 0") (auto simp: bit_length.simps [of n])
  next
    case 2
    show ?case
    proof (cases "n div 2 = 0")
      case True
      with 2 show ?thesis by (simp add: bit_length.simps [of n] bit_length.simps [of 0])
    next
      case False
      then have "0 < bit_length (n div 2)" by (simp add: bit_length.simps [of "n div 2"])
      moreover have "2 ^ (bit_length (n div 2) - 1) \<le> n div 2" using "1.IH"(2) 2 False by simp
      ultimately have "2 * 2 ^ (bit_length (n div 2) - 1) = (2 :: nat) ^ bit_length (n div 2)"
        by (metis Suc_diff_1 power_Suc)
      with \<open>2 ^ (bit_length (n div 2) - 1) \<le> n div 2\<close> 2 show ?thesis
        by (simp add: bit_length.simps [of n])
    qed
  }
qed

lemma distance_loop_value: "distance_loop n d = d * 2 ^ bit_length (unat n)"
proof (induction n d rule: distance_loop.induct)
  case (1 n d)
  show ?case
  proof (cases "0 < n")
    case True
    then have "bit_length (unat n) = Suc (bit_length (unat n div 2))"
      by (subst bit_length.simps) (simp add: unat_eq_0 word_gt_0)
    with True 1 show ?thesis
      by (simp add: distance_loop.simps [of n] drop_bit_eq_div unat_div)
  next
    case False
    then have "n = 0" by (simp add: word_gt_0)
    then show ?thesis by (simp add: distance_loop.simps [of 0] bit_length.simps [of 0])
  qed
qed

lemma and_pred_zero_iff:
  fixes m :: nat
  assumes "0 < m"
  shows "and m (m - 1) = 0 \<longleftrightarrow> m = 2 ^ (bit_length m - 1)"
proof
  let ?k = "bit_length m - 1"
  have b: "2 ^ ?k \<le> m" "m < 2 * 2 ^ ?k"
    using bit_length_bounds [of m] assms
    by (simp_all add: bit_length.simps [of m])
  assume z: "and m (m - 1) = 0"
  show "m = 2 ^ ?k"
  proof (rule ccontr)
    assume "m \<noteq> 2 ^ ?k"
    then have "2 ^ ?k \<le> m - 1" using b by simp
    then have "m div 2 ^ ?k = 1" "(m - 1) div 2 ^ ?k = 1"
      using b by (simp_all add: div_nat_eqI)
    then have "bit m ?k" "bit (m - 1) ?k" by (simp_all add: bit_iff_odd)
    then have "bit (and m (m - 1)) ?k" by (simp add: bit_and_iff)
    with z show False by simp
  qed
next
  assume "m = 2 ^ (bit_length m - 1)"
  then obtain k where m: "m = 2 ^ k" by blast
  have "and (2 ^ k) (mask k) = take_bit k (2 ^ k :: nat)" by (simp add: take_bit_eq_mask)
  then show "and m (m - 1) = 0" by (simp add: m mask_eq_exp_minus_1)
qed

lemma unat_pred: "n \<noteq> 0 \<Longrightarrow> unat (n - 1) = unat n - 1"
  by (simp add: unat_minus_one)

lemma sint_small: "unat (w :: u32) < 2 ^ 31 \<Longrightarrow> sint w = int (unat w)"
proof -
  assume "unat w < 2 ^ 31"
  then have "int (unat w) < int (2 ^ 31)" by (simp only: of_nat_less_iff)
  then have u: "int (unat w) < 2 ^ 31" by simp
  have "- (2 ^ 31) \<le> (0 :: int)" by simp
  also have "0 \<le> int (unat w)" by (rule of_nat_0_le_iff)
  finally have "signed_take_bit 31 (int (unat w)) = int (unat w)"
    using u by (rule signed_take_bit_int_eq_self)
  moreover have "sint w = signed_take_bit 31 (int (unat w))" using sint_uint [of w] by simp
  ultimately show ?thesis by simp
qed

text \<open>The distance leads to the least power of two that is not smaller.\<close>

lemma distance_value:
  assumes "n \<noteq> 0" and "unat n < 2 ^ 31"
  obtains k where "int (unat n) + distance_power_of_2_n n = 2 ^ k" and "0 \<le> distance_power_of_2_n n"
    and "unat n \<le> 2 ^ k" and "2 ^ k < 2 * unat n"
proof -
  let ?m = "unat n" and ?b = "bit_length (unat n)"
  have m: "0 < ?m" using assms(1) by (simp add: unat_gt_0)
  have b: "2 ^ (?b - 1) \<le> ?m" "?m < 2 ^ ?b" "(2 :: nat) ^ ?b = 2 * 2 ^ (?b - 1)"
    using bit_length_bounds [of ?m] m by (simp_all add: bit_length.simps [of ?m])
  have "unat (and n (n - 1)) = and ?m (?m - 1)"
    using unat_pred [OF assms(1)] by (simp only: unsigned_and_eq)
  then have z: "and n (n - 1) = 0 \<longleftrightarrow> ?m = 2 ^ (?b - 1)"
    using and_pred_zero_iff [OF m] unat_eq_zero [of "and n (n - 1)"] by simp
  show thesis
  proof (cases "?m = 2 ^ (?b - 1)")
    case True
    then have "distance_power_of_2_n n = 0" using z assms(1) by (simp add: distance_power_of_2_n_def)
    moreover have "int ?m = 2 ^ (?b - 1)" using arg_cong [OF True, of int] by simp
    ultimately show thesis using m b that [of "?b - 1"] True by linarith
  next
    case False
    have "(2 :: nat) ^ (?b - 1) < 2 ^ 31" using b(1) assms(2) by linarith
    then have "?b - 1 < 31" by (rule power_less_imp_less_exp [rotated]) simp
    then have "?b < 32" by simp
    then have "(2 :: nat) ^ ?b < 2 ^ 32" by (rule power_strict_increasing) simp
    then have p: "unat (2 ^ ?b :: u32) = 2 ^ ?b"
      using unat_of_nat [of "2 ^ ?b", where 'a = 32] by simp
    then have "n \<le> 2 ^ ?b" using b(2) by (simp add: word_le_nat_alt)
    then have u: "unat (2 ^ ?b - n) = 2 ^ ?b - ?m" using p by (simp add: unat_sub)
    have "2 ^ ?b - ?m < 2 ^ 31" using b assms(2) \<open>2 ^ (?b - 1) < 2 ^ 31\<close> by linarith
    then have d: "distance_power_of_2_n n = int (2 ^ ?b - ?m)"
      using False z assms(1) u
      by (simp add: distance_power_of_2_n_def distance_loop_value sint_small)
    have "int ?m + int (2 ^ ?b - ?m) = int (2 ^ ?b)"
      by (simp only: of_nat_add [symmetric] le_add_diff_inverse less_imp_le [OF b(2)])
    then have "int ?m + distance_power_of_2_n n = 2 ^ ?b" by (simp only: d of_nat_power of_nat_numeral)
    moreover have "0 \<le> distance_power_of_2_n n" by (simp only: d of_nat_0_le_iff)
    moreover have "2 ^ ?b < 2 * ?m" using b False by linarith
    ultimately show thesis using less_imp_le [OF b(2)] by (intro that [of ?b])
  qed
qed

lemma pad_leaves_length:
  assumes "xs \<noteq> []" and "length xs < 2 ^ 31"
  obtains k where "length (pad_leaves xs) = 2 ^ k" and "length xs \<le> 2 ^ k" and "2 ^ k < 2 * length xs"
    and "set (pad_leaves xs) = set xs" and "take (length xs) (pad_leaves xs) = xs"
proof -
  let ?n = "word_of_nat (length xs) :: u32"
  have u: "unat ?n = length xs" using assms(2) by (simp add: unat_of_nat)
  then have "?n \<noteq> 0" using assms(1) by (metis length_0_conv unat_eq_zero)
  then obtain k where k: "int (length xs) + distance_power_of_2_n ?n = 2 ^ k"
    "0 \<le> distance_power_of_2_n ?n" "length xs \<le> 2 ^ k" "2 ^ k < 2 * length xs"
    using distance_value [of ?n] u assms(2) by metis
  have "int (length xs + nat (distance_power_of_2_n ?n)) = int (2 ^ k)" using k(1,2) by simp
  then have "length xs + nat (distance_power_of_2_n ?n) = 2 ^ k" by (simp only: of_nat_eq_iff)
  then have "length (pad_leaves xs) = 2 ^ k" using k(2) by (auto simp: pad_leaves_def Let_def)
  moreover have "set (pad_leaves xs) = set xs" "take (length xs) (pad_leaves xs) = xs"
    using assms(1) by (auto simp: pad_leaves_def Let_def)
  ultimately show thesis using k that by blast
qed

section \<open>The three roots\<close>

text \<open>The reference: the root of a complete binary tree over \<open>2\<^sup>k\<close> leaves.\<close>

primrec tree_root :: "(byte list \<Rightarrow> byte list) \<Rightarrow> nat \<Rightarrow> uint256 list \<Rightarrow> uint256" where
  "tree_root sha3 0 xs = hd xs"
| "tree_root sha3 (Suc k) xs =
     combine sha3 (tree_root sha3 k (take (2 ^ k) xs)) (tree_root sha3 k (drop (2 ^ k) xs))"

lemma vector_level_append:
  "even (length xs) \<Longrightarrow> vector_level sha3 (xs @ ys) = vector_level sha3 xs @ vector_level sha3 ys"
  by (induction sha3 xs rule: vector_level.induct) auto

lemma tree_root_level:
  "length xs = 2 ^ Suc k \<Longrightarrow> tree_root sha3 k (vector_level sha3 xs) = tree_root sha3 (Suc k) xs"
proof (induction k arbitrary: xs)
  case 0
  then obtain a b where "xs = [a, b]" by (auto simp: numeral_2_eq_2 length_Suc_conv)
  then show ?case by simp
next
  case (Suc k)
  let ?l = "take (2 ^ Suc k) xs" and ?r = "drop (2 ^ Suc k) xs"
  have len: "length ?l = 2 ^ Suc k" "length ?r = 2 ^ Suc k" using Suc.prems by simp_all
  have "vector_level sha3 xs = vector_level sha3 ?l @ vector_level sha3 ?r"
    using vector_level_append [of ?l sha3 ?r] len by simp
  then have "tree_root sha3 (Suc k) (vector_level sha3 xs) =
      combine sha3 (tree_root sha3 k (vector_level sha3 ?l)) (tree_root sha3 k (vector_level sha3 ?r))"
    using len by simp
  also have "\<dots> = tree_root sha3 (Suc (Suc k)) xs"
    using Suc.IH [OF len(1)] Suc.IH [OF len(2)] by simp
  finally show ?case .
qed

lemma worker_tree: "length xs = 2 ^ k \<Longrightarrow> get_merkle_root_worker sha3 xs = tree_root sha3 k xs"
proof (induction k arbitrary: xs)
  case 0
  then show ?case by (cases xs) (auto simp: get_merkle_root_worker.simps)
next
  case (Suc k)
  have "length xs \<noteq> 1" "xs \<noteq> []" using Suc.prems by auto
  then have "get_merkle_root_worker sha3 xs = get_merkle_root_worker sha3 (vector_level sha3 xs)"
    by (subst get_merkle_root_worker.simps) simp
  also have "\<dots> = tree_root sha3 k (vector_level sha3 xs)" using Suc by simp
  also have "\<dots> = tree_root sha3 (Suc k) xs" using Suc.prems by (rule tree_root_level)
  finally show ?case .
qed

lemma queue_level_even: "even (length xs) \<Longrightarrow> queue_level sha3 xs level = Some (level @ vector_level sha3 xs)"
  by (induction sha3 xs level rule: queue_level.induct) auto

lemma queue_root_tree: "length xs = 2 ^ k \<Longrightarrow> queue_root sha3 xs = Some (tree_root sha3 k xs)"
proof (induction k arbitrary: xs)
  case 0
  then show ?case by (auto simp: queue_root.simps)
next
  case (Suc k)
  have "1 < length xs" using Suc.prems by (simp add: less_2_cases_iff Suc_lessI)
  then have "queue_root sha3 xs = queue_root sha3 (vector_level sha3 xs)"
    using Suc.prems by (subst queue_root.simps) (simp add: queue_level_even)
  also have "\<dots> = Some (tree_root sha3 k (vector_level sha3 xs))" using Suc by simp
  finally show ?case using tree_root_level [OF Suc.prems] by simp
qed

lemma list_root_queue: "list_root sha3 xs = queue_root sha3 xs"
proof (induction sha3 xs rule: queue_root.induct)
  case (1 sha3 xs)
  then show ?case
    by (subst list_root.simps, subst queue_root.simps) (auto simp: list_level_queue split: option.split)
qed

lemma roots_tree:
  assumes "2 \<le> length xs" and "length xs < 2 ^ 31" and "length (pad_leaves xs) = 2 ^ k"
  shows "get_merkle_root_vector sha3 xs = tree_root sha3 k (pad_leaves xs)"
    and "get_merkle_root_queue sha3 xs = Some (tree_root sha3 k (pad_leaves xs))"
    and "get_merkle_root_list sha3 xs = Some (tree_root sha3 k (pad_leaves xs))"
  using assms
  by (auto simp: get_merkle_root_vector_def get_merkle_root_queue_def get_merkle_root_list_def
      worker_tree queue_root_tree list_root_queue)

section \<open>Proofs\<close>

text \<open>What is known of the digest: it has 32 bytes.\<close>

definition digest_bytes :: "(byte list \<Rightarrow> byte list) \<Rightarrow> bool" where
  "digest_bytes sha3 \<longleftrightarrow> (\<forall>x. length (sha3 x) = 32)"

lemma wf256_combine: "digest_bytes sha3 \<Longrightarrow> wf256 (combine sha3 a b)"
  by (simp add: combine_def get_sha3_256_def digest_bytes_def wf256_def Width_def)

lemma combine_commute: "combine sha3 a b = combine sha3 b a"
  by (simp add: combine_def uint256_plus_commute [of a])

lemma uint256_eq_iff: "wf256 a \<Longrightarrow> wf256 b \<Longrightarrow> uint256_eq a b \<longleftrightarrow> a = b"
  by (simp add: uint256_eq_def Compare_def wf256_def memcmp_eq)

lemma wf256_level: "digest_bytes sha3 \<Longrightarrow> list_all wf256 (vector_level sha3 xs)"
  by (induction sha3 xs rule: vector_level.induct) (auto simp: wf256_combine)

lemma verify_loop_append: "verify_loop sha3 (ps @ qs) t = verify_loop sha3 qs (verify_loop sha3 ps t)"
  by (induction ps arbitrary: t) simp_all

text \<open>
  A level keeps the node looked for among the nodes of the next level and extends the proof by
  siblings that lead from the node to it.
\<close>

lemma proof_level_step:
  assumes "digest_bytes sha3" and "wf256 l" and "wf256 r" and "wf256 tx"
  obtains t e where "proof_level sha3 (l # r # xs) (level, tx, pf) =
      proof_level sha3 xs (level @ [combine sha3 l r], t, pf @ e)"
    and "verify_loop sha3 e tx = t" and "wf256 t"
    and "t = combine sha3 l r \<and> e \<noteq> [] \<or> t = tx \<and> e = [] \<and> tx \<noteq> l \<and> tx \<noteq> r"
proof -
  let ?p = "combine sha3 l r"
  have wf: "wf256 ?p" using assms(1) by (rule wf256_combine)
  consider "tx = l" | "tx \<noteq> l" "tx = r" | "tx \<noteq> l" "tx \<noteq> r" by blast
  then show thesis
  proof cases
    case 1
    with assms wf that [of ?p "[r]"] show thesis by (simp add: uint256_eq_iff Let_def)
  next
    case 2
    with assms wf that [of ?p "[l]"] show thesis
      by (simp add: uint256_eq_iff combine_commute [of sha3 r l] Let_def)
  next
    case 3
    with assms that [of tx "[]"] show thesis by (simp add: uint256_eq_iff Let_def)
  qed
qed

lemma proof_level_sound:
  assumes "digest_bytes sha3" and "even (length xs)" and "list_all wf256 xs" and "wf256 tx"
  shows "\<exists>tx' ext. proof_level sha3 xs (level, tx, pf) = Some (level @ vector_level sha3 xs, tx', pf @ ext) \<and>
    verify_loop sha3 ext tx = tx' \<and> wf256 tx' \<and> (tx \<in> set xs \<longrightarrow> ext \<noteq> []) \<and>
    (tx \<in> set xs \<union> set level \<longrightarrow> tx' \<in> set (level @ vector_level sha3 xs))"
  using assms
proof (induction sha3 xs arbitrary: level tx pf rule: vector_level.induct)
  case (1 sha3 l r xs)
  let ?p = "combine sha3 l r"
  obtain t e where t: "proof_level sha3 (l # r # xs) (level, tx, pf) =
      proof_level sha3 xs (level @ [?p], t, pf @ e)" "verify_loop sha3 e tx = t" "wf256 t"
    "t = ?p \<and> e \<noteq> [] \<or> t = tx \<and> e = [] \<and> tx \<noteq> l \<and> tx \<noteq> r"
    using proof_level_step [of sha3 l r tx xs level pf] 1 by auto
  obtain t2 e2 where t2: "proof_level sha3 xs (level @ [?p], t, pf @ e) =
      Some ((level @ [?p]) @ vector_level sha3 xs, t2, (pf @ e) @ e2)"
    "verify_loop sha3 e2 t = t2" "wf256 t2" "t \<in> set xs \<longrightarrow> e2 \<noteq> []"
    "t \<in> set xs \<union> set (level @ [?p]) \<longrightarrow> t2 \<in> set ((level @ [?p]) @ vector_level sha3 xs)"
    using "1.IH" [of t "level @ [?p]" "pf @ e"] "1.prems" t(3) by auto
  show ?case
    unfolding t(1)
    using t(2-4) t2 by (intro exI [of _ t2] exI [of _ "e @ e2"]) (auto simp: verify_loop_append)
qed auto

lemma proof_loop_sound:
  assumes "digest_bytes sha3"
  shows "length xs = 2 ^ k \<Longrightarrow> 0 < k \<Longrightarrow> list_all wf256 xs \<Longrightarrow> tx \<in> set xs \<Longrightarrow>
    \<exists>ext. proof_loop sha3 xs tx pf = Some (pf @ ext @ [tree_root sha3 k xs]) \<and> ext \<noteq> [] \<and>
      verify_loop sha3 ext tx = tree_root sha3 k xs"
proof (induction k arbitrary: xs tx pf)
  case (Suc k)
  have "wf256 tx" using Suc.prems by (auto simp: list_all_iff)
  then obtain t e where t: "proof_level sha3 xs ([], tx, pf) = Some (vector_level sha3 xs, t, pf @ e)"
    "verify_loop sha3 e tx = t" "e \<noteq> []" "t \<in> set (vector_level sha3 xs)"
    using proof_level_sound [OF assms, of xs tx "[]" pf] Suc.prems by auto
  have "1 < length xs" using Suc.prems by (simp add: less_2_cases_iff Suc_lessI)
  then have step: "proof_loop sha3 xs tx pf = proof_loop sha3 (vector_level sha3 xs) t (pf @ e)"
    using t(1) by (subst proof_loop.simps) simp
  have len: "length (vector_level sha3 xs) = 2 ^ k" using Suc.prems(1) by simp
  have root: "tree_root sha3 k (vector_level sha3 xs) = tree_root sha3 (Suc k) xs"
    using Suc.prems(1) by (rule tree_root_level)
  show ?case
  proof (cases "k = 0")
    case True
    then obtain r where r: "vector_level sha3 xs = [r]" using len by (metis One_nat_def length_0_conv length_Suc_conv power_0)
    with t(4) have "t = r" by simp
    have "tree_root sha3 (Suc k) xs = r" by (metis root True r tree_root.simps(1) list.sel(1))
    then show ?thesis
      unfolding step r
      using t(2,3) \<open>t = r\<close> by (intro exI [of _ e]) (simp add: proof_loop.simps [of sha3 "[r]"])
  next
    case False
    then obtain x where "proof_loop sha3 (vector_level sha3 xs) t (pf @ e) =
        Some ((pf @ e) @ x @ [tree_root sha3 (Suc k) xs])" "verify_loop sha3 x t = tree_root sha3 (Suc k) xs"
      using Suc.IH [OF len _ wf256_level [OF assms] t(4), of "pf @ e"] unfolding root by blast
    with step t show ?thesis
      by (intro exI [of _ "e @ x"]) (simp add: verify_loop_append del: tree_root.simps)
  qed
qed simp

text \<open>The root of two or more leaves is the digest of a sum.\<close>

lemma root_is_digest:
  assumes "digest_bytes sha3" and "2 \<le> length xs" and "length xs < 2 ^ 31" and "list_all wf256 xs"
  obtains l r where "wf256 l" and "wf256 r" and "get_merkle_root_vector sha3 xs = combine sha3 l r"
proof -
  have "xs \<noteq> []" using assms(2) by auto
  then obtain k where k: "length (pad_leaves xs) = 2 ^ k" "length xs \<le> 2 ^ k" "set (pad_leaves xs) = set xs"
    using assms(3) by (rule pad_leaves_length)
  with assms(2) obtain j where j: "k = Suc j" by (cases k) auto
  have wf: "list_all wf256 (pad_leaves xs)" using assms(4) k(3) by (simp add: list_all_iff)
  have t: "wf256 (tree_root sha3 i ys)" if "list_all wf256 ys" "length ys = 2 ^ i" for i ys
    using that by (cases i; cases ys) (auto simp: wf256_combine [OF assms(1)])
  have "list_all wf256 (take (2 ^ j) (pad_leaves xs))" "list_all wf256 (drop (2 ^ j) (pad_leaves xs))"
    using wf by (auto simp: list_all_iff dest: in_set_takeD in_set_dropD)
  moreover have "length (take (2 ^ j) (pad_leaves xs)) = 2 ^ j" "length (drop (2 ^ j) (pad_leaves xs)) = 2 ^ j"
    using k(1) j by simp_all
  ultimately show thesis
    using that [OF t t] roots_tree(1) [OF assms(2,3) k(1), of sha3] j by simp
qed

section \<open>Properties\<close>

lemma short_collection: "\<not> 2 \<le> length xs \<Longrightarrow> xs = [] \<or> (\<exists>x. xs = [x])"
  by (cases xs; cases "tl xs") auto

lemma root_vector_tree:
  assumes "length xs < 2 ^ 31"
  shows "2 \<le> length xs \<longrightarrow> (\<exists>k. length (pad_leaves xs) = 2 ^ k \<and>
    get_merkle_root_vector sha3 xs = tree_root sha3 k (pad_leaves xs))"
proof
  assume l: "2 \<le> length xs"
  then have "xs \<noteq> []" by auto
  then obtain k where "length (pad_leaves xs) = 2 ^ k" using assms by (rule pad_leaves_length)
  with roots_tree(1) [OF l assms this, of sha3]
  show "\<exists>k. length (pad_leaves xs) = 2 ^ k \<and> get_merkle_root_vector sha3 xs = tree_root sha3 k (pad_leaves xs)" by auto
qed

lemma root_queue_vector:
  assumes "length xs < 2 ^ 31"
  shows "get_merkle_root_queue sha3 xs = Some (get_merkle_root_vector sha3 xs)"
proof (cases "2 \<le> length xs")
  case True
  then show ?thesis using root_vector_tree [OF assms, of sha3] roots_tree(2) [OF True assms] by auto
next
  case False
  then show ?thesis
    using short_collection [OF False] by (auto simp: get_merkle_root_vector_def get_merkle_root_queue_def)
qed

lemma root_list_vector:
  assumes "length xs < 2 ^ 31"
  shows "get_merkle_root_list sha3 xs = Some (get_merkle_root_vector sha3 xs)"
proof (cases "2 \<le> length xs")
  case True
  then show ?thesis using root_vector_tree [OF assms, of sha3] roots_tree(3) [OF True assms] by auto
next
  case False
  then show ?thesis
    using short_collection [OF False] by (auto simp: get_merkle_root_vector_def get_merkle_root_list_def)
qed

text \<open>
  C35 The recursive, the queue based and the list based computation of the root agree on every
  collection of fewer than \<open>2\<^sup>3\<^sup>1\<close> leaves and never take from an empty container; on two or more
  leaves they give the root of the complete binary tree over the leaves padded to a power of two.
\<close>

theorem merkle_roots_agree:
  assumes "length xs < 2 ^ 31"
  shows "get_merkle_root_queue sha3 xs = Some (get_merkle_root_vector sha3 xs) \<and>
    get_merkle_root_list sha3 xs = Some (get_merkle_root_vector sha3 xs) \<and>
    (2 \<le> length xs \<longrightarrow> (\<exists>k. length (pad_leaves xs) = 2 ^ k \<and>
       get_merkle_root_vector sha3 xs = tree_root sha3 k (pad_leaves xs)))"
  using root_queue_vector [OF assms] root_list_vector [OF assms] root_vector_tree [OF assms] by blast

abbreviation "toy_digest \<equiv> (\<lambda>x. take 32 (rev x @ replicate 32 1)) :: byte list \<Rightarrow> byte list"

lemma toy_digest_bytes: "digest_bytes toy_digest"
  by (auto simp: digest_bytes_def)

abbreviation "three_leaves \<equiv> [base_binary_fill 1, base_binary_fill 2, base_binary_fill 3]"

theorem merkle_roots_agree_witness:
  "get_merkle_root_queue toy_digest three_leaves = Some (get_merkle_root_vector toy_digest three_leaves)"
  using merkle_roots_agree [of three_leaves toy_digest] by simp

text \<open>
  Padding: for a non-empty collection of fewer than \<open>2\<^sup>3\<^sup>1\<close> leaves, the distance computed on
  \<open>uint32_t\<close> pads it with copies of its last leaf to the least power of two that is not smaller.
\<close>

theorem merkle_padding:
  assumes "xs \<noteq> []" and "length xs < 2 ^ 31"
  shows "\<exists>k. length (pad_leaves xs) = 2 ^ k \<and> length xs \<le> 2 ^ k \<and> 2 ^ k < 2 * length xs \<and>
    take (length xs) (pad_leaves xs) = xs \<and> set (pad_leaves xs) = set xs"
  using pad_leaves_length [OF assms] by metis

theorem merkle_padding_witness:
  "\<exists>k. length (pad_leaves three_leaves) = 2 ^ k \<and> 3 \<le> (2 :: nat) ^ k \<and> (2 :: nat) ^ k < 6"
  using merkle_padding [of three_leaves] by force

lemma proof_accepted:
  assumes "digest_bytes sha3" and "2 \<le> length xs" and "length xs < 2 ^ 31" and "list_all wf256 xs"
    and "tx \<in> set xs" and "0 \<le> index" and "index < int (length xs)"
  shows "\<exists>pf. get_merkle_proof sha3 tx xs index = Some pf \<and>
    merkle_proof_verify sha3 pf tx (get_merkle_root_vector sha3 xs)"
proof -
  have "xs \<noteq> []" using assms(2) by auto
  then obtain k where k: "length (pad_leaves xs) = 2 ^ k" "length xs \<le> 2 ^ k" "set (pad_leaves xs) = set xs"
    using assms(3) by (rule pad_leaves_length)
  then have "0 < k" using assms(2) by (cases k) auto
  moreover have "list_all wf256 (pad_leaves xs)" using assms(4) k(3) by (simp add: list_all_iff)
  ultimately obtain ext where e: "proof_loop sha3 (pad_leaves xs) tx [] =
      Some (ext @ [tree_root sha3 k (pad_leaves xs)])" "ext \<noteq> []"
    "verify_loop sha3 ext tx = tree_root sha3 k (pad_leaves xs)"
    using proof_loop_sound [OF assms(1) k(1), where tx = tx and pf = "[]"] assms(5) k(3) by auto
  moreover have "get_merkle_proof sha3 tx xs index = proof_loop sha3 (pad_leaves xs) tx []"
    using assms by (auto simp: get_merkle_proof_def)
  ultimately show ?thesis
    using roots_tree(1) [OF assms(2,3) k(1), of sha3]
    by (simp add: merkle_proof_verify_def uint256_eq_def Compare_def)
qed

text \<open>
  C14 Completeness of proofs. For a transaction among two or more leaves, and any index in range,
  \<open>get_merkle_proof\<close> returns a proof that \<open>merkle_proof_verify\<close> accepts against the root. The only
  assumption on the digest is its length.
\<close>

theorem merkle_proof_complete:
  assumes "digest_bytes sha3" and "2 \<le> length xs" and "length xs < 2 ^ 31" and "list_all wf256 xs"
    and "tx \<in> set xs" and "0 \<le> index" and "index < int (length xs)"
  shows "\<exists>pf. get_merkle_proof sha3 tx xs index = Some pf \<and>
    merkle_proof_verify sha3 pf tx (get_merkle_root_vector sha3 xs)"
  using proof_accepted [OF assms] .

theorem merkle_proof_complete_witness:
  "\<exists>pf. get_merkle_proof toy_digest (base_binary_fill 3) three_leaves 2 = Some pf \<and>
    merkle_proof_verify toy_digest pf (base_binary_fill 3) (get_merkle_root_vector toy_digest three_leaves)"
  using merkle_proof_complete [OF toy_digest_bytes, of three_leaves "base_binary_fill 3" 2]
  by (simp add: wf256_def base_binary_fill_def)

text \<open>
  C38 Proofs do not establish membership. Nodes combine by a byte-wise sum, which has an inverse:
  against the root of any two or more leaves, every 32 byte transaction hash, among the leaves or
  not, has a proof that \<open>merkle_proof_verify\<close> accepts. The digest need not be broken for it.
\<close>

theorem merkle_proof_forgery:
  assumes "digest_bytes sha3" and "2 \<le> length xs" and "length xs < 2 ^ 31" and "list_all wf256 xs"
    and "wf256 tx"
  shows "\<exists>pf. list_all wf256 pf \<and> merkle_proof_verify sha3 pf tx (get_merkle_root_vector sha3 xs)"
proof -
  obtain l r where lr: "wf256 l" "wf256 r" "get_merkle_root_vector sha3 xs = combine sha3 l r"
    using assms(1-4) by (rule root_is_digest)
  let ?q = "uint256_minus (uint256_plus l r) tx"
  have "combine sha3 tx ?q = combine sha3 l r"
    using uint256_plus_minus [OF assms(5) wf256_plus [OF lr(1,2)]] by (simp add: combine_def)
  then have "merkle_proof_verify sha3 [?q, combine sha3 l r] tx (combine sha3 l r)"
    by (simp add: merkle_proof_verify_def uint256_eq_def Compare_def)
  moreover have "list_all wf256 [?q, combine sha3 l r]"
    using assms(1,5) lr by (simp add: wf256_combine wf256_minus wf256_plus)
  ultimately show ?thesis using lr(3) by metis
qed

theorem merkle_proof_forgery_witness:
  "\<exists>pf. list_all wf256 pf \<and>
    merkle_proof_verify toy_digest pf (base_binary_fill 9) (get_merkle_root_vector toy_digest three_leaves)"
  using merkle_proof_forgery [OF toy_digest_bytes, of three_leaves "base_binary_fill 9"]
  by (simp add: wf256_def base_binary_fill_def)

end
