(* ===== verification/Bloom_Filter.thy ===== *)
theory Bloom_Filter
  imports Uint256
begin

text \<open>
  The class \<open>bloom_filter\<close> and its stored form \<open>bloom_filter_store\<close> of \<open>src/include/db\<close>. The
  bit set is the set of the positions that are set. The digests \<open>md5\<close> and \<open>sha3_256\<close> of the
  OpenSSL library are parameters, as is the byte order of the host, which the hashes read from
  memory. The locale \<open>approximate_set\<close> is the contract of a filter: what was inserted is found.
\<close>

section \<open>Hashes\<close>

definition BLOOM_FILTER_HASH_COUNT :: nat where "BLOOM_FILTER_HASH_COUNT = 8"
definition BLOOM_FILTER_SIZE :: nat where "BLOOM_FILTER_SIZE = 524288"

definition seeds :: "u64 list" where
  "seeds = [95207074, 95671760, 71937200, 69017398, 79226824, 56713949, 29781914, 45285662]"

definition murmur_m :: u64 where "murmur_m = 0xc6a4a7935bd1e995"

text \<open>The loop over the 8 byte blocks of the key.\<close>

fun murmur_blocks :: "ByteSequence \<Rightarrow> nat \<Rightarrow> byte list \<Rightarrow> u64 \<Rightarrow> u64" where
  "murmur_blocks e 0 data h = h"
| "murmur_blocks e (Suc n) data h =
     (let k = word_at e (take 8 data);
          k = k * murmur_m;
          k = xor k (drop_bit 47 k);
          k = k * murmur_m
      in murmur_blocks e n (drop 8 data) ((xor h k) * murmur_m))"

text \<open>The \<open>switch\<close> on the rest, whose cases fall through from the last byte to the first.\<close>

definition murmur_tail :: "nat \<Rightarrow> byte list \<Rightarrow> u64 \<Rightarrow> u64" where
  "murmur_tail rest data2 h =
     (if rest = 0 then h
      else fold (\<lambda>i h. xor h (push_bit (8 * i) (ucast (data2 ! i)))) (rev [0..<rest]) h * murmur_m)"

definition murmur_hash2_x64 :: "ByteSequence \<Rightarrow> byte list \<Rightarrow> u32 \<Rightarrow> u32 \<Rightarrow> u64" where
  "murmur_hash2_x64 e key len seed =
     (let h = xor (ucast seed) (ucast len * murmur_m);
          h = murmur_blocks e (unat len div 8) key h;
          h = murmur_tail (unat (and len 7)) (drop (8 * (unat len div 8)) key) h;
          h = xor h (drop_bit 47 h);
          h = h * murmur_m
      in xor h (drop_bit 47 h))"

definition md5_x64 :: "(byte list \<Rightarrow> byte list) \<Rightarrow> ByteSequence \<Rightarrow> byte list \<Rightarrow> u32 \<Rightarrow> u32 \<Rightarrow> u64" where
  "md5_x64 md5 e key len seed =
     (let store = md5 (take (unat len) key);
          top = word_at e (take 8 store) * ucast seed;
          bottom = word_at e (take 8 (drop 8 store)) * ucast seed
      in xor top bottom)"

definition get_bits_places :: "(byte list \<Rightarrow> byte list) \<Rightarrow> ByteSequence \<Rightarrow> u32 \<Rightarrow> nat list" where
  "get_bits_places md5 e value =
     (let key = mem_of e value
      in map (\<lambda>i. unat (murmur_hash2_x64 e key 4 (ucast (seeds ! i))) mod BLOOM_FILTER_SIZE) [0, 1, 2, 3] @
         map (\<lambda>i. unat (md5_x64 md5 e key 4 (ucast (seeds ! i))) mod BLOOM_FILTER_SIZE) [4, 5, 6, 7])"

section \<open>The filter\<close>

record bloom_filter =
  asset :: "nat set"
  filter_height :: u64
  filter_hash :: uint256

definition new_filter :: bloom_filter where
  "new_filter = \<lparr>asset = {}, filter_height = 0, filter_hash = base_binary_fill 0\<rparr>"

definition bloom_insert ::
  "(byte list \<Rightarrow> byte list) \<Rightarrow> ByteSequence \<Rightarrow> u32 \<Rightarrow> bloom_filter \<Rightarrow> bloom_filter \<times> bool" where
  "bloom_insert md5 e value f =
     (let place = get_bits_places md5 e value
      in if list_all (\<lambda>p. p \<in> asset f) place then (f, False)
         else (f\<lparr>asset := fold insert place (asset f)\<rparr>, True))"

definition bloom_test :: "(byte list \<Rightarrow> byte list) \<Rightarrow> ByteSequence \<Rightarrow> bloom_filter \<Rightarrow> u32 \<Rightarrow> bool" where
  "bloom_test md5 e f value = list_all (\<lambda>p. p \<in> asset f) (get_bits_places md5 e value)"

definition set_block_height :: "u64 \<Rightarrow> bloom_filter \<Rightarrow> bloom_filter" where
  "set_block_height height f = f\<lparr>filter_height := height\<rparr>"

definition set_block_hash :: "uint256 \<Rightarrow> bloom_filter \<Rightarrow> bloom_filter" where
  "set_block_hash hash f = f\<lparr>filter_hash := hash\<rparr>"

definition bloom_eq :: "bloom_filter \<Rightarrow> bloom_filter \<Rightarrow> bool" where
  "bloom_eq f g = list_all (\<lambda>i. (i \<in> asset f) = (i \<in> asset g)) [0..<BLOOM_FILTER_SIZE]"

section \<open>The stored form\<close>

record bloom_filter_store =
  store_height :: u64
  store_hash :: uint256
  bloom_filter_data :: "byte list"

text \<open>The loop that sets one bit of the buffer for each position, for a bit set of \<open>n\<close> bits.\<close>

definition pack_step :: "nat set \<Rightarrow> nat \<Rightarrow> byte list \<Rightarrow> byte list" where
  "pack_step s i buffer =
     (if i \<in> s then buffer[i div 8 := or (buffer ! (i div 8)) (push_bit (i mod 8) 1)] else buffer)"

definition pack_bits :: "nat \<Rightarrow> nat set \<Rightarrow> byte list" where
  "pack_bits n s = fold (pack_step s) [0..<n] (replicate ((n + 7) div 8) 0)"

text \<open>The loop back; \<open>std::string\<close> has a 0 behind its last character and nothing after it.\<close>

definition unpack_bits :: "nat \<Rightarrow> byte list \<Rightarrow> nat set option" where
  "unpack_bits n data =
     (if n \<le> 8 * (length data + 1)
      then Some (fold (\<lambda>i s. if and ((data @ [0]) ! (i div 8)) (push_bit (i mod 8) 1) \<noteq> 0
                         then insert i s else s) [0..<n] {})
      else None)"

definition to_store :: "bloom_filter \<Rightarrow> bloom_filter_store" where
  "to_store f = \<lparr>store_height = filter_height f, store_hash = filter_hash f,
     bloom_filter_data = pack_bits BLOOM_FILTER_SIZE (asset f)\<rparr>"

definition of_store :: "bloom_filter_store \<Rightarrow> bloom_filter option" where
  "of_store st = map_option (\<lambda>s. \<lparr>asset = s, filter_height = store_height st,
     filter_hash = store_hash st\<rparr>) (unpack_bits BLOOM_FILTER_SIZE (bloom_filter_data st))"

definition assign_store :: "bloom_filter_store \<Rightarrow> bloom_filter \<Rightarrow> bloom_filter option" where
  "assign_store st f = map_option (\<lambda>s. f\<lparr>asset := s, filter_height := store_height st,
     filter_hash := store_hash st\<rparr>) (unpack_bits BLOOM_FILTER_SIZE (bloom_filter_data st))"

definition bloom_get_hash :: "(byte list \<Rightarrow> byte list) \<Rightarrow> bloom_filter \<Rightarrow> uint256" where
  "bloom_get_hash sha3_256 f = sha3_256 (bloom_filter_data (to_store f))"

text \<open>\<open>MUSE_IBinarySerializable(block_hash, block_height, bloom_filter_data)\<close>.\<close>

definition store_val :: "bloom_filter_store \<Rightarrow> sval" where
  "store_val st = VClass [uint256_val (store_hash st), VUInt64 (store_height st), VString (bloom_filter_data st)]"

definition store_type :: cty where
  "store_type = TClass [uint256_type, TUInt64, TString]"

section \<open>Packing bits\<close>

lemma or_bit: "bit (or b (2 ^ j) :: byte) k \<longleftrightarrow> bit b k \<or> k = j \<and> k < 8"
  by (auto simp: bit_simps)

lemma pack_step_bit:
  assumes "m div 8 < length buffer"
  shows "length (pack_step s m buffer) = length buffer"
    and "bit (pack_step s m buffer ! (i div 8)) (i mod 8) \<longleftrightarrow> bit (buffer ! (i div 8)) (i mod 8) \<or> i = m \<and> m \<in> s"
proof -
  have "i = m \<longleftrightarrow> i div 8 = m div 8 \<and> i mod 8 = m mod 8" by (metis div_mult_mod_eq)
  with assms show "bit (pack_step s m buffer ! (i div 8)) (i mod 8) \<longleftrightarrow>
      bit (buffer ! (i div 8)) (i mod 8) \<or> i = m \<and> m \<in> s"
    by (auto simp: pack_step_def nth_list_update or_bit)
qed (simp add: pack_step_def)

lemma pack_loop:
  "m \<le> n \<Longrightarrow>
   length (fold (pack_step s) [0..<m] (replicate ((n + 7) div 8) 0)) = (n + 7) div 8 \<and>
   (\<forall>i < n. bit (fold (pack_step s) [0..<m] (replicate ((n + 7) div 8) 0) ! (i div 8)) (i mod 8)
      \<longleftrightarrow> i \<in> s \<and> i < m)"
proof (induction m)
  case 0
  have "i div 8 < (n + 7) div 8" if "i < n" for i using that by linarith
  then show ?case by simp
next
  case (Suc m)
  let ?b = "fold (pack_step s) [0..<m] (replicate ((n + 7) div 8) 0)"
  have IH: "length ?b = (n + 7) div 8" "\<And>i. i < n \<Longrightarrow> bit (?b ! (i div 8)) (i mod 8) \<longleftrightarrow> i \<in> s \<and> i < m"
    using Suc by simp_all
  have "m div 8 < length ?b" using IH(1) Suc.prems by linarith
  from pack_step_bit [OF this, of s] IH show ?case by (auto simp: less_Suc_eq)
qed

lemma length_pack_bits: "length (pack_bits n s) = (n + 7) div 8"
  using pack_loop [of n n s] by (simp add: pack_bits_def)

lemma bit_pack_bits: "i < n \<Longrightarrow> bit (pack_bits n s ! (i div 8)) (i mod 8) \<longleftrightarrow> i \<in> s"
  using pack_loop [of n n s] by (simp add: pack_bits_def)

lemma fold_insert_if: "fold (\<lambda>i s. if P i then insert i s else s) xs s = s \<union> {i \<in> set xs. P i}"
  by (induction xs arbitrary: s) auto

lemma and_bit_nonzero: "j < 8 \<Longrightarrow> and b (2 ^ j) \<noteq> (0 :: byte) \<longleftrightarrow> bit b j"
  by (subst bit_eq_iff) (auto simp: bit_simps)

lemma unpack_pack: "unpack_bits n (pack_bits n s) = Some (s \<inter> {..<n})"
proof -
  have "and ((pack_bits n s @ [0]) ! (i div 8)) (push_bit (i mod 8) 1) \<noteq> 0 \<longleftrightarrow> i \<in> s" if "i < n" for i
  proof -
    have "i div 8 < length (pack_bits n s)" using that by (simp add: length_pack_bits)
    then show ?thesis using that by (simp add: nth_append and_bit_nonzero bit_pack_bits)
  qed
  then have "{i \<in> set [0..<n]. and ((pack_bits n s @ [0]) ! (i div 8)) (push_bit (i mod 8) 1) \<noteq> 0} = s \<inter> {..<n}"
    by auto
  moreover have "n \<le> 8 * (length (pack_bits n s) + 1)" by (simp add: length_pack_bits)
  ultimately show ?thesis by (simp only: unpack_bits_def fold_insert_if if_True Un_empty_left)
qed

section \<open>What was inserted is found\<close>

text \<open>
  The contract of a filter: a value is found once it was inserted and never lost again, and
  \<open>insert\<close> reports whether it was not found before.
\<close>

locale approximate_set =
  fixes ins :: "'v \<Rightarrow> 'f \<Rightarrow> 'f \<times> bool"
    and tst :: "'f \<Rightarrow> 'v \<Rightarrow> bool"
  assumes found: "tst (fst (ins v f)) v"
    and kept: "tst f w \<Longrightarrow> tst (fst (ins v f)) w"
    and reported: "snd (ins v f) \<longleftrightarrow> \<not> tst f v"
begin

lemma insert_all_kept: "tst f w \<Longrightarrow> tst (fold (\<lambda>v f. fst (ins v f)) vs f) w"
  by (induction vs arbitrary: f) (simp_all add: kept)

lemma insert_all_found: "v \<in> set vs \<Longrightarrow> tst (fold (\<lambda>v f. fst (ins v f)) vs f) v"
proof (induction vs arbitrary: f)
  case (Cons w vs)
  then show ?case using insert_all_kept [OF found, of vs w f] by (cases "v = w") simp_all
qed simp

lemma second_insert: "\<not> snd (ins v (fst (ins v f)))"
  by (simp add: reported found)

end

lemma fold_insert: "fold insert xs s = s \<union> set xs"
  by (induction xs arbitrary: s) auto

interpretation bloom: approximate_set "bloom_insert md5 e" "bloom_test md5 e" for md5 e
  by unfold_locales
     (auto simp: bloom_insert_def bloom_test_def Let_def fold_insert list_all_iff)

text \<open>Every position is inside the bit set, so that \<open>bitset::test\<close> and \<open>bitset::set\<close> do not throw.\<close>

lemma places_in_range: "list_all (\<lambda>p. p < BLOOM_FILTER_SIZE) (get_bits_places md5 e value)"
  by (simp add: get_bits_places_def Let_def BLOOM_FILTER_SIZE_def)

definition wf_filter :: "bloom_filter \<Rightarrow> bool" where
  "wf_filter f \<longleftrightarrow> asset f \<subseteq> {..<BLOOM_FILTER_SIZE} \<and> wf256 (filter_hash f)"

lemma wf_filter_new: "wf_filter new_filter"
  by (simp add: wf_filter_def new_filter_def wf256_def base_binary_fill_def)

lemma wf_filter_insert: "wf_filter f \<Longrightarrow> wf_filter (fst (bloom_insert md5 e value f))"
  using places_in_range [of md5 e "value"]
  by (auto simp: wf_filter_def bloom_insert_def Let_def fold_insert list_all_iff)

lemma store_roundtrip: "asset f \<subseteq> {..<BLOOM_FILTER_SIZE} \<Longrightarrow> of_store (to_store f) = Some f"
  by (simp add: of_store_def to_store_def unpack_pack Int_absorb2)

lemma assign_roundtrip: "asset f \<subseteq> {..<BLOOM_FILTER_SIZE} \<Longrightarrow> assign_store (to_store f) g = Some f"
  by (simp add: assign_store_def to_store_def unpack_pack Int_absorb2)

lemma bloom_eq_iff:
  "asset f \<subseteq> {..<BLOOM_FILTER_SIZE} \<Longrightarrow> asset g \<subseteq> {..<BLOOM_FILTER_SIZE} \<Longrightarrow>
   bloom_eq f g \<longleftrightarrow> asset f = asset g"
  by (auto simp: bloom_eq_def list_all_iff)

section \<open>Properties\<close>

text \<open>
  C21 No false negatives: after inserting any list of values into any filter, every one of them and
  every value found before is found, all positions stay inside the bit set, and inserting one of
  them again changes nothing and returns false.
\<close>

theorem bloom_no_false_negatives:
  assumes "wf_filter f" and "v \<in> set vs \<or> bloom_test md5 e f v"
  shows "bloom_test md5 e (fold (\<lambda>v f. fst (bloom_insert md5 e v f)) vs f) v \<and>
    wf_filter (fold (\<lambda>v f. fst (bloom_insert md5 e v f)) vs f) \<and>
    bloom_insert md5 e v (fold (\<lambda>v f. fst (bloom_insert md5 e v f)) vs f) =
      (fold (\<lambda>v f. fst (bloom_insert md5 e v f)) vs f, False)"
proof -
  let ?g = "fold (\<lambda>v f. fst (bloom_insert md5 e v f)) vs f"
  have "bloom_test md5 e ?g v"
    using assms(2) bloom.insert_all_found [of v vs md5 e f] bloom.insert_all_kept [of md5 e f v vs]
    by auto
  moreover have "wf_filter ?g" using assms(1) by (induction vs arbitrary: f) (simp_all add: wf_filter_insert)
  ultimately show ?thesis by (simp add: bloom_insert_def bloom_test_def)
qed

theorem bloom_no_false_negatives_witness:
  "bloom_test (\<lambda>x. replicate 16 7) LittleEndian
     (fold (\<lambda>v f. fst (bloom_insert (\<lambda>x. replicate 16 7) LittleEndian v f)) [5, 9] new_filter) 9"
  using bloom_no_false_negatives [OF wf_filter_new, of 9 "[5, 9]" "\<lambda>x. replicate 16 7" LittleEndian]
  by simp

text \<open>
  The stored form keeps the filter: constructing a filter from \<open>to_store\<close>, or assigning the
  store to any filter, gives the filter back; the data have 65536 bytes and the store survives
  serialization on either host.
\<close>

theorem bloom_store_roundtrip:
  assumes "wf_filter f" and "writable h s" and "readPosition s = length (byteStream s)"
  shows "of_store (to_store f) = Some f \<and> assign_store (to_store f) g = Some f \<and>
    length (bloom_filter_data (to_store f)) = 65536 \<and>
    (\<exists>s'. input_val (store_val (to_store f)) s = (s', Inr ()) \<and>
      output_val std_ops store_type s' =
        (s'\<lparr>readPosition := length (byteStream s')\<rparr>, Inr (store_val (to_store f))))"
proof -
  have a: "asset f \<subseteq> {..<BLOOM_FILTER_SIZE}" using assms(1) by (simp add: wf_filter_def)
  have l: "length (bloom_filter_data (to_store f)) = 65536"
    by (simp add: to_store_def length_pack_bits BLOOM_FILTER_SIZE_def)
  have "has_type std_ops store_type (store_val (to_store f))"
    using assms(1) l
    by (simp add: store_type_def store_val_def uint256_type_def uint256_val_def wf_filter_def wf256_def
        to_store_def limit_defs Width_def list_all_iff)
  moreover have "portable store_type" by (simp add: store_type_def uint256_type_def)
  moreover obtain s' r where "input_val (store_val (to_store f)) s = (s', r)" by fastforce
  ultimately show ?thesis
    using input_output_val [of std_ops store_type "store_val (to_store f)" h s] assms(2,3)
      store_roundtrip [OF a] assign_roundtrip [OF a] l std.key_order_axioms
    by (auto simp: std_ops_def)
qed

theorem bloom_store_roundtrip_witness:
  "of_store (to_store new_filter) = Some new_filter"
  using bloom_store_roundtrip [OF wf_filter_new, of LittleEndian "new_serializer LittleEndian"]
  by (simp add: writable_def new_serializer_def getByteSequence_host limit_defs)

end
