(* ===== verification/Timer_Tree.thy ===== *)
theory Timer_Tree
  imports Wire_Format
begin

text \<open>
  The timer of \<open>src/include/timer/timer_tree\<close>: a \<open>std::set\<close> of nodes ordered by expiry and then
  by number. The clock \<open>GetTick\<close> is a parameter of the operations that read it; times are
  integers (milliseconds). A callback may change the timer itself: callbacks are names of type
  \<open>'c\<close> and \<open>exec\<close> gives their effect on the caller's world and on the timer. \<open>None\<close> is undefined
  behaviour (a callback that removes the node being run) or a loop that does not end.
\<close>

section \<open>Nodes and their order\<close>

datatype TimeNodeBase = TimeNodeBase (getID: u64) (getExpire: int)

text \<open>\<open>operator<\<close>: by expiry, the earlier number first among equals.\<close>

definition time_node_less :: "TimeNodeBase \<Rightarrow> TimeNodeBase \<Rightarrow> bool" where
  "time_node_less me other \<longleftrightarrow>
     (if getExpire me < getExpire other then True
      else if getExpire other < getExpire me then False
      else getID me < getID other)"

instantiation TimeNodeBase :: linorder
begin

definition less_TimeNodeBase :: "TimeNodeBase \<Rightarrow> TimeNodeBase \<Rightarrow> bool" where
  "less_TimeNodeBase = time_node_less"

definition less_eq_TimeNodeBase :: "TimeNodeBase \<Rightarrow> TimeNodeBase \<Rightarrow> bool" where
  "less_eq_TimeNodeBase me other \<longleftrightarrow> me < other \<or> me = other"

instance
proof
  fix x y z :: TimeNodeBase
  show "(x < y) = (x \<le> y \<and> \<not> y \<le> x)"
    by (auto simp: less_eq_TimeNodeBase_def less_TimeNodeBase_def time_node_less_def split: if_splits)
  show "x \<le> x" by (simp add: less_eq_TimeNodeBase_def)
  show "x \<le> y \<Longrightarrow> y \<le> z \<Longrightarrow> x \<le> z"
    by (auto simp: less_eq_TimeNodeBase_def less_TimeNodeBase_def time_node_less_def split: if_splits)
  show "x \<le> y \<Longrightarrow> y \<le> x \<Longrightarrow> x = y"
    by (auto simp: less_eq_TimeNodeBase_def less_TimeNodeBase_def time_node_less_def split: if_splits)
  show "x \<le> y \<or> y \<le> x"
    by (cases x; cases y) (auto simp: less_eq_TimeNodeBase_def less_TimeNodeBase_def time_node_less_def)
qed

end

record 'c TimeNode =
  node_base :: TimeNodeBase
  callBack :: 'c

definition node_less :: "'c TimeNode \<Rightarrow> 'c TimeNode \<Rightarrow> bool" where
  "node_less m n \<longleftrightarrow> node_base m < node_base n"

section \<open>The operations of TimerTree\<close>

record 'c TimerTree =
  initID :: u64
  nodes :: "'c TimeNode list"

definition new_timer :: "'c TimerTree" where
  "new_timer = \<lparr>initID = 0, nodes = []\<rparr>"

definition GenTimeTaskID :: "'c TimerTree \<Rightarrow> 'c TimerTree \<times> u64" where
  "GenTimeTaskID t = (t\<lparr>initID := initID t + 1\<rparr>, initID t + 1)"

text \<open>The three overloads of \<open>setTimeout\<close> differ in how they bind the callback only.\<close>

definition setTimeout :: "int \<Rightarrow> int \<Rightarrow> 'c \<Rightarrow> 'c TimerTree \<Rightarrow> 'c TimerTree \<times> TimeNodeBase" where
  "setTimeout now milliseconds cb t =
     (let (t, ident) = GenTimeTaskID t;
          tNode = \<lparr>node_base = TimeNodeBase ident (now + milliseconds), callBack = cb\<rparr>
      in (t\<lparr>nodes := set_emplace node_less tNode (nodes t)\<rparr>, node_base tNode))"

definition erase_node :: "TimeNodeBase \<Rightarrow> 'c TimerTree \<Rightarrow> 'c TimerTree" where
  "erase_node b t = t\<lparr>nodes := filter (\<lambda>n. node_base n \<noteq> b) (nodes t)\<rparr>"

definition has_node :: "TimeNodeBase \<Rightarrow> 'c TimerTree \<Rightarrow> bool" where
  "has_node b t = list_ex (\<lambda>n. node_base n = b) (nodes t)"

definition clearTimeout :: "TimeNodeBase \<Rightarrow> 'c TimerTree \<Rightarrow> 'c TimerTree \<times> bool" where
  "clearTimeout b t = (if has_node b t then (erase_node b t, True) else (t, False))"

definition checkTimeout :: "int \<Rightarrow> 'c TimerTree \<Rightarrow> int" where
  "checkTimeout now t =
     (case nodes t of
        [] \<Rightarrow> -1
      | n # _ \<Rightarrow> let diff = getExpire (node_base n) - now in if 0 < diff then diff else 0)"

definition runTask ::
  "('c \<Rightarrow> 'w \<times> 'c TimerTree \<Rightarrow> 'w \<times> 'c TimerTree) \<Rightarrow> int \<Rightarrow> 'w \<times> 'c TimerTree \<Rightarrow>
   (('w \<times> 'c TimerTree) \<times> bool) option" where
  "runTask exec now st =
     (case nodes (snd st) of
        [] \<Rightarrow> Some (st, False)
      | n # _ \<Rightarrow>
          if getExpire (node_base n) - now \<le> 0
          then let st' = exec (callBack n) st
               in if has_node (node_base n) (snd st')
                  then Some ((fst st', erase_node (node_base n) (snd st')), True) else None
          else Some (st, False))"

text \<open>The iterator behind an erased node: the first node of the set that is greater.\<close>

definition next_node :: "TimeNodeBase \<Rightarrow> 'c TimerTree \<Rightarrow> 'c TimeNode option" where
  "next_node b t = find (\<lambda>n. b < node_base n) (nodes t)"

partial_function (option) task_loop ::
  "('c \<Rightarrow> 'w \<times> 'c TimerTree \<Rightarrow> 'w \<times> 'c TimerTree) \<Rightarrow> int \<Rightarrow> 'c TimeNode option \<Rightarrow>
   'w \<times> 'c TimerTree \<Rightarrow> ('w \<times> 'c TimerTree) option" where
  "task_loop exec current start st =
     (case start of
        None \<Rightarrow> Some st
      | Some n \<Rightarrow>
          if getExpire (node_base n) - current \<le> 0
          then let st' = exec (callBack n) st
               in if has_node (node_base n) (snd st')
                  then task_loop exec current (next_node (node_base n) (snd st'))
                         (fst st', erase_node (node_base n) (snd st'))
                  else None
          else Some st)"

definition runTaskLoop ::
  "('c \<Rightarrow> 'w \<times> 'c TimerTree \<Rightarrow> 'w \<times> 'c TimerTree) \<Rightarrow> int \<Rightarrow> 'w \<times> 'c TimerTree \<Rightarrow>
   ('w \<times> 'c TimerTree) option" where
  "runTaskLoop exec current st =
     task_loop exec current (case nodes (snd st) of [] \<Rightarrow> None | n # _ \<Rightarrow> Some n) st"

section \<open>Ordered sets\<close>

text \<open>The contract of the order of a \<open>std::set\<close>, whose insertions keep the set in order.\<close>

locale ordered_keys = key_order +
  assumes trans: "lt a b \<Longrightarrow> lt b c \<Longrightarrow> lt a c"
begin

lemma set_emplace_sorted: "sorted_wrt lt xs \<Longrightarrow> sorted_wrt lt (set_emplace lt k xs)"
proof (induction xs)
  case (Cons x xs)
  then show ?case using set_emplace_set [of k xs] by (auto intro: trans)
qed simp

lemma set_emplace_fresh:
  "\<forall>x \<in> set xs. lt x k \<or> lt k x \<Longrightarrow> set (set_emplace lt k xs) = insert k (set xs)"
  by (induction xs) auto

end

interpretation node_order: ordered_keys node_less
  by unfold_locales (auto simp: node_less_def)

section \<open>The invariant\<close>

definition wf_timer :: "'c TimerTree \<Rightarrow> bool" where
  "wf_timer t \<longleftrightarrow> sorted_wrt node_less (nodes t) \<and> list_all (\<lambda>n. getID (node_base n) \<le> initID t) (nodes t)"

lemma wf_timer_new: "wf_timer new_timer"
  by (simp add: wf_timer_def new_timer_def)

lemma wf_timer_erase: "wf_timer t \<Longrightarrow> wf_timer (erase_node b t)"
  by (auto simp: wf_timer_def erase_node_def list_all_iff sorted_wrt_filter)

lemma fresh_id: "a \<le> (m :: u64) \<Longrightarrow> m \<noteq> - 1 \<Longrightarrow> a < m + 1 \<and> m < m + 1"
proof -
  assume a: "a \<le> m" and "m \<noteq> - 1"
  then have "1 + m \<noteq> 0" by (metis add.commute add_eq_0_iff)
  then have "unat (m + 1) = Suc (unat m)" using unatSuc [of m] by (simp add: add.commute)
  then have "m < m + 1" by (simp add: word_less_nat_alt)
  with a show ?thesis by (simp add: order_le_less_trans)
qed

lemma filter_set_emplace:
  "\<forall>x \<in> set xs. P x \<and> (lt x k \<or> lt k x) \<Longrightarrow> \<not> P k \<Longrightarrow> filter P (set_emplace lt k xs) = xs"
  by (induction xs) auto

lemma setTimeout_fresh:
  assumes "wf_timer t" and "initID t \<noteq> - 1" and "n \<in> set (nodes t)"
  shows "node_base n \<noteq> TimeNodeBase (initID t + 1) e"
  using assms fresh_id [of "getID (node_base n)" "initID t"]
  by (auto simp: wf_timer_def list_all_iff)

lemma setTimeout_wf:
  assumes "wf_timer t" and "initID t \<noteq> - 1"
  shows "wf_timer (fst (setTimeout now ms cb t))"
proof -
  let ?n = "\<lparr>node_base = TimeNodeBase (initID t + 1) (now + ms), callBack = cb\<rparr>"
  have "set (set_emplace node_less ?n (nodes t)) \<subseteq> insert ?n (set (nodes t))"
    by (rule node_order.set_emplace_set)
  moreover have "getID (node_base n) \<le> initID t + 1" if "n \<in> set (nodes t)" for n
    using assms that fresh_id [of "getID (node_base n)" "initID t"]
    by (auto simp: wf_timer_def list_all_iff)
  ultimately show ?thesis
    using assms node_order.set_emplace_sorted
    by (fastforce simp: wf_timer_def setTimeout_def GenTimeTaskID_def Let_def list_all_iff)
qed

lemma set_clear:
  assumes "wf_timer t" and "initID t \<noteq> - 1" and "setTimeout now ms cb t = (t', b)"
  shows "clearTimeout b t' = (t\<lparr>initID := initID t + 1\<rparr>, True)"
proof -
  let ?n = "\<lparr>node_base = TimeNodeBase (initID t + 1) (now + ms), callBack = cb\<rparr>"
  have ne: "node_base n \<noteq> TimeNodeBase (initID t + 1) (now + ms)" if "n \<in> set (nodes t)" for n
    using assms(1,2) that by (rule setTimeout_fresh)
  have lt: "\<forall>n \<in> set (nodes t). node_less n ?n \<or> node_less ?n n"
    using ne by (auto simp: node_less_def neq_iff)
  have t': "t' = t\<lparr>initID := initID t + 1, nodes := set_emplace node_less ?n (nodes t)\<rparr>"
    "b = TimeNodeBase (initID t + 1) (now + ms)"
    using assms(3) by (auto simp: setTimeout_def GenTimeTaskID_def)
  have "?n \<in> set (nodes t')" using node_order.set_emplace_fresh [OF lt] t' by simp
  then have "has_node b t'" using t' by (force simp: has_node_def list_ex_iff)
  moreover have "filter (\<lambda>n. node_base n \<noteq> b) (nodes t') = nodes t"
    using filter_set_emplace [of "nodes t" "\<lambda>n. node_base n \<noteq> b" node_less ?n] ne lt t' by simp
  ultimately show ?thesis using t' by (simp add: clearTimeout_def erase_node_def)
qed

section \<open>Running the due tasks\<close>

definition is_due :: "int \<Rightarrow> 'c TimeNode \<Rightarrow> bool" where
  "is_due now n \<longleftrightarrow> getExpire (node_base n) \<le> now"

lemma node_less_due: "node_less m n \<Longrightarrow> is_due now n \<Longrightarrow> is_due now m"
  by (auto simp: node_less_def less_TimeNodeBase_def time_node_less_def is_due_def split: if_splits)

lemma sorted_first:
  assumes "nodes t = n # ns" and "sorted_wrt node_less (nodes t)"
  shows "has_node (node_base n) t" and "erase_node (node_base n) t = t\<lparr>nodes := ns\<rparr>"
    and "next_node (node_base n) t = (case ns of [] \<Rightarrow> None | m # _ \<Rightarrow> Some m)"
proof -
  have "\<forall>m \<in> set ns. node_base n < node_base m" using assms by (simp add: node_less_def)
  then have "filter (\<lambda>m. node_base m \<noteq> node_base n) ns = ns" by (auto simp: filter_id_conv)
  then show "erase_node (node_base n) t = t\<lparr>nodes := ns\<rparr>" using assms(1) by (simp add: erase_node_def)
  show "has_node (node_base n) t" using assms(1) by (simp add: has_node_def)
  show "next_node (node_base n) t = (case ns of [] \<Rightarrow> None | m # _ \<Rightarrow> Some m)"
    using assms \<open>\<forall>m \<in> set ns. node_base n < node_base m\<close> by (simp add: next_node_def split: list.split)
qed

text \<open>
  What a callback may do to the timer while the loop runs: it sets further timeouts, all of them
  with a positive delay. The callbacks of the repository are of this kind: they arm themselves again.
\<close>

definition arm :: "int \<Rightarrow> (int \<times> 'c) list \<Rightarrow> 'c TimerTree \<Rightarrow> 'c TimerTree" where
  "arm now ts = fold (\<lambda>(ms, cb) t. fst (setTimeout now ms cb t)) ts"

definition arms_later ::
  "int \<Rightarrow> ('c \<Rightarrow> 'w \<times> 'c TimerTree \<Rightarrow> 'w \<times> 'c TimerTree) \<Rightarrow> bool" where
  "arms_later now exec \<longleftrightarrow>
     (\<forall>c w. \<exists>w' ts. (\<forall>(ms, cb) \<in> set ts. 0 < ms) \<and> (\<forall>t. exec c (w, t) = (w', arm now ts t)))"

lemma arm_Nil [simp]: "arm now [] t = t"
  by (simp add: arm_def)

lemma arm_Cons:
  "arm now ((ms, cb) # ts) (t\<lparr>nodes := ns\<rparr>) = arm now ts ((t\<lparr>initID := initID t + 1\<rparr>)
     \<lparr>nodes := set_emplace node_less \<lparr>node_base = TimeNodeBase (initID t + 1) (now + ms), callBack = cb\<rparr> ns\<rparr>)"
  by (simp add: arm_def setTimeout_def GenTimeTaskID_def)

lemma set_emplace_behind:
  "\<forall>d \<in> set ds. lt d k \<and> \<not> lt k d \<Longrightarrow> set_emplace lt k (ds @ ns) = ds @ set_emplace lt k ns"
  by (induction ds) auto

text \<open>New nodes that are not due go behind the due ones, which stay where they are.\<close>

lemma arm_behind:
  fixes t :: "'c TimerTree"
  assumes "sorted_wrt node_less (ds @ ns)" "\<forall>d \<in> set ds. is_due now d" "\<forall>(ms, cb) \<in> set ts. 0 < ms"
    and "\<forall>n \<in> set ns. \<not> is_due now n"
  defines "u \<equiv> arm now ts (t\<lparr>nodes := ns\<rparr>)"
  shows "arm now ts (t\<lparr>nodes := ds @ ns\<rparr>) = u\<lparr>nodes := ds @ nodes u\<rparr> \<and>
    sorted_wrt node_less (ds @ nodes u) \<and> (\<forall>n \<in> set (nodes u). \<not> is_due now n)"
  using assms(1,3,4) unfolding u_def
proof (induction ts arbitrary: t ns)
  case Nil
  then show ?case by simp
next
  case (Cons x ts)
  obtain ms cb where x: "x = (ms, cb)" by fastforce
  let ?k = "\<lparr>node_base = TimeNodeBase (initID t + 1) (now + ms), callBack = cb\<rparr>"
  have k: "\<forall>d \<in> set ds. node_less d ?k \<and> \<not> node_less ?k d" "\<not> is_due now ?k"
    using assms(2) Cons.prems(2) x
    by (fastforce simp: node_less_def less_TimeNodeBase_def time_node_less_def is_due_def)+
  note e = set_emplace_behind [OF k(1), of ns]
  have s: "sorted_wrt node_less (ds @ set_emplace node_less ?k ns)"
    using node_order.set_emplace_sorted [OF Cons.prems(1), of ?k] e by simp
  have nd: "\<forall>n \<in> set (set_emplace node_less ?k ns). \<not> is_due now n"
    using node_order.set_emplace_set [of ?k ns] k(2) Cons.prems(3) by blast
  show ?case
    using Cons.IH [OF s _ nd, of "t\<lparr>initID := initID t + 1\<rparr>"] Cons.prems(2) by (simp add: x arm_Cons e)
qed

lemma due_first:
  assumes "sorted_wrt node_less ns"
  shows "ns = filter (is_due now) ns @ filter (\<lambda>n. \<not> is_due now n) ns"
  using assms
proof (induction ns)
  case (Cons n ns)
  show ?case
  proof (cases "is_due now n")
    case False
    then have "\<forall>m \<in> set ns. \<not> is_due now m" using Cons.prems node_less_due by auto
    with False show ?thesis by simp
  qed (use Cons in simp)
qed simp

text \<open>The loop on a timer whose due nodes are \<open>ds\<close> and whose other nodes are \<open>ns\<close>.\<close>

lemma task_loop_due:
  assumes exec: "arms_later now exec"
  shows "sorted_wrt node_less (ds @ ns) \<Longrightarrow> \<forall>d \<in> set ds. is_due now d \<Longrightarrow> \<forall>n \<in> set ns. \<not> is_due now n \<Longrightarrow>
    task_loop exec now (case ds @ ns of [] \<Rightarrow> None | n # _ \<Rightarrow> Some n) (w, t\<lparr>nodes := ds @ ns\<rparr>) =
    Some (fold (\<lambda>n. exec (callBack n)) ds (w, t\<lparr>nodes := ns\<rparr>))"
proof (induction ds arbitrary: w t ns)
  case Nil
  then show ?case by (subst task_loop.simps) (auto simp: is_due_def split: list.split)
next
  case (Cons d ds)
  obtain w' ts where ts: "\<forall>(ms, cb) \<in> set ts. 0 < ms" "\<And>t. exec (callBack d) (w, t) = (w', arm now ts t)"
    using exec unfolding arms_later_def by blast
  define u where "u = arm now ts (t\<lparr>nodes := ns\<rparr>)"
  have a: "arm now ts (t\<lparr>nodes := d # ds @ ns\<rparr>) = u\<lparr>nodes := d # ds @ nodes u\<rparr>"
    "sorted_wrt node_less (d # ds @ nodes u)" "\<forall>n \<in> set (nodes u). \<not> is_due now n"
    using arm_behind [OF Cons.prems(1,2) ts(1) Cons.prems(3), of t] by (simp_all add: u_def)
  note f = sorted_first [of "u\<lparr>nodes := d # ds @ nodes u\<rparr>" d "ds @ nodes u", simplified, OF a(2)[simplified]]
  have "task_loop exec now (case ds @ nodes u of [] \<Rightarrow> None | n # _ \<Rightarrow> Some n) (w', u\<lparr>nodes := ds @ nodes u\<rparr>) =
      Some (fold (\<lambda>n. exec (callBack n)) ds (w', u))"
    using Cons.IH [of "nodes u" w' u] a Cons.prems(2) by simp
  then show ?case
    using f Cons.prems(2)
    by (subst task_loop.simps) (simp add: ts(2) a(1) u_def [symmetric] is_due_def [of now d])
qed


lemma set_emplace_mono: "set xs \<subseteq> set (set_emplace lt k xs)"
  by (induction xs) auto

lemma arm_adds:
  assumes "\<forall>(ms, cb) \<in> set ts. 0 < ms"
  shows "set (nodes t) \<subseteq> set (nodes (arm now ts t)) \<and>
    ((\<forall>n \<in> set (nodes t). \<not> is_due now n) \<longrightarrow> (\<forall>n \<in> set (nodes (arm now ts t)). \<not> is_due now n))"
  using assms
proof (induction ts arbitrary: t)
  case (Cons x ts)
  obtain ms cb where x: "x = (ms, cb)" by fastforce
  let ?k = "\<lparr>node_base = TimeNodeBase (initID t + 1) (now + ms), callBack = cb\<rparr>"
  let ?t = "t\<lparr>initID := initID t + 1, nodes := set_emplace node_less ?k (nodes t)\<rparr>"
  have "arm now (x # ts) t = arm now ts ?t" using arm_Cons [of now ms cb ts "nodes t" t] by (simp add: x)
  moreover have "\<not> is_due now ?k" using Cons.prems x by (simp add: is_due_def)
  ultimately show ?case
    using Cons.IH [of ?t] Cons.prems set_emplace_mono [of "nodes t" node_less ?k]
      node_order.set_emplace_set [of ?k "nodes t"] by auto
qed simp

lemma arm_sorted: "sorted_wrt node_less (nodes t) \<Longrightarrow> sorted_wrt node_less (nodes (arm now ts t))"
proof (induction ts arbitrary: t)
  case (Cons x ts)
  obtain ms cb where x: "x = (ms, cb)" by fastforce
  then show ?case
    using Cons.IH node_order.set_emplace_sorted [OF Cons.prems] arm_Cons [of now ms cb ts "nodes t" t] by simp
qed simp

lemma fold_adds:
  assumes "arms_later now exec"
  shows "set (nodes t) \<subseteq> set (nodes (snd (fold (\<lambda>n. exec (callBack n)) ds (w, t)))) \<and>
    ((\<forall>n \<in> set (nodes t). \<not> is_due now n) \<longrightarrow>
       (\<forall>n \<in> set (nodes (snd (fold (\<lambda>n. exec (callBack n)) ds (w, t)))). \<not> is_due now n))"
proof (induction ds arbitrary: w t)
  case (Cons d ds)
  obtain w' ts where ts: "\<forall>(ms, cb) \<in> set ts. 0 < ms" "\<And>t. exec (callBack d) (w, t) = (w', arm now ts t)"
    using assms unfolding arms_later_def by blast
  have "fold (\<lambda>n. exec (callBack n)) (d # ds) (w, t) = fold (\<lambda>n. exec (callBack n)) ds (w', arm now ts t)"
    by (simp add: ts(2))
  with arm_adds [OF ts(1), of t now] Cons.IH [of "arm now ts t" w'] show ?case
    by (metis (no_types, lifting) subset_trans)
qed simp

lemma runTaskLoop_due:
  assumes s: "sorted_wrt node_less (nodes t)" and exec: "arms_later now exec"
  shows "runTaskLoop exec now (w, t) = Some (fold (\<lambda>n. exec (callBack n)) (filter (is_due now) (nodes t))
    (w, t\<lparr>nodes := filter (\<lambda>n. \<not> is_due now n) (nodes t)\<rparr>))"
proof -
  define ds ns where "ds = filter (is_due now) (nodes t)" and "ns = filter (\<lambda>n. \<not> is_due now n) (nodes t)"
  have eq: "nodes t = ds @ ns" unfolding ds_def ns_def by (rule due_first [OF s])
  have "t\<lparr>nodes := ds @ ns\<rparr> = t" by (simp add: eq [symmetric])
  moreover have "\<forall>d \<in> set ds. is_due now d" "\<forall>n \<in> set ns. \<not> is_due now n" by (simp_all add: ds_def ns_def)
  ultimately show ?thesis
    using task_loop_due [OF exec, of ds ns w t] s
    unfolding runTaskLoop_def ds_def [symmetric] ns_def [symmetric] snd_conv eq by simp
qed

section \<open>Properties\<close>

text \<open>
  A timer that was set can be cleared: on a timer in order whose number counter has not run out,
  \<open>setTimeout\<close> keeps the set in order and \<open>clearTimeout\<close> of the handle it returns reports success
  and leaves the nodes as they were.
\<close>

theorem timer_set_then_clear:
  assumes "wf_timer t" and "initID t \<noteq> - 1"
  shows "wf_timer (fst (setTimeout now ms cb t)) \<and>
    clearTimeout (snd (setTimeout now ms cb t)) (fst (setTimeout now ms cb t)) =
      (t\<lparr>initID := initID t + 1\<rparr>, True)"
  using setTimeout_wf [OF assms, of now ms cb] set_clear [OF assms, of now ms cb] by (cases "setTimeout now ms cb t") simp

theorem timer_set_then_clear_witness:
  "clearTimeout (snd (setTimeout 100 50 ''cb'' new_timer)) (fst (setTimeout 100 50 ''cb'' new_timer)) =
   (new_timer\<lparr>initID := 1\<rparr>, True)"
  using timer_set_then_clear [OF wf_timer_new, of 100 50 "''cb''"] by (simp add: new_timer_def)

text \<open>
  C36 \<open>runTaskLoop\<close> runs exactly the due tasks, also when the callbacks set further timeouts with a
  positive delay (and touch the timer in no other way). The loop ends; it has run the callbacks of
  the nodes that expire no later than the current time, each once and in the order of their expiry,
  as if these nodes had been taken out first; every other node is still in the timer, and no node of
  the timer is due.
\<close>

theorem timer_runs_due_tasks:
  assumes "wf_timer t" and "arms_later now exec"
  shows "\<exists>w' t'. runTaskLoop exec now (w, t) = Some (w', t') \<and>
    (w', t') = fold (\<lambda>n. exec (callBack n)) (filter (is_due now) (nodes t))
      (w, t\<lparr>nodes := filter (\<lambda>n. \<not> is_due now n) (nodes t)\<rparr>) \<and>
    set (filter (\<lambda>n. \<not> is_due now n) (nodes t)) \<subseteq> set (nodes t') \<and> (\<forall>n \<in> set (nodes t'). \<not> is_due now n)"
proof -
  let ?t = "t\<lparr>nodes := filter (\<lambda>n. \<not> is_due now n) (nodes t)\<rparr>"
  obtain w' t' where r: "fold (\<lambda>n. exec (callBack n)) (filter (is_due now) (nodes t)) (w, ?t) = (w', t')"
    by fastforce
  have "runTaskLoop exec now (w, t) = Some (w', t')" using runTaskLoop_due [OF _ assms(2)] assms(1) r by (simp add: wf_timer_def)
  moreover have "set (nodes ?t) \<subseteq> set (nodes t') \<and> (\<forall>n \<in> set (nodes t'). \<not> is_due now n)"
    using fold_adds [OF assms(2), of ?t "filter (is_due now) (nodes t)" w] unfolding r by simp
  ultimately show ?thesis using r by (intro exI [of _ w'] exI [of _ t']) simp
qed

definition two_timers :: "string TimerTree" where
  "two_timers = fst (setTimeout 0 20 ''b'' (fst (setTimeout 0 10 ''a'' new_timer)))"

text \<open>A callback that notes its name and sets itself again.\<close>

definition note_and_rearm :: "string \<Rightarrow> string list \<times> string TimerTree \<Rightarrow> string list \<times> string TimerTree" where
  "note_and_rearm c = (\<lambda>(w, t). (w @ [c], fst (setTimeout 15 10 c t)))"

lemma note_and_rearm_later: "arms_later 15 note_and_rearm"
  unfolding arms_later_def
proof (intro allI)
  fix c w
  show "\<exists>w' ts. (\<forall>(ms, cb) \<in> set ts. 0 < ms) \<and> (\<forall>t. note_and_rearm c (w, t) = (w', arm 15 ts t))"
    by (intro exI [of _ "w @ [c]"] exI [of _ "[(10, c)]"]) (simp add: note_and_rearm_def arm_def)
qed

theorem timer_runs_due_tasks_witness:
  "\<exists>t. runTaskLoop note_and_rearm 15 ([], two_timers) = Some ([''a''], t) \<and>
       map callBack (nodes t) = [''b'', ''a'']"
proof -
  have "wf_timer two_timers"
    unfolding two_timers_def by (intro setTimeout_wf wf_timer_new) (simp_all add: setTimeout_def GenTimeTaskID_def new_timer_def)
  from timer_runs_due_tasks [OF this note_and_rearm_later, of "[]"] obtain w t where
    r: "runTaskLoop note_and_rearm 15 ([], two_timers) = Some (w, t)"
      "(w, t) = fold (\<lambda>n. note_and_rearm (callBack n)) (filter (is_due 15) (nodes two_timers))
        ([], two_timers\<lparr>nodes := filter (\<lambda>n. \<not> is_due 15 n) (nodes two_timers)\<rparr>)"
    by (elim exE conjE) (rule that)
  have n: "two_timers = \<lparr>initID = 2, nodes = [\<lparr>node_base = TimeNodeBase 1 10, callBack = ''a''\<rparr>,
      \<lparr>node_base = TimeNodeBase 2 20, callBack = ''b''\<rparr>]\<rparr>"
    by (simp add: two_timers_def setTimeout_def GenTimeTaskID_def new_timer_def node_less_def less_TimeNodeBase_def
        time_node_less_def)
  have "(w, t) = ([''a''], fst (setTimeout 15 10 ''a''
      \<lparr>initID = 2, nodes = [\<lparr>node_base = TimeNodeBase 2 20, callBack = ''b''\<rparr>]\<rparr>))"
    by (rule trans [OF r(2) [unfolded n]]) (simp add: is_due_def note_and_rearm_def)
  then have "w = [''a''] \<and> map callBack (nodes t) = [''b'', ''a'']"
    by (simp add: setTimeout_def GenTimeTaskID_def node_less_def less_TimeNodeBase_def time_node_less_def)
  with r(1) show ?thesis by (intro exI [of _ t]) simp
qed

end
