(* ===== verification/Timer_Wheel.thy ===== *)
theory Timer_Wheel
  imports Prelude
begin

text \<open>
  The five level timing wheel of \<open>src/include/timer/timer_wheel\<close>. Tasks are shared through
  pointers: a task is an address of a heap and the buckets hold addresses. The body of the thread
  that the constructor starts is one step \<open>wheel_tick\<close>; the clock readings of a step are its
  parameters. \<open>fired\<close> records the tasks whose callback the wheel has handed over. Without an injected
  thread pool the hand-over is the run of the callback; with one the callback is committed to the pool,
  which runs it later whether or not the task was cancelled meanwhile, and only when the pool refuses
  it the wheel runs it itself. \<open>ran\<close> records the runs and \<open>committed\<close> what the pool still holds.
  Callbacks do not touch the wheel, which the code rules out where it would lock a bucket twice; steps
  of the thread and calls of the operations do not interleave.
\<close>

section \<open>Tasks and the wheel\<close>

record 'c TimerWheelTask =
  wheel_callBack :: 'c
  expire :: int
  addDateTime :: int
  isCancel :: bool
  isDuplicate :: bool
  times :: nat
  delayInterval :: int
  task_ID :: nat

record 'c TimerWheel =
  task_at :: "nat \<Rightarrow> 'c TimerWheelTask"
  next_task :: nat
  tick :: u32
  buckets :: "nat \<Rightarrow> nat \<Rightarrow> nat list"
  bucket_ids :: "nat \<Rightarrow> nat \<Rightarrow> nat"
  fired :: "nat list"
  wheel_pool :: "(nat \<Rightarrow> bool) option"
  committed :: "nat list"
  ran :: "nat list"

datatype wheel_error = DelayOutOfRange | DelayNotStandardized | IntervalTooShort

definition tickGap :: int where "tickGap = 5"

definition checkOne :: nat where "checkOne = 0xFF"
definition checkTwo :: nat where "checkTwo = 0x3F00"
definition checkThree :: nat where "checkThree = 0xFC000"
definition checkFour :: nat where "checkFour = 0x3F00000"
definition checkFive :: nat where "checkFive = 0xFC000000"

lemmas check_defs = checkOne_def checkTwo_def checkThree_def checkFour_def checkFive_def

definition new_task :: "'c \<Rightarrow> int \<Rightarrow> 'c TimerWheelTask" where
  "new_task cb exp = \<lparr>wheel_callBack = cb, expire = exp, addDateTime = 0, isCancel = False,
     isDuplicate = False, times = 0, delayInterval = 0, task_ID = 0\<rparr>"

definition push_task :: "nat \<Rightarrow> nat \<Rightarrow> nat \<Rightarrow> 'c TimerWheel \<Rightarrow> 'c TimerWheel" where
  "push_task lvl b p w =
     w\<lparr>buckets := (buckets w)(lvl := (buckets w lvl)(b := buckets w lvl b @ [p]))\<rparr>"

definition set_bucket :: "nat \<Rightarrow> nat \<Rightarrow> nat list \<Rightarrow> 'c TimerWheel \<Rightarrow> 'c TimerWheel" where
  "set_bucket lvl b ps w = w\<lparr>buckets := (buckets w)(lvl := (buckets w lvl)(b := ps))\<rparr>"

definition update_task ::
  "nat \<Rightarrow> ('c TimerWheelTask \<Rightarrow> 'c TimerWheelTask) \<Rightarrow> 'c TimerWheel \<Rightarrow> 'c TimerWheel" where
  "update_task p f w = w\<lparr>task_at := (task_at w)(p := f (task_at w p))\<rparr>"

text \<open>The level and the bucket \<open>setTimerWheelTask\<close> chooses.\<close>

definition task_place :: "nat \<Rightarrow> nat \<Rightarrow> nat \<times> nat" where
  "task_place tickPlace Gaps =
     (if Gaps \<le> checkOne
      then (1, and (and tickPlace checkOne + and Gaps checkOne) (256 - 1))
      else if Gaps \<le> checkTwo then (2, drop_bit 8 (and (tickPlace + Gaps) checkTwo))
      else if Gaps \<le> checkThree then (3, drop_bit 8 (and (tickPlace + Gaps) checkTwo))
      else if Gaps \<le> checkFour then (4, drop_bit 20 (and (tickPlace + Gaps) checkTwo))
      else (5, drop_bit 26 (and (tickPlace + Gaps) checkTwo)))"

definition setTimerWheelTask :: "int \<Rightarrow> nat \<Rightarrow> 'c TimerWheel \<Rightarrow> 'c TimerWheel" where
  "setTimerWheelTask delay p w =
     (let (lvl, b) = task_place (unat (tick w)) (nat (delay div tickGap));
          ident = bucket_ids w lvl b + 1;
          w = w\<lparr>bucket_ids := (bucket_ids w)(lvl := (bucket_ids w lvl)(b := ident))\<rparr>;
          w = update_task p (\<lambda>t. t\<lparr>task_ID := ident\<rparr>) w
      in push_task lvl b p w)"

definition alloc_task :: "'c TimerWheelTask \<Rightarrow> 'c TimerWheel \<Rightarrow> 'c TimerWheel \<times> nat" where
  "alloc_task t w = (w\<lparr>task_at := (task_at w)(next_task w := t), next_task := next_task w + 1\<rparr>, next_task w)"

definition wheel_setTimeout ::
  "int \<Rightarrow> int \<Rightarrow> 'c \<Rightarrow> 'c TimerWheel \<Rightarrow> wheel_error + 'c TimerWheel \<times> nat" where
  "wheel_setTimeout now delay cb w =
     (if 21474836480 \<le> delay then Inl DelayOutOfRange
      else if delay \<le> 0 then Inl DelayNotStandardized
      else let (w, p) = alloc_task (new_task cb (now + delay)) w
           in Inr (setTimerWheelTask delay p w, p))"

text \<open>An interval reads the clock twice: for the time it expires and for the time it was added.\<close>

definition wheel_setInterval ::
  "int \<Rightarrow> int \<Rightarrow> int \<Rightarrow> 'c \<Rightarrow> 'c TimerWheel \<Rightarrow> wheel_error + 'c TimerWheel \<times> nat" where
  "wheel_setInterval now added delay cb w =
     (if 21474836480 \<le> delay then Inl DelayOutOfRange
      else if delay \<le> 0 then Inl DelayNotStandardized
      else if delay \<le> 10 then Inl IntervalTooShort
      else let (w, p) = alloc_task ((new_task cb (now + delay))
                 \<lparr>isDuplicate := True, delayInterval := delay, addDateTime := added\<rparr>) w
           in Inr (setTimerWheelTask delay p w, p))"

definition wheel_clearTimeout :: "nat \<Rightarrow> 'c TimerWheel \<Rightarrow> 'c TimerWheel" where
  "wheel_clearTimeout p w = update_task p (\<lambda>t. t\<lparr>isCancel := True\<rparr>) w"

definition wheel_clearInterval :: "nat \<Rightarrow> 'c TimerWheel \<Rightarrow> 'c TimerWheel" where
  "wheel_clearInterval p w = update_task p (\<lambda>t. t\<lparr>isCancel := True, isDuplicate := False\<rparr>) w"

section \<open>One step of the thread\<close>

text \<open>The number of gaps until a task expires, not negative.\<close>

definition gaps_left :: "int \<Rightarrow> 'c TimerWheelTask \<Rightarrow> nat" where
  "gaps_left nowTick t =
     (let delay = expire t - nowTick; delay = (if delay < 0 then 0 else delay)
      in nat (delay div tickGap))"

text \<open>
  The tasks of a bucket are handed to the level below, at the bucket that \<open>target\<close> computes from
  the gaps left; tasks that were cancelled are dropped.
\<close>

primrec hand_down :: "int \<Rightarrow> nat \<Rightarrow> (nat \<Rightarrow> nat) \<Rightarrow> nat list \<Rightarrow> 'c TimerWheel \<Rightarrow> 'c TimerWheel" where
  "hand_down nowTick lvl target [] w = w"
| "hand_down nowTick lvl target (p # ps) w =
     hand_down nowTick lvl target ps
       (if isCancel (task_at w p) then w
        else push_task (lvl - 1) (target (gaps_left nowTick (task_at w p))) p w)"

definition cascade :: "int \<Rightarrow> nat \<Rightarrow> nat \<Rightarrow> (nat \<Rightarrow> nat) \<Rightarrow> 'c TimerWheel \<Rightarrow> 'c TimerWheel" where
  "cascade nowTick lvl b target w =
     set_bucket lvl b [] (hand_down nowTick lvl target (buckets w lvl b) w)"

text \<open>
  The callback of a task is run, or committed to the injected pool. The pool is given by its answers
  to the hand-overs, by their number.
\<close>

definition hand_over :: "nat \<Rightarrow> 'c TimerWheel \<Rightarrow> 'c TimerWheel" where
  "hand_over p w =
     (let w' = w\<lparr>fired := fired w @ [p]\<rparr>
      in case wheel_pool w of
           Some answers \<Rightarrow>
             if answers (length (fired w)) then w'\<lparr>committed := committed w @ [p]\<rparr>
             else w'\<lparr>ran := ran w @ [p]\<rparr>
         | None \<Rightarrow> w'\<lparr>ran := ran w @ [p]\<rparr>)"

text \<open>A thread of the pool runs the \<open>k\<close>th of the callbacks it holds: it knows nothing of the task.\<close>

definition pool_runs :: "nat \<Rightarrow> 'c TimerWheel \<Rightarrow> 'c TimerWheel" where
  "pool_runs k w =
     (if k < length (committed w)
      then w\<lparr>committed := take k (committed w) @ drop (Suc k) (committed w), ran := ran w @ [committed w ! k]\<rparr>
      else w)"

definition inject_thread_pool :: "(nat \<Rightarrow> bool) option \<Rightarrow> 'c TimerWheel \<Rightarrow> 'c TimerWheel" where
  "inject_thread_pool pool w = w\<lparr>wheel_pool := pool\<rparr>"

lemma hand_over_fields [simp]:
  "task_at (hand_over p w) = task_at w" "next_task (hand_over p w) = next_task w" "tick (hand_over p w) = tick w"
  "buckets (hand_over p w) = buckets w" "bucket_ids (hand_over p w) = bucket_ids w"
  "fired (hand_over p w) = fired w @ [p]" "wheel_pool (hand_over p w) = wheel_pool w"
  by (simp_all add: hand_over_def Let_def split: option.split)

text \<open>A task of the current bucket is handed over and, if it repeats, set again.\<close>

definition run_wheel_task :: "int \<Rightarrow> nat \<Rightarrow> 'c TimerWheel \<Rightarrow> 'c TimerWheel" where
  "run_wheel_task now2 p w =
     (if isCancel (task_at w p) then w
      else let w = hand_over p w
           in if isDuplicate (task_at w p)
              then let t = (task_at w p)\<lparr>times := times (task_at w p) + 1\<rparr>;
                       nextTick = addDateTime t + int (times t + 1) * delayInterval t;
                       delay = nextTick - now2;
                       w = update_task p (\<lambda>_. t\<lparr>expire := nextTick\<rparr>) w;
                       delay = (if delay < tickGap * 2 then tickGap * 2 else delay)
                   in setTimerWheelTask delay p w
              else w)"

primrec run_bucket :: "(nat \<Rightarrow> int) \<Rightarrow> nat \<Rightarrow> nat list \<Rightarrow> 'c TimerWheel \<Rightarrow> 'c TimerWheel" where
  "run_bucket now2 b [] w = w"
| "run_bucket now2 b (p # ps) w =
     (let w = run_wheel_task (now2 p) p w
      in run_bucket now2 b ps (set_bucket 1 b (tl (buckets w 1 b)) w))"

definition level_index :: "nat \<Rightarrow> nat \<Rightarrow> nat \<Rightarrow> nat" where
  "level_index check shift tickPlace = drop_bit shift (and tickPlace check)"

text \<open>The levels above hand their tasks down, the highest level first.\<close>

definition wheel_distribute :: "int \<Rightarrow> 'c TimerWheel \<Rightarrow> 'c TimerWheel" where
  "wheel_distribute nowTick w =
     (let tickPlace = unat (tick w); tickNext = unat (tick w + 1);
          levelOneIndex = and tickPlace checkOne;
          levelTwoIndex = level_index checkTwo 8 tickPlace;
          levelTwoNext = level_index checkTwo 8 tickNext;
          levelThreeIndex = level_index checkThree 14 tickPlace;
          levelThreeNext = level_index checkThree 14 tickNext;
          levelFourIndex = level_index checkFour 20 tickPlace;
          levelFourNext = level_index checkFour 20 tickNext;
          levelFiveIndex = level_index checkFive 26 tickPlace;
          levelFiveNext = level_index checkFive 26 tickNext;
          w = (if and (levelFiveIndex + 1) (64 - 1) = levelFiveNext
               then cascade nowTick 5 levelFiveNext
                 (\<lambda>Gaps. and (levelFourNext + drop_bit 20 (and Gaps checkFour)) (64 - 1)) w else w);
          w = (if and (levelFourIndex + 1) (64 - 1) = levelFourNext
               then cascade nowTick 4 levelFourNext
                 (\<lambda>Gaps. and (levelThreeNext + drop_bit 14 (and Gaps checkThree)) (64 - 1)) w else w);
          w = (if and (levelThreeIndex + 1) (64 - 1) = levelThreeNext
               then cascade nowTick 3 levelThreeNext
                 (\<lambda>Gaps. let Gaps = (if checkTwo \<le> Gaps then checkTwo else Gaps)
                          in and (levelTwoNext + drop_bit 8 (and Gaps checkTwo)) (64 - 1)) w else w)
      in if and (levelTwoIndex + 1) (64 - 1) = levelTwoNext
         then cascade nowTick 2 levelTwoNext
           (\<lambda>Gaps. let Gaps = (if checkOne \<le> Gaps then checkOne else Gaps)
                    in and (levelOneIndex + Gaps) (256 - 1)) w
         else w)"

text \<open>The body of the loop, with the clock reading of the step and those at which the
  tasks that repeat are set again.\<close>

definition wheel_tick :: "int \<Rightarrow> (nat \<Rightarrow> int) \<Rightarrow> 'c TimerWheel \<Rightarrow> 'c TimerWheel" where
  "wheel_tick nowTick now2 w =
     (let levelOneIndex = and (unat (tick w)) checkOne;
          w = wheel_distribute nowTick w;
          w = run_bucket now2 levelOneIndex (buckets w 1 levelOneIndex) w
      in w\<lparr>tick := tick w + 1\<rparr>)"

primrec wheel_run :: "(int \<times> (nat \<Rightarrow> int)) list \<Rightarrow> 'c TimerWheel \<Rightarrow> 'c TimerWheel" where
  "wheel_run [] w = w"
| "wheel_run (c # cs) w = wheel_run cs (wheel_tick (fst c) (snd c) w)"

section \<open>Buckets\<close>

lemma and_255: "and n 255 = n mod (256 :: nat)"
  using take_bit_eq_mask [of 8 n] by (simp add: take_bit_eq_mod mask_eq_exp_minus_1)

lemma drop_and_mask: "drop_bit k (and n (push_bit k (mask m))) = n div 2 ^ k mod 2 ^ m" for n :: nat
proof -
  have "drop_bit k (and n (push_bit k (mask m))) = and (drop_bit k n) (mask m)"
    by (simp add: drop_bit_and drop_bit_push_bit)
  then show ?thesis by (simp add: take_bit_eq_mask [symmetric] take_bit_eq_mod drop_bit_eq_div)
qed

lemma checkTwo_mask: "checkTwo = push_bit 8 (mask 6)"
  by (simp add: checkTwo_def mask_eq_exp_minus_1 push_bit_eq_mult)

lemma checkTwo_bucket: "drop_bit 8 (and n checkTwo) = n div 256 mod 64"
  using drop_and_mask [of 8 n 6] by (simp add: checkTwo_mask)

lemma checkTwo_high:
  assumes "14 \<le> k"
  shows "drop_bit k (and n checkTwo) = 0"
proof -
  have "drop_bit k (and n checkTwo) = and (drop_bit k n) (drop_bit (k - 8) (mask 6))"
    using assms by (simp add: drop_bit_and checkTwo_mask drop_bit_push_bit)
  also have "drop_bit (k - 8) (mask 6) = (0 :: nat)"
    using assms by (simp add: drop_bit_mask_eq)
  finally show ?thesis by simp
qed

lemma task_place_one: "g \<le> checkOne \<Longrightarrow> task_place tp g = (1, (tp + g) mod 256)"
  by (simp add: task_place_def checkOne_def and_255 mod_simps)

lemma index_mod [simp]: "and tp checkOne = tp mod 256"
  by (simp add: checkOne_def and_255)

lemma check_thresholds:
  "g \<le> checkOne \<longleftrightarrow> g \<le> 255" "g \<le> checkTwo \<longleftrightarrow> g \<le> 16128"
  "g \<le> checkThree \<longleftrightarrow> g \<le> 1032192" "g \<le> checkFour \<longleftrightarrow> g \<le> 66060288"
  by (simp_all add: check_defs)

lemma next_bucket_differs: "0 < g \<Longrightarrow> g \<le> 255 \<Longrightarrow> (t + g) mod 256 \<noteq> t mod (256 :: nat)"
  by (simp add: mod_eq_dvd_iff_nat nat_dvd_not_less)

text \<open>
  The bucket of a task that is set at tick \<open>tp\<close> with \<open>g\<close> gaps to wait. The first two levels take the
  bucket of their own digit of \<open>tp + g\<close>; the third level is indexed with the digit of the second,
  and the levels four and five always use bucket 0, because the mask of the second level is
  applied before their shifts.
\<close>

theorem wheel_task_place:
  "task_place tp g =
     (if g \<le> 255 then (1, (tp + g) mod 256)
      else if g \<le> 16128 then (2, (tp + g) div 256 mod 64)
      else if g \<le> 1032192 then (3, (tp + g) div 256 mod 64)
      else if g \<le> 66060288 then (4, 0) else (5, 0))"
  unfolding task_place_def checkTwo_bucket check_thresholds
  by (simp add: and_255 mod_simps checkTwo_high [of 20, simplified] checkTwo_high [of 26, simplified])

section \<open>What a step keeps of a task\<close>

text \<open>A change of the wheel that does not concern the task \<open>p\<close>.\<close>

definition keeps :: "nat \<Rightarrow> 'c TimerWheel \<Rightarrow> 'c TimerWheel \<Rightarrow> bool" where
  "keeps p w w' \<longleftrightarrow> task_at w' p = task_at w p \<and> tick w' = tick w \<and>
     count_list (fired w') p = count_list (fired w) p \<and>
     (\<forall>l b. count_list (buckets w' l b) p = count_list (buckets w l b) p)"

lemma keeps_refl [simp]: "keeps p w w"
  by (simp add: keeps_def)

lemma keeps_trans [trans]: "keeps p w w' \<Longrightarrow> keeps p w' w'' \<Longrightarrow> keeps p w w''"
  by (simp add: keeps_def)

lemma keepsD:
  assumes "keeps p w w'"
  shows "task_at w' p = task_at w p" "tick w' = tick w"
    "count_list (fired w') p = count_list (fired w) p"
    "count_list (buckets w' l b) p = count_list (buckets w l b) p"
  using assms by (simp_all add: keeps_def)

lemma keeps_push: "q \<noteq> p \<Longrightarrow> keeps p w (push_task l b q w)"
  by (simp add: keeps_def push_task_def)

lemma keeps_set_task: "q \<noteq> p \<Longrightarrow> keeps p w (setTimerWheelTask d q w)"
  by (auto simp: keeps_def setTimerWheelTask_def push_task_def update_task_def Let_def split: prod.split)

lemma keeps_hand_down: "p \<notin> set qs \<Longrightarrow> keeps p w (hand_down now l target qs w)"
proof (induction qs arbitrary: w)
  case (Cons q qs)
  let ?w = "if isCancel (task_at w q) then w
     else push_task (l - 1) (target (gaps_left now (task_at w q))) q w"
  have "keeps p w ?w" using Cons.prems by (auto intro: keeps_push)
  also have "keeps p ?w (hand_down now l target qs ?w)" using Cons by simp
  finally show ?case by simp
qed simp

lemma set_bucket_same [simp]: "buckets (set_bucket l b ps w) l b = ps"
  by (simp add: set_bucket_def)

lemma keeps_drop: "count_list (buckets w l b) p = count_list qs p \<Longrightarrow> keeps p w (set_bucket l b qs w)"
  by (simp add: keeps_def set_bucket_def)

lemma keeps_cascade:
  assumes "count_list (buckets w l b) p = 0"
  shows "keeps p w (cascade now l b target w)"
proof -
  have "p \<notin> set (buckets w l b)" using assms by (simp add: count_list_0_iff)
  then have kept: "keeps p w (hand_down now l target (buckets w l b) w)" by (rule keeps_hand_down)
  also have "keeps p (hand_down now l target (buckets w l b) w) (cascade now l b target w)"
    unfolding cascade_def by (rule keeps_drop) (use kept assms in \<open>simp add: keeps_def\<close>)
  finally show ?thesis .
qed

lemma keeps_run_task: "q \<noteq> p \<Longrightarrow> keeps p w (run_wheel_task now2 q w)"
  by (auto simp: run_wheel_task_def keeps_def setTimerWheelTask_def push_task_def update_task_def
      Let_def split: prod.split)

text \<open>A repeating task is never put back into the bucket that is being run.\<close>

lemma set_task_elsewhere:
  assumes "2 * tickGap \<le> d"
  shows "buckets (setTimerWheelTask d q w) 1 (unat (tick w) mod 256) = buckets w 1 (unat (tick w) mod 256)"
proof -
  have g: "2 \<le> nat (d div tickGap)" using assms by (simp add: tickGap_def)
  have "task_place (unat (tick w)) (nat (d div tickGap)) \<noteq> (1, unat (tick w) mod 256)"
  proof
    assume place: "task_place (unat (tick w)) (nat (d div tickGap)) = (1, unat (tick w) mod 256)"
    then have "nat (d div tickGap) \<le> 255"
      by (simp add: task_place_def checkOne_def split: if_splits)
    moreover from this place have "(unat (tick w) + nat (d div tickGap)) mod 256 = unat (tick w) mod 256"
      using task_place_one [of "nat (d div tickGap)" "unat (tick w)"] by (simp add: checkOne_def)
    ultimately show False
      using g next_bucket_differs [of "nat (d div tickGap)" "unat (tick w)"] by simp
  qed
  then show ?thesis
    by (auto simp: setTimerWheelTask_def push_task_def update_task_def Let_def split: prod.split)
qed

lemma run_task_bucket:
  assumes "b = unat (tick w) mod 256"
  shows "buckets (run_wheel_task now2 q w) 1 b = buckets w 1 b"
proof (cases "isCancel (task_at w q) \<or> \<not> isDuplicate (task_at w q)")
  case False
  define t where "t = (task_at w q)\<lparr>times := times (task_at w q) + 1\<rparr>"
  define d where "d = addDateTime t + int (times t + 1) * delayInterval t - now2"
  define v where "v = update_task q (\<lambda>_. t\<lparr>expire := addDateTime t + int (times t + 1) * delayInterval t\<rparr>)
     (hand_over q w)"
  have run: "run_wheel_task now2 q w
      = setTimerWheelTask (if d < tickGap * 2 then tickGap * 2 else d) q v"
    using False by (simp add: run_wheel_task_def Let_def t_def d_def v_def)
  have v: "tick v = tick w" "buckets v = buckets w" by (simp_all add: v_def update_task_def)
  show ?thesis
    unfolding run assms v [symmetric] by (rule set_task_elsewhere) simp
qed (auto simp: run_wheel_task_def Let_def)

section \<open>Running a bucket\<close>

lemma keeps_run_bucket:
  "b = unat (tick w) mod 256 \<Longrightarrow> buckets w 1 b = qs \<Longrightarrow> p \<notin> set qs
    \<Longrightarrow> keeps p w (run_bucket now2 b qs w)"
proof (induction qs arbitrary: w)
  case (Cons q qs)
  let ?v = "run_wheel_task (now2 q) q w"
  let ?u = "set_bucket 1 b (tl (buckets ?v 1 b)) ?v"
  have v: "keeps p w ?v" using Cons.prems by (intro keeps_run_task) auto
  have bucket: "buckets ?v 1 b = q # qs"
    using run_task_bucket [OF Cons.prems(1)] Cons.prems(2) by simp
  have u: "keeps p ?v ?u" using Cons.prems bucket by (intro keeps_drop) auto
  have "keeps p ?u (run_bucket now2 b qs ?u)"
    using Cons.prems bucket v by (intro Cons.IH) (auto simp: set_bucket_def keeps_def)
  with u v show ?case by (auto simp: Let_def intro: keeps_trans)
qed simp

text \<open>A task that is once in the running bucket and not cancelled is run once and leaves it.\<close>

lemma run_bucket_fires:
  assumes "b = unat (tick w) mod 256" "buckets w 1 b = qs" "count_list qs p = 1"
    "\<not> isCancel (task_at w p)" "\<not> isDuplicate (task_at w p)"
    "\<And>l b'. (l, b') \<noteq> (1, b) \<Longrightarrow> count_list (buckets w l b') p = 0"
  shows "let w' = run_bucket now2 b qs w in
    count_list (fired w') p = count_list (fired w) p + 1 \<and> tick w' = tick w \<and>
    (\<forall>l b. count_list (buckets w' l b) p = 0)"
  using assms
proof (induction qs arbitrary: w)
  case (Cons q qs)
  let ?v = "run_wheel_task (now2 q) q w"
  let ?u = "set_bucket 1 b (tl (buckets ?v 1 b)) ?v"
  have bucket: "buckets ?v 1 b = q # qs"
    using run_task_bucket [OF Cons.prems(1)] Cons.prems(2) by simp
  show ?case
  proof (cases "q = p")
    case True
    then have gone: "count_list qs p = 0" using Cons.prems(3) by simp
    have v: "?v = hand_over p w"
      using True Cons.prems by (simp add: run_wheel_task_def Let_def)
    have "keeps p ?u (run_bucket now2 b qs ?u)"
      using Cons.prems(1) bucket gone
      by (intro keeps_run_bucket) (auto simp: v set_bucket_def count_list_0_iff)
    moreover have "count_list (buckets ?u l b') p = 0" for l b'
      using Cons.prems(6) gone bucket by (simp add: v set_bucket_def)
    moreover have "count_list (fired ?u) p = count_list (fired w) p + 1" "tick ?u = tick w"
      by (simp_all add: v set_bucket_def)
    ultimately show ?thesis by (simp add: keeps_def Let_def)
  next
    case False
    have v: "keeps p w ?v" using False by (intro keeps_run_task)
    have u: "keeps p ?v ?u" using False bucket by (intro keeps_drop) auto
    have k: "keeps p w ?u" using v u by (rule keeps_trans)
    note kept = keepsD [OF k]
    have "let w' = run_bucket now2 b qs ?u in
      count_list (fired w') p = count_list (fired ?u) p + 1 \<and> tick w' = tick ?u \<and>
      (\<forall>l b. count_list (buckets w' l b) p = 0)"
      using kept Cons.prems bucket False by (intro Cons.IH) simp_all
    then show ?thesis by (simp add: kept [unfolded One_nat_def] Let_def)
  qed
qed simp

section \<open>Steps of the thread and a waiting task\<close>

lemma keeps_distribute:
  assumes "\<And>l b. 1 < l \<Longrightarrow> count_list (buckets w l b) p = 0"
  shows "keeps p w (wheel_distribute now w)"
proof -
  have step: "keeps p w (if c then cascade now l b target v else v)"
    if "keeps p w v" "1 < l" for v l b c target
    using that keeps_trans [OF that(1) keeps_cascade] keepsD(4) [OF that(1)] assms [OF that(2)]
    by simp
  show ?thesis
    unfolding wheel_distribute_def Let_def by (intro step keeps_refl) simp_all
qed

text \<open>The task \<open>p\<close> waits, once, in the bucket \<open>b\<close> of the first level.\<close>

definition waits :: "nat \<Rightarrow> nat \<Rightarrow> 'c TimerWheel \<Rightarrow> bool" where
  "waits p b w \<longleftrightarrow> \<not> isCancel (task_at w p) \<and> \<not> isDuplicate (task_at w p) \<and>
     (\<forall>l b'. count_list (buckets w l b') p = (if l = 1 \<and> b' = b then 1 else 0))"

definition is_gone :: "nat \<Rightarrow> 'c TimerWheel \<Rightarrow> bool" where
  "is_gone p w \<longleftrightarrow> (\<forall>l b. count_list (buckets w l b) p = 0)"

lemma tick_other:
  assumes "\<And>l b. 1 < l \<Longrightarrow> count_list (buckets w l b) p = 0"
    and "count_list (buckets w 1 (unat (tick w) mod 256)) p = 0"
  shows "keeps p w ((wheel_tick now now2 w)\<lparr>tick := tick w\<rparr>) \<and> tick (wheel_tick now now2 w) = tick w + 1"
proof -
  let ?b = "unat (tick w) mod 256"
  define v where "v = wheel_distribute now w"
  have v: "keeps p w v" "wheel_tick now now2 w
      = (let u = run_bucket now2 ?b (buckets v 1 ?b) v in u\<lparr>tick := tick u + 1\<rparr>)"
    using keeps_distribute [of w p now] assms(1) by (simp_all add: Let_def wheel_tick_def v_def)
  have "p \<notin> set (buckets v 1 ?b)"
    using keepsD(4) [OF v(1), of 1 ?b] assms(2) by (simp add: count_list_0_iff)
  then have "keeps p v (run_bucket now2 ?b (buckets v 1 ?b) v)"
    by (intro keeps_run_bucket) (simp_all add: keepsD(2) [OF v(1)])
  with v show ?thesis by (auto simp: keeps_def Let_def)
qed

lemma tick_waiting:
  assumes "waits p b w" "b \<noteq> unat (tick w) mod 256"
  shows "waits p b (wheel_tick now now2 w) \<and> tick (wheel_tick now now2 w) = tick w + 1 \<and>
    count_list (fired (wheel_tick now now2 w)) p = count_list (fired w) p"
  using tick_other [of w p now now2] assms by (auto simp: waits_def keeps_def)

lemma tick_gone:
  assumes "is_gone p w"
  shows "is_gone p (wheel_tick now now2 w) \<and>
    count_list (fired (wheel_tick now now2 w)) p = count_list (fired w) p"
  using tick_other [of w p now now2] assms by (auto simp: is_gone_def keeps_def)

lemma tick_fires:
  assumes "waits p b w" "b = unat (tick w) mod 256"
  shows "is_gone p (wheel_tick now now2 w) \<and>
    count_list (fired (wheel_tick now now2 w)) p = count_list (fired w) p + 1"
proof -
  define v where "v = wheel_distribute now w"
  have v: "keeps p w v" "wheel_tick now now2 w
      = (let u = run_bucket now2 b (buckets v 1 b) v in u\<lparr>tick := tick u + 1\<rparr>)"
    using keeps_distribute [of w p now] assms by (simp_all add: Let_def wheel_tick_def v_def waits_def)
  show ?thesis
    using run_bucket_fires [of b v "buckets v 1 b" p now2] v assms
    by (auto simp: waits_def is_gone_def keeps_def Let_def)
qed

section \<open>Every address in the wheel is allocated\<close>

definition below :: "nat \<Rightarrow> 'c TimerWheel \<Rightarrow> bool" where
  "below n w \<longleftrightarrow> next_task w = n \<and> (\<forall>l b. \<forall>q \<in> set (buckets w l b). q < n) \<and> (\<forall>q \<in> set (fired w). q < n)"

definition wf_wheel :: "'c TimerWheel \<Rightarrow> bool" where
  "wf_wheel w \<longleftrightarrow> below (next_task w) w"

definition new_wheel :: "'c TimerWheelTask \<Rightarrow> 'c TimerWheel" where
  "new_wheel t = \<lparr>task_at = (\<lambda>_. t), next_task = 0, tick = 0, buckets = (\<lambda>_ _. []),
     bucket_ids = (\<lambda>_ _. 0), fired = [], wheel_pool = None, committed = [], ran = []\<rparr>"

lemma below_push: "below n w \<Longrightarrow> q < n \<Longrightarrow> below n (push_task l b q w)"
  by (auto simp: below_def push_task_def)

lemma below_update: "below n w \<Longrightarrow> below n (update_task q f w)"
  by (auto simp: below_def update_task_def)

lemma below_ids: "below n (w\<lparr>bucket_ids := i\<rparr>) = below n w"
  by (simp add: below_def)

lemma below_set_task: "below n w \<Longrightarrow> q < n \<Longrightarrow> below n (setTimerWheelTask d q w)"
  by (auto simp: setTimerWheelTask_def Let_def below_ids intro!: below_push below_update split: prod.split)

lemma below_set_bucket: "below n w \<Longrightarrow> set qs \<subseteq> {..<n} \<Longrightarrow> below n (set_bucket l b qs w)"
  by (auto simp: below_def set_bucket_def)

lemma below_hand_down: "below n w \<Longrightarrow> set qs \<subseteq> {..<n} \<Longrightarrow> below n (hand_down now l target qs w)"
  by (induction qs arbitrary: w) (auto intro: below_push)

lemma below_bucket: "below n w \<Longrightarrow> set (buckets w l b) \<subseteq> {..<n}"
  by (auto simp: below_def)

lemma below_cascade: "below n w \<Longrightarrow> below n (cascade now l b target w)"
  unfolding cascade_def by (intro below_set_bucket below_hand_down below_bucket) simp_all

lemma below_run_task:
  assumes "below n w" "q < n"
  shows "below n (run_wheel_task now2 q w)"
proof -
  have "below n (hand_over q w)" using assms by (auto simp: below_def)
  then show ?thesis
    using assms unfolding run_wheel_task_def Let_def
    by (auto intro!: below_set_task below_update)
qed

lemma set_tl_subset: "set (tl xs) \<subseteq> set xs"
  by (cases xs) auto

lemma below_run_bucket: "below n w \<Longrightarrow> set qs \<subseteq> {..<n} \<Longrightarrow> below n (run_bucket now2 b qs w)"
proof (induction qs arbitrary: w)
  case (Cons q qs)
  have "below n (run_wheel_task (now2 q) q w)" using Cons.prems by (intro below_run_task) auto
  then have "below n (set_bucket 1 b (tl (buckets (run_wheel_task (now2 q) q w) 1 b)) (run_wheel_task (now2 q) q w))"
    by (intro below_set_bucket subset_trans [OF set_tl_subset] below_bucket)
  then show ?case using Cons by (simp add: Let_def)
qed simp

lemma below_distribute: "below n w \<Longrightarrow> below n (wheel_distribute now w)"
  unfolding wheel_distribute_def Let_def by (simp add: below_cascade)

lemma below_tick: "below n w \<Longrightarrow> below n (wheel_tick now now2 w)"
proof -
  have tick_free: "below n (v\<lparr>tick := t\<rparr>) = below n v" for v :: "'a TimerWheel" and t
    by (simp add: below_def)
  show "below n w \<Longrightarrow> below n (wheel_tick now now2 w)"
    unfolding wheel_tick_def Let_def tick_free
    by (intro below_run_bucket below_distribute below_bucket)
qed

section \<open>A cancelled task stays silent\<close>

text \<open>The runs of a task, those included that the pool still has to make.\<close>

definition runs :: "nat \<Rightarrow> 'c TimerWheel \<Rightarrow> nat" where
  "runs p w = count_list (ran w) p + count_list (committed w) p"

definition silent :: "nat \<Rightarrow> 'c TimerWheel \<Rightarrow> 'c TimerWheel \<Rightarrow> bool" where
  "silent p w w' \<longleftrightarrow> (isCancel (task_at w p) \<longrightarrow>
     isCancel (task_at w' p) \<and> count_list (fired w') p = count_list (fired w) p \<and> runs p w' = runs p w)"

lemma silent_refl [simp]: "silent p w w"
  by (simp add: silent_def)

lemma silent_trans: "silent p w w' \<Longrightarrow> silent p w' w'' \<Longrightarrow> silent p w w''"
  by (auto simp: silent_def)

lemma silent_hand_down: "silent p w (hand_down now l target qs w)"
proof (induction qs arbitrary: w)
  case (Cons q qs)
  have "silent p w (push_task l' b q w)" for l' b by (simp add: silent_def push_task_def runs_def)
  then show ?case using Cons by (auto intro: silent_trans)
qed simp

lemma silent_set_bucket: "silent p w (set_bucket l b qs w)"
  by (simp add: silent_def set_bucket_def runs_def)

lemma silent_cascade: "silent p w (cascade now l b target w)"
  unfolding cascade_def by (rule silent_trans [OF silent_hand_down silent_set_bucket])

lemma runs_set_task [simp]: "runs p (setTimerWheelTask d q w) = runs p w"
  by (simp add: runs_def setTimerWheelTask_def push_task_def update_task_def Let_def split: prod.split)

lemma runs_update_task [simp]: "runs p (update_task q f w) = runs p w"
  by (simp add: runs_def update_task_def)

lemma runs_hand_over: "runs p (hand_over q w) = runs p w + (if q = p then 1 else 0)"
  by (simp add: runs_def hand_over_def Let_def split: option.split)

lemma runs_pool [simp]: "runs p (pool_runs k w) = runs p w"
proof (cases "k < length (committed w)")
  case True
  let ?c = "committed w"
  have "count_list ?c p = count_list (take k ?c @ ?c ! k # drop (Suc k) ?c) p"
    using True by (simp add: id_take_nth_drop [symmetric])
  then show ?thesis using True by (simp add: runs_def pool_runs_def)
qed (simp add: pool_runs_def)

lemma silent_run_task: "silent p w (run_wheel_task now2 q w)"
proof (cases "q = p")
  case True
  then show ?thesis by (simp add: silent_def run_wheel_task_def)
next
  case False
  then have "runs p (run_wheel_task now2 q w) = runs p w"
    by (simp add: run_wheel_task_def Let_def runs_hand_over)
  then show ?thesis using keepsD(1,3) [OF keeps_run_task [OF False, of w now2]] by (simp add: silent_def)
qed

lemma silent_run_bucket: "silent p w (run_bucket now2 b qs w)"
proof (induction qs arbitrary: w)
  case (Cons q qs)
  show ?case
    using silent_trans [OF silent_run_task silent_trans [OF silent_set_bucket Cons.IH]]
    by (simp add: Let_def)
qed simp

lemma silent_distribute: "silent p w (wheel_distribute now w)"
proof -
  have step: "silent p w (if c then cascade now l b target v else v)" if "silent p w v" for v l b c target
    using that silent_trans [OF that silent_cascade] by simp
  show ?thesis unfolding wheel_distribute_def Let_def by (intro step silent_refl)
qed

lemma silent_tick: "silent p w (wheel_tick now now2 w)"
proof -
  have tick_free: "silent p w (v\<lparr>tick := t\<rparr>) = silent p w v" for v and t by (simp add: silent_def runs_def)
  show ?thesis
    unfolding wheel_tick_def Let_def tick_free
    by (rule silent_trans [OF silent_distribute silent_run_bucket])
qed

section \<open>The wheel as a state machine\<close>

text \<open>The steps of the thread, the calls of the operations and the runs of the pool, in any order.\<close>

inductive wheel_step :: "'c TimerWheel \<Rightarrow> 'c TimerWheel \<Rightarrow> bool" where
  step_tick: "wheel_step w (wheel_tick now now2 w)"
| step_timeout: "wheel_setTimeout now delay cb w = Inr (w', p) \<Longrightarrow> wheel_step w w'"
| step_interval: "wheel_setInterval now added delay cb w = Inr (w', p) \<Longrightarrow> wheel_step w w'"
| step_clear: "wheel_step w (wheel_clearTimeout p w)"
| step_clear_interval: "wheel_step w (wheel_clearInterval p w)"
| step_inject: "wheel_step w (inject_thread_pool pool w)"
| step_pool: "wheel_step w (pool_runs k w)"

text \<open>What a successful call of the two setters does.\<close>

definition enrolled :: "nat \<Rightarrow> 'c TimerWheelTask \<Rightarrow> 'c TimerWheel \<Rightarrow> int \<Rightarrow> 'c TimerWheel" where
  "enrolled p t w delay = setTimerWheelTask delay p
     (w\<lparr>task_at := (task_at w)(p := t), next_task := p + 1\<rparr>)"

lemma setTimeout_enrolled:
  "wheel_setTimeout now delay cb w = Inr (w', p) \<Longrightarrow>
     p = next_task w \<and> w' = enrolled p (new_task cb (now + delay)) w delay \<and> 0 < delay"
  by (auto simp: wheel_setTimeout_def alloc_task_def enrolled_def Let_def split: if_splits)

lemma setInterval_enrolled:
  "wheel_setInterval now added delay cb w = Inr (w', p) \<Longrightarrow>
     p = next_task w \<and> (\<exists>t. w' = enrolled p t w delay)"
  by (auto simp: wheel_setInterval_def alloc_task_def enrolled_def Let_def split: if_splits)

lemma below_enrolled: "below n w \<Longrightarrow> below (Suc n) (enrolled n t w delay)"
  unfolding enrolled_def by (intro below_set_task) (auto simp: below_def less_Suc_eq)

lemma silent_enrolled: "p \<noteq> q \<Longrightarrow> silent p w (enrolled q t w delay)"
  using keeps_set_task [of q p "w\<lparr>task_at := (task_at w)(q := t), next_task := q + 1\<rparr>" delay]
  by (auto simp: enrolled_def silent_def runs_def [of p "_\<lparr>task_at := _, next_task := _\<rparr>"] runs_def [of p w] dest: keepsD)

lemma wheel_step_wf: "wheel_step w w' \<Longrightarrow> wf_wheel w \<Longrightarrow> wf_wheel w' \<and> next_task w \<le> next_task w'"
proof (induction rule: wheel_step.induct)
  case (step_tick w now now2)
  then show ?case using below_tick [of "next_task w" w now now2] by (auto simp: wf_wheel_def below_def)
next
  case (step_timeout now delay cb w w' p)
  then show ?case
    using below_enrolled [of "next_task w" w] setTimeout_enrolled [OF step_timeout(1)]
    by (fastforce simp: wf_wheel_def below_def)
next
  case (step_interval now added delay cb w w' p)
  then show ?case
    using below_enrolled [of "next_task w" w] setInterval_enrolled [OF step_interval(1)]
    by (fastforce simp: wf_wheel_def below_def)
qed (auto simp: wf_wheel_def below_def wheel_clearTimeout_def wheel_clearInterval_def update_task_def
    inject_thread_pool_def pool_runs_def)

lemma wheel_step_silent: "wheel_step w w' \<Longrightarrow> p < next_task w \<Longrightarrow> silent p w w'"
proof (induction rule: wheel_step.induct)
  case (step_timeout now delay cb w w' q)
  then show ?case using setTimeout_enrolled [OF step_timeout(1)] silent_enrolled [of p q w] by auto
next
  case (step_interval now added delay cb w w' q)
  then show ?case using setInterval_enrolled [OF step_interval(1)] silent_enrolled [of p q w] by auto
next
  case (step_pool w k)
  have "task_at (pool_runs k w) = task_at w" "fired (pool_runs k w) = fired w" by (simp_all add: pool_runs_def)
  then show ?case by (simp add: silent_def)
qed (auto simp: silent_tick, auto simp: silent_def wheel_clearTimeout_def wheel_clearInterval_def inject_thread_pool_def
    update_task_def runs_def)

text \<open>
  C37 A task that was cancelled is not handed over again: whatever steps of the thread, calls of the
  operations and runs of the pool follow \<open>clearTimeout\<close>, the number of its hand-overs stays what it
  was when it was cancelled, and so does the number of its runs together with those the pool already
  holds. It is therefore never run again when no committed run of it was waiting in the pool; one that
  was is still made, since the pool does not look at the task.
\<close>

theorem wheel_cancel_silences:
  assumes "wf_wheel w" "p < next_task w" "wheel_step\<^sup>*\<^sup>* (wheel_clearTimeout p w) w'"
  shows "wf_wheel w' \<and> isCancel (task_at w' p) \<and> count_list (fired w') p = count_list (fired w) p \<and>
    count_list (ran w') p + count_list (committed w') p = count_list (ran w) p + count_list (committed w) p"
proof -
  have "wf_wheel w' \<and> p < next_task w' \<and> silent p (wheel_clearTimeout p w) w'"
    using assms(3)
  proof (induction rule: rtranclp_induct)
    case base
    then show ?case using assms wheel_step_wf [OF step_clear [of w p]] by auto
  next
    case (step v u)
    then show ?case
      using wheel_step_wf [OF step.hyps(2)] wheel_step_silent [OF step.hyps(2)]
      by (auto intro: silent_trans)
  qed
  then show ?thesis by (simp add: silent_def wheel_clearTimeout_def update_task_def runs_def)
qed

lemma new_wheel_wf: "wf_wheel (new_wheel t)"
  by (simp add: wf_wheel_def below_def new_wheel_def)

text \<open>A wheel with one task, used as an instance.\<close>

definition one_task_wheel :: "nat TimerWheel" where
  "one_task_wheel = enrolled 0 (new_task 7 1010) (new_wheel (new_task 0 0)) 10"

lemma one_task_setTimeout:
  "wheel_setTimeout 1000 10 7 (new_wheel (new_task 0 0)) = Inr (one_task_wheel, 0)"
  by (simp add: wheel_setTimeout_def alloc_task_def one_task_wheel_def enrolled_def new_wheel_def Let_def)

lemma one_task_wf: "wf_wheel one_task_wheel \<and> next_task one_task_wheel = 1"
  using below_enrolled [of 0 "new_wheel (new_task (0 :: nat) 0)" "new_task 7 1010" 10]
  by (simp add: one_task_wheel_def wf_wheel_def below_def new_wheel_def)

theorem wheel_cancel_silences_witness:
  "count_list (ran (wheel_tick 1005 (\<lambda>_. 1005) (wheel_clearTimeout 0 one_task_wheel))) 0 \<le>
     count_list (ran one_task_wheel) 0 + count_list (committed one_task_wheel) 0"
  using wheel_cancel_silences [of one_task_wheel 0 "wheel_tick 1005 (\<lambda>_. 1005) (wheel_clearTimeout 0 one_task_wheel)"]
    one_task_wf step_tick [of "wheel_clearTimeout 0 one_task_wheel" 1005 "\<lambda>_. 1005"]
  by (simp add: r_into_rtranclp)

section \<open>A timeout is run once, at its tick\<close>

lemma unat_add_mod: "unat (t + of_nat k :: u32) mod 256 = (unat t + k) mod 256"
proof -
  have "unat (t + of_nat k) = (unat t + k) mod 2 ^ 32"
    by (simp add: unat_word_ariths unat_of_nat mod_simps)
  then show ?thesis by (simp add: mod_mod_cancel)
qed

lemma enrolled_waits:
  assumes "below p w" "nat (delay div tickGap) \<le> 255" "\<not> isCancel t" "\<not> isDuplicate t"
  shows "waits p ((unat (tick w) + nat (delay div tickGap)) mod 256) (enrolled p t w delay)"
proof -
  have "task_place (unat (tick w)) (nat (delay div tickGap))
      = (1, (unat (tick w) + nat (delay div tickGap)) mod 256)"
    using assms(2) by (intro task_place_one) (simp add: checkOne_def)
  moreover have "count_list (buckets w l b) p = 0" for l b
    using assms(1) by (auto simp: below_def count_list_0_iff)
  ultimately show ?thesis
    using assms by (simp add: waits_def enrolled_def setTimerWheelTask_def push_task_def update_task_def)
qed

lemma run_gone: "is_gone p w \<Longrightarrow> count_list (fired (wheel_run cs w)) p = count_list (fired w) p"
  by (induction cs arbitrary: w) (simp_all add: tick_gone)

lemma run_waiting:
  "waits p ((unat (tick w) + g) mod 256) w \<Longrightarrow> g \<le> 255 \<Longrightarrow>
     count_list (fired (wheel_run cs w)) p = count_list (fired w) p + (if length cs \<le> g then 0 else 1)"
proof (induction cs arbitrary: w g)
  case (Cons c cs)
  let ?w = "wheel_tick (fst c) (snd c) w"
  show ?case
  proof (cases g)
    case 0
    with Cons.prems show ?thesis using tick_fires [of p _ w "fst c" "snd c"] by (simp add: run_gone)
  next
    case (Suc h)
    have "waits p ((unat (tick w) + g) mod 256) ?w \<and> tick ?w = tick w + 1 \<and>
        count_list (fired ?w) p = count_list (fired w) p"
      using Cons.prems Suc next_bucket_differs [of g] by (intro tick_waiting) auto
    moreover have "(unat (tick w + 1) + h) mod 256 = (unat (tick w) + g) mod 256"
      using mod_add_cong [OF unat_add_mod [of "tick w" 1] refl, of h] Suc by simp
    ultimately show ?thesis using Cons.IH [of ?w h] Cons.prems Suc by simp
  qed
qed simp

text \<open>
  C20 A timeout of fewer than 256 gaps of five milliseconds is handed over exactly once, to be run by
  the wheel or by the pool injected into it: not in the first \<open>delay div 5\<close> steps of the thread, then
  in the step after them, and never again, whatever else is in the wheel and whatever the clock shows.
\<close>

theorem wheel_timeout_fires_once:
  assumes "wf_wheel w" "wheel_setTimeout now delay cb w = Inr (w', p)" "delay div tickGap \<le> 255"
  shows "count_list (fired (wheel_run cs w')) p = (if length cs \<le> nat (delay div tickGap) then 0 else 1)"
proof -
  have p: "p = next_task w" "w' = enrolled p (new_task cb (now + delay)) w delay" "0 < delay"
    using setTimeout_enrolled [OF assms(2)] by simp_all
  have w: "below p w" using assms(1) p by (simp add: wf_wheel_def)
  have same: "tick w' = tick w" "fired w' = fired w"
    by (simp_all add: p(2) enrolled_def setTimerWheelTask_def push_task_def update_task_def Let_def
        split: prod.split)
  have g: "nat (delay div tickGap) \<le> 255" using assms(3) by simp
  have "waits p ((unat (tick w') + nat (delay div tickGap)) mod 256) w'"
    unfolding same unfolding p(2) by (intro enrolled_waits w g) (simp_all add: new_task_def)
  then have "count_list (fired (wheel_run cs w')) p
      = count_list (fired w') p + (if length cs \<le> nat (delay div tickGap) then 0 else 1)"
    using g by (rule run_waiting)
  moreover have "count_list (fired w) p = 0"
    using w by (auto simp: below_def count_list_0_iff)
  ultimately show ?thesis by (simp only: same add_0_left)
qed

theorem wheel_timeout_fires_once_witness:
  "count_list (fired (wheel_run [(1000, \<lambda>_. 1000), (1005, \<lambda>_. 1005)] one_task_wheel)) 0 = 0 \<and>
   count_list (fired (wheel_run [(1000, \<lambda>_. 1000), (1005, \<lambda>_. 1005), (1010, \<lambda>_. 1010)] one_task_wheel)) 0 = 1"
  using wheel_timeout_fires_once [OF new_wheel_wf one_task_setTimeout, of "[(1000, \<lambda>_. 1000), (1005, \<lambda>_. 1005)]"]
    wheel_timeout_fires_once [OF new_wheel_wf one_task_setTimeout, of "[(1000, \<lambda>_. 1000), (1005, \<lambda>_. 1005), (1010, \<lambda>_. 1010)]"]
  by (simp add: tickGap_def)

end
