(* ===== verification/Rpc_Message.thy ===== *)
theory Rpc_Message
  imports Protocol Serializer_Safety Timer_Tree
begin

text \<open>
  The objects that carry a message of the RPC layer: \<open>Servlet\<close>, \<open>Request\<close> (\<open>request.cpp\<close>),
  \<open>Response\<close> (\<open>response.cpp\<close>), \<open>ResponseData\<close> (\<open>response_data.cpp\<close>), \<open>RpcResponseHeader\<close> and
  \<open>Peer\<close>. Memory taken from the pool is a list of bytes that may be unset (\<open>None\<close>). An exception
  is a value; an access outside an object is the value \<open>MemoryError\<close>.
\<close>

section \<open>Errors and results\<close>

datatype ReactorError =
    EpollFdCreateFailed | EpollEPOLL_CTL_ADDFailed | SocketFdCreateFailed | SocketBindFailed
  | CreateSubReactorFailed | CreateMainReactorThreadFailed | CreateTransmitterThreadFailed
  | MemoryPoolCreateFailed | PieceStateOutBound

datatype ClientError =
    IPAddressError | CreateSocketError | SocketFDError | ServerNotSupportTheProtocol | PieceStateIncorrect

datatype rpc_error =
  ReactorException ReactorError | ClientException ClientError | RuntimeError | MemoryError

type_synonym 'a res = "rpc_error + 'a"

definition defined :: "'a option \<Rightarrow> 'a res" where
  "defined m = (case m of None \<Rightarrow> Inl MemoryError | Some a \<Rightarrow> Inr a)"

lemma defined_simps [simp]: "defined None = Inl MemoryError" "defined (Some a) = Inr a"
  by (simp_all add: defined_def)

section \<open>Servlet and Peer\<close>

record Servlet =
  request_id :: u64
  client_port :: u16
  client_ip_address :: u32

definition servlet_less :: "Servlet \<Rightarrow> Servlet \<Rightarrow> bool" where
  "servlet_less me other \<longleftrightarrow>
     (if request_id me \<noteq> request_id other then request_id me < request_id other
      else if client_ip_address me \<noteq> client_ip_address other
      then client_ip_address other < client_ip_address me
      else client_port other < client_port me)"

record Peer =
  peer_port :: u16
  peer_ip :: u32

definition peer_less :: "Peer \<Rightarrow> Peer \<Rightarrow> bool" where
  "peer_less me other \<longleftrightarrow>
     (if peer_ip me \<noteq> peer_ip other then peer_ip other < peer_ip me
      else peer_port other < peer_port me)"

definition peer_eq :: "Peer \<Rightarrow> Peer \<Rightarrow> bool" where
  "peer_eq oth me \<longleftrightarrow> (if peer_port oth = peer_port me \<and> peer_ip oth = peer_ip me then True else False)"

section \<open>Piece states\<close>

text \<open>The number of the first piece that is missing: \<open>getAckNumber\<close>, of three classes alike.\<close>

primrec first_missing :: "bool list \<Rightarrow> nat" where
  "first_missing [] = 0"
| "first_missing (b # bs) = (if b then Suc (first_missing bs) else 0)"

text \<open>\<open>std::memcpy\<close> into pool memory.\<close>

definition copy_to :: "nat \<Rightarrow> byte list \<Rightarrow> byte option list \<Rightarrow> byte option list option" where
  "copy_to off bs mem =
     (if off + length bs \<le> length mem
      then Some (take off mem @ map Some bs @ drop (off + length bs) mem) else None)"

text \<open>\<open>recvfrom\<close>: the datagram overwrites the front of the buffer, cut to its size.\<close>

definition receive_into :: "byte list \<Rightarrow> byte list \<Rightarrow> byte list" where
  "receive_into dgram buf = take (length buf) dgram @ drop (length dgram) buf"

lemma length_receive_into [simp]: "length (receive_into dgram buf) = length buf"
  by (simp add: receive_into_def)

section \<open>Request\<close>

record Request =
  req_servlet :: Servlet
  req_piece_state :: "bool list"
  req_piece_count :: u16
  req_total_data_size :: u32
  req_socketFd :: int
  req_is_trigger :: bool
  req_active_dt :: int
  req_data :: "byte option list"

definition new_Request :: "u64 \<Rightarrow> u16 \<Rightarrow> u32 \<Rightarrow> u16 \<Rightarrow> u32 \<Rightarrow> Request" where
  "new_Request ident port ip pieces data_size =
     \<lparr>req_servlet = \<lparr>request_id = ident, client_port = port, client_ip_address = ip\<rparr>,
      req_piece_state = replicate (unat pieces) False, req_piece_count = pieces,
      req_total_data_size = data_size, req_socketFd = -1, req_is_trigger = False,
      req_active_dt = 0, req_data = []\<rparr>"

definition req_getAckNumber :: "Request \<Rightarrow> u16" where
  "req_getAckNumber r = word_of_nat (first_missing (req_piece_state r))"

definition req_getPieceState :: "u16 \<Rightarrow> Request \<Rightarrow> bool res" where
  "req_getPieceState index r =
     (if req_piece_count r < index then Inl (ReactorException PieceStateOutBound)
      else if unat index < length (req_piece_state r) then Inr (req_piece_state r ! unat index)
      else Inl MemoryError)"

definition req_setPieceState :: "u16 \<Rightarrow> bool \<Rightarrow> Request \<Rightarrow> (Request \<times> u16) res" where
  "req_setPieceState index v r =
     (if req_piece_count r < index then Inl (ReactorException PieceStateOutBound)
      else if unat index < length (req_piece_state r)
      then let r = r\<lparr>req_piece_state := (req_piece_state r)[unat index := v]\<rparr>
           in Inr (r, req_getAckNumber r)
      else Inl MemoryError)"

definition req_trigger :: "Request \<Rightarrow> Request" where
  "req_trigger r = r\<lparr>req_is_trigger := True\<rparr>"

section \<open>Response\<close>

text \<open>
  A response refers to its data by the address of pool memory; the destructor gives this memory
  back, and the copy constructor copies the address.
\<close>

record Response =
  resp_servlet :: Servlet
  resp_piece_state :: "bool list"
  resp_piece_count :: u16
  resp_last_piece_size :: u16
  resp_total_data_size :: u32
  resp_ack_accept :: u16
  resp_is_get_new_ack :: bool
  resp_lastActive :: int
  resp_data :: nat

definition new_Response :: "int \<Rightarrow> u64 \<Rightarrow> u16 \<Rightarrow> u32 \<Rightarrow> u16 \<Rightarrow> u32 \<Rightarrow> nat \<Rightarrow> Response" where
  "new_Response now ident port ip pieces data_size dt =
     \<lparr>resp_servlet = \<lparr>request_id = ident, client_port = port, client_ip_address = ip\<rparr>,
      resp_piece_state = [], resp_piece_count = pieces,
      resp_last_piece_size =
        word_of_nat (if unat data_size mod defaultPieceLimitSize = 0 then defaultPieceLimitSize
                     else unat data_size mod defaultPieceLimitSize),
      resp_total_data_size = data_size, resp_ack_accept = 0, resp_is_get_new_ack = True,
      resp_lastActive = now, resp_data = dt\<rparr>"

text \<open>
  \<open>Response(const Response&)\<close> copies every member but \<open>lastActive\<close> and \<open>is_get_new_ack\<close>: the
  flag takes its default \<open>true\<close>; \<open>lastActive\<close> has no initialiser and is whatever the memory held.
\<close>

definition copy_Response :: "int \<Rightarrow> Response \<Rightarrow> Response" where
  "copy_Response garbage other = other\<lparr>resp_is_get_new_ack := True, resp_lastActive := garbage\<rparr>"

definition resp_getPieceState :: "u32 \<Rightarrow> Response \<Rightarrow> bool res" where
  "resp_getPieceState index r =
     (if unat (resp_piece_count r) < unat index then Inl (ReactorException PieceStateOutBound)
      else if unat index < length (resp_piece_state r) then Inr (resp_piece_state r ! unat index)
      else Inl MemoryError)"

definition resp_setPieceState :: "u32 \<Rightarrow> bool \<Rightarrow> Response \<Rightarrow> Response res" where
  "resp_setPieceState index v r =
     (if unat (resp_piece_count r) < unat index then Inl (ReactorException PieceStateOutBound)
      else if unat index < length (resp_piece_state r)
      then Inr (r\<lparr>resp_piece_state := (resp_piece_state r)[unat index := v]\<rparr>)
      else Inl MemoryError)"

definition setAckAccept :: "u16 \<Rightarrow> Response \<Rightarrow> Response \<times> bool" where
  "setAckAccept new_ack r =
     (if resp_ack_accept r < new_ack then (r\<lparr>resp_ack_accept := new_ack\<rparr>, True) else (r, False))"

definition setNewAckState :: "bool \<Rightarrow> Response \<Rightarrow> Response" where
  "setNewAckState v r = r\<lparr>resp_is_get_new_ack := v\<rparr>"

section \<open>ResponseData, the client's side\<close>

datatype FailureReason =
  FailureOK | ServerResourcesExhausted | NetworkTimeout | TheRunningLogicOfTheServerIncorrect

record ResponseData =
  rd_message_id :: u64
  rd_piece_state :: "bool list"
  rd_piece_count :: u16
  rd_total_size :: u32
  rd_is_initial :: bool
  rd_isSuccess :: bool
  rd_reason :: FailureReason
  rd_data :: "byte option list"

definition new_ResponseData :: ResponseData where
  "new_ResponseData = \<lparr>rd_message_id = 0, rd_piece_state = [], rd_piece_count = 0, rd_total_size = 0,
     rd_is_initial = False, rd_isSuccess = False, rd_reason = FailureOK, rd_data = []\<rparr>"

definition rd_initialize :: "u64 \<Rightarrow> u16 \<Rightarrow> u32 \<Rightarrow> ResponseData \<Rightarrow> ResponseData" where
  "rd_initialize message_id pieces tsize r =
     (if rd_is_initial r then r
      else r\<lparr>rd_piece_state := take (unat pieces) (rd_piece_state r) @
                 replicate (unat pieces - length (rd_piece_state r)) False,
             rd_message_id := message_id, rd_piece_count := pieces, rd_total_size := tsize,
             rd_data := replicate (unat tsize) None, rd_is_initial := True\<rparr>)"

definition rd_getAckNumber :: "ResponseData \<Rightarrow> u16" where
  "rd_getAckNumber r = word_of_nat (first_missing (rd_piece_state r))"

definition rd_getPieceState :: "u16 \<Rightarrow> ResponseData \<Rightarrow> bool res" where
  "rd_getPieceState index r =
     (if rd_piece_count r < index then Inl (ClientException PieceStateIncorrect)
      else if unat index < length (rd_piece_state r) then Inr (rd_piece_state r ! unat index)
      else Inl MemoryError)"

definition rd_setPieceState :: "u16 \<Rightarrow> bool \<Rightarrow> ResponseData \<Rightarrow> (ResponseData \<times> u16) res" where
  "rd_setPieceState index v r =
     (if rd_piece_count r < index then Inl (ClientException PieceStateIncorrect)
      else if unat index < length (rd_piece_state r)
      then let r = r\<lparr>rd_piece_state := (rd_piece_state r)[unat index := v]\<rparr>
           in Inr (r, rd_getAckNumber r)
      else Inl MemoryError)"

section \<open>RpcResponseHeader\<close>

datatype RpcFailureReason =
    RpcSuccess | ParameterError | MethodNotExist | ClientInnerException | ServerInnerException
  | MethodExecutionError | UnexpectedReturnValue

primrec reason_code :: "RpcFailureReason \<Rightarrow> u32" where
  "reason_code RpcSuccess = 0"
| "reason_code ParameterError = 1"
| "reason_code MethodNotExist = 2"
| "reason_code ClientInnerException = 3"
| "reason_code ServerInnerException = 4"
| "reason_code MethodExecutionError = 5"
| "reason_code UnexpectedReturnValue = 6"

record RpcResponseHeader =
  rh_ok :: bool
  rh_reason :: u32

definition new_RpcResponseHeader :: RpcResponseHeader where
  "new_RpcResponseHeader = \<lparr>rh_ok = False, rh_reason = reason_code RpcSuccess\<rparr>"

definition setReason :: "RpcFailureReason \<Rightarrow> RpcResponseHeader \<Rightarrow> RpcResponseHeader" where
  "setReason r hdr = hdr\<lparr>rh_reason := reason_code r\<rparr>"

definition setOkState :: "bool \<Rightarrow> RpcResponseHeader \<Rightarrow> RpcResponseHeader" where
  "setOkState b hdr = hdr\<lparr>rh_ok := b\<rparr>"

definition rpc_header_val :: "RpcResponseHeader \<Rightarrow> sval" where
  "rpc_header_val hdr = VClass [VBool (rh_ok hdr), VInt32 (rh_reason hdr)]"

definition rpc_header_type :: cty where
  "rpc_header_type = TClass [TBool, TInt32]"

section \<open>Orders of the keys\<close>

interpretation servlet_key: ordered_keys servlet_less
  by unfold_locales (auto simp: servlet_less_def split: if_splits)

interpretation peer_key: ordered_keys peer_less
  by unfold_locales (auto simp: peer_less_def split: if_splits)

lemma servlet_total: "servlet_less a b \<or> a = b \<or> servlet_less b a" for a b :: Servlet
  by (cases a; cases b) (auto simp: servlet_less_def)

lemma peer_total: "peer_less a b \<or> peer_eq a b \<or> peer_less b a" "peer_eq a b \<longleftrightarrow> a = b" for a b :: Peer
  by (cases a; cases b, auto simp: peer_less_def peer_eq_def)+

section \<open>The first missing piece\<close>

lemma first_missing_le: "first_missing bs \<le> length bs"
  by (induction bs) simp_all

lemma first_missing_missing: "first_missing bs < length bs \<Longrightarrow> \<not> bs ! first_missing bs"
  by (induction bs) auto

lemma first_missing_before: "i < first_missing bs \<Longrightarrow> bs ! i"
  by (induction bs arbitrary: i) (auto simp: nth_Cons less_Suc_eq_0_disj split: nat.splits if_splits)

lemma first_missing_all: "first_missing bs = length bs \<longleftrightarrow> (\<forall>i < length bs. bs ! i)"
  by (metis first_missing_before first_missing_le first_missing_missing le_neq_implies_less)

section \<open>Pieces of a message\<close>

text \<open>A message is cut into pieces of \<open>defaultPieceLimitSize\<close> bytes, the last one may be shorter.\<close>

definition pieces_of :: "byte list \<Rightarrow> nat" where
  "pieces_of msg = length msg div defaultPieceLimitSize +
     (if length msg mod defaultPieceLimitSize = 0 then 0 else 1)"

definition piece :: "byte list \<Rightarrow> nat \<Rightarrow> byte list" where
  "piece msg i = take defaultPieceLimitSize (drop (i * defaultPieceLimitSize) msg)"

lemma limit_size [simp]: "defaultPieceLimitSize = 522"
  by (simp add: defaultPieceLimitSize_def protocolHeaderSize_def)

lemma pieces_less_iff: "i < pieces_of msg \<longleftrightarrow> i * 522 < length msg"
proof -
  have "i < pieces_of msg \<longleftrightarrow> Suc i \<le> (length msg + 521) div 522"
    unfolding ceil_div by (simp add: pieces_of_def Suc_le_eq)
  also have "\<dots> \<longleftrightarrow> Suc i * 522 \<le> length msg + 521"
    by (rule less_eq_div_iff_mult_less_eq) simp
  finally show ?thesis by auto
qed

lemma piece_end: "i < pieces_of msg \<Longrightarrow> i * 522 + length (piece msg i) \<le> length msg"
  by (simp add: piece_def pieces_less_iff)

lemma length_piece: "i < pieces_of msg \<Longrightarrow> length (piece msg i)
   = (if i = pieces_of msg - 1 then (if length msg mod 522 = 0 then 522 else length msg mod 522) else 522)"
proof -
  assume i: "i < pieces_of msg"
  have d: "length msg = 522 * (length msg div 522) + length msg mod 522" by simp
  have "i = pieces_of msg - 1 \<or> Suc i < pieces_of msg" using i by linarith
  then show ?thesis
  proof
    assume "Suc i < pieces_of msg"
    then have "Suc i * 522 < length msg" by (simp only: pieces_less_iff)
    then show ?thesis using \<open>Suc i < pieces_of msg\<close> by (simp add: piece_def)
  next
    assume last: "i = pieces_of msg - 1"
    have "i < pieces_of msg \<Longrightarrow> length msg mod 522 \<noteq> 0 \<Longrightarrow> i = length msg div 522"
      using last by (simp add: pieces_of_def)
    moreover have "length msg mod 522 = 0 \<Longrightarrow> Suc i = length msg div 522"
      using last i by (simp add: pieces_of_def)
    ultimately show ?thesis using i last d by (auto simp: piece_def minus_div_mult_eq_mod)
  qed
qed

text \<open>The memory holds the pieces of \<open>S\<close>.\<close>

definition filled :: "byte list \<Rightarrow> nat set \<Rightarrow> byte option list \<Rightarrow> bool" where
  "filled msg S mem \<longleftrightarrow> length mem = length msg \<and>
     (\<forall>k < length msg. k div 522 \<in> S \<longrightarrow> mem ! k = Some (msg ! k))"

lemma filled_empty: "filled msg {} (replicate (length msg) None)"
  by (simp add: filled_def)

lemma filled_copy:
  assumes "filled msg S mem" "i < pieces_of msg"
  shows "\<exists>mem'. copy_to (i * 522) (piece msg i) mem = Some mem' \<and> filled msg (insert i S) mem'"
proof -
  let ?p = "piece msg i"
  let ?mem = "take (i * 522) mem @ map Some ?p @ drop (i * 522 + length ?p) mem"
  have len: "length mem = length msg" and e: "i * 522 + length ?p \<le> length msg"
    using assms by (simp_all add: filled_def piece_end)
  have "?mem ! k = Some (msg ! k)" if k: "k < length msg" and S: "k div 522 \<in> insert i S" for k
  proof -
    consider "k < i * 522" | "i * 522 \<le> k" "k < i * 522 + length ?p" | "i * 522 + length ?p \<le> k"
      by linarith
    then show ?thesis
    proof cases
      case 1
      then have "k div 522 \<noteq> i" using div_less_iff_less_mult [of 522 k i] by auto
      with 1 assms S k len show ?thesis by (auto simp: filled_def nth_append)
    next
      case 2
      then have "k - i * 522 < length ?p" by linarith
      with 2 have "?mem ! k = Some (?p ! (k - i * 522))" using len k by (simp add: nth_append)
      also have "\<dots> = Some (msg ! k)" using 2 by (simp add: piece_def)
      finally show ?thesis .
    next
      case 3
      then have "length ?p = 522" using k by (simp add: piece_def)
      then have "Suc i \<le> k div 522" using 3 by (simp add: less_eq_div_iff_mult_less_eq)
      with 3 assms S k len show ?thesis by (auto simp: filled_def nth_append)
    qed
  qed
  then have "filled msg (insert i S) ?mem" using len e by (simp add: filled_def)
  with len e show ?thesis by (simp add: copy_to_def)
qed

lemma filled_all:
  assumes "filled msg S mem" "{..<pieces_of msg} \<subseteq> S"
  shows "mem = map Some msg"
proof (rule nth_equalityI)
  show "length mem = length (map Some msg)" using assms by (simp add: filled_def)
next
  fix k assume "k < length mem"
  then have k: "k < length msg" using assms by (simp add: filled_def)
  have "k div 522 * 522 \<le> k" by simp
  then have "k div 522 < pieces_of msg" using k by (simp add: pieces_less_iff)
  with assms k show "mem ! k = map Some msg ! k" by (auto simp: filled_def)
qed

lemma u16_of_nat_eq: "m < 2 ^ 16 \<Longrightarrow> n < 2 ^ 16 \<Longrightarrow> word_of_nat m = (word_of_nat n :: u16) \<longleftrightarrow> m = n"
  by (simp add: word_of_nat_eq_iff take_bit_eq_mod)

section \<open>Reassembly of a message\<close>

text \<open>
  The contract of an object that collects the pieces of one message: the flags of the pieces and
  the memory they are copied to can be replaced without touching anything else, a piece that is
  missing is copied and its flag is set, a piece that is there changes nothing, and the answer is
  the number of the first missing piece. The server's \<open>Request\<close> and the client's \<open>ResponseData\<close>
  satisfy it.
\<close>

locale piece_store =
  fixes flags :: "'r \<Rightarrow> bool list" and memory :: "'r \<Rightarrow> byte option list"
    and put :: "bool list \<Rightarrow> byte option list \<Rightarrow> 'r \<Rightarrow> 'r" and wf :: "'r \<Rightarrow> bool"
    and accept :: "u16 \<Rightarrow> nat \<Rightarrow> byte list option \<Rightarrow> 'r \<Rightarrow> ('r \<times> u16) res"
  assumes flags_put [simp]: "flags (put fs m r) = fs"
    and memory_put [simp]: "memory (put fs m r) = m"
    and put_put [simp]: "put fs m (put fs' m' r) = put fs m r"
    and put_same [simp]: "put (flags r) (memory r) r = r"
    and wf_put: "wf r \<Longrightarrow> length fs = length (flags r) \<Longrightarrow> wf (put fs m r)"
    and accept_missing:
      "wf r \<Longrightarrow> unat i < length (flags r) \<Longrightarrow> \<not> flags r ! unat i \<Longrightarrow> copy_to off bs (memory r) = Some m \<Longrightarrow>
       accept i off (Some bs) r =
         Inr (put ((flags r)[unat i := True]) m r, word_of_nat (first_missing ((flags r)[unat i := True])))"
    and accept_present:
      "wf r \<Longrightarrow> unat i < length (flags r) \<Longrightarrow> flags r ! unat i \<Longrightarrow>
       accept i off src r = Inr (r, word_of_nat (first_missing (flags r)))"
begin

text \<open>The object holds exactly the pieces \<open>S\<close> of the message.\<close>

definition holds :: "byte list \<Rightarrow> nat set \<Rightarrow> 'r \<Rightarrow> bool" where
  "holds msg S r \<longleftrightarrow> wf r \<and> length (flags r) = pieces_of msg \<and>
     (\<forall>i < pieces_of msg. flags r ! i \<longleftrightarrow> i \<in> S) \<and> filled msg S (memory r)"

lemma holds_accept:
  assumes "holds msg S r" and "i < pieces_of msg" and "pieces_of msg < 2 ^ 16"
  shows "\<exists>fs m. accept (word_of_nat i) (i * 522) (Some (piece msg i)) r =
      Inr (put fs m r, word_of_nat (first_missing fs)) \<and> holds msg (insert i S) (put fs m r)"
proof -
  have i: "unat (word_of_nat i :: u16) = i"
    using assms(2,3) by (simp add: unat_of_nat)
  have r: "wf r" "length (flags r) = pieces_of msg" "filled msg S (memory r)"
    "\<And>j. j < pieces_of msg \<Longrightarrow> flags r ! j \<longleftrightarrow> j \<in> S"
    using assms(1) by (simp_all add: holds_def)
  show ?thesis
  proof (cases "flags r ! i")
    case True
    then have "i \<in> S" using r(4) assms(2) by simp
    then have "holds msg (insert i S) r" using assms(1) by (simp add: insert_absorb)
    moreover have "accept (word_of_nat i) (i * 522) (Some (piece msg i)) r =
        Inr (r, word_of_nat (first_missing (flags r)))"
      using True r assms(2) by (intro accept_present) (simp_all add: i)
    ultimately show ?thesis by (metis put_same)
  next
    case False
    obtain m where m: "copy_to (i * 522) (piece msg i) (memory r) = Some m" "filled msg (insert i S) m"
      using filled_copy [OF r(3) assms(2)] by blast
    let ?fs = "(flags r)[i := True]"
    have "accept (word_of_nat i) (i * 522) (Some (piece msg i)) r =
        Inr (put ?fs m r, word_of_nat (first_missing ?fs))"
      using accept_missing [of r "word_of_nat i"] False r assms(2) m(1) by (simp add: i)
    moreover have "holds msg (insert i S) (put ?fs m r)"
      using r m(2) wf_put [of r ?fs m] assms(2) by (auto simp: holds_def nth_list_update split: if_splits)
    ultimately show ?thesis by blast
  qed
qed

text \<open>The acknowledgement reaches the number of pieces exactly when every piece is there.\<close>

lemma holds_ack:
  assumes "holds msg S r" and "pieces_of msg < 2 ^ 16"
  shows "word_of_nat (first_missing (flags r)) = (word_of_nat (pieces_of msg) :: u16) \<longleftrightarrow>
    {..<pieces_of msg} \<subseteq> S"
proof -
  have len: "length (flags r) = pieces_of msg" using assms(1) by (simp add: holds_def)
  have "first_missing (flags r) < 2 ^ 16" using first_missing_le [of "flags r"] len assms(2) by simp
  then have "word_of_nat (first_missing (flags r)) = (word_of_nat (pieces_of msg) :: u16) \<longleftrightarrow>
      first_missing (flags r) = length (flags r)"
    using assms(2) len u16_of_nat_eq by simp
  also have "\<dots> \<longleftrightarrow> {..<pieces_of msg} \<subseteq> S"
    unfolding first_missing_all using assms(1) len by (auto simp: holds_def)
  finally show ?thesis .
qed

lemma holds_complete: "holds msg S r \<Longrightarrow> {..<pieces_of msg} \<subseteq> S \<Longrightarrow> memory r = map Some msg"
  unfolding holds_def by (blast intro: filled_all)

end

end
