(* ===== verification/Sub_Reactor.thy ===== *)
theory Sub_Reactor
  imports Rpc_Message "HOL-Library.AList"
begin

text \<open>
  The sub reactor of the server (\<open>src/include/rpc/server/sub_reactor.cpp\<close>): the messages being
  received, the virtual connections, the queue of new connections and the timer. One definition per
  function; the body of the event loop is split into the handling of one datagram and one run of
  the timer. System calls are entries of the log \<open>sent\<close>; the clock is read once per step and is a
  parameter \<open>now\<close>; \<open>accepted\<close> is the answer of the thread pool to \<open>commit_executor\<close>. Memory that
  responses refer to is the heap of the pool; reading or freeing it after it was freed is
  \<open>MemoryError\<close>. Addresses are kept in host byte order.
\<close>

section \<open>State\<close>

definition ConnectionTimeOut :: int where "ConnectionTimeOut = 120000"
definition RequestTimeOut :: int where "RequestTimeOut = 10000"
definition ResponseTimeOut :: int where "ResponseTimeOut = 15000"

datatype net_out = Write int "byte list" | SendTo int Peer "byte list" | CloseFd int

record VirtualConnection =
  socket_fd :: int
  last_active :: int
  vc_addr :: Peer
  responses :: "(u64 \<times> Response) list"
  vc_messages :: "u64 list"

text \<open>The callbacks the sub reactor gives to its timer.\<close>

datatype reactor_task =
    CheckDeleteSocket nat
  | JudgeDelete Servlet
  | JudgeResponseClearTimeout nat u64
  | DeliverResponse nat nat Servlet u32

type_synonym connection_tuple = "int \<times> nat \<times> Peer \<times> byte list \<times> bool"

record SubReactor =
  newConnections :: "connection_tuple list"
  messages :: "Servlet \<rightharpoonup> Request"
  connections :: "VirtualConnection list"
  lastEmptyPlace :: nat
  activeConnectionsCount :: int
  treeTimer :: "reactor_task TimerTree"
  runState :: bool
  recvBuf :: "byte list"
  heap :: "nat \<rightharpoonup> byte list"
  next_addr :: nat
  sent :: "net_out list"
  pool_tasks :: "(u32 \<times> byte option list \<times> Servlet \<times> nat) list"
  closed_peers :: "Peer list"

definition empty_connection :: VirtualConnection where
  "empty_connection = \<lparr>socket_fd = -1, last_active = 0, vc_addr = \<lparr>peer_port = 0, peer_ip = 0\<rparr>,
     responses = [], vc_messages = []\<rparr>"

definition new_SubReactor :: "nat \<Rightarrow> SubReactor" where
  "new_SubReactor open_max_connection =
     \<lparr>newConnections = [], messages = Map.empty,
      connections = replicate open_max_connection empty_connection, lastEmptyPlace = 0,
      activeConnectionsCount = 0, treeTimer = new_timer, runState = True,
      recvBuf = replicate (FullPieceSize + 1) 0, heap = Map.empty, next_addr = 0, sent = [],
      pool_tasks = [], closed_peers = []\<rparr>"

definition emit :: "net_out \<Rightarrow> SubReactor \<Rightarrow> SubReactor" where
  "emit x s = s\<lparr>sent := sent s @ [x]\<rparr>"

definition set_timer :: "int \<Rightarrow> int \<Rightarrow> reactor_task \<Rightarrow> SubReactor \<Rightarrow> SubReactor" where
  "set_timer now ms task s = s\<lparr>treeTimer := fst (setTimeout now ms task (treeTimer s))\<rparr>"

definition put_connection :: "nat \<Rightarrow> VirtualConnection \<Rightarrow> SubReactor \<Rightarrow> SubReactor" where
  "put_connection i vc s = s\<lparr>connections := (connections s)[i := vc]\<rparr>"

lemma put_connection_fields [simp]:
  "messages (put_connection i vc s) = messages s" "recvBuf (put_connection i vc s) = recvBuf s"
  "pool_tasks (put_connection i vc s) = pool_tasks s" "heap (put_connection i vc s) = heap s"
  "newConnections (put_connection i vc s) = newConnections s" "sent (put_connection i vc s) = sent s"
  "treeTimer (put_connection i vc s) = treeTimer s"
  "connections (put_connection i vc s) = (connections s)[i := vc]"
  by (simp_all add: put_connection_def)

lemma emit_fields [simp]:
  "messages (emit x s) = messages s" "recvBuf (emit x s) = recvBuf s" "pool_tasks (emit x s) = pool_tasks s"
  "heap (emit x s) = heap s" "newConnections (emit x s) = newConnections s"
  "connections (emit x s) = connections s" "treeTimer (emit x s) = treeTimer s"
  by (simp_all add: emit_def)

section \<open>Packets the server sends\<close>

text \<open>\<open>initiateSenderProtocolHeader\<close> on a buffer of the size of a header, then the setters.\<close>

definition init_header :: "ByteSequence \<Rightarrow> u64 \<Rightarrow> byte list option" where
  "init_header h message_id =
     map_option fst (initiateSenderProtocolHeader h (replicate protocolHeaderSize 0) message_id 0 protocolHeaderSize)"

definition ack_packet :: "ByteSequence \<Rightarrow> u16 \<Rightarrow> u64 \<Rightarrow> byte list option" where
  "ack_packet h ack_number message_id = do {
     b \<leftarrow> init_header h message_id;
     b \<leftarrow> setProtocolType b ReceiverACK;
     setACKAcceptOrder h b ack_number }"

definition type_packet :: "ByteSequence \<Rightarrow> ProtocolType \<Rightarrow> u64 \<Rightarrow> byte list option" where
  "type_packet h t message_id = do {
     b \<leftarrow> init_header h message_id;
     setProtocolType b t }"

definition sendACK :: "ByteSequence \<Rightarrow> int \<Rightarrow> u16 \<Rightarrow> u64 \<Rightarrow> SubReactor \<Rightarrow> SubReactor res" where
  "sendACK h fd ack_number message_id s =
     chain (defined (ack_packet h ack_number message_id)) (\<lambda>b. Inr (emit (Write fd b) s))"

definition sendACK_to :: "ByteSequence \<Rightarrow> int \<Rightarrow> Peer \<Rightarrow> u16 \<Rightarrow> u64 \<Rightarrow> SubReactor \<Rightarrow> SubReactor res" where
  "sendACK_to h fd addr ack_number message_id s =
     chain (defined (ack_packet h ack_number message_id)) (\<lambda>b. Inr (emit (SendTo fd addr b) s))"

text \<open>The phase is not used: the packet keeps the phase \<open>Request\<close>.\<close>

definition sendReset :: "ByteSequence \<Rightarrow> int \<Rightarrow> u64 \<Rightarrow> CommunicationPhase \<Rightarrow> SubReactor \<Rightarrow> SubReactor res" where
  "sendReset h fd message_id ph s =
     chain (defined (type_packet h StateReset message_id)) (\<lambda>b. Inr (emit (Write fd b) s))"

text \<open>The phase is set after the packet was written.\<close>

definition sendHeartbeat :: "ByteSequence \<Rightarrow> int \<Rightarrow> u64 \<Rightarrow> CommunicationPhase \<Rightarrow> SubReactor \<Rightarrow> SubReactor res" where
  "sendHeartbeat h fd message_id ph s =
     chain (defined (type_packet h TimedOutResponseHeartbeat message_id)) (\<lambda>b.
     let s = emit (Write fd b) s
     in chain (defined (setProtocolPhase b ph)) (\<lambda>_. Inr s))"

definition sendExhausted :: "ByteSequence \<Rightarrow> int \<Rightarrow> SubReactor \<Rightarrow> SubReactor res" where
  "sendExhausted h fd s =
     chain (defined (type_packet h TheServerResourcesExhausted 0)) (\<lambda>b. Inr (emit (Write fd b) s))"

definition sendRequireACK ::
  "ByteSequence \<Rightarrow> int \<Rightarrow> u64 \<Rightarrow> u16 \<Rightarrow> CommunicationPhase \<Rightarrow> SubReactor \<Rightarrow> SubReactor res" where
  "sendRequireACK h fd message_id accept_min_order ph s =
     chain (defined (do {
       b \<leftarrow> init_header h message_id;
       b \<leftarrow> setACKAcceptOrder h b accept_min_order;
       b \<leftarrow> setProtocolType b RequestACK;
       setProtocolPhase b ph })) (\<lambda>b. Inr (emit (Write fd b) s))"

text \<open>\<open>Please use the correct network protocol!\<close> with a full-width exclamation mark and a new line.\<close>

definition wrong_protocol_text :: "byte list" where
  "wrong_protocol_text =
     [80, 108, 101, 97, 115, 101, 32, 117, 115, 101, 32, 116, 104, 101, 32, 99, 111, 114, 114, 101,
      99, 116, 32, 110, 101, 116, 119, 111, 114, 107, 32, 112, 114, 111, 116, 111, 99, 111, 108,
      0xEF, 0xBC, 0x81, 10]"

section \<open>Connections\<close>

definition closeSocket :: "nat \<Rightarrow> SubReactor \<Rightarrow> SubReactor" where
  "closeSocket i s =
     (let vc = connections s ! i
      in (emit (CloseFd (socket_fd vc)) s)\<lparr>closed_peers := closed_peers s @ [vc_addr vc]\<rparr>)"

text \<open>The destructor of a response gives its memory back.\<close>

definition free_response :: "Response \<Rightarrow> SubReactor \<Rightarrow> SubReactor res" where
  "free_response r s =
     (case heap s (resp_data r) of
        None \<Rightarrow> Inl MemoryError
      | Some _ \<Rightarrow> Inr (s\<lparr>heap := (heap s)(resp_data r := None)\<rparr>))"

primrec free_responses :: "Response list \<Rightarrow> SubReactor \<Rightarrow> SubReactor res" where
  "free_responses [] s = Inr s"
| "free_responses (r # rs) s = chain (free_response r s) (free_responses rs)"

text \<open>A connection that is dropped: its messages and responses are cleared.\<close>

definition drop_connection :: "nat \<Rightarrow> SubReactor \<Rightarrow> SubReactor res" where
  "drop_connection i s =
     (let s = closeSocket i s; vc = connections s ! i;
          s = put_connection i (vc\<lparr>socket_fd := -1, vc_messages := [], responses := []\<rparr>) s
      in free_responses (map snd (responses vc)) s)"

definition checkDeleteSocket :: "int \<Rightarrow> nat \<Rightarrow> SubReactor \<Rightarrow> SubReactor res" where
  "checkDeleteSocket now i s =
     (if socket_fd (connections s ! i) \<noteq> -1
      then if ConnectionTimeOut < now - last_active (connections s ! i)
           then drop_connection i s
           else Inr (set_timer now ConnectionTimeOut (CheckDeleteSocket i) s)
      else Inr s)"

definition clear_step :: "int \<Rightarrow> nat \<Rightarrow> SubReactor \<Rightarrow> SubReactor res" where
  "clear_step now i s =
     (if socket_fd (connections s ! i) \<noteq> -1 \<and> ConnectionTimeOut < now - last_active (connections s ! i)
      then chain (drop_connection i s)
             (\<lambda>s. Inr (s\<lparr>activeConnectionsCount := activeConnectionsCount s - 1\<rparr>))
      else Inr s)"

definition clearTimeoutConnections :: "int \<Rightarrow> SubReactor \<Rightarrow> SubReactor res" where
  "clearTimeoutConnections now s =
     fold (\<lambda>i m. chain m (clear_step now i)) [0..<length (connections s)] (Inr s)"

text \<open>The places in the order in which they are tried.\<close>

definition places :: "SubReactor \<Rightarrow> nat list" where
  "places s = map (\<lambda>k. (lastEmptyPlace s + k) mod length (connections s)) [0..<length (connections s)]"

definition findConnectionsEmptyPlace :: "int \<Rightarrow> SubReactor \<Rightarrow> (SubReactor \<times> nat option) res" where
  "findConnectionsEmptyPlace now s =
     chain (if int (length (connections s)) \<le> activeConnectionsCount s
            then clearTimeoutConnections now s else Inr s) (\<lambda>s.
     case find (\<lambda>idx. socket_fd (connections s ! idx) = -1) (places s) of
       None \<Rightarrow> Inr (s, None)
     | Some idx \<Rightarrow> Inr (s\<lparr>lastEmptyPlace := idx\<rparr>, Some idx))"

section \<open>Receiving a piece of a request\<close>

definition servlet_of :: "ProtocolHeader \<Rightarrow> Peer \<Rightarrow> Servlet" where
  "servlet_of hdr addr =
     \<lparr>request_id = timePoint hdr, client_port = peer_port addr, client_ip_address = peer_ip addr\<rparr>"

text \<open>
  The operands of the copy: \<open>pieceStandardSize * pieceOrder\<close> is computed on \<open>int\<close>, whose overflow
  is undefined, and the source is read behind the header in the buffer.
\<close>

definition piece_offset :: "ProtocolHeader \<Rightarrow> nat" where
  "piece_offset hdr = unat (pieceStandardSize hdr) * unat (pieceOrder hdr)"

definition piece_source :: "ProtocolHeader \<Rightarrow> byte list \<Rightarrow> byte list option" where
  "piece_source hdr buf =
     (if piece_offset hdr < 2 ^ 31 then load protocolHeaderSize (unat (pieceSize hdr)) buf else None)"

text \<open>A piece of a message that is known: copied unless it was received before.\<close>

definition accept_piece :: "u16 \<Rightarrow> nat \<Rightarrow> byte list option \<Rightarrow> Request \<Rightarrow> (Request \<times> u16) res" where
  "accept_piece order off src r =
     chain (req_getPieceState order r) (\<lambda>st.
     if \<not> st
     then chain (defined src) (\<lambda>bs.
          chain (defined (copy_to off bs (req_data r))) (\<lambda>m.
          req_setPieceState order True (r\<lparr>req_data := m\<rparr>)))
     else Inr (r, req_getAckNumber r))"

text \<open>The first piece of a new message.\<close>

definition first_piece :: "ProtocolHeader \<Rightarrow> Peer \<Rightarrow> int \<Rightarrow> int \<Rightarrow> byte list \<Rightarrow> (Request \<times> u16) res" where
  "first_piece hdr addr fd now buf =
     (let r = new_Request (timePoint hdr) (peer_port addr) (peer_ip addr) (totalCount hdr) (totalSize hdr);
          r = r\<lparr>req_socketFd := fd, req_active_dt := now\<rparr>
      in chain (req_setPieceState (pieceOrder hdr) True r) (\<lambda>(r, ack).
         chain (defined (piece_source hdr buf)) (\<lambda>bs.
         chain (defined (copy_to (piece_offset hdr) bs (replicate (unat (totalSize hdr)) None))) (\<lambda>m.
         Inr (r\<lparr>req_data := m\<rparr>, ack)))))"

definition setRequestTimeOutEvent :: "int \<Rightarrow> Servlet \<Rightarrow> SubReactor \<Rightarrow> SubReactor" where
  "setRequestTimeOutEvent now servlet s = set_timer now RequestTimeOut (JudgeDelete servlet) s"

definition judgeDelete :: "int \<Rightarrow> Servlet \<Rightarrow> SubReactor \<Rightarrow> SubReactor" where
  "judgeDelete now servlet s =
     (case messages s servlet of
        None \<Rightarrow> s
      | Some r \<Rightarrow>
          if RequestTimeOut < now - req_active_dt r then s\<lparr>messages := (messages s)(servlet := None)\<rparr>
          else setRequestTimeOutEvent now servlet s)"

text \<open>A complete message is given to the thread pool.\<close>

definition trigger ::
  "ByteSequence \<Rightarrow> bool \<Rightarrow> u32 \<Rightarrow> byte option list \<Rightarrow> Servlet \<Rightarrow> nat \<Rightarrow> SubReactor \<Rightarrow> SubReactor res" where
  "trigger h accepted data_size full_data servlet i s =
     (if accepted then Inr (s\<lparr>pool_tasks := pool_tasks s @ [(data_size, full_data, servlet, i)]\<rparr>)
      else sendExhausted h (socket_fd (connections s ! i)) s)"

text \<open>After the acknowledgement: the last piece is noted in the connection and triggers the call once.\<close>

definition finish_piece ::
  "ByteSequence \<Rightarrow> bool \<Rightarrow> ProtocolHeader \<Rightarrow> Servlet \<Rightarrow> u16 \<Rightarrow> nat \<Rightarrow> SubReactor \<Rightarrow> SubReactor res" where
  "finish_piece h accepted hdr base ack i s =
     (if ack = totalCount hdr
      then let vc = connections s ! i;
               s = put_connection i (vc\<lparr>vc_messages := vc_messages vc @ [timePoint hdr]\<rparr>) s
           in case messages s base of
                None \<Rightarrow> Inl MemoryError
              | Some r \<Rightarrow>
                  if req_is_trigger r then Inr s
                  else let s = s\<lparr>messages := (messages s)(base \<mapsto> req_trigger r)\<rparr>
                       in trigger h accepted (req_total_data_size r) (req_data r) base i s
      else Inr s)"

section \<open>Sending the response\<close>

text \<open>One piece of a response: header, type, phase, number and size, then the body from the heap.\<close>

definition response_packet ::
  "ByteSequence \<Rightarrow> (nat \<rightharpoonup> byte list) \<Rightarrow> Response \<Rightarrow> u16 \<Rightarrow> byte list option" where
  "response_packet h hp r k = do {
     (b, _) \<leftarrow> initiateSenderProtocolHeader h (replicate (FullPieceSize + 1) 0)
        (request_id (resp_servlet r)) (resp_total_data_size r) protocolHeaderSize;
     b \<leftarrow> setProtocolType b RequestSend;
     b \<leftarrow> setProtocolPhase b PhaseResponse;
     let part = (if int (unat k) = int (unat (resp_piece_count r)) - 1 then resp_last_piece_size r
                 else word_of_nat defaultPieceLimitSize);
     b \<leftarrow> setProtocolOrderAndSize h b k part;
     mem \<leftarrow> hp (resp_data r);
     body \<leftarrow> load (unat k * defaultPieceLimitSize) (unat part) mem;
     b \<leftarrow> store protocolHeaderSize body b;
     load 0 (protocolHeaderSize + unat part) b }"

primrec send_pieces :: "ByteSequence \<Rightarrow> nat \<Rightarrow> Response \<Rightarrow> u16 list \<Rightarrow> SubReactor \<Rightarrow> SubReactor res" where
  "send_pieces h i r [] s = Inr s"
| "send_pieces h i r (k # ks) s =
     chain (defined (response_packet h (heap s) r k)) (\<lambda>b.
     send_pieces h i r ks
       (emit (SendTo (socket_fd (connections s ! i)) (vc_addr (connections s ! i)) b) s))"

definition sendResponseDataToClient :: "ByteSequence \<Rightarrow> nat \<Rightarrow> u64 \<Rightarrow> SubReactor \<Rightarrow> SubReactor res" where
  "sendResponseDataToClient h i message_id s =
     (case map_of (responses (connections s ! i)) message_id of
        None \<Rightarrow> Inr s
      | Some r \<Rightarrow>
          if resp_ack_accept r = resp_piece_count r then Inr s
          else let ks = map word_of_nat
                     [unat (resp_ack_accept r) ..<
                       min (unat (resp_ack_accept r + 1)) (unat (resp_piece_count r))]
               in send_pieces h i r ks s)"

definition setResponseClearTimeout :: "int \<Rightarrow> nat \<Rightarrow> u64 \<Rightarrow> SubReactor \<Rightarrow> SubReactor" where
  "setResponseClearTimeout now i message_id s =
     set_timer now ResponseTimeOut (JudgeResponseClearTimeout i message_id) s"

definition judgeResponseClearTimeout :: "int \<Rightarrow> nat \<Rightarrow> u64 \<Rightarrow> SubReactor \<Rightarrow> SubReactor res" where
  "judgeResponseClearTimeout now i message_id s =
     (let vc = connections s ! i
      in if socket_fd vc \<noteq> -1
         then case map_of (responses vc) message_id of
                None \<Rightarrow> Inr s
              | Some r \<Rightarrow>
                  if ResponseTimeOut < now - resp_lastActive r
                  then free_response r (put_connection i
                         (vc\<lparr>vc_messages := filter (\<lambda>m. m \<noteq> message_id) (vc_messages vc),
                             responses := AList.delete message_id (responses vc)\<rparr>) s)
                  else Inr (setResponseClearTimeout now i message_id s)
         else Inr s)"

text \<open>
  The callback that \<open>triggerTask\<close> registers: the local response is copied into the connection
  (constructed when the number is new, assigned otherwise), the first piece is sent, and the local
  object is destroyed at the end of the callback. \<open>garbage\<close> is what the copy constructor leaves in
  \<open>lastActive\<close>.
\<close>

definition deliverResponse ::
  "ByteSequence \<Rightarrow> int \<Rightarrow> int \<Rightarrow> nat \<Rightarrow> nat \<Rightarrow> Servlet \<Rightarrow> u32 \<Rightarrow> SubReactor \<Rightarrow> SubReactor res" where
  "deliverResponse h now garbage dt i servlet count s =
     (let response = new_Response now (request_id servlet) (client_port servlet)
            (client_ip_address servlet) (piece_count count) count dt;
          vc = connections s ! i;
          is_new = (map_of (responses vc) (request_id servlet) = None);
          stored = (if is_new then copy_Response garbage response else response);
          s = put_connection i (vc\<lparr>responses := AList.update (request_id servlet) stored (responses vc)\<rparr>) s
      in chain (if is_new then sendResponseDataToClient h i (request_id servlet) s else Inr s) (\<lambda>s.
         free_response response (setResponseClearTimeout now i (request_id servlet) s)))"

section \<open>One datagram\<close>

definition on_request_send ::
  "ByteSequence \<Rightarrow> int \<Rightarrow> bool \<Rightarrow> ProtocolHeader \<Rightarrow> Peer \<Rightarrow> int \<Rightarrow> nat \<Rightarrow> SubReactor \<Rightarrow> SubReactor res" where
  "on_request_send h now accepted hdr addr data_fd i s =
     (let base = servlet_of hdr addr
      in chain (case messages s base of
             Some r \<Rightarrow>
               chain (accept_piece (pieceOrder hdr) (piece_offset hdr) (piece_source hdr (recvBuf s)) r)
                 (\<lambda>(r, ack). Inr (s\<lparr>messages := (messages s)(base \<mapsto> r)\<rparr>, ack))
           | None \<Rightarrow>
               chain (first_piece hdr addr data_fd now (recvBuf s)) (\<lambda>(r, ack).
               Inr (setRequestTimeOutEvent now base (s\<lparr>messages := (messages s)(base \<mapsto> r)\<rparr>), ack)))
         (\<lambda>(s, ack).
           chain (sendACK h (socket_fd (connections s ! i)) ack (timePoint hdr) s)
             (finish_piece h accepted hdr base ack i)))"

definition on_request_phase ::
  "ByteSequence \<Rightarrow> int \<Rightarrow> bool \<Rightarrow> ProtocolHeader \<Rightarrow> Peer \<Rightarrow> int \<Rightarrow> nat \<Rightarrow> SubReactor \<Rightarrow> SubReactor res" where
  "on_request_phase h now accepted hdr addr data_fd i s =
     (let fd = socket_fd (connections s ! i)
      in case type hdr of
           RequestSend \<Rightarrow> on_request_send h now accepted hdr addr data_fd i s
         | RequestACK \<Rightarrow>
             (case messages s (servlet_of hdr addr) of
                Some r \<Rightarrow> sendACK h fd (req_getAckNumber r) (timePoint hdr) s
              | None \<Rightarrow> sendReset h fd (timePoint hdr) (phase hdr) s)
         | TimedOutRequestHeartbeat \<Rightarrow>
             (case messages s (servlet_of hdr addr) of
                Some r \<Rightarrow> sendHeartbeat h fd (timePoint hdr) (phase hdr) s
              | None \<Rightarrow> sendReset h fd (timePoint hdr) (phase hdr) s)
         | _ \<Rightarrow> sendReset h fd (timePoint hdr) (phase hdr) s)"

definition set_response :: "nat \<Rightarrow> u64 \<Rightarrow> Response \<Rightarrow> SubReactor \<Rightarrow> SubReactor" where
  "set_response i message_id r s =
     (let vc = connections s ! i
      in put_connection i (vc\<lparr>responses := AList.update message_id r (responses vc)\<rparr>) s)"

definition on_response_phase ::
  "ByteSequence \<Rightarrow> int \<Rightarrow> ProtocolHeader \<Rightarrow> nat \<Rightarrow> SubReactor \<Rightarrow> SubReactor res" where
  "on_response_phase h now hdr i s =
     (let vc = connections s ! i
      in if timePoint hdr \<notin> set (vc_messages vc)
         then sendReset h (socket_fd vc) (timePoint hdr) PhaseResponse s
         else case map_of (responses vc) (timePoint hdr) of
                None \<Rightarrow> sendHeartbeat h (socket_fd vc) (timePoint hdr) PhaseResponse s
              | Some r \<Rightarrow>
                  let r = r\<lparr>resp_lastActive := now\<rparr>
                  in case type hdr of
                       ReceiverACK \<Rightarrow>
                         let r = fst (setAckAccept (acceptOrder hdr) (setNewAckState True r));
                             s = set_response i (timePoint hdr) r s
                         in if resp_ack_accept r = resp_piece_count r then Inr s
                            else sendResponseDataToClient h i (request_id (resp_servlet r)) s
                     | TimedOutRequestHeartbeat \<Rightarrow>
                         let s = set_response i (timePoint hdr) r s
                         in if resp_ack_accept r < resp_piece_count r
                            then sendResponseDataToClient h i (request_id (resp_servlet r)) s
                            else Inr s
                     | _ \<Rightarrow> Inr (set_response i (timePoint hdr) r s))"

text \<open>A packet that was parsed: the message it belongs to is active, then the phase decides.\<close>

definition on_packet ::
  "ByteSequence \<Rightarrow> int \<Rightarrow> bool \<Rightarrow> ProtocolHeader \<Rightarrow> Peer \<Rightarrow> int \<Rightarrow> nat \<Rightarrow> SubReactor \<Rightarrow> SubReactor res" where
  "on_packet h now accepted hdr addr data_fd i s =
     (let base = servlet_of hdr addr;
          s = (case messages s base of
                 None \<Rightarrow> s
               | Some r \<Rightarrow> s\<lparr>messages := (messages s)(base \<mapsto> r\<lparr>req_active_dt := now\<rparr>)\<rparr>)
      in case phase hdr of
           PhaseRequest \<Rightarrow> on_request_phase h now accepted hdr addr data_fd i s
         | PhaseResponse \<Rightarrow> on_response_phase h now hdr i s)"

text \<open>
  The event \<open>EPOLLIN\<close> of connection \<open>i\<close>: \<open>recvfrom\<close> overwrites the front of the buffer with the
  datagram (cut to the size of the buffer). An empty datagram stands for a failed call, too.
  \<open>data_fd\<close> is the value of the member \<open>fd\<close> of the event's union, whose member \<open>ptr\<close> is set.
\<close>

definition on_datagram ::
  "ByteSequence \<Rightarrow> int \<Rightarrow> bool \<Rightarrow> byte list \<Rightarrow> Peer \<Rightarrow> int \<Rightarrow> nat \<Rightarrow> SubReactor \<Rightarrow> SubReactor res" where
  "on_datagram h now accepted dgram addr data_fd i s =
     (let s = put_connection i ((connections s ! i)\<lparr>last_active := now\<rparr>) s;
          s = s\<lparr>recvBuf := receive_into dgram (recvBuf s)\<rparr>;
          recvLen = min (length dgram) (length (recvBuf s))
      in if 0 < recvLen
         then chain (defined (parse h (recvBuf s) recvLen)) (\<lambda>(hdr, isSuccess).
              if isSuccess then on_packet h now accepted hdr addr data_fd i s
              else Inr (emit (Write (socket_fd (connections s ! i)) wrong_protocol_text) s))
         else Inr s)"

section \<open>New connections\<close>

definition acceptConnection :: "connection_tuple \<Rightarrow> SubReactor \<Rightarrow> SubReactor \<times> bool" where
  "acceptConnection c s =
     (if runState s then (s\<lparr>newConnections := newConnections s @ [c]\<rparr>, True) else (s, False))"

text \<open>
  The piece of a datagram that the main reactor hands over. A piece that was received before leaves
  the acknowledgement at 0.
\<close>

definition accept_new_piece :: "u16 \<Rightarrow> nat \<Rightarrow> byte list option \<Rightarrow> Request \<Rightarrow> (Request \<times> u16) res" where
  "accept_new_piece order off src r =
     chain (req_getPieceState order r) (\<lambda>st.
     if \<not> st
     then chain (defined src) (\<lambda>bs.
          chain (defined (copy_to off bs (req_data r))) (\<lambda>m.
          req_setPieceState order True (r\<lparr>req_data := m\<rparr>)))
     else Inr (r, 0))"

definition new_request_send ::
  "ByteSequence \<Rightarrow> int \<Rightarrow> bool \<Rightarrow> ProtocolHeader \<Rightarrow> byte list \<Rightarrow> int \<Rightarrow> Peer \<Rightarrow> nat \<Rightarrow> SubReactor \<Rightarrow> SubReactor res" where
  "new_request_send h now accepted hdr buf fd addr i s =
     (let base = servlet_of hdr addr
      in chain (case messages s base of
             Some r \<Rightarrow>
               chain (accept_new_piece (pieceOrder hdr) (piece_offset hdr) (piece_source hdr buf)
                        (r\<lparr>req_active_dt := now\<rparr>))
                 (\<lambda>(r, ack). Inr (s\<lparr>messages := (messages s)(base \<mapsto> r)\<rparr>, ack))
           | None \<Rightarrow>
               chain (first_piece hdr addr fd now buf) (\<lambda>(r, ack).
               Inr (setRequestTimeOutEvent now base (s\<lparr>messages := (messages s)(base \<mapsto> r)\<rparr>), ack)))
         (\<lambda>(s, ack).
           chain (sendACK_to h fd addr ack (timePoint hdr) s)
             (finish_piece h accepted hdr base ack i)))"

definition new_other_packet ::
  "ByteSequence \<Rightarrow> ProtocolHeader \<Rightarrow> int \<Rightarrow> Peer \<Rightarrow> SubReactor \<Rightarrow> SubReactor res" where
  "new_other_packet h hdr fd addr s =
     (case messages s (servlet_of hdr addr) of
        None \<Rightarrow> sendReset h fd (timePoint hdr) (phase hdr) s
      | Some r \<Rightarrow>
          if type hdr = RequestACK then sendACK_to h fd addr (req_getAckNumber r) (timePoint hdr) s
          else sendHeartbeat h fd (timePoint hdr) (phase hdr) s)"

text \<open>
  One round of the loop of \<open>dealWithNewConnection\<close> on the front of the queue. \<open>epoll_ok\<close> is the
  answer of \<open>epoll_ctl\<close>. The early \<open>continue\<close>s leave the entry in the queue.
\<close>

definition place_connection :: "int \<Rightarrow> int \<Rightarrow> Peer \<Rightarrow> SubReactor \<Rightarrow> (SubReactor \<times> nat option) res" where
  "place_connection now fd addr s =
     chain (findConnectionsEmptyPlace now s) (\<lambda>(s, found).
     case found of
       None \<Rightarrow> Inr (s, None)
     | Some idx \<Rightarrow>
         Inr ((put_connection idx
             ((connections s ! idx)\<lparr>socket_fd := fd, last_active := now, vc_addr := addr\<rparr>) s)
             \<lparr>activeConnectionsCount := activeConnectionsCount s + 1\<rparr>, Some idx))"

definition pop_connection :: "SubReactor \<Rightarrow> SubReactor" where
  "pop_connection s = s\<lparr>newConnections := tl (newConnections s)\<rparr>"

definition deal_packet ::
  "ByteSequence \<Rightarrow> int \<Rightarrow> bool \<Rightarrow> bool \<Rightarrow> ProtocolHeader \<Rightarrow> connection_tuple \<Rightarrow> nat \<Rightarrow> SubReactor \<Rightarrow> SubReactor res" where
  "deal_packet h now accepted epoll_ok hdr c i s =
     (case c of (fd, recv_length, addr, buf, is_new) \<Rightarrow>
        chain (if type hdr = RequestSend then new_request_send h now accepted hdr buf fd addr i s
               else new_other_packet h hdr fd addr s) (\<lambda>s.
        if is_new
        then if epoll_ok
             then Inr (pop_connection (set_timer now ConnectionTimeOut (CheckDeleteSocket i) s))
             else Inr (emit (CloseFd fd) s)
        else Inr (pop_connection s)))"

definition deal_front ::
  "ByteSequence \<Rightarrow> int \<Rightarrow> bool \<Rightarrow> bool \<Rightarrow> SubReactor \<Rightarrow> SubReactor res" where
  "deal_front h now accepted epoll_ok s =
     (case newConnections s of
        [] \<Rightarrow> Inl MemoryError
      | c # _ \<Rightarrow>
          (case c of (fd, recv_length, addr, buf, is_new) \<Rightarrow>
             chain (defined (parse h buf recv_length)) (\<lambda>(hdr, isSuccess).
             if \<not> isSuccess then Inr (pop_connection (emit (SendTo fd addr wrong_protocol_text) s))
             else if is_new
             then chain (place_connection now fd addr s) (\<lambda>(s, found).
                  case found of
                    None \<Rightarrow> chain (sendExhausted h fd s) (\<lambda>s. Inr (emit (CloseFd fd) s))
                  | Some i \<Rightarrow> deal_packet h now accepted epoll_ok hdr c i s)
             else (case find (\<lambda>idx. socket_fd (connections s ! idx) = fd) (places s) of
                     None \<Rightarrow> Inr s
                   | Some i \<Rightarrow> deal_packet h now accepted epoll_ok hdr c i s))))"

primrec deal_loop :: "ByteSequence \<Rightarrow> int \<Rightarrow> (bool \<times> bool) list \<Rightarrow> nat \<Rightarrow> SubReactor \<Rightarrow> SubReactor res" where
  "deal_loop h now answers 0 s = Inr s"
| "deal_loop h now answers (Suc n) s =
     (let (accepted, epoll_ok) = (case answers of [] \<Rightarrow> (True, True) | a # _ \<Rightarrow> a)
      in chain (deal_front h now accepted epoll_ok s) (deal_loop h now (tl answers) n))"

definition dealWithNewConnection :: "ByteSequence \<Rightarrow> int \<Rightarrow> (bool \<times> bool) list \<Rightarrow> SubReactor \<Rightarrow> SubReactor res" where
  "dealWithNewConnection h now answers s = deal_loop h now answers (length (newConnections s)) s"

section \<open>The timer of the reactor\<close>

primrec run_reactor_task :: "ByteSequence \<Rightarrow> int \<Rightarrow> int \<Rightarrow> reactor_task \<Rightarrow> SubReactor \<Rightarrow> SubReactor res" where
  "run_reactor_task h now garbage (CheckDeleteSocket i) s = checkDeleteSocket now i s"
| "run_reactor_task h now garbage (JudgeDelete servlet) s = Inr (judgeDelete now servlet s)"
| "run_reactor_task h now garbage (JudgeResponseClearTimeout i message_id) s =
     judgeResponseClearTimeout now i message_id s"
| "run_reactor_task h now garbage (DeliverResponse dt i servlet count) s =
     deliverResponse h now garbage dt i servlet count s"

text \<open>
  A callback of the timer works on the reactor, of which the timer is a member: the timer that
  the loop runs is put in for the callback and taken out after it.
\<close>

definition timer_exec ::
  "ByteSequence \<Rightarrow> int \<Rightarrow> int \<Rightarrow> reactor_task \<Rightarrow>
   SubReactor res \<times> reactor_task TimerTree \<Rightarrow> SubReactor res \<times> reactor_task TimerTree" where
  "timer_exec h now garbage task = (\<lambda>(w, t).
     case w of
       Inl e \<Rightarrow> (w, t)
     | Inr s \<Rightarrow> (case run_reactor_task h now garbage task (s\<lparr>treeTimer := t\<rparr>) of
                   Inl e \<Rightarrow> (Inl e, t)
                 | Inr s' \<Rightarrow> (Inr (s'\<lparr>treeTimer := treeTimer s\<rparr>), treeTimer s')))"

definition run_timer :: "ByteSequence \<Rightarrow> int \<Rightarrow> int \<Rightarrow> SubReactor \<Rightarrow> SubReactor res" where
  "run_timer h now garbage s =
     chain (defined (runTaskLoop (timer_exec h now garbage) now (Inr s, treeTimer s)))
       (\<lambda>(w, t). chain w (\<lambda>s. Inr (s\<lparr>treeTimer := t\<rparr>)))"

section \<open>The event loop\<close>

text \<open>
  An event that \<open>epoll_wait\<close> reports for a connection: its flags, and what \<open>recvfrom\<close> and the
  thread pool answer when it is handled. \<open>ev_hup\<close> is \<open>EPOLLHUP\<close> or \<open>EPOLLRDHUP\<close>, on which the loop
  throws; \<open>EPOLLOUT\<close> resets the switch of the loop and changes no state of the model.
\<close>

record ready_event =
  ev_err :: bool
  ev_in :: bool
  ev_hup :: bool
  ev_vc :: nat
  ev_dgram :: "byte list"
  ev_peer :: Peer
  ev_fd :: int
  ev_accepted :: bool

definition on_event :: "ByteSequence \<Rightarrow> int \<Rightarrow> ready_event \<Rightarrow> SubReactor \<Rightarrow> SubReactor res" where
  "on_event h now e s =
     (let s = (if ev_err e then closeSocket (ev_vc e) s else s)
      in chain (if ev_in e
                then on_datagram h now (ev_accepted e) (ev_dgram e) (ev_peer e) (ev_fd e) (ev_vc e) s
                else Inr s)
           (\<lambda>s. if ev_hup e then Inl RuntimeError else Inr s))"

primrec on_events :: "ByteSequence \<Rightarrow> int \<Rightarrow> ready_event list \<Rightarrow> SubReactor \<Rightarrow> SubReactor res" where
  "on_events h now [] s = Inr s"
| "on_events h now (e # es) s = chain (on_event h now e s) (on_events h now es)"

text \<open>
  One round of the loop after \<open>epoll_wait\<close>: the timer is run, the new connections are dealt with,
  then the events are handled at one reading of the clock.
\<close>

record loop_input =
  in_tick :: int
  in_garbage :: int
  in_answers :: "(bool \<times> bool) list"
  in_now :: int
  in_events :: "ready_event list"

definition loop_round :: "ByteSequence \<Rightarrow> loop_input \<Rightarrow> SubReactor \<Rightarrow> SubReactor res" where
  "loop_round h x s =
     chain (run_timer h (in_tick x) (in_garbage x) s) (\<lambda>s.
     chain (dealWithNewConnection h (in_tick x) (in_answers x) s)
       (on_events h (in_now x) (in_events x)))"

primrec reactor_loop :: "ByteSequence \<Rightarrow> loop_input list \<Rightarrow> SubReactor \<Rightarrow> SubReactor res" where
  "reactor_loop h [] s = Inr s"
| "reactor_loop h (x # xs) s =
     (if runState s then chain (loop_round h x s) (reactor_loop h xs) else Inr s)"

section \<open>The callbacks and the timer\<close>

text \<open>What the reactor does besides its timer does not depend on the timer.\<close>

definition with_timer :: "reactor_task TimerTree \<Rightarrow> SubReactor res \<Rightarrow> SubReactor res" where
  "with_timer t m = chain m (\<lambda>s. Inr (s\<lparr>treeTimer := t\<rparr>))"

lemma with_timer_simps [simp]:
  "with_timer t (Inl e) = Inl e" "with_timer t (Inr s) = Inr (s\<lparr>treeTimer := t\<rparr>)"
  by (simp_all add: with_timer_def)

lemma with_timer_chain:
  assumes "\<And>s. f (s\<lparr>treeTimer := t\<rparr>) = with_timer t (f s)"
  shows "chain (with_timer t m) f = with_timer t (chain m f)"
  by (cases m) (simp_all add: assms)

lemma timer_free:
  "free_response r (s\<lparr>treeTimer := t\<rparr>) = with_timer t (free_response r s)"
  "free_responses rs (s\<lparr>treeTimer := t\<rparr>) = with_timer t (free_responses rs s)"
  "emit x (s\<lparr>treeTimer := t\<rparr>) = (emit x s)\<lparr>treeTimer := t\<rparr>"
  "put_connection i vc (s\<lparr>treeTimer := t\<rparr>) = (put_connection i vc s)\<lparr>treeTimer := t\<rparr>"
proof -
  show f: "free_response r (s\<lparr>treeTimer := t\<rparr>) = with_timer t (free_response r s)" for r s
    by (simp add: free_response_def split: option.split)
  show "free_responses rs (s\<lparr>treeTimer := t\<rparr>) = with_timer t (free_responses rs s)"
    by (induction rs arbitrary: s) (simp_all add: f with_timer_chain)
qed (simp_all add: emit_def put_connection_def)

lemma timer_last:
  "s\<lparr>treeTimer := t, sent := x\<rparr> = s\<lparr>sent := x, treeTimer := t\<rparr>"
  "s\<lparr>treeTimer := t, closed_peers := y\<rparr> = s\<lparr>closed_peers := y, treeTimer := t\<rparr>"
  "s\<lparr>treeTimer := t, connections := z\<rparr> = s\<lparr>connections := z, treeTimer := t\<rparr>"
  "s\<lparr>treeTimer := t, messages := m\<rparr> = s\<lparr>messages := m, treeTimer := t\<rparr>"
  by simp_all

lemma timer_free_drop: "drop_connection i (s\<lparr>treeTimer := t\<rparr>) = with_timer t (drop_connection i s)"
  by (simp add: drop_connection_def closeSocket_def Let_def emit_def put_connection_def timer_last timer_free(2))

lemma timer_free_send:
  "send_pieces h i r ks (s\<lparr>treeTimer := t\<rparr>) = with_timer t (send_pieces h i r ks s)"
proof (induction ks arbitrary: s)
  case (Cons k ks)
  show ?case
    by (cases "response_packet h (heap s) r k") (simp_all add: timer_free(3) Cons.IH)
qed simp

lemma timer_free_response_data:
  "sendResponseDataToClient h i message_id (s\<lparr>treeTimer := t\<rparr>) =
     with_timer t (sendResponseDataToClient h i message_id s)"
  by (simp add: sendResponseDataToClient_def Let_def timer_free_send split: option.split)

lemma set_timer_arm: "set_timer now ms task (s\<lparr>treeTimer := t\<rparr>) = s\<lparr>treeTimer := arm now [(ms, task)] t\<rparr>"
  by (simp add: set_timer_def arm_def)

text \<open>Every callback of the reactor only sets further timeouts, after a positive time.\<close>

lemma reactor_task_arms:
  "\<exists>ts. (\<forall>(ms, cb) \<in> set ts. 0 < ms) \<and>
     (\<forall>t. run_reactor_task h now garbage task (s\<lparr>treeTimer := t\<rparr>) =
        with_timer (arm now ts t) (run_reactor_task h now garbage task s))"
proof -
  have pos: "0 < ConnectionTimeOut" "0 < RequestTimeOut" "0 < ResponseTimeOut"
    by (simp_all add: ConnectionTimeOut_def RequestTimeOut_def ResponseTimeOut_def)
  have none: ?thesis
    if "\<And>t. run_reactor_task h now garbage task (s\<lparr>treeTimer := t\<rparr>) = with_timer t (run_reactor_task h now garbage task s)"
    using that by (intro exI [of _ "[]"]) simp
  have one: ?thesis
    if "0 < ms" "\<And>t. run_reactor_task h now garbage task (s\<lparr>treeTimer := t\<rparr>) =
      with_timer (arm now [(ms, cb)] t) (run_reactor_task h now garbage task s)" for ms cb
    using that by (intro exI [of _ "[(ms, cb)]"]) simp
  show ?thesis
  proof (cases task)
    case (CheckDeleteSocket i)
    show ?thesis
    proof (cases "socket_fd (connections s ! i) \<noteq> -1 \<and> \<not> ConnectionTimeOut < now - last_active (connections s ! i)")
      case True
      with CheckDeleteSocket show ?thesis
        by (intro one [OF pos(1), of "CheckDeleteSocket i"]) (simp add: checkDeleteSocket_def set_timer_def arm_def)
    qed (intro none, auto simp: CheckDeleteSocket checkDeleteSocket_def timer_free_drop)
  next
    case (JudgeDelete servlet)
    show ?thesis
    proof (cases "\<exists>r. messages s servlet = Some r \<and> \<not> RequestTimeOut < now - req_active_dt r")
      case True
      with JudgeDelete show ?thesis
        by (intro one [OF pos(2), of "JudgeDelete servlet"])
           (auto simp: judgeDelete_def setRequestTimeOutEvent_def set_timer_def arm_def)
    qed (intro none, auto simp: JudgeDelete judgeDelete_def timer_last split: option.split)
  next
    case (JudgeResponseClearTimeout i ident)
    show ?thesis
    proof (cases "socket_fd (connections s ! i) \<noteq> -1 \<and> (\<exists>r. map_of (responses (connections s ! i)) ident = Some r \<and>
        \<not> ResponseTimeOut < now - resp_lastActive r)")
      case True
      with JudgeResponseClearTimeout show ?thesis
        by (intro one [OF pos(3), of "JudgeResponseClearTimeout i ident"])
           (auto simp: judgeResponseClearTimeout_def setResponseClearTimeout_def set_timer_def arm_def Let_def)
    qed (intro none, auto simp: JudgeResponseClearTimeout judgeResponseClearTimeout_def Let_def timer_free
        split: option.split)
  next
    case (DeliverResponse dt i servlet count)
    have fin: "free_response r (setResponseClearTimeout now i ident (s\<lparr>treeTimer := t\<rparr>)) =
        with_timer (arm now [(ResponseTimeOut, JudgeResponseClearTimeout i ident)] t)
          (free_response r (setResponseClearTimeout now i ident s))" for r ident s t
      by (simp add: setResponseClearTimeout_def set_timer_def arm_def timer_free(1) free_response_def split: option.split)
    have "chain (with_timer t m) (\<lambda>s. free_response r (setResponseClearTimeout now i ident s)) =
        with_timer (arm now [(ResponseTimeOut, JudgeResponseClearTimeout i ident)] t)
          (chain m (\<lambda>s. free_response r (setResponseClearTimeout now i ident s)))" for r ident m t
      by (cases m) (simp_all add: fin)
    then show ?thesis
      using DeliverResponse
      by (intro one [OF pos(3), of "JudgeResponseClearTimeout i (request_id servlet)"])
         (simp add: deliverResponse_def Let_def timer_free timer_free_response_data with_timer_simps(2) [symmetric]
           del: with_timer_simps)
  qed
qed

lemma timer_exec_arms_later: "arms_later now (timer_exec h now garbage)"
  unfolding arms_later_def
proof (intro allI)
  fix task w
  show "\<exists>w' ts. (\<forall>(ms, cb) \<in> set ts. 0 < ms) \<and> (\<forall>t. timer_exec h now garbage task (w, t) = (w', arm now ts t))"
  proof (cases w)
    case (Inl e)
    then show ?thesis by (intro exI [of _ w] exI [of _ "[]"]) (simp add: timer_exec_def)
  next
    case (Inr s)
    obtain ts where ts: "\<forall>(ms, cb) \<in> set ts. 0 < ms"
      "\<And>t. run_reactor_task h now garbage task (s\<lparr>treeTimer := t\<rparr>) =
        with_timer (arm now ts t) (run_reactor_task h now garbage task s)"
      using reactor_task_arms by blast
    show ?thesis
    proof (cases "run_reactor_task h now garbage task s")
      case err: (Inl e)
      then show ?thesis by (intro exI [of _ "Inl e"] exI [of _ "[]"]) (simp add: Inr timer_exec_def ts(2))
    next
      case ok: (Inr s')
      with ts show ?thesis
        by (intro exI [of _ "Inr (s'\<lparr>treeTimer := treeTimer s\<rparr>)"] exI [of _ ts]) (simp add: Inr timer_exec_def)
    qed
  qed
qed

text \<open>A run of the timer: the callbacks of the due nodes one after the other, on a timer without them.\<close>

lemma timer_exec_fold:
  "(case fold (\<lambda>n. timer_exec h now garbage (callBack n)) ds (w, t) of (w, t) \<Rightarrow> with_timer t w) =
     fold (\<lambda>n m. chain m (run_reactor_task h now garbage (callBack n))) ds (with_timer t w)"
proof (induction ds arbitrary: w t)
  case (Cons d ds)
  have "with_timer (snd p) (fst p) = chain (with_timer t w) (run_reactor_task h now garbage (callBack d))"
    if "p = timer_exec h now garbage (callBack d) (w, t)" for p
    using that by (auto simp: timer_exec_def split: sum.split)
  from this [OF refl] show ?case
    using Cons.IH [of "fst (timer_exec h now garbage (callBack d) (w, t))" "snd (timer_exec h now garbage (callBack d) (w, t))"]
    by simp
qed simp

lemma run_timer_due:
  assumes "sorted_wrt node_less (nodes (treeTimer s))"
  shows "run_timer h now garbage s =
    fold (\<lambda>n m. chain m (run_reactor_task h now garbage (callBack n))) (filter (is_due now) (nodes (treeTimer s)))
      (Inr (s\<lparr>treeTimer := (treeTimer s)\<lparr>nodes := filter (\<lambda>n. \<not> is_due now n) (nodes (treeTimer s))\<rparr>\<rparr>))"
  using timer_exec_fold [of h now garbage "filter (is_due now) (nodes (treeTimer s))" "Inr s"
      "(treeTimer s)\<lparr>nodes := filter (\<lambda>n. \<not> is_due now n) (nodes (treeTimer s))\<rparr>"]
  by (simp add: run_timer_def runTaskLoop_due [OF assms timer_exec_arms_later] with_timer_def)

section \<open>A request collects its pieces\<close>

definition put_req :: "bool list \<Rightarrow> byte option list \<Rightarrow> Request \<Rightarrow> Request" where
  "put_req fs m r = r\<lparr>req_piece_state := fs, req_data := m\<rparr>"

definition wf_req :: "Request \<Rightarrow> bool" where
  "wf_req r \<longleftrightarrow> length (req_piece_state r) = unat (req_piece_count r)"

interpretation request_pieces: piece_store req_piece_state req_data put_req wf_req accept_piece
proof unfold_locales
  fix r off bs m and i :: u16
  assume "wf_req r" "unat i < length (req_piece_state r)" "\<not> req_piece_state r ! unat i"
    "copy_to off bs (req_data r) = Some m"
  then show "accept_piece i off (Some bs) r =
      Inr (put_req ((req_piece_state r)[unat i := True]) m r,
           word_of_nat (first_missing ((req_piece_state r)[unat i := True])))"
    by (auto simp: accept_piece_def req_getPieceState_def req_setPieceState_def req_getAckNumber_def
        put_req_def wf_req_def Let_def word_less_nat_alt)
next
  fix r off src and i :: u16
  assume "wf_req r" "unat i < length (req_piece_state r)" "req_piece_state r ! unat i"
  then show "accept_piece i off src r = Inr (r, word_of_nat (first_missing (req_piece_state r)))"
    by (auto simp: accept_piece_def req_getPieceState_def req_getAckNumber_def wf_req_def word_less_nat_alt)
qed (simp_all add: put_req_def wf_req_def)

text \<open>The first piece of a message is accepted like any other, by a request that holds none.\<close>

definition empty_request :: "ProtocolHeader \<Rightarrow> Peer \<Rightarrow> int \<Rightarrow> int \<Rightarrow> Request" where
  "empty_request hdr addr fd now =
     (new_Request (timePoint hdr) (peer_port addr) (peer_ip addr) (totalCount hdr) (totalSize hdr))
     \<lparr>req_socketFd := fd, req_active_dt := now, req_data := replicate (unat (totalSize hdr)) None\<rparr>"

lemma first_piece_accept:
  assumes "accept_piece (pieceOrder hdr) (piece_offset hdr) (piece_source hdr buf)
      (empty_request hdr addr fd now) = Inr r"
  shows "first_piece hdr addr fd now buf = Inr r"
  using assms
  by (auto simp: accept_piece_def first_piece_def empty_request_def req_getPieceState_def
      req_setPieceState_def new_Request_def Let_def chain_Inr req_getAckNumber_def
      word_less_nat_alt not_less split: if_splits)

end
