(* ===== verification/Invoker.thy ===== *)
theory Invoker
  imports Rpc_Message
begin

text \<open>
  The blocking client (\<open>src/include/rpc/client/invoker.cpp\<close>). The datagrams that arrive are a list,
  one per successful \<open>recvfrom\<close>; an empty datagram is treated like a timeout by the code, and after
  the end of the list every call times out. \<open>sent\<close> collects what \<open>sendto\<close> was given. Both loops are
  total functions: while datagrams arrive the list gets shorter, and once the network is silent the
  number of tries goes down.
\<close>

section \<open>State and packets\<close>

definition tryTimes :: int where "tryTimes = 3"

record Invoker =
  inv_buffer :: "byte list"
  inv_inputs :: "byte list list"
  inv_sent :: "byte list list"

definition new_Invoker :: "byte list list \<Rightarrow> Invoker" where
  "new_Invoker ins = \<lparr>inv_buffer = replicate (FullPieceSize + 1) 0, inv_inputs = ins, inv_sent = []\<rparr>"

definition inv_recvfrom :: "Invoker \<Rightarrow> Invoker \<times> nat" where
  "inv_recvfrom st =
     (case inv_inputs st of
        [] \<Rightarrow> (st, 0)
      | d # ds \<Rightarrow>
          (st\<lparr>inv_inputs := ds, inv_buffer := receive_into d (inv_buffer st)\<rparr>,
           min (length d) (length (inv_buffer st))))"

text \<open>A packet that is a header only: built in the buffer \<open>b\<close> by the steps \<open>f\<close>.\<close>

definition send_control :: "ByteSequence \<Rightarrow> (byte list \<Rightarrow> byte list option) \<Rightarrow> u64 \<Rightarrow> Invoker \<Rightarrow> Invoker res" where
  "send_control h f message_id st =
     chain (defined (do {
       (b, _) \<leftarrow> initiateSenderProtocolHeader h (replicate protocolHeaderSize 0) message_id 0 protocolHeaderSize;
       f b })) (\<lambda>b. Inr (st\<lparr>inv_sent := inv_sent st @ [b]\<rparr>))"

definition sendResponseACK :: "ByteSequence \<Rightarrow> u16 \<Rightarrow> u64 \<Rightarrow> Invoker \<Rightarrow> Invoker res" where
  "sendResponseACK h ack_number message_id = send_control h (\<lambda>b. do {
     b \<leftarrow> setProtocolType b ReceiverACK;
     b \<leftarrow> setProtocolPhase b PhaseResponse;
     setACKAcceptOrder h b ack_number }) message_id"

definition inv_sendHeartbeat :: "ByteSequence \<Rightarrow> u64 \<Rightarrow> Invoker \<Rightarrow> Invoker res" where
  "inv_sendHeartbeat h message_id = send_control h (\<lambda>b. do {
     b \<leftarrow> setProtocolType b TimedOutResponseHeartbeat;
     setProtocolPhase b PhaseResponse }) message_id"

definition sendRequestHeartbeat :: "ByteSequence \<Rightarrow> u64 \<Rightarrow> Invoker \<Rightarrow> Invoker res" where
  "sendRequestHeartbeat h message_id = send_control h (\<lambda>b. do {
     b \<leftarrow> setProtocolType b TimedOutRequestHeartbeat;
     setProtocolPhase b PhaseResponse }) message_id"

section \<open>Phase one: sending the request\<close>

text \<open>The constants of one call of \<open>request\<close>.\<close>

record call =
  call_id :: u64
  call_data :: "byte list"
  call_total :: u32
  call_pieces :: u16
  call_last :: u16

definition make_call :: "u64 \<Rightarrow> byte list \<Rightarrow> call" where
  "make_call message_id dat =
     (let tsize = word_of_nat (length dat) :: u32
      in \<lparr>call_id = message_id, call_data = dat, call_total = tsize,
          call_pieces = word_of_nat (length dat div defaultPieceLimitSize +
            (if unat tsize mod defaultPieceLimitSize = 0 then 0 else 1)),
          call_last = word_of_nat (if unat tsize mod defaultPieceLimitSize = 0 then defaultPieceLimitSize
            else unat tsize mod defaultPieceLimitSize)\<rparr>)"

definition fill_piece :: "ByteSequence \<Rightarrow> call \<Rightarrow> u16 \<Rightarrow> byte list \<Rightarrow> (byte list \<times> byte list) option" where
  "fill_piece h c i buf = do {
     (b, _) \<leftarrow> initiateSenderProtocolHeader h buf (call_id c) (call_total c) protocolHeaderSize;
     b \<leftarrow> setProtocolType b RequestSend;
     let part = (if int (unat i) = int (unat (call_pieces c)) - 1 then call_last c
                 else word_of_nat defaultPieceLimitSize);
     b \<leftarrow> setProtocolOrderAndSize h b i part;
     body \<leftarrow> load (unat i * defaultPieceLimitSize) (unat part) (call_data c);
     b \<leftarrow> store protocolHeaderSize body b;
     dgram \<leftarrow> load 0 (protocolHeaderSize + unat part) b;
     Some (b, dgram) }"

primrec send_request :: "ByteSequence \<Rightarrow> call \<Rightarrow> u16 list \<Rightarrow> Invoker \<Rightarrow> Invoker res" where
  "send_request h c [] st = Inr st"
| "send_request h c (i # is) st =
     chain (defined (fill_piece h c i (inv_buffer st))) (\<lambda>(b, dgram).
     send_request h c is (st\<lparr>inv_buffer := b, inv_sent := inv_sent st @ [dgram]\<rparr>))"

definition request_ack :: "ByteSequence \<Rightarrow> call \<Rightarrow> Invoker \<Rightarrow> Invoker res" where
  "request_ack h c st =
     chain (defined (do {
       (b, _) \<leftarrow> initiateSenderProtocolHeader h (inv_buffer st) (call_id c) (call_total c) protocolHeaderSize;
       b \<leftarrow> setProtocolType b RequestACK;
       dgram \<leftarrow> load 0 protocolHeaderSize b;
       Some (b, dgram) })) (\<lambda>(b, dgram).
     Inr (st\<lparr>inv_buffer := b, inv_sent := inv_sent st @ [dgram]\<rparr>))"

text \<open>
  Waiting for acknowledgements, at most \<open>k\<close> datagrams. The result: whether the server is exhausted,
  the acknowledged number, the tries left and the number of datagrams of this message.
\<close>

primrec wait_acks ::
  "ByteSequence \<Rightarrow> call \<Rightarrow> nat \<Rightarrow> u16 \<Rightarrow> int \<Rightarrow> nat \<Rightarrow> Invoker \<Rightarrow> ((bool \<times> u16 \<times> int \<times> nat) \<times> Invoker) res" where
  "wait_acks h c 0 ack tries count st = Inr ((False, ack, tries, count), st)"
| "wait_acks h c (Suc k) ack tries count st =
     (let (st, recvLength) = inv_recvfrom st
      in if 0 < recvLength
         then chain (defined (parse h (inv_buffer st) recvLength)) (\<lambda>(hdr, isSuccess).
              if isSuccess
              then if timePoint hdr \<noteq> call_id c then wait_acks h c k ack tries count st
                   else if phase hdr = PhaseRequest
                   then if type hdr = ReceiverACK
                        then let ack = (if ack < acceptOrder hdr then acceptOrder hdr else ack)
                             in if ack = call_pieces c then Inr ((False, ack, tryTimes, Suc count), st)
                                else wait_acks h c k ack tryTimes (Suc count) st
                        else if type hdr = TheServerResourcesExhausted
                        then Inr ((True, ack, tryTimes, Suc count), st)
                        else wait_acks h c k ack tryTimes (Suc count) st
                   else wait_acks h c k (call_pieces c) tryTimes (Suc count) st
              else Inl (ClientException ServerNotSupportTheProtocol))
         else chain (request_ack h c st) (\<lambda>st. Inr ((False, ack, tries, count), st)))"

lemma recvfrom_inputs: "inv_recvfrom st = (st', n) \<Longrightarrow>
    length (inv_inputs st') \<le> length (inv_inputs st) \<and>
    (0 < n \<longrightarrow> length (inv_inputs st') < length (inv_inputs st))"
  by (auto simp: inv_recvfrom_def split: list.splits)

lemma request_ack_inputs: "request_ack h c st = Inr st' \<Longrightarrow> inv_inputs st' = inv_inputs st"
  by (auto simp: request_ack_def chain_Inr)

lemma send_request_inputs: "send_request h c is st = Inr st' \<Longrightarrow> inv_inputs st' = inv_inputs st"
  by (induction "is" arbitrary: st) (fastforce simp: chain_Inr)+

text \<open>The tries are reset only by a datagram of this message, which shortens the list.\<close>

lemma wait_acks_inputs:
  assumes "wait_acks h c k ack tries count st = Inr r"
  shows "length (inv_inputs (snd r)) \<le> length (inv_inputs st)"
    and "snd (snd (snd (fst r))) = count \<Longrightarrow> fst (snd (snd (fst r))) = tries"
    and "snd (snd (snd (fst r))) \<noteq> count \<Longrightarrow> length (inv_inputs (snd r)) < length (inv_inputs st)"
    and "count \<le> snd (snd (snd (fst r)))"
proof -
  have "length (inv_inputs (snd r)) \<le> length (inv_inputs st) \<and> count \<le> snd (snd (snd (fst r))) \<and>
    (snd (snd (snd (fst r))) = count \<longrightarrow> fst (snd (snd (fst r))) = tries) \<and>
    (snd (snd (snd (fst r))) \<noteq> count \<longrightarrow> length (inv_inputs (snd r)) < length (inv_inputs st))"
    using assms
  proof (induction k arbitrary: ack tries count st)
    case (Suc k)
    obtain st1 n where r: "inv_recvfrom st = (st1, n)" by fastforce
    note i = recvfrom_inputs [OF r]
    show ?case
    proof (cases "0 < n")
      case True
      then show ?thesis
        using Suc.prems i by (auto simp: r chain_Inr Let_def split: if_splits dest!: Suc.IH)
    next
      case False
      then show ?thesis using Suc.prems i by (auto simp: r chain_Inr dest!: request_ack_inputs)
    qed
  qed auto
  then show "length (inv_inputs (snd r)) \<le> length (inv_inputs st)"
    "snd (snd (snd (fst r))) = count \<Longrightarrow> fst (snd (snd (fst r))) = tries"
    "snd (snd (snd (fst r))) \<noteq> count \<Longrightarrow> length (inv_inputs (snd r)) < length (inv_inputs st)"
    "count \<le> snd (snd (snd (fst r)))"
    by blast+
qed

function phase_one ::
  "ByteSequence \<Rightarrow> call \<Rightarrow> u16 \<Rightarrow> int \<Rightarrow> nat \<Rightarrow> Invoker \<Rightarrow> (FailureReason option \<times> Invoker) res" where
  "phase_one h c ack tries received st =
     (if ack = call_pieces c then Inr (None, st)
      else let last_order = ack + word_of_int (getSendCount (call_pieces c));
               upto = min (unat last_order) (unat (call_pieces c))
           in chain (if received \<noteq> 0 then send_request h c (map word_of_nat [unat ack..<upto]) st
                     else Inr st) (\<lambda>st1.
              chain (wait_acks h c (upto - unat ack) ack tries 0 st1) (\<lambda>r.
              let st2 = snd r; (exhausted, ack, tries, count) = fst r
              in if exhausted then Inr (Some ServerResourcesExhausted, st2)
                 else if count = 0
                 then if tries - 1 \<le> 0 then Inr (Some NetworkTimeout, st2)
                      else phase_one h c ack (tries - 1) count st2
                 else phase_one h c ack tries count st2)))"
  by pat_completeness auto
termination
proof (relation "measures [\<lambda>(h, c, ack, tries, received, st). length (inv_inputs st),
                           \<lambda>(h, c, ack, tries, received, st). nat tries]", goal_cases)
  case (2 h c ack tries received st last_order upto st1 r st2 x exhausted xa ack' xb tries' count)
  have s: "inv_inputs st1 = inv_inputs st" using 2(4) by (auto split: if_splits dest: send_request_inputs)
  note w = wait_acks_inputs [OF 2(5)]
  have "tries' = tries" using w(2) 2(6-) by (metis fst_conv snd_conv)
  then show ?case using w(1) 2 by (auto simp: s)
next
  case (3 h c ack tries received st last_order upto st1 r st2 x exhausted xa ack' xb tries' count)
  have s: "inv_inputs st1 = inv_inputs st" using 3(4) by (auto split: if_splits dest: send_request_inputs)
  have "snd (snd (snd (fst r))) \<noteq> 0" using 3(6-) by (metis snd_conv)
  then show ?case using wait_acks_inputs(3) [OF 3(5)] 3(6) by (simp add: s)
qed simp

section \<open>Phase two: receiving the response\<close>

text \<open>A piece of the response: copied unless it is there, then its flag is set in any case.\<close>

definition accept_response :: "u16 \<Rightarrow> nat \<Rightarrow> byte list option \<Rightarrow> ResponseData \<Rightarrow> (ResponseData \<times> u16) res" where
  "accept_response order off src r =
     chain (rd_getPieceState order r) (\<lambda>st.
     chain (if \<not> st
            then chain (defined src) (\<lambda>bs.
                 chain (defined (copy_to off bs (rd_data r))) (\<lambda>m. Inr (r\<lparr>rd_data := m\<rparr>)))
            else Inr r) (rd_setPieceState order True))"

lemma send_control_inputs: "send_control h f ident st = Inr st' \<Longrightarrow> inv_inputs st' = inv_inputs st"
  by (auto simp: send_control_def chain_Inr)

lemma answer_inputs:
  "sendResponseACK h ack ident st = Inr st' \<Longrightarrow> inv_inputs st' = inv_inputs st"
  "inv_sendHeartbeat h ident st = Inr st' \<Longrightarrow> inv_inputs st' = inv_inputs st"
  "sendRequestHeartbeat h ident st = Inr st' \<Longrightarrow> inv_inputs st' = inv_inputs st"
  unfolding sendResponseACK_def inv_sendHeartbeat_def sendRequestHeartbeat_def
  by (rule send_control_inputs, assumption)+

text \<open>
  The answer to a datagram of the response phase: the response collected so far, whether it is
  complete, and the state.
\<close>

definition on_response ::
  "ByteSequence \<Rightarrow> ProtocolHeader \<Rightarrow> ResponseData \<Rightarrow> Invoker \<Rightarrow> (ResponseData \<times> bool \<times> Invoker) res" where
  "on_response h hdr rd st =
     (case type hdr of
        RequestSend \<Rightarrow>
          let rd = rd_initialize (timePoint hdr) (totalCount hdr) (totalSize hdr) rd
          in chain (accept_response (pieceOrder hdr) (unat (pieceOrder hdr) * defaultPieceLimitSize)
                      (load protocolHeaderSize (unat (pieceSize hdr)) (inv_buffer st)) rd) (\<lambda>(rd, ack).
             chain (sendResponseACK h ack (timePoint hdr) st) (\<lambda>st. Inr (rd, ack = rd_piece_count rd, st)))
      | RequestACK \<Rightarrow>
          chain (sendResponseACK h (if rd_is_initial rd then rd_getAckNumber rd else 0) (timePoint hdr) st)
            (\<lambda>st. Inr (rd, False, st))
      | TimedOutRequestHeartbeat \<Rightarrow>
          chain (inv_sendHeartbeat h (timePoint hdr) st) (\<lambda>st. Inr (rd, False, st))
      | _ \<Rightarrow> Inr (rd, False, st))"

lemma on_response_inputs: "on_response h hdr rd st = Inr r \<Longrightarrow> inv_inputs (snd (snd r)) = inv_inputs st"
  by (auto simp: on_response_def chain_Inr Let_def split: ProtocolType.splits dest!: answer_inputs)

function phase_two ::
  "ByteSequence \<Rightarrow> u64 \<Rightarrow> int \<Rightarrow> ResponseData \<Rightarrow> Invoker \<Rightarrow> (FailureReason option \<times> ResponseData \<times> Invoker) res" where
  "phase_two h message_id tries rd st =
     (let st1 = fst (inv_recvfrom st); recvLength = snd (inv_recvfrom st)
      in if 0 < recvLength
         then chain (defined (parse h (inv_buffer st1) recvLength)) (\<lambda>p.
              let (hdr, isSuccess) = p
              in if isSuccess
                 then if timePoint hdr \<noteq> message_id then phase_two h message_id tries rd st1
                      else (case phase hdr of
                              PhaseRequest \<Rightarrow> phase_two h message_id tryTimes rd st1
                            | PhaseResponse \<Rightarrow>
                                chain (on_response h hdr rd st1) (\<lambda>r.
                                if fst (snd r) then Inr (None, fst r, snd (snd r))
                                else phase_two h message_id tryTimes (fst r) (snd (snd r))))
                 else phase_two h message_id tries rd st1)
         else chain (sendRequestHeartbeat h message_id st1) (\<lambda>st2.
              if tries - 1 \<le> 0 then Inr (Some NetworkTimeout, rd, st2)
              else phase_two h message_id (tries - 1) rd st2))"
  by pat_completeness auto
termination
proof (relation "measures [\<lambda>(h, message_id, tries, rd, st). length (inv_inputs st),
                           \<lambda>(h, message_id, tries, rd, st). nat tries]", goal_cases)
  case (4 h message_id tries rd st)
  then show ?case
    using recvfrom_inputs [OF surjective_pairing, of st] by (auto dest: on_response_inputs)
next
  case (6 h message_id tries rd st)
  then show ?case
    using recvfrom_inputs [OF surjective_pairing, of st] by (auto dest: answer_inputs)
qed (use recvfrom_inputs [OF surjective_pairing] in auto)

declare phase_one.simps [simp del] phase_two.simps [simp del]

section \<open>The whole call\<close>

text \<open>
  \<open>clientOut\<close> and \<open>clientIn\<close> are the middleware of the channel. A response that was not set is
  the one the factory gives.
\<close>

definition request ::
  "ByteSequence \<Rightarrow> (byte list \<Rightarrow> byte list) \<Rightarrow> (byte option list \<Rightarrow> u32 \<Rightarrow> byte list) \<Rightarrow> u64 \<Rightarrow> byte list \<Rightarrow>
   Invoker \<Rightarrow> (ResponseData \<times> Invoker) res" where
  "request h clientOut clientIn message_id dat st =
     (if 1024 * 1024 * 100 < length dat then Inl RuntimeError
      else let c = make_call message_id (clientOut dat)
           in chain (phase_one h c 0 tryTimes 1 st) (\<lambda>(failed, st).
              case failed of
                Some why \<Rightarrow> Inr (new_ResponseData\<lparr>rd_isSuccess := False, rd_reason := why\<rparr>, st)
              | None \<Rightarrow>
                  chain (phase_two h message_id tryTimes new_ResponseData st) (\<lambda>(failed, rd, st).
                  case failed of
                    Some why \<Rightarrow> Inr (rd\<lparr>rd_isSuccess := False, rd_reason := why\<rparr>, st)
                  | None \<Rightarrow>
                      let real = clientIn (rd_data rd) (rd_total_size rd)
                      in Inr (rd\<lparr>rd_data := map Some real, rd_total_size := word_of_nat (length real),
                                 rd_isSuccess := True\<rparr>, st))))"

section \<open>The response collects its pieces\<close>

definition put_rd :: "bool list \<Rightarrow> byte option list \<Rightarrow> ResponseData \<Rightarrow> ResponseData" where
  "put_rd fs m r = r\<lparr>rd_piece_state := fs, rd_data := m\<rparr>"

definition wf_rd :: "ResponseData \<Rightarrow> bool" where
  "wf_rd r \<longleftrightarrow> length (rd_piece_state r) = unat (rd_piece_count r)"

interpretation response_pieces: piece_store rd_piece_state rd_data put_rd wf_rd accept_response
proof unfold_locales
  fix r off bs m and i :: u16
  assume "wf_rd r" "unat i < length (rd_piece_state r)" "\<not> rd_piece_state r ! unat i"
    "copy_to off bs (rd_data r) = Some m"
  then show "accept_response i off (Some bs) r =
      Inr (put_rd ((rd_piece_state r)[unat i := True]) m r,
           word_of_nat (first_missing ((rd_piece_state r)[unat i := True])))"
    by (auto simp: accept_response_def rd_getPieceState_def rd_setPieceState_def rd_getAckNumber_def
        put_rd_def wf_rd_def Let_def word_less_nat_alt)
next
  fix r off src and i :: u16
  assume "wf_rd r" "unat i < length (rd_piece_state r)" "rd_piece_state r ! unat i"
  moreover have "(rd_piece_state r)[unat i := True] = rd_piece_state r"
    using calculation(3) by (metis (full_types) list_update_id)
  ultimately show "accept_response i off src r = Inr (r, word_of_nat (first_missing (rd_piece_state r)))"
    by (auto simp: accept_response_def rd_getPieceState_def rd_setPieceState_def rd_getAckNumber_def
        wf_rd_def Let_def word_less_nat_alt)
qed (simp_all add: put_rd_def wf_rd_def)

end
