(* ===== verification/Rpc_Transfer.thy ===== *)
theory Rpc_Transfer
  imports Sub_Reactor Invoker
begin

text \<open>
  The transfer of a message between the client and the server: the datagrams that both sides build
  for the pieces of a message, and what the receiving side makes of any sequence of them.
\<close>

section \<open>Datagrams of a message\<close>

definition piece_header :: "CommunicationPhase \<Rightarrow> u64 \<Rightarrow> byte list \<Rightarrow> nat \<Rightarrow> ProtocolHeader" where
  "piece_header ph ident msg i = (sender_header ident (word_of_nat (length msg)))
     \<lparr>phase := ph, pieceOrder := word_of_nat i, pieceSize := word_of_nat (length (piece msg i))\<rparr>"

definition piece_packet :: "CommunicationPhase \<Rightarrow> u64 \<Rightarrow> byte list \<Rightarrow> nat \<Rightarrow> byte list" where
  "piece_packet ph ident msg i = header_bytes (piece_header ph ident msg i) @ piece msg i"

lemma sizes [simp]: "protocolHeaderSize = 26" "FullPieceSize = 548"
  by (simp_all add: FullPieceSize_def protocolHeaderSize_def)

text \<open>A message that fits: 65535 pieces are enough.\<close>

lemma pieces_bound: "pieces_of msg < 2 ^ 16 \<Longrightarrow> length msg < 2 ^ 31"
proof -
  assume "pieces_of msg < 2 ^ 16"
  then have "\<not> 2 ^ 16 < pieces_of msg" by simp
  then have "length msg \<le> 2 ^ 16 * 522" by (simp add: pieces_less_iff)
  then show ?thesis by simp
qed

lemma piece_count_pieces:
  assumes "pieces_of msg < 2 ^ 16"
  shows "piece_count (word_of_nat (length msg)) = word_of_nat (pieces_of msg)"
    and "unat (word_of_nat (length msg) :: u32) = length msg"
proof -
  show l: "unat (word_of_nat (length msg) :: u32) = length msg"
    using pieces_bound [OF assms] by (simp add: unat_of_nat)
  show "piece_count (word_of_nat (length msg)) = word_of_nat (pieces_of msg)"
    by (simp add: piece_count_def pieces_of_def l)
qed

lemma length_piece_le: "length (piece msg i) \<le> 522"
  by (simp add: piece_def)

lemma unat_piece: "unat (word_of_nat (length (piece msg i)) :: u16) = length (piece msg i)"
  using length_piece_le [of msg i] by (simp add: unat_of_nat)

lemma unat_order: "i < pieces_of msg \<Longrightarrow> pieces_of msg < 2 ^ 16 \<Longrightarrow> unat (word_of_nat i :: u16) = i"
  by (simp add: unat_of_nat)

lemma piece_packet_length: "length (piece_packet ph ident msg i) = 26 + length (piece msg i)"
  by (simp add: piece_packet_def)

text \<open>What a receiver finds in its buffer.\<close>

lemma packet_received:
  assumes "length buf = 549"
  shows "receive_into (piece_packet ph ident msg i) buf = piece_packet ph ident msg i @
      drop (26 + length (piece msg i)) buf"
    and "parse h (receive_into (piece_packet ph ident msg i) buf) (length (piece_packet ph ident msg i)) =
      Some (piece_header ph ident msg i, True)"
    and "load 26 (length (piece msg i)) (receive_into (piece_packet ph ident msg i) buf) = Some (piece msg i)"
proof -
  show r: "receive_into (piece_packet ph ident msg i) buf = piece_packet ph ident msg i @
      drop (26 + length (piece msg i)) buf"
    using assms length_piece_le [of msg i] by (simp add: receive_into_def piece_packet_length)
  show "parse h (receive_into (piece_packet ph ident msg i) buf) (length (piece_packet ph ident msg i)) =
      Some (piece_header ph ident msg i, True)"
    unfolding r
    by (subst parse_value) (simp_all add: piece_packet_def, simp add: piece_header_def sender_header_def)
  show "load 26 (length (piece msg i)) (receive_into (piece_packet ph ident msg i) buf) = Some (piece msg i)"
    unfolding r by (simp add: load_def seg_def piece_packet_def)
qed

text \<open>The size both senders compute for a piece.\<close>

lemma part_size:
  assumes "i < pieces_of msg" "pieces_of msg < 2 ^ 16"
  shows "(if int (unat (word_of_nat i :: u16)) = int (unat (word_of_nat (pieces_of msg) :: u16)) - 1
      then word_of_nat (if length msg mod 522 = 0 then 522 else length msg mod 522)
      else word_of_nat 522) = (word_of_nat (length (piece msg i)) :: u16)"
proof -
  have "unat (word_of_nat (pieces_of msg) :: u16) = pieces_of msg"
    using assms(2) by (simp add: unat_of_nat)
  moreover have "int i = int (pieces_of msg) - 1 \<longleftrightarrow> i = pieces_of msg - 1" using assms(1) by linarith
  ultimately show ?thesis
    using unat_order [OF assms] length_piece [OF assms(1)] by simp
qed

lemma load_piece: "i < pieces_of msg \<Longrightarrow> load (i * 522) (length (piece msg i)) msg = Some (piece msg i)"
proof -
  have "take (length (piece msg i)) (drop (i * 522) msg) = piece msg i"
    by (simp add: piece_def min_def)
  then show "i < pieces_of msg \<Longrightarrow> ?thesis" by (simp add: load_def seg_def piece_end)
qed

lemma client_packet:
  assumes "i < pieces_of msg" "pieces_of msg < 2 ^ 16" "length buf = 549"
  shows "\<exists>b. fill_piece h (make_call ident msg) (word_of_nat i) buf =
      Some (b, piece_packet PhaseRequest ident msg i) \<and> length b = 549"
proof -
  note n = piece_count_pieces [OF assms(2)]
  let ?c = "make_call ident msg"
  let ?n = "word_of_nat (length (piece msg i)) :: u16"
  have c: "call_id ?c = ident" "call_total ?c = word_of_nat (length msg)" "call_data ?c = msg"
    "call_pieces ?c = word_of_nat (pieces_of msg)"
    "call_last ?c = word_of_nat (if length msg mod 522 = 0 then 522 else length msg mod 522)"
    by (simp_all add: make_call_def Let_def n(2) pieces_of_def)
  note body = load_piece [OF assms(1)]
  have st: "store 26 (piece msg i) (header_bytes hdr @ drop 26 buf) =
      Some (header_bytes hdr @ piece msg i @ drop (26 + length (piece msg i)) buf)" for hdr
    using assms(3) length_piece_le [of msg i] by (simp add: store_def update_def add.commute)
  have ld: "load 0 (26 + length (piece msg i)) (header_bytes hdr @ piece msg i @ rest) =
      Some (header_bytes hdr @ piece msg i)" for hdr rest
    by (simp add: load_def seg_def)
  have hdr: "sender_header ident (word_of_nat (length msg))
      \<lparr>type := RequestSend, pieceOrder := word_of_nat i, pieceSize := ?n\<rparr> =
      piece_header PhaseRequest ident msg i"
    by (simp add: piece_header_def sender_header_def zero_header_def)
  show ?thesis
    unfolding fill_piece_def c Let_def limit_size part_size [OF assms(1,2)]
    using assms(3) length_piece_le [of msg i]
    by (simp add: initiate_layout type_setters_layout order_setters_layout
        unat_order [OF assms(1,2)] unat_piece body st ld hdr piece_packet_def)
qed

lemma server_packet:
  assumes "i < pieces_of msg" "pieces_of msg < 2 ^ 16" "hp (resp_data r) = Some msg"
    and "resp_total_data_size r = word_of_nat (length msg)"
    and "resp_piece_count r = word_of_nat (pieces_of msg)"
    and "resp_last_piece_size r = word_of_nat (if length msg mod 522 = 0 then 522 else length msg mod 522)"
  shows "response_packet h hp r (word_of_nat i) =
      Some (piece_packet PhaseResponse (request_id (resp_servlet r)) msg i)"
proof -
  let ?n = "word_of_nat (length (piece msg i)) :: u16"
  have st: "store 26 (piece msg i) (header_bytes hdr @ drop 26 (replicate 549 0)) =
      Some (header_bytes hdr @ piece msg i @ drop (26 + length (piece msg i)) (replicate 549 0))" for hdr
    using length_piece_le [of msg i] by (simp add: store_def update_def)
  have ld: "load 0 (26 + length (piece msg i)) (header_bytes hdr @ piece msg i @ rest) =
      Some (header_bytes hdr @ piece msg i)" for hdr rest
    by (simp add: load_def seg_def)
  have hdr: "sender_header ident (word_of_nat (length msg))
      \<lparr>type := RequestSend, phase := PhaseResponse, pieceOrder := word_of_nat i, pieceSize := ?n\<rparr> =
      piece_header PhaseResponse ident msg i" for ident
    by (simp add: piece_header_def sender_header_def zero_header_def)
  show ?thesis
    unfolding response_packet_def Let_def assms(4-6) limit_size part_size [OF assms(1,2)]
    by (simp add: initiate_layout type_setters_layout order_setters_layout
        unat_order [OF assms(1,2)] unat_piece
        load_piece [OF assms(1)] assms(3) st [simplified] ld hdr piece_packet_def)
qed

section \<open>The client collects a response\<close>

text \<open>One datagram of the response, and then any sequence of them.\<close>

definition collecting :: "u64 \<Rightarrow> byte list \<Rightarrow> nat set \<Rightarrow> ResponseData \<Rightarrow> bool" where
  "collecting ident msg S rd \<longleftrightarrow>
     (if rd_is_initial rd
      then response_pieces.holds msg S rd \<and> rd_piece_count rd = word_of_nat (pieces_of msg) \<and>
           rd_total_size rd = word_of_nat (length msg) \<and> rd_message_id rd = ident
      else S = {} \<and> rd_piece_state rd = [])"

lemma collecting_initialize:
  assumes "collecting ident msg S rd" "pieces_of msg < 2 ^ 16"
  shows "collecting ident msg S (rd_initialize ident (word_of_nat (pieces_of msg)) (word_of_nat (length msg)) rd)
    \<and> rd_is_initial (rd_initialize ident (word_of_nat (pieces_of msg)) (word_of_nat (length msg)) rd)"
proof (cases "rd_is_initial rd")
  case False
  have "unat (word_of_nat (pieces_of msg) :: u16) = pieces_of msg"
    using assms(2) by (simp add: unat_of_nat)
  with False show ?thesis
    using assms piece_count_pieces(2) [OF assms(2)]
    by (simp add: collecting_def rd_initialize_def response_pieces.holds_def wf_rd_def filled_empty)
qed (use assms in \<open>simp add: rd_initialize_def\<close>)

lemma client_accepts:
  assumes "collecting ident msg S rd" "i < pieces_of msg" "pieces_of msg < 2 ^ 16"
    and "length (inv_buffer st) = 549"
    and "inv_buffer st = receive_into (piece_packet PhaseResponse ident msg i) buf" "length buf = 549"
  shows "\<exists>rd' st'. on_response h (piece_header PhaseResponse ident msg i) rd st =
      Inr (rd', {..<pieces_of msg} \<subseteq> insert i S, st') \<and>
      collecting ident msg (insert i S) rd' \<and> rd_is_initial rd' \<and>
      inv_inputs st' = inv_inputs st \<and> inv_buffer st' = inv_buffer st"
proof -
  let ?hdr = "piece_header PhaseResponse ident msg i"
  let ?rd = "rd_initialize ident (word_of_nat (pieces_of msg)) (word_of_nat (length msg)) rd"
  have hdr: "type ?hdr = RequestSend" "timePoint ?hdr = ident" "pieceOrder ?hdr = word_of_nat i"
    "totalCount ?hdr = word_of_nat (pieces_of msg)" "totalSize ?hdr = word_of_nat (length msg)"
    "pieceSize ?hdr = word_of_nat (length (piece msg i))"
    by (simp_all add: piece_header_def sender_header_def zero_header_def piece_count_pieces [OF assms(3)])
  have rd: "response_pieces.holds msg S ?rd" "rd_piece_count ?rd = word_of_nat (pieces_of msg)"
    "rd_is_initial ?rd" "rd_total_size ?rd = word_of_nat (length msg)" "rd_message_id ?rd = ident"
    using collecting_initialize [OF assms(1,3)] by (simp_all add: collecting_def split: if_splits)
  obtain fs m where a: "accept_response (word_of_nat i) (i * 522) (Some (piece msg i)) ?rd =
      Inr (put_rd fs m ?rd, word_of_nat (first_missing fs))"
    "response_pieces.holds msg (insert i S) (put_rd fs m ?rd)"
    using response_pieces.holds_accept [OF rd(1) assms(2,3)] by blast
  have ack: "word_of_nat (first_missing fs) = (word_of_nat (pieces_of msg) :: u16) \<longleftrightarrow>
      {..<pieces_of msg} \<subseteq> insert i S"
    using response_pieces.holds_ack [OF a(2) assms(3)] by (simp add: put_rd_def)
  obtain st' where st': "sendResponseACK h (word_of_nat (first_missing fs)) ident st = Inr st'"
    "inv_inputs st' = inv_inputs st" "inv_buffer st' = inv_buffer st"
    by (simp add: sendResponseACK_def send_control_def initiate_layout type_setters_layout
        order_setters_layout order_setters_layout [where rest = "[]", simplified]
        type_setters_layout [where rest = "[]", simplified])
  have "on_response h ?hdr rd st = Inr (put_rd fs m ?rd,
      word_of_nat (first_missing fs) = rd_piece_count (put_rd fs m ?rd), st')"
    using packet_received(3) [OF assms(6), of msg i PhaseResponse ident] assms(5) a(1) st'(1)
    by (simp add: on_response_def hdr unat_order [OF assms(2,3)] unat_piece)
  moreover have "rd_piece_count (put_rd fs m ?rd) = word_of_nat (pieces_of msg)"
    by (simp add: put_rd_def rd(2))
  moreover have "collecting ident msg (insert i S) (put_rd fs m ?rd)" "rd_is_initial (put_rd fs m ?rd)"
    using a(2) rd by (simp_all add: collecting_def put_rd_def)
  ultimately show ?thesis using ack st' by auto
qed

text \<open>
  What arrives: pieces of the message by their number, and datagrams that belong to no packet of it.
\<close>

definition arrives :: "CommunicationPhase \<Rightarrow> u64 \<Rightarrow> byte list \<Rightarrow> byte list + nat \<Rightarrow> byte list" where
  "arrives ph ident msg x = (case x of Inl d \<Rightarrow> d | Inr i \<Rightarrow> piece_packet ph ident msg i)"

definition foreign :: "u64 \<Rightarrow> byte list \<Rightarrow> bool" where
  "foreign ident d \<longleftrightarrow> d \<noteq> [] \<and> (\<forall>h buf. length buf = 549 \<longrightarrow>
     (\<exists>hdr ok. parse h (receive_into d buf) (min (length d) 549) = Some (hdr, ok) \<and>
        (ok \<longrightarrow> timePoint hdr \<noteq> ident)))"

definition traffic :: "u64 \<Rightarrow> byte list \<Rightarrow> (byte list + nat) list \<Rightarrow> bool" where
  "traffic ident msg xs \<longleftrightarrow>
     (\<forall>x \<in> set xs. case x of Inl d \<Rightarrow> foreign ident d | Inr i \<Rightarrow> i < pieces_of msg)"

text \<open>One datagram of each kind in the loop of phase two.\<close>

lemma phase_two_foreign:
  assumes "foreign ident d" "length (inv_buffer st) = 549" "inv_inputs st = d # ds"
  shows "phase_two h ident tries rd st = phase_two h ident tries rd
    (st\<lparr>inv_inputs := ds, inv_buffer := receive_into d (inv_buffer st)\<rparr>)"
proof -
  obtain hdr success where p: "parse h (receive_into d (inv_buffer st)) (min (length d) 549) = Some (hdr, success)"
    "success \<longrightarrow> timePoint hdr \<noteq> ident"
    using assms(1,2) unfolding foreign_def by blast
  show ?thesis
    using assms p by (subst phase_two.simps) (simp add: inv_recvfrom_def foreign_def Let_def)
qed

lemma phase_two_piece:
  assumes "length (inv_buffer st) = 549" "inv_inputs st = piece_packet PhaseResponse ident msg i # ds"
  shows "phase_two h ident tries rd st =
    (let st1 = st\<lparr>inv_inputs := ds,
        inv_buffer := receive_into (piece_packet PhaseResponse ident msg i) (inv_buffer st)\<rparr>
     in chain (on_response h (piece_header PhaseResponse ident msg i) rd st1) (\<lambda>r.
        if fst (snd r) then Inr (None, fst r, snd (snd r))
        else phase_two h ident tryTimes (fst r) (snd (snd r))))"
proof -
  have l: "min (length (piece_packet PhaseResponse ident msg i)) 549 = 26 + length (piece msg i)"
    "min (26 + length (piece msg i)) 549 = 26 + length (piece msg i)"
    using length_piece_le [of msg i] by (simp_all add: piece_packet_length)
  have "timePoint (piece_header PhaseResponse ident msg i) = ident"
    "phase (piece_header PhaseResponse ident msg i) = PhaseResponse"
    by (simp_all add: piece_header_def sender_header_def)
  then show ?thesis
    using packet_received(2) [OF assms(1), of h PhaseResponse ident msg i]
    by (subst phase_two.simps) (simp add: inv_recvfrom_def assms l piece_packet_length)
qed

lemma phase_two_collects:
  assumes "traffic ident msg xs" "pieces_of msg < 2 ^ 16"
    and "collecting ident msg S rd" "\<not> {..<pieces_of msg} \<subseteq> S"
    and "{..<pieces_of msg} \<subseteq> S \<union> {i. Inr i \<in> set xs}"
    and "length (inv_buffer st) = 549" "inv_inputs st = map (arrives PhaseResponse ident msg) xs @ rest"
  shows "\<exists>rd' st'. phase_two h ident tries rd st = Inr (None, rd', st') \<and> rd_data rd' = map Some msg \<and>
    rd_total_size rd' = word_of_nat (length msg)"
  using assms
proof (induction xs arbitrary: S rd st tries)
  case (Cons x xs)
  have tr: "traffic ident msg xs" using Cons.prems(1) by (simp add: traffic_def)
  show ?case
  proof (cases x)
    case (Inl d)
    let ?st = "st\<lparr>inv_inputs := map (arrives PhaseResponse ident msg) xs @ rest,
       inv_buffer := receive_into d (inv_buffer st)\<rparr>"
    have "phase_two h ident tries rd st = phase_two h ident tries rd ?st"
      using Cons.prems Inl by (intro phase_two_foreign) (simp_all add: traffic_def arrives_def)
    moreover have "{..<pieces_of msg} \<subseteq> S \<union> {i. Inr i \<in> set xs}" using Cons.prems(5) Inl by auto
    ultimately show ?thesis
      using Cons.IH [OF tr Cons.prems(2-4), of ?st] Cons.prems(6) by simp
  next
    case (Inr i)
    let ?st = "st\<lparr>inv_inputs := map (arrives PhaseResponse ident msg) xs @ rest,
       inv_buffer := receive_into (piece_packet PhaseResponse ident msg i) (inv_buffer st)\<rparr>"
    have i: "i < pieces_of msg" using Cons.prems(1) Inr by (simp add: traffic_def)
    obtain rd' st' where r: "on_response h (piece_header PhaseResponse ident msg i) rd ?st =
        Inr (rd', {..<pieces_of msg} \<subseteq> insert i S, st')" "collecting ident msg (insert i S) rd'"
      "rd_is_initial rd'" "inv_inputs st' = inv_inputs ?st" "inv_buffer st' = inv_buffer ?st"
      using client_accepts [OF Cons.prems(3) i Cons.prems(2), of ?st "inv_buffer st" h] Cons.prems(6)
      by auto
    have step: "phase_two h ident tries rd st =
        (if {..<pieces_of msg} \<subseteq> insert i S then Inr (None, rd', st')
         else phase_two h ident tryTimes rd' st')"
      using phase_two_piece [of st ident msg i "map (arrives PhaseResponse ident msg) xs @ rest" h tries rd]
        Cons.prems Inr r(1) by (simp add: arrives_def)
    show ?thesis
    proof (cases "{..<pieces_of msg} \<subseteq> insert i S")
      case True
      have "response_pieces.holds msg (insert i S) rd'" "rd_total_size rd' = word_of_nat (length msg)"
        using r(2,3) by (simp_all add: collecting_def)
      then show ?thesis using step True response_pieces.holds_complete by auto
    next
      case False
      have "{..<pieces_of msg} \<subseteq> insert i S \<union> {i. Inr i \<in> set xs}" using Cons.prems(5) Inr by auto
      from Cons.IH [OF tr Cons.prems(2) r(2) False this, of st' tryTimes]
      show ?thesis using step False r(4,5) Cons.prems(6) by simp
    qed
  qed
qed simp

text \<open>
  C12 The client reassembles the response. Whatever order the pieces of a response of at most 65535
  pieces arrive in, repeated or mixed with datagrams of other messages and of other programs, once
  every piece is among the arrivals phase two ends with success and the data are the response.
\<close>

theorem response_reassembled:
  assumes "msg \<noteq> []" "pieces_of msg < 2 ^ 16" "traffic ident msg xs"
    and "\<forall>i < pieces_of msg. Inr i \<in> set xs"
    and "length (inv_buffer st) = FullPieceSize + 1"
    and "inv_inputs st = map (arrives PhaseResponse ident msg) xs @ rest"
  shows "\<exists>rd st'. phase_two h ident tries new_ResponseData st = Inr (None, rd, st') \<and>
    rd_data rd = map Some msg \<and> rd_total_size rd = word_of_nat (length msg)"
proof -
  have "0 < pieces_of msg" using assms(1) by (simp add: pieces_less_iff)
  then have "\<not> {..<pieces_of msg} \<subseteq> {}" by auto
  moreover have "collecting ident msg {} new_ResponseData" by (simp add: collecting_def new_ResponseData_def)
  moreover have "{..<pieces_of msg} \<subseteq> {} \<union> {i. Inr i \<in> set xs}" using assms(4) by auto
  ultimately show ?thesis
    using phase_two_collects [OF assms(3,2)] assms(5,6) by simp
qed

lemma short_foreign: "foreign ident [1]"
proof -
  have "parse h (receive_into [1] buf) 1 = Some (zero_header, False)" for h buf
    by (simp add: parse_def)
  moreover have "min (length [1 :: byte]) 549 = 1" by simp
  ultimately show ?thesis unfolding foreign_def by (metis list.distinct(1))
qed

theorem response_reassembled_witness:
  "\<exists>rd st'. phase_two BigEndian 9 3 new_ResponseData (new_Invoker
     [piece_packet PhaseResponse 9 (replicate 600 7) 1, [1], piece_packet PhaseResponse 9 (replicate 600 7) 1,
      piece_packet PhaseResponse 9 (replicate 600 7) 0]) = Inr (None, rd, st') \<and>
   rd_data rd = map Some (replicate 600 7) \<and> rd_total_size rd = 600"
proof -
  have n: "pieces_of (replicate 600 7) = 2" by (simp add: pieces_of_def)
  have "traffic 9 (replicate 600 7) [Inr 1, Inl [1], Inr 1, Inr 0]"
    using n short_foreign by (simp add: traffic_def)
  moreover have "\<forall>i < pieces_of (replicate 600 7). Inr i \<in> set [Inr 1, Inl [1 :: byte], Inr 1, Inr 0]"
    using n by (auto simp: less_Suc_eq numeral_2_eq_2)
  ultimately show ?thesis
    using response_reassembled [of "replicate 600 7" 9 "[Inr 1, Inl [1], Inr 1, Inr 0]"
        "new_Invoker [piece_packet PhaseResponse 9 (replicate 600 7) 1, [1],
           piece_packet PhaseResponse 9 (replicate 600 7) 1, piece_packet PhaseResponse 9 (replicate 600 7) 0]" "[]" BigEndian 3]
      n by (simp add: new_Invoker_def arrives_def)
qed

section \<open>Rounds of the event loop\<close>

text \<open>
  The server before its first response: no connection waits in the queue, no connection holds a
  response, and no task of the timer delivers one. The timer may hold the tasks that watch the
  connections and the messages.
\<close>

definition quiet_task :: "nat \<Rightarrow> reactor_task \<Rightarrow> bool" where
  "quiet_task n task =
     (case task of
        CheckDeleteSocket i \<Rightarrow> i < n
      | JudgeDelete servlet \<Rightarrow> True
      | JudgeResponseClearTimeout i ident \<Rightarrow> i < n
      | DeliverResponse dt i servlet count \<Rightarrow> False)"

definition quiet :: "SubReactor \<Rightarrow> bool" where
  "quiet s \<longleftrightarrow> runState s \<and> newConnections s = [] \<and> length (recvBuf s) = FullPieceSize + 1 \<and>
     list_all (\<lambda>vc. responses vc = []) (connections s) \<and> sorted_wrt node_less (nodes (treeTimer s)) \<and>
     list_all (\<lambda>n. quiet_task (length (connections s)) (callBack n)) (nodes (treeTimer s))"

text \<open>
  Pieces that arrive in a round of the loop: connection, message, number of the piece, the event's
  \<open>fd\<close>, and the answer of the thread pool should the piece complete its message. A round also has
  the time at which the timer is run and the time at which the pieces are handled. The payload of
  a message is what its client sends under this number from this address.
\<close>

type_synonym piece_event = "nat \<times> Servlet \<times> nat \<times> int \<times> bool"
type_synonym piece_round = "int \<times> int \<times> int \<times> piece_event list"

definition peer_of :: "Servlet \<Rightarrow> Peer" where
  "peer_of key = \<lparr>peer_port = client_port key, peer_ip = client_ip_address key\<rparr>"

definition event_of :: "(Servlet \<Rightarrow> byte list) \<Rightarrow> piece_event \<Rightarrow> ready_event" where
  "event_of payload e =
     (case e of (v, key, i, fd, accepted) \<Rightarrow>
        \<lparr>ev_err = False, ev_in = True, ev_hup = False, ev_vc = v,
         ev_dgram = piece_packet PhaseRequest (request_id key) (payload key) i,
         ev_peer = peer_of key, ev_fd = fd, ev_accepted = accepted\<rparr>)"

definition round_of :: "(Servlet \<Rightarrow> byte list) \<Rightarrow> piece_round \<Rightarrow> loop_input" where
  "round_of payload x =
     (case x of (tick, garbage, now, es) \<Rightarrow>
        \<lparr>in_tick = tick, in_garbage = garbage, in_answers = [], in_now = now,
         in_events = map (event_of payload) es\<rparr>)"

text \<open>A piece that a client can send to one of \<open>n\<close> connections.\<close>

definition legal_piece :: "nat \<Rightarrow> (Servlet \<Rightarrow> byte list) \<Rightarrow> piece_event \<Rightarrow> bool" where
  "legal_piece n payload e \<longleftrightarrow>
     (case e of (v, key, i, fd, accepted) \<Rightarrow>
        v < n \<and> i < pieces_of (payload key) \<and> pieces_of (payload key) < 2 ^ 16)"

definition legal_round :: "nat \<Rightarrow> (Servlet \<Rightarrow> byte list) \<Rightarrow> piece_round \<Rightarrow> bool" where
  "legal_round n payload x \<longleftrightarrow> (case x of (tick, garbage, now, es) \<Rightarrow> list_all (legal_piece n payload) es)"

section \<open>The life of a message at the server\<close>

text \<open>
  What concerns one message: runs of the timer at a time, and its pieces with the time and the
  answer of the pool.
\<close>

type_synonym message_event = "int + nat \<times> int \<times> bool"

definition pieces_for :: "Servlet \<Rightarrow> int \<Rightarrow> piece_event list \<Rightarrow> message_event list" where
  "pieces_for key now es =
     map (\<lambda>(v, k, i, fd, accepted). Inr (i, now, accepted)) (filter (\<lambda>(v, k, i, fd, accepted). k = key) es)"

definition history :: "Servlet \<Rightarrow> piece_round list \<Rightarrow> message_event list" where
  "history key xs = concat (map (\<lambda>(tick, garbage, now, es). Inl tick # pieces_for key now es) xs)"

definition complete :: "byte list \<Rightarrow> nat set \<Rightarrow> bool" where
  "complete msg S \<longleftrightarrow> S \<noteq> {} \<and> {..<pieces_of msg} \<subseteq> S"

text \<open>
  The abstract machine of one message: the pieces held, the time of the last one, and the answers of
  the pool to the offers of the complete message. A run of the timer forgets the pieces only when the
  last of them is older than \<open>RequestTimeOut\<close>; a piece offers the message when it completes it.
\<close>

inductive message_step ::
  "byte list \<Rightarrow> message_event \<Rightarrow> nat set \<times> int \<times> bool list \<Rightarrow> nat set \<times> int \<times> bool list \<Rightarrow> bool" for msg where
  timer_keeps: "message_step msg (Inl tick) m m"
| timer_forgets: "RequestTimeOut < tick - seen \<Longrightarrow>
    message_step msg (Inl tick) (S, seen, offers) ({}, seen, offers)"
| piece_arrives: "message_step msg (Inr (i, now, accepted)) (S, seen, offers)
    (insert i S, now, offers @ (if complete msg (insert i S) \<and> \<not> complete msg S then [accepted] else []))"

inductive_cases message_timerE: "message_step msg (Inl tick) m m'"
inductive_cases message_pieceE: "message_step msg (Inr x) m m'"

inductive message_run ::
  "byte list \<Rightarrow> message_event list \<Rightarrow> nat set \<times> int \<times> bool list \<Rightarrow> nat set \<times> int \<times> bool list \<Rightarrow> bool" for msg where
  run_ends: "message_run msg [] m m"
| run_steps: "message_step msg e m m' \<Longrightarrow> message_run msg es m' m'' \<Longrightarrow> message_run msg (e # es) m m''"

inductive_cases message_run_NilE: "message_run msg [] m m'"
inductive_cases message_run_ConsE: "message_run msg (e # es) m m'"

lemma message_run_append:
  "message_run msg es m m' \<Longrightarrow> message_run msg es' m' m'' \<Longrightarrow> message_run msg (es @ es') m m''"
  by (induction rule: message_run.induct) (auto intro: run_steps)

text \<open>
  A message that is kept alive: whenever the timer is run before a further piece of it, its last
  piece is not older than \<open>RequestTimeOut\<close>.
\<close>

fun paced :: "int option \<Rightarrow> message_event list \<Rightarrow> bool" where
  "paced seen [] = True"
| "paced seen (Inl tick # es) \<longleftrightarrow>
     (case seen of None \<Rightarrow> True
      | Some t \<Rightarrow> tick - t \<le> RequestTimeOut \<or> list_all isl es) \<and> paced seen es"
| "paced seen (Inr (i, now, accepted) # es) \<longleftrightarrow> paced (Some now) es"

text \<open>The answer of the pool to the piece with which all pieces of the message have arrived.\<close>

fun verdict :: "byte list \<Rightarrow> nat set \<Rightarrow> message_event list \<Rightarrow> bool option" where
  "verdict msg S [] = None"
| "verdict msg S (Inl tick # es) = verdict msg S es"
| "verdict msg S (Inr (i, now, accepted) # es) =
     (if complete msg (insert i S) then Some accepted else verdict msg (insert i S) es)"

lemma verdict_timer: "list_all isl es \<Longrightarrow> verdict msg S es = None"
  by (induction es rule: verdict.induct) simp_all

lemma run_timer_only:
  assumes "message_run msg es m m'" "list_all isl es"
  shows "snd (snd m') = snd (snd m)"
  using assms
proof (induction rule: message_run.induct)
  case (run_steps e m m' es m'')
  then show ?case by (cases e) (auto elim!: message_timerE)
qed simp

text \<open>A message that is kept alive is offered once, when it is complete.\<close>

lemma paced_offers:
  assumes "message_run msg es (S, seen, offers) (S', seen', offers')"
    and "paced (if S = {} then None else Some seen) es"
  shows "offers' = offers @ (if complete msg S then [] else case verdict msg S es of None \<Rightarrow> [] | Some a \<Rightarrow> [a])"
  using assms
proof (induction es arbitrary: S seen offers)
  case Nil
  then show ?case by (auto elim: message_run_NilE)
next
  case (Cons e es)
  obtain S1 seen1 offers1 where m: "message_step msg e (S, seen, offers) (S1, seen1, offers1)"
    "message_run msg es (S1, seen1, offers1) (S', seen', offers')"
    using Cons.prems(1) by (auto elim: message_run_ConsE)
  show ?case
  proof (cases e)
    case (Inl tick)
    then consider "(S1, seen1, offers1) = (S, seen, offers)" |
      "RequestTimeOut < tick - seen" "S1 = {}" "seen1 = seen" "offers1 = offers"
      using m(1) by (auto elim: message_timerE)
    then show ?thesis
    proof cases
      case 1
      then show ?thesis using Cons.IH [of S seen offers] Cons.prems(2) m(2) Inl by simp
    next
      case 2
      show ?thesis
      proof (cases "S = {}")
        case True
        then show ?thesis using Cons.IH [of "{}" seen offers] Cons.prems(2) m(2) Inl 2 by simp
      next
        case False
        then have "list_all isl es" using Cons.prems(2) Inl 2(1) by simp
        then show ?thesis using run_timer_only [OF m(2)] verdict_timer [of es msg S] 2 Inl by simp
      qed
    qed
  next
    case (Inr x)
    obtain i now accepted where x: "x = (i, now, accepted)" by (metis prod_cases3)
    have m1: "S1 = insert i S" "seen1 = now"
      "offers1 = offers @ (if complete msg (insert i S) \<and> \<not> complete msg S then [accepted] else [])"
      using m(1) Inr x by (auto elim: message_pieceE)
    have "complete msg S \<Longrightarrow> complete msg (insert i S)" by (auto simp: complete_def)
    then show ?thesis using Cons.IH [of S1 seen1 offers1] Cons.prems(2) m(2) Inr x m1 by auto
  qed
qed

section \<open>The server collects requests\<close>

text \<open>The calls given to the thread pool for one message.\<close>

definition calls :: "Servlet \<Rightarrow> SubReactor \<Rightarrow> (u32 \<times> byte option list) list" where
  "calls key s = map (\<lambda>(n, dat, k, v). (n, dat)) (filter (\<lambda>(n, dat, k, v). k = key) (pool_tasks s))"

definition the_call :: "byte list \<Rightarrow> u32 \<times> byte option list" where
  "the_call msg = (word_of_nat (length msg), map Some msg)"

text \<open>The server holds the pieces \<open>S\<close> of a message, the last of them since \<open>seen\<close>.\<close>

definition tracks :: "byte list \<Rightarrow> nat set \<Rightarrow> int \<Rightarrow> Servlet \<Rightarrow> SubReactor \<Rightarrow> bool" where
  "tracks msg S seen key s \<longleftrightarrow>
     (case messages s key of
        None \<Rightarrow> S = {}
      | Some r \<Rightarrow> S \<noteq> {} \<and> request_pieces.holds msg S r \<and>
          req_piece_count r = word_of_nat (pieces_of msg) \<and> req_active_dt r = seen \<and>
          req_total_data_size r = word_of_nat (length msg) \<and> (req_is_trigger r \<longleftrightarrow> complete msg S))"

lemma holds_other_fields [simp]:
  "request_pieces.holds msg S (r\<lparr>req_active_dt := t\<rparr>) = request_pieces.holds msg S r"
  "request_pieces.holds msg S (r\<lparr>req_is_trigger := b\<rparr>) = request_pieces.holds msg S r"
  by (simp_all add: request_pieces.holds_def wf_req_def)

lemma ack_sent: "\<exists>b. ack_packet h n ident = Some b"
  by (simp add: ack_packet_def init_header_def initiate_layout
      type_setters_layout [where rest = "[]", simplified] order_setters_layout [where rest = "[]", simplified])

lemma piece_header_fields:
  fixes ident :: u64
  assumes "i < pieces_of msg" "pieces_of msg < 2 ^ 16"
  defines "hdr \<equiv> piece_header PhaseRequest ident msg i"
  shows "type hdr = RequestSend" "phase hdr = PhaseRequest" "timePoint hdr = ident"
    "pieceOrder hdr = word_of_nat i" "totalCount hdr = word_of_nat (pieces_of msg)"
    "totalSize hdr = word_of_nat (length msg)" "piece_offset hdr = i * 522"
    "unat (pieceSize hdr) = length (piece msg i)"
    "length buf = 549 \<Longrightarrow>
      piece_source hdr (receive_into (piece_packet PhaseRequest ident msg i) buf) = Some (piece msg i)"
proof -
  show f: "type hdr = RequestSend" "phase hdr = PhaseRequest" "timePoint hdr = ident"
    "pieceOrder hdr = word_of_nat i" "totalCount hdr = word_of_nat (pieces_of msg)"
    "totalSize hdr = word_of_nat (length msg)" "unat (pieceSize hdr) = length (piece msg i)"
    by (simp_all add: hdr_def piece_header_def sender_header_def zero_header_def
        piece_count_pieces [OF assms(2)] unat_piece)
  show o: "piece_offset hdr = i * 522"
    by (simp add: piece_offset_def f unat_order [OF assms(1,2)])
       (simp add: hdr_def piece_header_def sender_header_def)
  have "i * 522 < 2 ^ 31" using assms(1,2) by simp
  then show "length buf = 549 \<Longrightarrow>
      piece_source hdr (receive_into (piece_packet PhaseRequest ident msg i) buf) = Some (piece msg i)"
    using packet_received(3) [of buf msg i PhaseRequest ident] by (simp add: piece_source_def o f)
qed

lemma exhausted_sent: "\<exists>b. type_packet h TheServerResourcesExhausted 0 = Some b"
  by (simp add: type_packet_def init_header_def initiate_layout type_setters_layout [where rest = "[]", simplified])

lemma quiet_set_timer:
  assumes "quiet s" "quiet_task (length (connections s)) task"
  shows "quiet (set_timer now ms task s)"
proof -
  let ?k = "\<lparr>node_base = TimeNodeBase (initID (treeTimer s) + 1) (now + ms), callBack = task\<rparr>"
  have n: "nodes (treeTimer (set_timer now ms task s)) = set_emplace node_less ?k (nodes (treeTimer s))"
    by (simp add: set_timer_def setTimeout_def GenTimeTaskID_def)
  show ?thesis
    using assms node_order.set_emplace_sorted [of "nodes (treeTimer s)" ?k]
      node_order.set_emplace_set [of ?k "nodes (treeTimer s)"]
    unfolding quiet_def n by (auto simp: set_timer_def list_all_iff)
qed

text \<open>A callback of a quiet server: it succeeds, and a message is forgotten only when it is old.\<close>

definition forgets :: "int \<Rightarrow> SubReactor \<Rightarrow> SubReactor \<Rightarrow> bool" where
  "forgets now s s' \<longleftrightarrow> quiet s' \<and> pool_tasks s' = pool_tasks s \<and> length (connections s') = length (connections s) \<and>
     (\<forall>key. messages s' key = messages s key \<or>
        messages s' key = None \<and> (\<exists>r. messages s key = Some r \<and> RequestTimeOut < now - req_active_dt r))"

lemma forgets_trans: "forgets now s s' \<Longrightarrow> forgets now s' s'' \<Longrightarrow> forgets now s s''"
  unfolding forgets_def by (metis option.distinct(1))

lemma forgets_set_timer:
  "quiet s \<Longrightarrow> quiet_task (length (connections s)) task \<Longrightarrow> forgets now s (set_timer now ms task s)"
  using quiet_set_timer [of s task now ms] by (simp add: forgets_def set_timer_def)

lemma forgets_drop:
  assumes "quiet s" "i < length (connections s)"
  shows "\<exists>s'. drop_connection i s = Inr s' \<and> forgets now s s'"
proof -
  have "responses (connections s ! i) = []" using assms by (simp add: quiet_def list_all_length)
  moreover have "list_all (\<lambda>vc. responses vc = []) ((connections s)[i := vc])" if "responses vc = []" for vc
    using assms that by (auto simp: quiet_def list_all_iff dest!: set_update_subset_insert [THEN subsetD])
  ultimately show ?thesis
    using assms by (simp add: drop_connection_def closeSocket_def Let_def forgets_def quiet_def emit_def put_connection_def)
qed

lemma quiet_callback:
  assumes "quiet s" "quiet_task (length (connections s)) task"
  shows "\<exists>s'. run_reactor_task h now garbage task s = Inr s' \<and> forgets now s s'"
proof (cases task)
  case (CheckDeleteSocket i)
  then show ?thesis
    using forgets_drop [of s i now] forgets_set_timer [OF assms] assms
    by (auto simp: checkDeleteSocket_def quiet_task_def forgets_def)
next
  case (JudgeDelete servlet)
  have "quiet (s\<lparr>messages := m\<rparr>)" for m using assms(1) by (simp add: quiet_def)
  with JudgeDelete show ?thesis
    using forgets_set_timer [OF assms, of now RequestTimeOut] assms(1)
    by (auto simp: judgeDelete_def setRequestTimeOutEvent_def forgets_def split: option.split)
next
  case (JudgeResponseClearTimeout i ident)
  then have "responses (connections s ! i) = []"
    using assms by (simp add: quiet_def quiet_task_def list_all_length)
  then show ?thesis
    using JudgeResponseClearTimeout assms(1) by (simp add: judgeResponseClearTimeout_def Let_def forgets_def)
qed (use assms in \<open>simp add: quiet_task_def\<close>)

lemma quiet_timer:
  assumes "quiet s"
  shows "\<exists>s'. run_timer h now garbage s = Inr s' \<and> forgets now s s'"
proof -
  let ?run = "\<lambda>n m. chain m (run_reactor_task h now garbage (callBack n))"
  let ?s = "s\<lparr>treeTimer := (treeTimer s)\<lparr>nodes := filter (\<lambda>n. \<not> is_due now n) (nodes (treeTimer s))\<rparr>\<rparr>"
  have fold: "\<exists>s'. fold ?run ds (Inr v) = Inr s' \<and> forgets now v s'"
    if "quiet v" "\<forall>n \<in> set ds. quiet_task (length (connections v)) (callBack n)" for ds v
    using that
  proof (induction ds arbitrary: v)
    case Nil
    then show ?case by (simp add: forgets_def)
  next
    case (Cons d ds)
    obtain v1 where v1: "run_reactor_task h now garbage (callBack d) v = Inr v1" "forgets now v v1"
      using quiet_callback [of v "callBack d" h now garbage] Cons.prems by auto
    then obtain v2 where "fold ?run ds (Inr v1) = Inr v2" "forgets now v1 v2"
      using Cons.IH [of v1] Cons.prems by (auto simp: forgets_def)
    then show ?case using v1 forgets_trans by auto
  qed
  have "quiet ?s" using assms by (auto simp: quiet_def list_all_iff sorted_wrt_filter)
  then obtain s' where "fold ?run (filter (is_due now) (nodes (treeTimer s))) (Inr ?s) = Inr s'" "forgets now ?s s'"
    using fold [of ?s "filter (is_due now) (nodes (treeTimer s))"] assms by (auto simp: quiet_def list_all_iff)
  then show ?thesis using run_timer_due [of s h now garbage] assms by (auto simp: quiet_def forgets_def)
qed

text \<open>The request that results from one more piece, and its acknowledgement.\<close>

lemma request_step:
  assumes "i < pieces_of msg" "pieces_of msg < 2 ^ 16" "length (recvBuf s) = 549"
    and "recvBuf s = receive_into (piece_packet PhaseRequest (request_id key) msg i) buf" "length buf = 549"
    and "tracks msg S now key s" "quiet s"
  defines "hdr \<equiv> piece_header PhaseRequest (request_id key) msg i"
  shows "\<exists>r ack s1. (case messages s key of
             Some r \<Rightarrow>
               chain (accept_piece (pieceOrder hdr) (piece_offset hdr) (piece_source hdr (recvBuf s)) r)
                 (\<lambda>(r, ack). Inr (s\<lparr>messages := (messages s)(key \<mapsto> r)\<rparr>, ack))
           | None \<Rightarrow>
               chain (first_piece hdr (peer_of key) fd now (recvBuf s)) (\<lambda>(r, ack).
               Inr (setRequestTimeOutEvent now key (s\<lparr>messages := (messages s)(key \<mapsto> r)\<rparr>), ack))) =
      Inr (s1, ack) \<and> messages s1 = (messages s)(key \<mapsto> r) \<and> pool_tasks s1 = pool_tasks s \<and>
      connections s1 = connections s \<and> quiet s1 \<and>
      request_pieces.holds msg (insert i S) r \<and> req_piece_count r = word_of_nat (pieces_of msg) \<and>
      req_active_dt r = now \<and>
      req_total_data_size r = word_of_nat (length msg) \<and> (req_is_trigger r \<longleftrightarrow> complete msg S) \<and>
      (ack = word_of_nat (pieces_of msg) \<longleftrightarrow> complete msg (insert i S))"
proof -
  note f = piece_header_fields [OF assms(1,2), where ident = "request_id key", folded hdr_def]
  define r0 where "r0 = (case messages s key of Some r \<Rightarrow> r | None \<Rightarrow> empty_request hdr (peer_of key) fd now)"
  have n: "unat (word_of_nat (pieces_of msg) :: u16) = pieces_of msg" using assms(2) by (simp add: unat_of_nat)
  have r0: "request_pieces.holds msg S r0" "req_piece_count r0 = word_of_nat (pieces_of msg)"
    "req_total_data_size r0 = word_of_nat (length msg)" "req_is_trigger r0 \<longleftrightarrow> complete msg S"
    "req_active_dt r0 = now"
    using assms(6) piece_count_pieces(2) [OF assms(2)]
    by (auto simp: tracks_def r0_def empty_request_def new_Request_def f request_pieces.holds_def
        wf_req_def filled_empty n complete_def split: option.splits)
  obtain fs m where a: "accept_piece (word_of_nat i) (i * 522) (Some (piece msg i)) r0 =
      Inr (put_req fs m r0, word_of_nat (first_missing fs))"
    "request_pieces.holds msg (insert i S) (put_req fs m r0)"
    using request_pieces.holds_accept [OF r0(1) assms(1,2)] by blast
  have src: "piece_source hdr (recvBuf s) = Some (piece msg i)" using f(9) [OF assms(5)] assms(4) by simp
  have ack: "word_of_nat (first_missing fs) = (word_of_nat (pieces_of msg) :: u16) \<longleftrightarrow> complete msg (insert i S)"
    using request_pieces.holds_ack [OF a(2) assms(2)] by (simp add: put_req_def complete_def)
  have first: "messages s key = None \<Longrightarrow> first_piece hdr (peer_of key) fd now (recvBuf s) =
      Inr (put_req fs m r0, word_of_nat (first_missing fs))"
    using a(1) by (intro first_piece_accept) (simp add: src f r0_def)
  have q: "quiet (s\<lparr>messages := x\<rparr>)" for x using assms(7) by (simp add: quiet_def)
  have "quiet (setRequestTimeOutEvent now key (s\<lparr>messages := x\<rparr>))" for x
    unfolding setRequestTimeOutEvent_def by (intro quiet_set_timer q) (simp add: quiet_task_def)
  then show ?thesis
    using a r0 ack first q
    by (intro exI [of _ "put_req fs m r0"])
       (auto simp: src f r0_def put_req_def setRequestTimeOutEvent_def set_timer_def split: option.splits)
qed

definition offer :: "byte list \<Rightarrow> nat \<Rightarrow> nat set \<Rightarrow> bool \<Rightarrow> bool list" where
  "offer msg i S accepted = (if complete msg (insert i S) \<and> \<not> complete msg S then [accepted] else [])"

lemma quiet_put_connection:
  "quiet s \<Longrightarrow> v < length (connections s) \<Longrightarrow> responses vc = [] \<Longrightarrow> quiet (put_connection v vc s)"
  by (auto simp: quiet_def put_connection_def list_all_iff dest!: set_update_subset_insert [THEN subsetD])

text \<open>After the acknowledgement: a message that is complete for the first time is offered to the pool.\<close>

lemma finish_step:
  assumes "messages s key = Some r" "quiet s" "v < length (connections s)"
    and "request_pieces.holds msg (insert i S) r" "req_piece_count r = word_of_nat (pieces_of msg)"
    and "req_active_dt r = now" "req_total_data_size r = word_of_nat (length msg)"
    and "req_is_trigger r \<longleftrightarrow> complete msg S" "ack = totalCount hdr \<longleftrightarrow> complete msg (insert i S)"
  shows "\<exists>s'. finish_piece h accepted hdr key ack v s = Inr s' \<and> quiet s' \<and>
    length (connections s') = length (connections s) \<and> tracks msg (insert i S) now key s' \<and>
    calls key s' = calls key s @ map (\<lambda>_. the_call msg) (filter id (offer msg i S accepted)) \<and>
    (\<forall>k. k \<noteq> key \<longrightarrow> messages s' k = messages s k \<and> calls k s' = calls k s)"
proof -
  have data: "complete msg (insert i S) \<Longrightarrow> req_data r = map Some msg"
    using request_pieces.holds_complete [OF assms(4)] by (simp add: complete_def)
  have mono: "complete msg S \<Longrightarrow> complete msg (insert i S)" by (auto simp: complete_def)
  define vc where "vc = (connections s ! v)\<lparr>vc_messages := vc_messages (connections s ! v) @ [timePoint hdr]\<rparr>"
  define s1 where "s1 = (put_connection v vc s)\<lparr>messages := (messages s)(key \<mapsto> req_trigger r)\<rparr>"
  have "responses vc = []" using assms(2,3) by (simp add: vc_def quiet_def list_all_length)
  then have q: "quiet (put_connection v vc s)" by (intro quiet_put_connection assms)
  have run: "finish_piece h accepted hdr key ack v s = (if complete msg (insert i S)
      then if complete msg S then Inr (put_connection v vc s)
           else trigger h accepted (word_of_nat (length msg)) (map Some msg) key v s1
      else Inr s)"
    using assms data by (simp add: finish_piece_def Let_def vc_def s1_def)
  show ?thesis
  proof (cases "complete msg (insert i S) \<and> \<not> complete msg S")
    case False
    then show ?thesis using run q assms mono by (auto simp: offer_def tracks_def calls_def)
  next
    case True
    then have s1: "quiet s1" "tracks msg (insert i S) now key s1" "calls k s1 = calls k s"
      "length (connections s1) = length (connections s)" "k \<noteq> key \<Longrightarrow> messages s1 k = messages s k" for k
      using q assms by (auto simp: s1_def tracks_def calls_def quiet_def req_trigger_def)
    obtain x where x: "type_packet h TheServerResourcesExhausted 0 = Some x" using exhausted_sent by blast
    have "quiet (s1\<lparr>pool_tasks := p\<rparr>)" "tracks msg (insert i S) now key (s1\<lparr>pool_tasks := p\<rparr>)"
      "quiet (emit y s1)" "tracks msg (insert i S) now key (emit y s1)" "calls k (emit y s1) = calls k s1" for p y k
      using s1(1,2) by (simp_all add: quiet_def tracks_def calls_def emit_def)
    with True run s1 x show ?thesis
      by (cases accepted) (simp_all add: offer_def trigger_def sendExhausted_def, simp add: calls_def the_call_def)
  qed
qed

text \<open>One datagram: the message gains the piece, every other message keeps its state.\<close>

lemma on_piece_step:
  fixes key :: Servlet
  assumes "i < pieces_of (payload key)" "pieces_of (payload key) < 2 ^ 16" "v < length (connections s)"
    and "quiet s" "tracks (payload key) S seen key s"
  shows "\<exists>s'. on_event h now (event_of payload (v, key, i, fd, accepted)) s = Inr s' \<and> quiet s' \<and>
    length (connections s') = length (connections s) \<and> tracks (payload key) (insert i S) now key s' \<and>
    calls key s' = calls key s @ map (\<lambda>_. the_call (payload key)) (filter id (offer (payload key) i S accepted)) \<and>
    (\<forall>k. k \<noteq> key \<longrightarrow> messages s' k = messages s k \<and> calls k s' = calls k s)"
proof -
  let ?msg = "payload key" and ?d = "piece_packet PhaseRequest (request_id key) (payload key) i"
  let ?hdr = "piece_header PhaseRequest (request_id key) (payload key) i"
  let ?run = "on_event h now (event_of payload (v, key, i, fd, accepted)) s"
  note f = piece_header_fields [OF assms(1,2), where ident = "request_id key"]
  have buf: "length (recvBuf s) = 549" using assms(4) by (simp add: quiet_def)
  define s0 where "s0 = (put_connection v ((connections s ! v)\<lparr>last_active := now\<rparr>) s)
    \<lparr>recvBuf := receive_into ?d (recvBuf s)\<rparr>"
  define s1 where "s1 = (case messages s key of None \<Rightarrow> s0
     | Some r \<Rightarrow> s0\<lparr>messages := (messages s0)(key \<mapsto> r\<lparr>req_active_dt := now\<rparr>)\<rparr>)"
  have base: "servlet_of ?hdr (peer_of key) = key" by (simp add: servlet_of_def f peer_of_def)
  have resp: "responses (connections s ! v) = []" using assms(3,4) by (simp add: quiet_def list_all_length)
  have "quiet (put_connection v ((connections s ! v)\<lparr>last_active := now\<rparr>) s)"
    using resp by (intro quiet_put_connection assms) simp
  then have s0: "messages s0 = messages s" "pool_tasks s0 = pool_tasks s"
    "length (connections s0) = length (connections s)"
    "recvBuf s0 = receive_into ?d (recvBuf s)" "length (recvBuf s0) = 549" "quiet s0"
    using buf by (simp_all add: s0_def quiet_def)
  then have s1: "pool_tasks s1 = pool_tasks s" "length (connections s1) = length (connections s)"
    "recvBuf s1 = receive_into ?d (recvBuf s)" "length (recvBuf s1) = 549" "quiet s1"
    "\<And>k. k \<noteq> key \<Longrightarrow> messages s1 k = messages s k"
    using buf by (simp_all add: s1_def quiet_def split: option.splits)
  have t1: "tracks ?msg S now key s1"
    using assms(5) s0 by (auto simp: tracks_def s1_def split: option.splits)
  have len: "min (length ?d) 549 = length ?d" "0 < length ?d"
    using length_piece_le [of ?msg i] by (simp_all add: piece_packet_length)
  have "receive_into ?d (recvBuf s) \<noteq> []"
    using buf by (metis length_receive_into list.size(3) zero_neq_numeral)
  moreover have "chain m Inr = m" for m :: "SubReactor res" by (cases m) simp_all
  ultimately have "?run = on_packet h now accepted ?hdr (peer_of key) fd v s0"
    using packet_received(2) [OF buf, of h PhaseRequest "request_id key" ?msg i] len buf
    by (auto simp: on_event_def event_of_def on_datagram_def Let_def s0_def)
  then have "?run = on_request_send h now accepted ?hdr (peer_of key) fd v s1"
    by (simp add: on_packet_def Let_def base f on_request_phase_def s0 s1_def)
  moreover obtain r ack s2 where st: "(case messages s1 key of
             Some r \<Rightarrow>
               chain (accept_piece (pieceOrder ?hdr) (piece_offset ?hdr) (piece_source ?hdr (recvBuf s1)) r)
                 (\<lambda>(r, ack). Inr (s1\<lparr>messages := (messages s1)(key \<mapsto> r)\<rparr>, ack))
           | None \<Rightarrow>
               chain (first_piece ?hdr (peer_of key) fd now (recvBuf s1)) (\<lambda>(r, ack).
               Inr (setRequestTimeOutEvent now key (s1\<lparr>messages := (messages s1)(key \<mapsto> r)\<rparr>), ack))) =
      Inr (s2, ack)"
      "messages s2 = (messages s1)(key \<mapsto> r)" "pool_tasks s2 = pool_tasks s1"
      "connections s2 = connections s1" "quiet s2"
      "request_pieces.holds ?msg (insert i S) r" "req_piece_count r = word_of_nat (pieces_of ?msg)"
      "req_active_dt r = now"
      "req_total_data_size r = word_of_nat (length ?msg)" "req_is_trigger r \<longleftrightarrow> complete ?msg S"
      "ack = word_of_nat (pieces_of ?msg) \<longleftrightarrow> complete ?msg (insert i S)"
    using request_step [OF assms(1,2) s1(4) s1(3) buf t1 s1(5), of fd] by blast
  moreover obtain b where b: "ack_packet h ack (request_id key) = Some b" using ack_sent by blast
  ultimately have run: "?run =
      finish_piece h accepted ?hdr key ack v (emit (Write (socket_fd (connections s2 ! v)) b) s2)"
    by (simp add: on_request_send_def base sendACK_def f)
  define s3 where "s3 = emit (Write (socket_fd (connections s2 ! v)) b) s2"
  have s3: "messages s3 = (messages s1)(key \<mapsto> r)" "pool_tasks s3 = pool_tasks s" "quiet s3"
    "length (connections s3) = length (connections s)"
    using st s1 by (simp_all add: s3_def quiet_def emit_def)
  have "\<exists>s'. ?run = Inr s' \<and> quiet s' \<and>
    length (connections s') = length (connections s3) \<and> tracks ?msg (insert i S) now key s' \<and>
    calls key s' = calls key s3 @ map (\<lambda>_. the_call ?msg) (filter id (offer ?msg i S accepted)) \<and>
    (\<forall>k. k \<noteq> key \<longrightarrow> messages s' k = messages s3 k \<and> calls k s' = calls k s3)"
    unfolding run s3_def [symmetric] using st s3 assms(3) f by (intro finish_step) simp_all
  then show ?thesis using s3 s1(6) by (auto simp: calls_def)
qed

section \<open>The loop refines the life of every message\<close>

text \<open>The server is in the state \<open>m key\<close> of the abstract machine of every message.\<close>

definition simulates ::
  "(Servlet \<Rightarrow> byte list) \<Rightarrow> (Servlet \<Rightarrow> (u32 \<times> byte option list) list) \<Rightarrow>
   (Servlet \<Rightarrow> nat set \<times> int \<times> bool list) \<Rightarrow> SubReactor \<Rightarrow> bool" where
  "simulates payload before m s \<longleftrightarrow> quiet s \<and>
     (\<forall>key. case m key of (S, seen, offers) \<Rightarrow> tracks (payload key) S seen key s \<and>
        calls key s = before key @ map (\<lambda>_. the_call (payload key)) (filter id offers))"

lemma timer_simulates:
  assumes "simulates payload before m s"
  shows "\<exists>s' m'. run_timer h tick garbage s = Inr s' \<and> simulates payload before m' s' \<and>
    length (connections s') = length (connections s) \<and>
    (\<forall>key. message_step (payload key) (Inl tick) (m key) (m' key))"
proof -
  obtain s' where s': "run_timer h tick garbage s = Inr s'" "forgets tick s s'"
    using quiet_timer [of s h tick garbage] assms by (auto simp: simulates_def)
  define m' where "m' = (\<lambda>key. if messages s' key = messages s key then m key
    else case m key of (S, seen, offers) \<Rightarrow> ({}, seen, offers))"
  have calls: "calls key s' = calls key s" for key using s'(2) by (simp add: forgets_def calls_def)
  have step: "message_step (payload key) (Inl tick) (m key) (m' key) \<and>
      (case m' key of (S, seen, offers) \<Rightarrow> tracks (payload key) S seen key s' \<and>
        calls key s' = before key @ map (\<lambda>_. the_call (payload key)) (filter id offers))" for key
  proof -
    obtain S seen offers where m: "m key = (S, seen, offers)" by (metis prod_cases3)
    have t: "tracks (payload key) S seen key s"
      "calls key s = before key @ map (\<lambda>_. the_call (payload key)) (filter id offers)"
      using assms m by (auto simp: simulates_def dest: spec [of _ key])
    consider "messages s' key = messages s key" | r where "messages s' key = None" "messages s key = Some r"
        "RequestTimeOut < tick - req_active_dt r"
      using s'(2) by (auto simp: forgets_def)
    then show ?thesis
    proof cases
      case 1
      then show ?thesis using t m by (auto simp: m'_def tracks_def calls intro: message_step.intros)
    next
      case 2
      then show ?thesis using t m by (auto simp: m'_def tracks_def calls intro: message_step.intros)
    qed
  qed
  then have "simulates payload before m' s'" using s'(2) by (simp add: simulates_def forgets_def)
  then show ?thesis using s' step by (auto simp: forgets_def)
qed

lemma events_simulate:
  assumes "list_all (legal_piece (length (connections s)) payload) es" "simulates payload before m s"
  shows "\<exists>s' m'. on_events h now (map (event_of payload) es) s = Inr s' \<and> simulates payload before m' s' \<and>
    length (connections s') = length (connections s) \<and>
    (\<forall>key. message_run (payload key) (pieces_for key now es) (m key) (m' key))"
  using assms
proof (induction es arbitrary: s m)
  case Nil
  then show ?case by (auto simp: pieces_for_def intro: message_run.intros)
next
  case (Cons e es)
  obtain v key i fd accepted where e: "e = (v, key, i, fd, accepted)" by (metis prod_cases5)
  obtain S seen offers where m: "m key = (S, seen, offers)" by (metis prod_cases3)
  have t: "quiet s" "tracks (payload key) S seen key s"
    "calls key s = before key @ map (\<lambda>_. the_call (payload key)) (filter id offers)"
    using Cons.prems(2) m by (auto simp: simulates_def dest: spec [of _ key])
  obtain s1 where s1: "on_event h now (event_of payload e) s = Inr s1" "quiet s1"
    "length (connections s1) = length (connections s)" "tracks (payload key) (insert i S) now key s1"
    "calls key s1 = calls key s @ map (\<lambda>_. the_call (payload key)) (filter id (offer (payload key) i S accepted))"
    "\<forall>k. k \<noteq> key \<longrightarrow> messages s1 k = messages s k \<and> calls k s1 = calls k s"
    using on_piece_step [of i payload key v s S seen h now fd accepted] Cons.prems(1) t e
    by (auto simp: legal_piece_def)
  define m1 where "m1 = m(key := (insert i S, now, offers @ offer (payload key) i S accepted))"
  have "simulates payload before m1 s1"
    unfolding simulates_def
  proof (intro conjI allI)
    fix k
    show "case m1 k of (S, seen, offers) \<Rightarrow> tracks (payload k) S seen k s1 \<and>
        calls k s1 = before k @ map (\<lambda>_. the_call (payload k)) (filter id offers)"
      using Cons.prems(2) s1 t by (cases "k = key") (auto simp: simulates_def m1_def tracks_def)
  qed (fact s1(2))
  then obtain s' m' where s': "on_events h now (map (event_of payload) es) s1 = Inr s'" "simulates payload before m' s'"
    "length (connections s') = length (connections s1)"
    "\<forall>key. message_run (payload key) (pieces_for key now es) (m1 key) (m' key)"
    using Cons.IH [of s1 m1] Cons.prems(1) s1(3) by auto
  have "message_step (payload key) (Inr (i, now, accepted)) (m key) (m1 key)"
    using piece_arrives [of "payload key" i now accepted S seen offers] by (simp add: m m1_def offer_def)
  then have "message_run (payload k) (pieces_for k now (e # es)) (m k) (m' k)" for k
    using spec [OF s'(4), of k] by (cases "k = key") (auto simp: e pieces_for_def m1_def intro: run_steps)
  with s' s1 show ?case by auto
qed

lemma round_simulates:
  assumes "legal_round (length (connections s)) payload x" "simulates payload before m s"
  shows "\<exists>s' m'. loop_round h (round_of payload x) s = Inr s' \<and> simulates payload before m' s' \<and>
    length (connections s') = length (connections s) \<and>
    (\<forall>key. message_run (payload key) (history key [x]) (m key) (m' key))"
proof -
  obtain tick garbage now es where x: "x = (tick, garbage, now, es)" by (metis prod_cases4)
  obtain s1 m1 where s1: "run_timer h tick garbage s = Inr s1" "simulates payload before m1 s1"
    "length (connections s1) = length (connections s)"
    "\<forall>key. message_step (payload key) (Inl tick) (m key) (m1 key)"
    using timer_simulates [OF assms(2)] by blast
  obtain s' m' where s': "on_events h now (map (event_of payload) es) s1 = Inr s'" "simulates payload before m' s'"
    "length (connections s') = length (connections s1)"
    "\<forall>key. message_run (payload key) (pieces_for key now es) (m1 key) (m' key)"
    using events_simulate [OF _ s1(2), of es h now] assms(1) s1(3) x by (auto simp: legal_round_def)
  have "dealWithNewConnection h tick [] s1 = Inr s1"
    using s1(2) by (simp add: simulates_def quiet_def dealWithNewConnection_def)
  then show ?thesis
    using s1 s' by (auto simp: x loop_round_def round_of_def history_def intro: run_steps)
qed

lemma loop_simulates:
  assumes "\<forall>x \<in> set xs. legal_round (length (connections s)) payload x" "simulates payload before m s"
  shows "\<exists>s' m'. reactor_loop h (map (round_of payload) xs) s = Inr s' \<and> simulates payload before m' s' \<and>
    (\<forall>key. message_run (payload key) (history key xs) (m key) (m' key))"
  using assms
proof (induction xs arbitrary: s m)
  case Nil
  then show ?case by (auto simp: history_def intro: run_ends)
next
  case (Cons x xs)
  obtain s1 m1 where s1: "loop_round h (round_of payload x) s = Inr s1" "simulates payload before m1 s1"
    "length (connections s1) = length (connections s)"
    "\<forall>key. message_run (payload key) (history key [x]) (m key) (m1 key)"
    using round_simulates [of s payload x before m h] Cons.prems by auto
  obtain s' m' where s': "reactor_loop h (map (round_of payload) xs) s1 = Inr s'" "simulates payload before m' s'"
    "\<forall>key. message_run (payload key) (history key xs) (m1 key) (m' key)"
    using Cons.IH [OF _ s1(2)] Cons.prems(1) s1(3) by auto
  have "runState s" using Cons.prems(2) by (simp add: simulates_def quiet_def)
  moreover have "history k (x # xs) = history k [x] @ history k xs" for k by (simp add: history_def)
  moreover have "message_run (payload k) (history k [x] @ history k xs) (m k) (m' k)" for k
    using s1(4) s'(3) by (blast intro: message_run_append)
  ultimately show ?case using s1 s' by auto
qed


definition message_8 :: Servlet where
  "message_8 = \<lparr>request_id = 8, client_port = 80, client_ip_address = 1\<rparr>"

definition message_9 :: Servlet where
  "message_9 = \<lparr>request_id = 9, client_port = 80, client_ip_address = 1\<rparr>"

text \<open>
  Two messages of two pieces: the first is accepted and one of its pieces comes again after the
  timer was run, the second is refused by the pool.
\<close>

definition two_messages :: "piece_round list" where
  "two_messages =
     [(0, 0, 0, [(0, message_8, 1, 3, True), (0, message_9, 0, 3, True)]),
      (9000, 0, 9000, [(0, message_8, 0, 3, True), (0, message_9, 1, 3, False)]),
      (12000, 0, 12000, [(0, message_8, 0, 3, True), (0, message_9, 0, 3, True)])]"

lemma quiet_new: "quiet (new_SubReactor n)"
  by (simp add: quiet_def new_SubReactor_def new_timer_def empty_connection_def list_all_iff)


section \<open>A silent network\<close>

definition ask_ack_packet :: "u64 \<Rightarrow> byte list \<Rightarrow> byte list" where
  "ask_ack_packet ident msg = header_bytes ((sender_header ident (word_of_nat (length msg)))\<lparr>type := RequestACK\<rparr>)"

text \<open>The number of pieces of the first window.\<close>

definition window :: "byte list \<Rightarrow> nat" where
  "window msg = nat (getSendCount (word_of_nat (pieces_of msg)))"

lemma sendCount_unat: "unat (word_of_int (getSendCount pc) :: u16) = nat (getSendCount pc)"
    "1 \<le> getSendCount pc" "getSendCount pc \<le> 7"
  by (simp_all add: getSendCount_def)

lemma send_request_pieces:
  assumes "pieces_of msg < 2 ^ 16" "set is \<subseteq> {..<pieces_of msg}" "length (inv_buffer st) = 549"
  shows "\<exists>b. send_request h (make_call ident msg) (map word_of_nat is) st =
    Inr (st\<lparr>inv_buffer := b, inv_sent := inv_sent st @ map (piece_packet PhaseRequest ident msg) is\<rparr>) \<and> length b = 549"
  using assms(2,3)
proof (induction "is" arbitrary: st)
  case (Cons i "is")
  obtain b where b: "fill_piece h (make_call ident msg) (word_of_nat i) (inv_buffer st) =
      Some (b, piece_packet PhaseRequest ident msg i)" "length b = 549"
    using client_packet [of i msg "inv_buffer st" h ident] Cons.prems assms(1) by auto
  let ?st = "st\<lparr>inv_buffer := b, inv_sent := inv_sent st @ [piece_packet PhaseRequest ident msg i]\<rparr>"
  obtain b' where "send_request h (make_call ident msg) (map word_of_nat is) ?st =
    Inr (?st\<lparr>inv_buffer := b', inv_sent := inv_sent ?st @ map (piece_packet PhaseRequest ident msg) is\<rparr>)"
    "length b' = 549"
    using Cons.IH [of ?st] Cons.prems b by auto
  with b show ?case by auto
next
  case Nil
  then show ?case by (intro exI [of _ "inv_buffer st"]) simp
qed

lemma silent_wait:
  assumes "inv_inputs st = []" "length (inv_buffer st) = 549" "0 < k"
  shows "\<exists>b. wait_acks h (make_call ident msg) k ack tries 0 st =
    Inr ((False, ack, tries, 0), st\<lparr>inv_buffer := b, inv_sent := inv_sent st @ [ask_ack_packet ident msg]\<rparr>) \<and>
    length b = 549"
proof -
  obtain j where k: "k = Suc j" using assms(3) by (cases k) auto
  show ?thesis
    using assms(1,2)
    by (intro exI [of _ "ask_ack_packet ident msg @ drop 26 (inv_buffer st)"])
       (simp add: k inv_recvfrom_def request_ack_def initiate_layout type_setters_layout load_def seg_def
        make_call_def ask_ack_packet_def Let_def)
qed

lemma silent_rounds:
  assumes "pieces_of msg < 2 ^ 16" "msg \<noteq> []" "inv_inputs st = []" "length (inv_buffer st) = 549" "1 \<le> tries"
  shows "\<exists>st'. phase_one h (make_call ident msg) 0 tries 0 st = Inr (Some NetworkTimeout, st') \<and>
    inv_sent st' = inv_sent st @ replicate (nat tries) (ask_ack_packet ident msg)"
  using assms(3-5)
proof (induction "nat tries" arbitrary: tries st)
  case (Suc n)
  let ?c = "make_call ident msg"
  have pc: "call_pieces ?c = word_of_nat (pieces_of msg)"
    by (simp add: make_call_def Let_def piece_count_pieces [OF assms(1)] pieces_of_def)
  have pos: "0 < pieces_of msg" using assms(2) by (simp add: pieces_less_iff)
  then have ne: "(0 :: u16) < word_of_nat (pieces_of msg)"
    using assms(1) by (simp add: word_less_nat_alt unat_of_nat)
  define k where "k = min (unat (0 + word_of_int (getSendCount (word_of_nat (pieces_of msg))) :: u16)) (unat (word_of_nat (pieces_of msg) :: u16))"
  have k: "0 < k"
    using ne sendCount_unat(2) [of "word_of_nat (pieces_of msg)"]
    by (simp add: k_def word_less_nat_alt sendCount_unat(1))
  obtain b where b: "wait_acks h ?c k 0 tries 0 st =
    Inr ((False, 0, tries, 0), st\<lparr>inv_buffer := b, inv_sent := inv_sent st @ [ask_ack_packet ident msg]\<rparr>)"
    "length b = 549"
    using silent_wait [OF Suc.prems(1,2) k] by blast
  let ?st = "st\<lparr>inv_buffer := b, inv_sent := inv_sent st @ [ask_ack_packet ident msg]\<rparr>"
  have step: "phase_one h ?c 0 tries 0 st =
      (if tries - 1 \<le> 0 then Inr (Some NetworkTimeout, ?st) else phase_one h ?c 0 (tries - 1) 0 ?st)"
    using less_imp_neq [OF ne] b(1) by (subst phase_one.simps) (simp add: pc Let_def k_def)
  show ?case
  proof (cases "tries - 1 \<le> 0")
    case True
    then have "nat tries = 1" using Suc.prems(3) by simp
    then show ?thesis using step True by simp
  next
    case False
    then have "n = nat (tries - 1)" using Suc.hyps(2) by simp
    from Suc.hyps(1) [OF this, of ?st] Suc.prems False b(2) obtain st' where
      st': "phase_one h ?c 0 (tries - 1) 0 ?st = Inr (Some NetworkTimeout, st')"
      "inv_sent st' = inv_sent ?st @ replicate (nat (tries - 1)) (ask_ack_packet ident msg)" by auto
    moreover have "nat tries = Suc (nat (tries - 1))" using False by simp
    ultimately show ?thesis using step False by simp
  qed
qed simp

lemma request_silent:
  assumes "length dat \<le> 1024 * 1024 * 100" "clientOut dat \<noteq> []" "pieces_of (clientOut dat) < 2 ^ 16"
    and "inv_inputs st = []" "length (inv_buffer st) = FullPieceSize + 1"
  shows "\<exists>st'. request h clientOut clientIn ident dat st =
      Inr (new_ResponseData\<lparr>rd_reason := NetworkTimeout\<rparr>, st') \<and>
    inv_sent st' = inv_sent st @
      map (piece_packet PhaseRequest ident (clientOut dat)) [0..<min (window (clientOut dat)) (pieces_of (clientOut dat))] @
      replicate 3 (ask_ack_packet ident (clientOut dat))"
proof -
  let ?msg = "clientOut dat"
  let ?c = "make_call ident ?msg"
  let ?n = "min (window ?msg) (pieces_of ?msg)"
  have pc: "call_pieces ?c = word_of_nat (pieces_of ?msg)"
    by (simp add: make_call_def Let_def piece_count_pieces [OF assms(3)] pieces_of_def)
  have u: "unat (word_of_nat (pieces_of ?msg) :: u16) = pieces_of ?msg" using assms(3) by (simp add: unat_of_nat)
  have pos: "0 < pieces_of ?msg" using assms(2) by (simp add: pieces_less_iff)
  then have ne: "0 \<noteq> (word_of_nat (pieces_of ?msg) :: u16)" using u by (metis unat_0 less_numeral_extra(3))
  have w: "unat (word_of_int (getSendCount (word_of_nat (pieces_of ?msg))) :: u16) = window ?msg" "0 < window ?msg"
    using sendCount_unat [of "word_of_nat (pieces_of ?msg)"] by (simp_all add: window_def)
  have sub: "set [0..<?n] \<subseteq> {..<pieces_of ?msg}" by auto
  have buf: "length (inv_buffer st) = 549" using assms(5) by simp
  obtain b where b: "send_request h ?c (map word_of_nat [0..<?n]) st =
      Inr (st\<lparr>inv_buffer := b, inv_sent := inv_sent st @ map (piece_packet PhaseRequest ident ?msg) [0..<?n]\<rparr>)"
    "length b = 549"
    using send_request_pieces [OF assms(3) sub buf, of h ident] by blast
  let ?s1 = "st\<lparr>inv_buffer := b, inv_sent := inv_sent st @ map (piece_packet PhaseRequest ident ?msg) [0..<?n]\<rparr>"
  obtain b' where w1: "wait_acks h ?c ?n 0 3 0 ?s1 = Inr ((False, 0, 3, 0),
      ?s1\<lparr>inv_buffer := b', inv_sent := inv_sent ?s1 @ [ask_ack_packet ident ?msg]\<rparr>)" "length b' = 549"
    using silent_wait [of ?s1 ?n h ident ?msg 0 3] assms(4) b(2) w(2) pos by auto
  let ?s2 = "?s1\<lparr>inv_buffer := b', inv_sent := inv_sent ?s1 @ [ask_ack_packet ident ?msg]\<rparr>"
  obtain st' where st': "phase_one h ?c 0 2 0 ?s2 = Inr (Some NetworkTimeout, st')"
    "inv_sent st' = inv_sent ?s2 @ replicate 2 (ask_ack_packet ident ?msg)"
    using silent_rounds [OF assms(3,2), of ?s2 2 h ident] assms(4) w1(2) by auto
  have "phase_one h ?c 0 3 1 st = phase_one h ?c 0 2 0 ?s2"
    using ne b(1) w1(1) by (subst phase_one.simps) (simp add: pc Let_def w u)
  then show ?thesis
    using assms(1) st' by (simp add: request_def tryTimes_def numeral_3_eq_3 numeral_2_eq_2 new_ResponseData_def)
qed

text \<open>
  A call on a silent network ends. When no datagram arrives, \<open>request\<close> sends the first window of
  pieces once, asks three times for an acknowledgement and returns the failure \<open>NetworkTimeout\<close>.
\<close>

theorem silent_network_times_out:
  assumes "length dat \<le> 1024 * 1024 * 100" "clientOut dat \<noteq> []" "pieces_of (clientOut dat) < 2 ^ 16"
    and "inv_inputs st = []" "length (inv_buffer st) = FullPieceSize + 1"
  shows "\<exists>st'. request h clientOut clientIn ident dat st =
      Inr (new_ResponseData\<lparr>rd_reason := NetworkTimeout\<rparr>, st') \<and>
    inv_sent st' = inv_sent st @
      map (piece_packet PhaseRequest ident (clientOut dat)) [0..<min (window (clientOut dat)) (pieces_of (clientOut dat))] @
      replicate 3 (ask_ack_packet ident (clientOut dat))"
  by (rule request_silent [of dat clientOut st, OF assms])

theorem silent_network_times_out_witness:
  "\<exists>st'. request LittleEndian id (\<lambda>_ _. []) 4 [1, 2, 3] (new_Invoker []) =
      Inr (new_ResponseData\<lparr>rd_reason := NetworkTimeout\<rparr>, st') \<and>
    inv_sent st' = piece_packet PhaseRequest 4 [1, 2, 3] 0 # replicate 3 (ask_ack_packet 4 [1, 2, 3])"
proof -
  have n: "pieces_of [1, 2, 3 :: byte] = 1" by (simp add: pieces_of_def)
  have "window [1, 2, 3 :: byte] = 1" unfolding window_def n by (simp add: getSendCount_def)
  with n show ?thesis
    using silent_network_times_out [of "[1, 2, 3]" id "new_Invoker []" LittleEndian "\<lambda>_ _. []" 4]
    by (simp add: new_Invoker_def)
qed

end
