(* ===== verification/Reactor_Safety.thy ===== *)
theory Reactor_Safety
  imports Rpc_Transfer
begin

text \<open>
  What the sub reactor does with packets no client of this library sends, with the memory of
  responses, and with new connections when all places are taken.
\<close>

section \<open>Lengths in the header\<close>

text \<open>
  C39 The lengths of a packet are trusted. A packet that opens a new message and whose piece ends
  behind the announced total size is copied past the end of the memory that was taken for the
  message, for every such header.
\<close>

theorem server_piece_overflow:
  assumes "synchronousWord hdr = defaultSynchronousWord" "phase hdr = PhaseRequest" "type hdr = RequestSend"
    and "pieceOrder hdr < totalCount hdr" "unat (pieceSize hdr) \<le> length body" "length body \<le> 523"
    and "unat (totalSize hdr) < unat (pieceStandardSize hdr) * unat (pieceOrder hdr) + unat (pieceSize hdr)"
    and "messages s (servlet_of hdr addr) = None" "length (recvBuf s) = FullPieceSize + 1"
  shows "on_datagram h now accepted (header_bytes hdr @ body) addr fd v s = Inl MemoryError"
proof -
  let ?d = "header_bytes hdr @ body"
  define s0 where "s0 = (put_connection v ((connections s ! v)\<lparr>last_active := now\<rparr>) s)
    \<lparr>recvBuf := receive_into ?d (recvBuf s)\<rparr>"
  have buf: "receive_into ?d (recvBuf s) = ?d @ drop (26 + length body) (recvBuf s)"
    using assms(6,9) by (simp add: receive_into_def)
  have p: "parse h (?d @ rest) (26 + length body) = Some (hdr, True)" for rest
    using assms(1) by (subst parse_value) simp_all
  have "on_datagram h now accepted ?d addr fd v s = on_packet h now accepted hdr addr fd v s0"
    using assms(6,9) p by (simp add: on_datagram_def Let_def s0_def buf)
  moreover have "\<not> piece_offset hdr + unat (pieceSize hdr) \<le> unat (totalSize hdr)"
    using assms(7) by (simp add: piece_offset_def)
  then have "first_piece hdr addr fd now (recvBuf s0) = Inl MemoryError"
    using assms(4,5) by (auto simp: first_piece_def new_Request_def req_setPieceState_def Let_def
        piece_source_def load_def seg_def copy_to_def s0_def buf word_less_nat_alt)
  ultimately show ?thesis
    using assms(2,3,8) by (simp add: on_packet_def on_request_phase_def on_request_send_def s0_def)
qed

definition hostile_header :: ProtocolHeader where
  "hostile_header = zero_header\<lparr>synchronousWord := defaultSynchronousWord, totalCount := 1,
     pieceStandardSize := 522, totalSize := 1, pieceSize := 500\<rparr>"

theorem server_piece_overflow_witness:
  "on_datagram LittleEndian 0 True (header_bytes hostile_header @ replicate 500 65)
     \<lparr>peer_port = 80, peer_ip = 1\<rparr> 3 0 (new_SubReactor 1) = Inl MemoryError"
  by (rule server_piece_overflow)
     (simp_all add: hostile_header_def zero_header_def new_SubReactor_def)

section \<open>The memory of a response\<close>

lemma first_response_piece:
  assumes "heap s dt = Some msg" "msg \<noteq> []" "pieces_of msg < 2 ^ 16"
    and "r = new_Response now (request_id servlet) (client_port servlet) (client_ip_address servlet)
      (piece_count (word_of_nat (length msg))) (word_of_nat (length msg)) dt"
  shows "response_packet h (heap s) (copy_Response g r) 0 =
    Some (piece_packet PhaseResponse (request_id servlet) msg 0)"
proof -
  have "0 < pieces_of msg" using assms(2) by (simp add: pieces_less_iff)
  then have "response_packet h (heap s) (copy_Response g r) (word_of_nat 0) =
    Some (piece_packet PhaseResponse (request_id (resp_servlet (copy_Response g r))) msg 0)"
    using assms piece_count_pieces [OF assms(3)]
    by (intro server_packet) (simp_all add: copy_Response_def new_Response_def)
  then show ?thesis by (simp add: copy_Response_def new_Response_def assms(4))
qed

text \<open>
  A response outlives its memory. The callback that delivers a new response sends its first piece
  to the client, but the local object it was copied from frees the memory when the callback ends:
  the connection keeps a response whose data are freed, and for a response of two or more pieces the
  acknowledgement of the first makes the server read freed memory.
\<close>

theorem response_memory_dangling:
  assumes "heap s dt = Some msg" "msg \<noteq> []" "pieces_of msg < 2 ^ 16" "v < length (connections s)"
    and "map_of (responses (connections s ! v)) (request_id servlet) = None"
  shows "\<exists>s' r. deliverResponse h now g dt v servlet (word_of_nat (length msg)) s = Inr s' \<and>
    sent s' = sent s @ [SendTo (socket_fd (connections s ! v)) (vc_addr (connections s ! v))
      (piece_packet PhaseResponse (request_id servlet) msg 0)] \<and>
    map_of (responses (connections s' ! v)) (request_id servlet) = Some r \<and> resp_data r = dt \<and>
    heap s' dt = None \<and>
    (2 \<le> pieces_of msg \<longrightarrow> request_id servlet \<in> set (vc_messages (connections s ! v)) \<longrightarrow>
      on_response_phase h now ((piece_header PhaseResponse (request_id servlet) msg 0)
        \<lparr>type := ReceiverACK, acceptOrder := 1\<rparr>) v s' = Inl MemoryError)"
proof -
  define r where "r = new_Response now (request_id servlet) (client_port servlet) (client_ip_address servlet)
      (piece_count (word_of_nat (length msg))) (word_of_nat (length msg)) dt"
  let ?id = "request_id servlet" and ?vc = "connections s ! v"
  define s1 where "s1 = put_connection v (?vc\<lparr>responses := AList.update ?id (copy_Response g r) (responses ?vc)\<rparr>) s"
  define b where "b = SendTo (socket_fd ?vc) (vc_addr ?vc) (piece_packet PhaseResponse ?id msg 0)"
  have n: "0 < pieces_of msg" using assms(2) by (simp add: pieces_less_iff)
  have u: "unat (word_of_nat (pieces_of msg) :: u16) = pieces_of msg" using assms(3) by (simp add: unat_of_nat)
  have r: "resp_ack_accept r = 0" "resp_piece_count r = word_of_nat (pieces_of msg)" "resp_data r = dt"
    "resp_servlet r = \<lparr>request_id = ?id, client_port = client_port servlet,
       client_ip_address = client_ip_address servlet\<rparr>"
    by (simp_all add: r_def new_Response_def piece_count_pieces [OF assms(3)])
  have s1: "heap s1 = heap s" "connections s1 ! v =
      ?vc\<lparr>responses := AList.update ?id (copy_Response g r) (responses ?vc)\<rparr>" "sent s1 = sent s"
    using assms(4) by (simp_all add: s1_def)
  have "(0 :: u16) \<noteq> word_of_nat (pieces_of msg)" using u n by (metis unat_0 less_numeral_extra(3))
  moreover have "[0..<min 1 (pieces_of msg)] = [0]" using n by simp
  ultimately have send: "sendResponseDataToClient h v ?id s1 = Inr (emit b s1)"
    using first_response_piece [OF assms(1-3) r_def, of h g] s1
    by (simp add: sendResponseDataToClient_def update_conv' copy_Response_def r u b_def)
  define s2 where "s2 = (setResponseClearTimeout now v ?id (emit b s1))\<lparr>heap := (heap s)(dt := None)\<rparr>"
  have d: "deliverResponse h now g dt v servlet (word_of_nat (length msg)) s = Inr s2"
    using assms(1,5) send s1
    by (simp add: deliverResponse_def Let_def r_def [symmetric] s1_def [symmetric] free_response_def r s2_def
        setResponseClearTimeout_def set_timer_def)
  have s2: "connections s2 ! v = connections s1 ! v" "heap s2 dt = None" "sent s2 = sent s @ [b]"
    "length (connections s2) = length (connections s)"
    by (simp_all add: s2_def setResponseClearTimeout_def set_timer_def emit_def s1)
       (simp add: s1_def)
  have ack: "on_response_phase h now ((piece_header PhaseResponse ?id msg 0)\<lparr>type := ReceiverACK, acceptOrder := 1\<rparr>)
      v s2 = Inl MemoryError"
    if two: "2 \<le> pieces_of msg" and m: "?id \<in> set (vc_messages ?vc)"
  proof -
    have k: "unat (1 + 1 :: u16) = 2" "min 2 (pieces_of msg) = 2" "[Suc 0..<2] = [Suc 0]"
      using two by (simp_all add: upt_rec)
    have "(1 :: u16) \<noteq> word_of_nat (pieces_of msg)" using u two by (metis unat_1 numeral_le_one_iff semiring_norm(69))
    moreover have "response_packet h (heap s2) q 1 = None" if "resp_data q = dt" for q
      using that by (simp add: response_packet_def initiate_layout type_setters_layout
          order_setters_layout s2 Let_def)
    ultimately show ?thesis
      using assms(4) m s1 s2(1) k
      by (simp add: on_response_phase_def piece_header_def sender_header_def Let_def update_conv'
          set_response_def setAckAccept_def setNewAckState_def copy_Response_def r u
          sendResponseDataToClient_def s2)
  qed
  show ?thesis
    using d s2 ack s1(2) assms(4)
    by (intro exI [of _ s2] exI [of _ "copy_Response g r"]) (auto simp: b_def update_conv' copy_Response_def r)
qed

theorem response_memory_dangling_witness:
  "\<exists>s' r. deliverResponse LittleEndian 5 0 0 0 message_8 600
      ((new_SubReactor 1)\<lparr>heap := [0 \<mapsto> replicate 600 7]\<rparr>) = Inr s' \<and>
    sent s' = [SendTo (-1) \<lparr>peer_port = 0, peer_ip = 0\<rparr> (piece_packet PhaseResponse 8 (replicate 600 7) 0)] \<and>
    map_of (responses (connections s' ! 0)) 8 = Some r \<and> resp_data r = 0 \<and> heap s' 0 = None"
proof -
  let ?s = "(new_SubReactor 1)\<lparr>heap := [0 \<mapsto> replicate 600 7]\<rparr>"
  have "pieces_of (replicate 600 (7 :: byte)) < 2 ^ 16" by (simp add: pieces_of_def)
  moreover have "heap ?s 0 = Some (replicate 600 7)" "0 < length (connections ?s)"
    "map_of (responses (connections ?s ! 0)) (request_id message_8) = None"
    by (simp_all add: new_SubReactor_def empty_connection_def)
  ultimately show ?thesis
    using response_memory_dangling [of ?s 0 "replicate 600 7" 0 message_8 LittleEndian 5 0]
    by (auto simp: message_8_def new_SubReactor_def empty_connection_def)
qed

section \<open>No place for a new connection\<close>

definition all_taken :: "int \<Rightarrow> SubReactor \<Rightarrow> bool" where
  "all_taken now s \<longleftrightarrow>
     list_all (\<lambda>vc. socket_fd vc \<noteq> -1 \<and> now - last_active vc \<le> ConnectionTimeOut) (connections s)"

lemma clear_nothing:
  assumes "all_taken now s"
  shows "clearTimeoutConnections now s = Inr s"
proof -
  have "fold (\<lambda>i m. chain m (clear_step now i)) is (Inr s) = Inr s" if "set is \<subseteq> {..<length (connections s)}" for "is"
    using that assms by (induction "is") (auto simp: clear_step_def all_taken_def list_all_length)
  from this [of "[0..<length (connections s)]"] show ?thesis
    by (simp add: clearTimeoutConnections_def atLeast_upt)
qed

lemma no_place:
  assumes "all_taken now s"
  shows "findConnectionsEmptyPlace now s = Inr (s, None)"
proof -
  have "\<forall>idx \<in> set (places s). idx < length (connections s)"
    by (auto simp: places_def intro: mod_less_divisor)
  then have "find (\<lambda>idx. socket_fd (connections s ! idx) = -1) (places s) = None"
    using assms by (auto simp: find_None_iff all_taken_def list_all_length)
  then show ?thesis by (simp add: findConnectionsEmptyPlace_def clear_nothing [OF assms])
qed

definition exhausted_packet :: "u64 \<Rightarrow> byte list" where
  "exhausted_packet ident = header_bytes ((sender_header ident 0)\<lparr>type := TheServerResourcesExhausted\<rparr>)"

lemma sendExhausted_value: "sendExhausted h fd s = Inr (emit (Write fd (exhausted_packet 0)) s)"
  by (simp add: sendExhausted_def type_packet_def init_header_def initiate_layout exhausted_packet_def
      type_setters_layout [where rest = "[]", simplified])

text \<open>
  A full server is blocked by its queue. When all places are taken by live connections, the new
  connection at the front of the queue is answered with \<open>TheServerResourcesExhausted\<close> and its socket
  is closed, but the entry stays: every round of the loop answers and closes the same socket again
  and the queue is left as it was.
\<close>

theorem new_connection_stuck:
  assumes "newConnections s = (fd, n, addr, buf, True) # cs" "parse h buf n = Some (hdr, True)"
    and "all_taken now s"
  shows "\<exists>s'. dealWithNewConnection h now answers s = Inr s' \<and> newConnections s' = newConnections s \<and>
    connections s' = connections s \<and>
    sent s' = sent s @ concat (replicate (Suc (length cs)) [Write fd (exhausted_packet 0), CloseFd fd])"
proof -
  have loop: "\<exists>s'. deal_loop h now answers k s = Inr s' \<and> newConnections s' = newConnections s \<and>
      connections s' = connections s \<and>
      sent s' = sent s @ concat (replicate k [Write fd (exhausted_packet 0), CloseFd fd])"
    if "newConnections s = (fd, n, addr, buf, True) # cs" "all_taken now s" for s k answers
    using that
  proof (induction k arbitrary: s answers)
    case (Suc k)
    let ?s = "emit (CloseFd fd) (emit (Write fd (exhausted_packet 0)) s)"
    have "deal_front h now accepted epoll_ok s = Inr ?s" for accepted epoll_ok
      using Suc.prems assms(2) no_place
      by (simp add: deal_front_def place_connection_def sendExhausted_value)
    moreover have "newConnections ?s = (fd, n, addr, buf, True) # cs" "all_taken now ?s"
      using Suc.prems by (simp_all add: all_taken_def)
    then obtain s' where "deal_loop h now (tl answers) k ?s = Inr s'" "newConnections s' = newConnections ?s"
      "connections s' = connections ?s"
      "sent s' = sent ?s @ concat (replicate k [Write fd (exhausted_packet 0), CloseFd fd])"
      using Suc.IH [of ?s "tl answers"] by blast
    ultimately show ?case by (auto simp: emit_def split: prod.split)
  qed simp
  have "length (newConnections s) = Suc (length cs)" using assms(1) by simp
  with loop [OF assms(1,3), of answers "Suc (length cs)"] show ?thesis
    unfolding dealWithNewConnection_def by metis
qed

definition full_reactor :: SubReactor where
  "full_reactor = (new_SubReactor 1)\<lparr>connections := [empty_connection\<lparr>socket_fd := 7\<rparr>],
     activeConnectionsCount := 1,
     newConnections := [(8, 26, \<lparr>peer_port = 80, peer_ip = 1\<rparr>, header_bytes (sender_header 3 1), True)]\<rparr>"

theorem new_connection_stuck_witness:
  "\<exists>s'. dealWithNewConnection BigEndian 10 [] full_reactor = Inr s' \<and> length (newConnections s') = 1 \<and>
     sent s' = [Write 8 (exhausted_packet 0), CloseFd 8]"
proof -
  have q: "newConnections full_reactor =
      (8, 26, \<lparr>peer_port = 80, peer_ip = 1\<rparr>, header_bytes (sender_header 3 1), True) # []"
    by (simp add: full_reactor_def)
  have p: "parse BigEndian (header_bytes (sender_header 3 1)) 26 = Some (sender_header 3 1, True)"
    by (subst parse_value) (simp_all add: sender_header_def)
  have "all_taken 10 full_reactor"
    by (simp add: all_taken_def full_reactor_def empty_connection_def ConnectionTimeOut_def)
  from new_connection_stuck [OF q p this, of "[]"] show ?thesis
    by (auto simp: full_reactor_def new_SubReactor_def)
qed

end
