(* ===== verification/Account.thy ===== *)
theory Account
  imports Uint256 "HOL-Library.AList"
begin

text \<open>
  Accounts (\<open>src/include/db/account.cpp\<close>): an address, a nonce and the balances by asset type, a
  \<open>std::map\<close> kept as the list of its entries in ascending order of the keys. The digest is the
  parameter \<open>sha3\<close>, the byte order of the host the parameter \<open>h\<close>.
\<close>

section \<open>Ordered maps\<close>

text \<open>\<open>map[k] = v\<close>, and \<open>map.insert\<close> for a key that is not there.\<close>

primrec put :: "'k::linorder \<Rightarrow> 'v \<Rightarrow> ('k \<times> 'v) list \<Rightarrow> ('k \<times> 'v) list" where
  "put k v [] = [(k, v)]"
| "put k v (p # ps) =
     (if k < fst p then (k, v) # p # ps else if k = fst p then (k, v) # ps else p # put k v ps)"

definition ordered :: "('k::linorder \<times> 'v) list \<Rightarrow> bool" where
  "ordered ps \<longleftrightarrow> sorted_wrt (\<lambda>a b. fst a < fst b) ps"

lemma ordered_simps [simp]:
  "ordered []" "ordered (p # ps) \<longleftrightarrow> (\<forall>q \<in> set ps. fst p < fst q) \<and> ordered ps"
  by (simp_all add: ordered_def)

lemma keys_put: "fst ` set (put k v ps) = insert k (fst ` set ps)"
  by (induction ps) auto

lemma set_put: "set (put k v ps) \<subseteq> insert (k, v) (set ps)"
  by (induction ps) auto

lemma ordered_put [simp]: "ordered ps \<Longrightarrow> ordered (put k v ps)"
proof (induction ps)
  case (Cons p ps)
  have "\<forall>q \<in> set (put k v ps). k < fst p \<or> k = fst p \<or> fst p < fst q"
    using Cons.prems set_put [of k v ps] by (auto simp: not_less le_less)
  with Cons show ?case by (auto dest: order.strict_trans)
qed simp

lemma map_of_put [simp]: "ordered ps \<Longrightarrow> map_of (put k v ps) = (map_of ps)(k \<mapsto> v)"
proof (induction ps)
  case (Cons p ps)
  have "k \<le> fst p \<Longrightarrow> k \<notin> fst ` set ps" using Cons.prems by auto
  with Cons show ?case by (auto simp: fun_eq_iff map_of_eq_None_iff)
qed simp

lemma ordered_delete [simp]: "ordered ps \<Longrightarrow> ordered (AList.delete k ps)"
  by (induction ps) (auto simp: AList.delete_eq)

lemma ordered_map_of_unique:
  assumes "ordered ps" "ordered qs" "map_of ps = map_of qs"
  shows "ps = qs"
  using assms
proof (induction ps arbitrary: qs)
  case Nil
  then show ?case by (metis list.exhaust map_of.simps(1) map_of_eq_empty_iff)
next
  case (Cons p ps)
  obtain q qs' where qs: "qs = q # qs'"
    using Cons.prems(3) by (cases qs) (auto simp: fun_eq_iff split: if_splits)
  have k: "map_of ps (fst q) = None \<or> fst p < fst q" "map_of qs' (fst p) = None \<or> fst q < fst p"
    using Cons.prems(1,2) qs by (auto simp: map_of_eq_None_iff)
  have "fst p = fst q"
    using Cons.prems(3) k unfolding qs
    by (metis (mono_tags, lifting) map_of_Cons_code(2) not_less_iff_gr_or_eq option.distinct(1) surjective_pairing)
  moreover have "snd p = snd q"
    using fun_cong [OF Cons.prems(3), of "fst p"] calculation unfolding qs by (cases p; cases q) simp
  moreover have "map_of ps = map_of qs'"
  proof
    fix x
    show "map_of ps x = map_of qs' x"
    proof (cases "x = fst p")
      case True
      then have "x \<notin> fst ` set ps" "x \<notin> fst ` set qs'" using Cons.prems(1,2) calculation qs by auto
      then show ?thesis by (simp add: map_of_eq_None_iff [symmetric])
    next
      case False
      then show ?thesis
        using fun_cong [OF Cons.prems(3), of x] calculation unfolding qs by (cases p; cases q) simp
    qed
  qed
  ultimately show ?case
    using Cons.IH [of qs'] Cons.prems(1,2) qs by (simp add: prod_eq_iff)
qed

section \<open>Accounts\<close>

record account =
  address :: uint256
  nonce :: u64
  balances :: "(u32 \<times> u64) list"

definition account_default :: account where
  "account_default = \<lparr>address = base_binary_fill 0, nonce = 0, balances = []\<rparr>"

definition new_account :: "uint256 \<Rightarrow> u64 \<Rightarrow> account" where
  "new_account a n = \<lparr>address = a, nonce = n, balances = []\<rparr>"

definition get_balance :: "u32 \<Rightarrow> account \<Rightarrow> u64" where
  "get_balance asset a = (case map_of (balances a) asset of Some v \<Rightarrow> v | None \<Rightarrow> 0)"

definition set_nonce :: "u64 \<Rightarrow> account \<Rightarrow> account" where
  "set_nonce n a = a\<lparr>nonce := n\<rparr>"

definition set_address :: "uint256 \<Rightarrow> account \<Rightarrow> account" where
  "set_address x a = a\<lparr>address := x\<rparr>"

definition delete_asset :: "u32 \<Rightarrow> account \<Rightarrow> account" where
  "delete_asset asset a = a\<lparr>balances := AList.delete asset (balances a)\<rparr>"

definition add_balance :: "u32 \<Rightarrow> u64 \<Rightarrow> account \<Rightarrow> account" where
  "add_balance asset n a =
     (case map_of (balances a) asset of
        Some v \<Rightarrow> a\<lparr>balances := put asset (v + n) (balances a)\<rparr>
      | None \<Rightarrow> a\<lparr>balances := put asset n (balances a)\<rparr>)"

text \<open>
  \<open>None\<close> is the exception \<open>std::runtime_error\<close>. The assertion before the test, \<open>prev - count >= 0\<close>
  on unsigned numbers, always holds.
\<close>

definition reduce_balance :: "u32 \<Rightarrow> u64 \<Rightarrow> account \<Rightarrow> account option" where
  "reduce_balance asset n a =
     (case map_of (balances a) asset of
        None \<Rightarrow> None
      | Some prev \<Rightarrow>
          if prev < n then None
          else if prev = n then Some (a\<lparr>balances := AList.delete asset (balances a)\<rparr>)
          else Some (a\<lparr>balances := put asset (prev - n) (balances a)\<rparr>))"

definition set_balance :: "u32 \<Rightarrow> u64 \<Rightarrow> account \<Rightarrow> account" where
  "set_balance asset n a =
     (case map_of (balances a) asset of
        Some _ \<Rightarrow> if 0 < n then a\<lparr>balances := put asset n (balances a)\<rparr>
                  else a\<lparr>balances := AList.delete asset (balances a)\<rparr>
      | None \<Rightarrow> if 0 < n then a\<lparr>balances := put asset n (balances a)\<rparr>
                else a\<lparr>balances := AList.delete asset (balances a)\<rparr>)"

text \<open>
  The digest. The digest of the asset type is taken of the first four bytes of the balance: the
  loop gives the address of \<open>second\<close> with the size of \<open>first\<close>.
\<close>

primrec balances_sum :: "ByteSequence \<Rightarrow> (byte list \<Rightarrow> byte list) \<Rightarrow> (u32 \<times> u64) list \<Rightarrow> uint256 \<Rightarrow> uint256" where
  "balances_sum h sha3 [] temp = temp"
| "balances_sum h sha3 (kv # kvs) temp =
     (let temp_value = sha3 (mem_of h (snd kv)); temp_type = sha3 (take 4 (mem_of h (snd kv)))
      in balances_sum h sha3 kvs (uint256_plus (uint256_plus temp temp_type) temp_value))"

definition account_hash :: "ByteSequence \<Rightarrow> (byte list \<Rightarrow> byte list) \<Rightarrow> account \<Rightarrow> uint256" where
  "account_hash h sha3 a =
     (let result = uint256_plus (address a) (balances_sum h sha3 (balances a) base_binary_default);
          result = uint256_plus result (sha3 (mem_of h (nonce a)))
      in get_sha3_256 sha3 result)"

text \<open>\<open>MUSE_IBinarySerializable(address, nonce, balances)\<close>.\<close>

definition account_val :: "account \<Rightarrow> sval" where
  "account_val a =
     VClass [uint256_val (address a), VUInt64 (nonce a),
             VMap (map (\<lambda>(k, v). (VUInt32 k, VUInt64 v)) (balances a))]"

definition account_type :: cty where
  "account_type = TClass [uint256_type, TUInt64, TMap TUInt32 TUInt64]"

section \<open>Well-formed accounts\<close>

text \<open>The balances are in order and positive, as the comment on the member asks.\<close>

definition wf_account :: "account \<Rightarrow> bool" where
  "wf_account a \<longleftrightarrow> wf256 (address a) \<and> ordered (balances a) \<and> (\<forall>v \<in> ran (map_of (balances a)). 0 < v)"

lemma balance_ops [simp]:
  "balances (set_nonce n a) = balances a" "balances (set_address x a) = balances a"
  "address (set_nonce n a) = address a" "nonce (set_nonce n a) = n"
  by (simp_all add: set_nonce_def set_address_def)

lemma get_set_balance: "ordered (balances a) \<Longrightarrow>
    get_balance asset (set_balance asset' n a) = (if asset = asset' then n else get_balance asset a)"
  by (auto simp: get_balance_def set_balance_def AList.delete_conv' word_gt_0 split: option.splits)

lemma get_add_balance: "ordered (balances a) \<Longrightarrow>
    get_balance asset (add_balance asset' n a)
    = (if asset = asset' then get_balance asset a + n else get_balance asset a)"
  by (auto simp: get_balance_def add_balance_def split: option.splits)

lemma reduce_balance_cases: "ordered (balances a) \<Longrightarrow>
    reduce_balance asset n a =
      (if map_of (balances a) asset = None \<or> get_balance asset a < n then None
       else Some (set_balance asset (get_balance asset a - n) a))"
  by (auto simp: reduce_balance_def get_balance_def set_balance_def word_gt_0 split: option.splits)

lemma wf_set_balance: "wf_account a \<Longrightarrow> wf_account (set_balance asset n a)"
  by (auto simp: wf_account_def set_balance_def AList.delete_conv' ran_def split: option.splits if_splits)

lemma wf_add_balance: "wf_account a \<Longrightarrow> get_balance asset a + n \<noteq> 0 \<Longrightarrow> wf_account (add_balance asset n a)"
  by (auto simp: wf_account_def add_balance_def get_balance_def ran_def word_gt_0 split: option.splits if_splits)

section \<open>Operations on a ledger of balances\<close>

text \<open>The operations an account offers to the ledger, as values.\<close>

datatype account_op =
    SetNonce u64 | AddBalance u32 u64 | ReduceBalance u32 u64 | SetBalance u32 u64 | DeleteAsset u32

primrec account_step :: "account_op \<Rightarrow> account \<Rightarrow> account option" where
  "account_step (SetNonce n) a = Some (set_nonce n a)"
| "account_step (AddBalance k n) a = Some (add_balance k n a)"
| "account_step (ReduceBalance k n) a = reduce_balance k n a"
| "account_step (SetBalance k n) a = Some (set_balance k n a)"
| "account_step (DeleteAsset k) a = Some (delete_asset k a)"

text \<open>What the operations promise on the balances, read as a function of the asset type.\<close>

primrec ledger_step :: "account_op \<Rightarrow> (u32 \<Rightarrow> nat) \<Rightarrow> (u32 \<Rightarrow> nat) option" where
  "ledger_step (SetNonce n) f = Some f"
| "ledger_step (AddBalance k n) f = Some (f(k := (f k + unat n) mod 2 ^ 64))"
| "ledger_step (ReduceBalance k n) f = (if f k = 0 \<or> f k < unat n then None else Some (f(k := f k - unat n)))"
| "ledger_step (SetBalance k n) f = Some (f(k := unat n))"
| "ledger_step (DeleteAsset k) f = Some (f(k := 0))"

definition ledger :: "account \<Rightarrow> u32 \<Rightarrow> nat" where
  "ledger a k = unat (get_balance k a)"

lemma get_delete_asset: "get_balance k (delete_asset k' a) = (if k = k' then 0 else get_balance k a)"
  by (auto simp: get_balance_def delete_asset_def AList.delete_conv')

lemma wf_no_asset: "wf_account a \<Longrightarrow> map_of (balances a) k = None \<longleftrightarrow> get_balance k a = 0"
  by (auto simp: wf_account_def get_balance_def ran_def word_gt_0 split: option.splits)

lemma wf_delete_asset: "wf_account a \<Longrightarrow> wf_account (delete_asset k a)"
  by (auto simp: wf_account_def delete_asset_def AList.delete_conv' ran_def split: if_splits)

lemma unat_add_64: "unat (x + y :: u64) = (unat x + unat y) mod 2 ^ 64"
  by (simp add: unat_word_ariths)

lemma word_zero_unat: "w = 0 \<longleftrightarrow> unat w = 0" for w :: "'a::len word"
  by (simp add: unat_eq_0)

lemma ledger_reduce:
  assumes "wf_account a"
  shows "map_option ledger (reduce_balance k n a) = ledger_step (ReduceBalance k n) (ledger a)"
    and "reduce_balance k n a = Some b \<Longrightarrow> wf_account b"
proof -
  have o: "ordered (balances a)" using assms by (simp add: wf_account_def)
  show "map_option ledger (reduce_balance k n a) = ledger_step (ReduceBalance k n) (ledger a)"
    by (auto simp: reduce_balance_cases [OF o] wf_no_asset [OF assms] ledger_def get_set_balance [OF o]
        fun_eq_iff word_less_nat_alt word_zero_unat unat_sub_if')
  show "reduce_balance k n a = Some b \<Longrightarrow> wf_account b"
    by (auto simp: reduce_balance_cases [OF o] intro: wf_set_balance [OF assms] split: if_splits)
qed

text \<open>
  C29 Accounts implement a ledger. On a well-formed account (balances in order and positive) every
  operation does to the balances what the ledger operation does to the function from asset types
  to amounts, with the sum of \<open>add_balance\<close> taken modulo \<open>2 ^ 64\<close>; it throws exactly when the ledger
  operation is undefined, that is when more is taken than is there. The account stays well formed
  unless \<open>add_balance\<close> leaves an amount of 0, by adding 0 to nothing or by wrapping around.
\<close>

theorem account_refines_ledger:
  assumes "wf_account a"
  shows "map_option ledger (account_step p a) = ledger_step p (ledger a) \<and>
    (\<forall>b. account_step p a = Some b \<longrightarrow>
      (case p of AddBalance k n \<Rightarrow> ledger b k \<noteq> 0 | _ \<Rightarrow> True) \<longrightarrow> wf_account b)"
proof -
  have o: "ordered (balances a)" using assms by (simp add: wf_account_def)
  show ?thesis
  proof (cases p)
    case (SetNonce n)
    then show ?thesis
      using assms by (auto simp: ledger_def get_balance_def fun_eq_iff wf_account_def)
  next
    case (AddBalance k n)
    then show ?thesis
      using assms wf_add_balance [of a k n]
      by (auto simp: ledger_def get_add_balance [OF o] fun_eq_iff unat_add_64 word_zero_unat)
  next
    case (ReduceBalance k n)
    then show ?thesis
      using ledger_reduce [OF assms, of k n] by simp
  next
    case (SetBalance k n)
    then show ?thesis
      using wf_set_balance [OF assms] by (auto simp: ledger_def get_set_balance [OF o] fun_eq_iff)
  next
    case (DeleteAsset k)
    then show ?thesis
      using wf_delete_asset [OF assms] by (auto simp: ledger_def get_delete_asset fun_eq_iff)
  qed
qed

definition sample_account :: account where
  "sample_account = \<lparr>address = replicate 32 7, nonce = 3, balances = [(1, 500), (9, 20)]\<rparr>"

lemma wf_sample_account: "wf_account sample_account"
  by (auto simp: wf_account_def sample_account_def wf256_def Width_def ran_def word_less_nat_alt split: if_splits)

theorem account_refines_ledger_witness:
  "map_option ledger (account_step (ReduceBalance 1 500) sample_account) =
     Some ((ledger sample_account)(1 := 0)) \<and>
   account_step (ReduceBalance 9 21) sample_account = None"
proof -
  have "ledger sample_account 1 = 500" "ledger sample_account 9 = 20"
    by (simp_all add: ledger_def get_balance_def sample_account_def)
  then have "ledger_step (ReduceBalance 1 500) (ledger sample_account) = Some ((ledger sample_account)(1 := 0))"
    "ledger_step (ReduceBalance 9 21) (ledger sample_account) = None"
    by simp_all
  then show ?thesis
    using conjunct1 [OF account_refines_ledger [OF wf_sample_account, of "ReduceBalance 1 500"]]
      conjunct1 [OF account_refines_ledger [OF wf_sample_account, of "ReduceBalance 9 21"]]
    by (metis option.map_disc_iff)
qed

text \<open>
  The digest of an account does not depend on the asset types: two accounts with the same
  address and nonce and the same amounts, held in different assets, have the same digest, whatever
  the hash function is.
\<close>

theorem account_hash_ignores_asset_types:
  assumes "address a = address b" "nonce a = nonce b" "map snd (balances a) = map snd (balances b)"
  shows "account_hash h sha3 a = account_hash h sha3 b"
proof -
  have "balances_sum h sha3 xs t = balances_sum h sha3 ys t"
    if "map snd xs = map snd ys" for xs ys :: "(u32 \<times> u64) list" and t
    using that
  proof (induction xs arbitrary: ys t)
    case (Cons x xs)
    then obtain y ys' where "ys = y # ys'" "snd x = snd y" "map snd xs = map snd ys'" by (cases ys) auto
    then show ?case using Cons.IH by (simp add: Let_def)
  qed simp
  note sums = this [OF assms(3)]
  show ?thesis unfolding account_hash_def Let_def sums assms(1,2) ..
qed

theorem account_hash_ignores_asset_types_witness:
  "account_hash LittleEndian (\<lambda>bs. replicate 32 (word_of_nat (length bs)))
     (add_balance 1 500 (new_account base_binary_default 0)) =
   account_hash LittleEndian (\<lambda>bs. replicate 32 (word_of_nat (length bs)))
     (add_balance 2 500 (new_account base_binary_default 0)) \<and>
   get_balance 1 (add_balance 1 500 (new_account base_binary_default 0)) = 500 \<and>
   get_balance 1 (add_balance 2 500 (new_account base_binary_default 0)) = 0"
  by (intro conjI account_hash_ignores_asset_types)
     (simp_all add: add_balance_def new_account_def get_balance_def)

end
