(* ===== verification/Mpt.thy ===== *)
theory Mpt
  imports Account Deserialize_View
begin

text \<open>
  The Merkle Patricia trie of the accounts (\<open>src/include/db\<close>: \<open>merkle_patricia_trie.hpp\<close>,
  \<open>mpt_node.hpp\<close>, \<open>node_table.hpp\<close>, \<open>mpt_node_cache.hpp\<close>, \<open>mpt_node_storage.hpp\<close>). Nodes form a
  tree, so a pointer to a node is its place in the tree; an exception is an error value. The two
  LevelDB databases are functions from keys to values, absent (\<open>None\<close>) in a trie kept in memory
  only. A null pointer that is followed, or an index outside a string, is \<open>MptMemory\<close>.
\<close>

section \<open>Nodes\<close>

datatype 'n mpt_node_cache = Cache (exist: bool) (cnode: "'n option") (ckey: "byte list")

datatype 'n node_table = Table (tcount: nat) (slots: "'n mpt_node_cache list")

datatype mpt_node =
  Node (leaf: bool) (modified: bool) (value_hash: uint256) (nkey: "byte list") (sub_key: "byte list")
    (nvalue: "account option") (children: "mpt_node node_table option")

datatype mpt_error =
  MptRuntimeError | MptLogicError | MptOutOfRange | MptInvalidArgument | MptSerializer ser_error | MptMemory

type_synonym 'a mres = "mpt_error + 'a"

definition CHILDREN_COUNT :: nat where "CHILDREN_COUNT = 16"

definition EMPTY_KEY :: "byte list" where "EMPTY_KEY = replicate 64 48"

primrec set_modified :: "bool \<Rightarrow> mpt_node \<Rightarrow> mpt_node" where
  "set_modified b (Node l m vh k sk v ch) = Node l b vh k sk v ch"

primrec set_hash :: "uint256 \<Rightarrow> mpt_node \<Rightarrow> mpt_node" where
  "set_hash x (Node l m vh k sk v ch) = Node l m x k sk v ch"

primrec set_sub_key :: "byte list \<Rightarrow> mpt_node \<Rightarrow> mpt_node" where
  "set_sub_key s (Node l m vh k sk v ch) = Node l m vh k s v ch"

primrec set_value :: "account option \<Rightarrow> mpt_node \<Rightarrow> mpt_node" where
  "set_value a (Node l m vh k sk v ch) = Node l m vh k sk a ch"

primrec set_children :: "mpt_node node_table option \<Rightarrow> mpt_node \<Rightarrow> mpt_node" where
  "set_children t (Node l m vh k sk v ch) = Node l m vh k sk v t"

section \<open>The table of children\<close>

definition new_table :: "'n node_table" where
  "new_table = Table 0 (replicate CHILDREN_COUNT (Cache False None []))"

definition table_find :: "nat \<Rightarrow> 'n node_table \<Rightarrow> 'n mpt_node_cache mres" where
  "table_find idx t = (if length (slots t) \<le> idx then Inl MptOutOfRange else Inr (slots t ! idx))"

definition get_exist :: "nat \<Rightarrow> 'n node_table \<Rightarrow> bool mres" where
  "get_exist idx t = (if length (slots t) \<le> idx then Inl MptOutOfRange else Inr (exist (slots t ! idx)))"

definition table_insert :: "nat \<Rightarrow> 'n option \<Rightarrow> 'n node_table \<Rightarrow> ('n node_table \<times> bool) mres" where
  "table_insert idx n t =
     (if length (slots t) \<le> idx then Inl MptOutOfRange
      else if exist (slots t ! idx) then Inr (t, False)
      else Inr (Table (tcount t + 1) ((slots t)[idx := Cache True n (ckey (slots t ! idx))]), True))"

text \<open>\<open>erase\<close> frees the node; a node that is not loaded is a null pointer there.\<close>

definition table_erase :: "nat \<Rightarrow> 'n node_table \<Rightarrow> ('n node_table \<times> bool) mres" where
  "table_erase idx t =
     (if length (slots t) \<le> idx then Inl MptOutOfRange
      else if exist (slots t ! idx)
      then if cnode (slots t ! idx) = None then Inl MptMemory
           else Inr (Table (tcount t - 1) ((slots t)[idx := Cache False None (ckey (slots t ! idx))]), True)
      else Inr (t, False))"

definition table_update :: "nat \<Rightarrow> 'n \<Rightarrow> 'n node_table \<Rightarrow> ('n node_table \<times> 'n option) mres" where
  "table_update idx n t =
     (if length (slots t) \<le> idx then Inl MptOutOfRange
      else if exist (slots t ! idx)
      then Inr (Table (tcount t) ((slots t)[idx := Cache True (Some n) (ckey (slots t ! idx))]),
                cnode (slots t ! idx))
      else Inr (t, None))"

definition table_first :: "'n node_table \<Rightarrow> nat option" where
  "table_first t = find (\<lambda>i. exist (slots t ! i)) [0..<length (slots t)]"

text \<open>A write through the pointer that a slot holds.\<close>

definition put_child :: "nat \<Rightarrow> 'n \<Rightarrow> 'n node_table \<Rightarrow> 'n node_table" where
  "put_child idx n t =
     Table (tcount t) ((slots t)[idx := Cache (exist (slots t ! idx)) (Some n) (ckey (slots t ! idx))])"

section \<open>Stored nodes\<close>

record mpt_node_storage =
  st_key :: "byte list"
  operator_type :: int
  st_sub_key :: "byte list"
  st_value_hash :: uint256
  st_values :: "byte list list"

definition UPDATE_OP_MUSE :: int where "UPDATE_OP_MUSE = 0"
definition DELETE_OP_MUSE :: int where "DELETE_OP_MUSE = -1"
definition INSERT_OP_MUSE :: int where "INSERT_OP_MUSE = 1"

text \<open>\<open>MUSE_IBinarySerializable(key, sub_key, value_hash, values)\<close>.\<close>

definition storage_val :: "mpt_node_storage \<Rightarrow> sval" where
  "storage_val s = VClass [VString (st_key s), VString (st_sub_key s), uint256_val (st_value_hash s),
     VVector (map VString (st_values s))]"

definition storage_type :: cty where
  "storage_type = TClass [TString, TString, uint256_type, TVector TString]"

definition child_keys :: "mpt_node node_table \<Rightarrow> byte list list" where
  "child_keys t = map (\<lambda>c. case cnode c of None \<Rightarrow> ckey c | Some n \<Rightarrow> nkey n) (filter exist (slots t))"

definition to_mpt_node_storage :: "int \<Rightarrow> mpt_node \<Rightarrow> mpt_node_storage mres" where
  "to_mpt_node_storage op_type n =
     (if leaf n
      then Inr \<lparr>st_key = nkey n, operator_type = op_type, st_sub_key = sub_key n,
                st_value_hash = value_hash n, st_values = []\<rparr>
      else case children n of
             None \<Rightarrow> Inl MptMemory
           | Some t \<Rightarrow>
               Inr \<lparr>st_key = nkey n, operator_type = op_type, st_sub_key = sub_key n,
                    st_value_hash = value_hash n, st_values = child_keys t\<rparr>)"

definition create_extension_node :: "bool \<Rightarrow> mpt_node" where
  "create_extension_node b = Node False b (base_binary_fill 0) [] [] None (Some new_table)"

definition create_leaf_node :: "bool \<Rightarrow> mpt_node" where
  "create_leaf_node b = Node True b (base_binary_fill 0) [] [] None None"

text \<open>The value of a hexadecimal digit; every other character counts as 0.\<close>

definition get_index_by_16 :: "byte \<Rightarrow> nat" where
  "get_index_by_16 c =
     (if 48 \<le> c \<and> c \<le> 57 then unat (c - 48)
      else if 65 \<le> c \<and> c \<le> 70 then unat (c - 65) + 10
      else if 97 \<le> c \<and> c \<le> 102 then unat (c - 97) + 10 else 0)"

primrec add_sons :: "nat \<Rightarrow> byte list list \<Rightarrow> mpt_node node_table \<Rightarrow> mpt_node node_table mres" where
  "add_sons idx [] t = Inr t"
| "add_sons idx (son # sons) t =
     (if length son \<le> idx then Inl MptOutOfRange
      else let son_idx = get_index_by_16 (son ! idx)
           in chain (table_insert son_idx None t) (\<lambda>(t, _).
              add_sons idx sons
                (Table (tcount t) ((slots t)[son_idx :=
                   Cache (exist (slots t ! son_idx)) (cnode (slots t ! son_idx)) son]))))"

definition mns_to_mnp :: "mpt_node_storage \<Rightarrow> bool \<Rightarrow> mpt_node mres" where
  "mns_to_mnp s is_leaf =
     (if is_leaf then Inr (Node True False (st_value_hash s) (st_key s) (st_sub_key s) None None)
      else chain (add_sons (length (st_key s) mod (Width * 2)) (st_values s) new_table) (\<lambda>t.
           Inr (Node False False (st_value_hash s) (st_key s) (st_sub_key s) None (Some t))))"

section \<open>The trie and its databases\<close>

record mpt_env =
  extensions_db :: "(byte list \<Rightarrow> byte list option) option"
  accounts_db :: "(byte list \<Rightarrow> byte list option) option"
  mpt_host :: ByteSequence
  mpt_sha3 :: "byte list \<Rightarrow> byte list"

type_synonym change_store = "byte list \<rightharpoonup> mpt_node_storage"

record merkle_patricia_trie =
  extension_nodes :: change_store
  root :: "mpt_node option"

text \<open>The objects that a view gives back.\<close>

primrec bytes_of_val :: "sval list \<Rightarrow> byte list" where
  "bytes_of_val [] = []"
| "bytes_of_val (v # vs) = (case v of VUChar b \<Rightarrow> b | _ \<Rightarrow> 0) # bytes_of_val vs"

definition uint256_of_val :: "sval \<Rightarrow> uint256" where
  "uint256_of_val v = (case v of VClass [VArray bs] \<Rightarrow> bytes_of_val bs | _ \<Rightarrow> base_binary_default)"

definition string_of_val :: "sval \<Rightarrow> byte list" where
  "string_of_val v = (case v of VString s \<Rightarrow> s | _ \<Rightarrow> [])"

definition storage_of_val :: "sval \<Rightarrow> mpt_node_storage" where
  "storage_of_val v =
     (case v of
        VClass [k, sk, x, VVector vs] \<Rightarrow>
          \<lparr>st_key = string_of_val k, operator_type = 0, st_sub_key = string_of_val sk,
           st_value_hash = uint256_of_val x, st_values = map string_of_val vs\<rparr>
      | _ \<Rightarrow> \<lparr>st_key = [], operator_type = 0, st_sub_key = [],
             st_value_hash = base_binary_default, st_values = []\<rparr>)"

definition account_of_val :: "sval \<Rightarrow> account" where
  "account_of_val v =
     (case v of
        VClass [a, VUInt64 n, VMap kvs] \<Rightarrow>
          \<lparr>address = uint256_of_val a, nonce = n,
           balances = map (\<lambda>(k, x). (case k of VUInt32 w \<Rightarrow> w | _ \<Rightarrow> 0, case x of VUInt64 w \<Rightarrow> w | _ \<Rightarrow> 0)) kvs\<rparr>
      | _ \<Rightarrow> account_default)"

definition read_object :: "mpt_env \<Rightarrow> cty \<Rightarrow> byte list \<Rightarrow> sval mres" where
  "read_object env ty bs =
     (case snd (view_output_val std_ops ty (make_view (mpt_host env) bs (length bs))) of
        Inl e \<Rightarrow> Inl (MptSerializer e)
      | Inr v \<Rightarrow> Inr v)"

definition load_account :: "mpt_env \<Rightarrow> byte list \<Rightarrow> account mres" where
  "load_account env k =
     (case accounts_db env of
        None \<Rightarrow> Inl MptLogicError
      | Some db \<Rightarrow>
          (case base_binary_hex base_binary_default k of
             None \<Rightarrow> Inl MptInvalidArgument
           | Some a \<Rightarrow>
               (case db a of
                  None \<Rightarrow> Inl MptLogicError
                | Some bs \<Rightarrow> chain (read_object env account_type bs) (\<lambda>v. Inr (account_of_val v)))))"

text \<open>The node of a slot, read from the databases when it is not in memory.\<close>

definition load_node_from_leveldb :: "mpt_env \<Rightarrow> mpt_node mpt_node_cache \<Rightarrow> mpt_node mres" where
  "load_node_from_leveldb env c =
     (case cnode c of
        Some n \<Rightarrow> Inr n
      | None \<Rightarrow>
          (case extensions_db env of
             None \<Rightarrow> Inl MptLogicError
           | Some db \<Rightarrow>
               let is_leaf = (64 \<le> length (ckey c))
               in case db (ckey c) of
                    None \<Rightarrow> Inl MptLogicError
                  | Some bs \<Rightarrow>
                      chain (read_object env storage_type bs) (\<lambda>v.
                      chain (mns_to_mnp (storage_of_val v) is_leaf) (\<lambda>n.
                      if is_leaf then chain (load_account env (ckey c)) (\<lambda>a. Inr (set_value (Some a) n))
                      else Inr n))))"

text \<open>The child of a slot, and the table in which it is loaded.\<close>

definition load_at :: "mpt_env \<Rightarrow> nat \<Rightarrow> mpt_node node_table \<Rightarrow> (mpt_node node_table \<times> mpt_node) mres" where
  "load_at env idx t =
     chain (table_find idx t) (\<lambda>c. chain (load_node_from_leveldb env c) (\<lambda>n. Inr (put_child idx n t, n)))"

section \<open>Walking down\<close>

text \<open>The nibbles of a key, the high one of each byte first.\<close>

primrec subscripts :: "uint256 \<Rightarrow> byte list" where
  "subscripts [] = []"
| "subscripts (b # bs) = drop_bit 4 b # and b 15 # subscripts bs"

text \<open>
  The loop that compares the nibbles of an edge (the \<open>sub_key\<close> of a child) with the nibbles of the
  key that are left: the key ends with the edge, ends inside it, goes on below it, or differs at
  position \<open>j\<close>. An empty edge is read outside its string.
\<close>

datatype edge = Hit | Short | Deeper "byte list" | Differ nat "byte list" | BadEdge

fun match_edge :: "nat \<Rightarrow> byte list \<Rightarrow> byte list \<Rightarrow> edge" where
  "match_edge j (s # ss) (k # ks) =
     (if s = k
      then if ks = [] then if ss = [] then Hit else Short
           else if ss = [] then Deeper ks
           else match_edge (Suc j) ss ks
      else Differ j (k # ks))"
| "match_edge j _ _ = BadEdge"

lemma match_edge_shorter: "match_edge j ss ks = Deeper rest \<Longrightarrow> length rest < length ks"
  by (induction j ss ks rule: match_edge.induct) (fastforce split: if_splits)+

lemma match_edge_shorter_Cons [termination_simp]:
  "match_edge j ss (k # ks) = Deeper rest \<Longrightarrow> length rest < Suc (length ks)"
  by (drule match_edge_shorter) simp

text \<open>
  The common loop of \<open>search\<close>, \<open>find\<close> and \<open>search_and_mark\<close>: the tree with the nodes that were
  loaded, whether the key is there, and the pointer to its value. With \<open>mark\<close> the nodes above the
  leaf are marked when the key is there.
\<close>

fun descend :: "mpt_env \<Rightarrow> bool \<Rightarrow> byte list \<Rightarrow> mpt_node \<Rightarrow> (mpt_node \<times> bool \<times> account option) mres" where
  "descend env mark [] node = Inr (node, False, None)"
| "descend env mark (k # ks) node =
     (case children node of
        None \<Rightarrow> Inl MptMemory
      | Some t \<Rightarrow>
          chain (get_exist (unat k) t) (\<lambda>e.
          if \<not> e then Inr (node, False, None)
          else chain (load_at env (unat k) t) (\<lambda>p.
               let t' = fst p; next_node = snd p; node' = set_children (Some t') node
               in case match_edge 0 (sub_key next_node) (k # ks) of
                    Hit \<Rightarrow> Inr (if mark then set_modified True node' else node', True, nvalue next_node)
                  | Short \<Rightarrow> Inr (node', False, None)
                  | Differ j r \<Rightarrow> Inr (node', False, None)
                  | BadEdge \<Rightarrow> Inl MptMemory
                  | Deeper rest \<Rightarrow>
                      chain (descend env mark rest next_node) (\<lambda>(n, hit, v).
                      let node' = set_children (Some (put_child (unat k) n t')) node
                      in Inr (if mark \<and> hit then set_modified True node' else node', hit, v)))))"

definition with_root ::
  "(mpt_node \<Rightarrow> (mpt_node \<times> 'a) mres) \<Rightarrow> merkle_patricia_trie \<Rightarrow> (merkle_patricia_trie \<times> 'a) mres" where
  "with_root f t =
     (case root t of
        None \<Rightarrow> Inl MptRuntimeError
      | Some n \<Rightarrow> chain (f n) (\<lambda>(n', a). Inr (t\<lparr>root := Some n'\<rparr>, a)))"

definition mpt_search :: "mpt_env \<Rightarrow> uint256 \<Rightarrow> merkle_patricia_trie \<Rightarrow> (merkle_patricia_trie \<times> account option) mres" where
  "mpt_search env key =
     with_root (\<lambda>n. chain (descend env False (subscripts key) n) (\<lambda>(n, hit, v). Inr (n, v)))"

definition mpt_find :: "mpt_env \<Rightarrow> uint256 \<Rightarrow> merkle_patricia_trie \<Rightarrow> (merkle_patricia_trie \<times> bool) mres" where
  "mpt_find env key =
     with_root (\<lambda>n. chain (descend env False (subscripts key) n) (\<lambda>(n, hit, v). Inr (n, hit)))"

definition search_and_mark :: "mpt_env \<Rightarrow> uint256 \<Rightarrow> merkle_patricia_trie \<Rightarrow> (merkle_patricia_trie \<times> account option) mres" where
  "search_and_mark env key =
     with_root (\<lambda>n. chain (descend env True (subscripts key) n) (\<lambda>(n, hit, v). Inr (n, v)))"

section \<open>Insertion\<close>

text \<open>\<open>extension_nodes[node->key] = node->to_mpt_node_storage(op)\<close>.\<close>

definition record_node :: "int \<Rightarrow> mpt_node \<Rightarrow> change_store \<Rightarrow> change_store mres" where
  "record_node op_type n ext =
     chain (to_mpt_node_storage op_type n) (\<lambda>st. Inr (ext(nkey n \<mapsto> st)))"

definition new_leaf :: "uint256 \<Rightarrow> byte list \<Rightarrow> account \<Rightarrow> mpt_node" where
  "new_leaf key sk a =
     Node True True (base_binary_fill 0) (get_hex key) sk (Some a) None"

text \<open>
  The edge to \<open>next_node\<close> is split at its position \<open>j\<close>: a new node takes its place and has the old
  node and a new leaf as children; \<open>r\<close> is what is left of the key.
\<close>

definition split_edge ::
  "uint256 \<Rightarrow> account \<Rightarrow> nat \<Rightarrow> byte list \<Rightarrow> nat \<Rightarrow> mpt_node node_table \<Rightarrow> mpt_node \<Rightarrow> mpt_node \<Rightarrow>
   change_store \<Rightarrow> (mpt_node \<times> change_store) mres" where
  "split_edge key a j r idx t next_node node ext =
     (let leaf_node = new_leaf key r a;
          prev_node = set_sub_key (drop j (sub_key next_node)) next_node
      in chain (table_insert (unat (hd r)) (Some leaf_node) new_table) (\<lambda>(ct, _).
         chain (table_insert (unat (hd (sub_key prev_node))) (Some prev_node) ct) (\<lambda>(ct, _).
         let child = Node False True (base_binary_fill 0)
                       (take (Width * 2 - length r) (get_hex key)) (take j (sub_key next_node))
                       None (Some ct)
         in chain (table_update idx child t) (\<lambda>(t', _).
            let node' = set_children (Some t') node
            in chain (record_node UPDATE_OP_MUSE prev_node ext) (\<lambda>ext.
               chain (record_node INSERT_OP_MUSE child ext) (\<lambda>ext.
               chain (record_node UPDATE_OP_MUSE node' ext) (\<lambda>ext.
               chain (record_node INSERT_OP_MUSE leaf_node ext) (\<lambda>ext.
               Inr (set_modified True node', ext)))))))))"

text \<open>The loop of \<open>insert\<close>; the flag tells whether the nodes above are marked.\<close>

fun insert_at ::
  "mpt_env \<Rightarrow> uint256 \<Rightarrow> account \<Rightarrow> byte list \<Rightarrow> mpt_node \<Rightarrow> change_store \<Rightarrow>
   (mpt_node \<times> change_store \<times> bool) mres" where
  "insert_at env key a [] node ext = Inr (node, ext, False)"
| "insert_at env key a (k # ks) node ext =
     (case children node of
        None \<Rightarrow> Inl MptMemory
      | Some t \<Rightarrow>
          chain (get_exist (unat k) t) (\<lambda>e.
          if \<not> e
          then let leaf_node = new_leaf key (k # ks) a
               in chain (table_insert (unat k) (Some leaf_node) t) (\<lambda>(t', _).
                  let node' = set_children (Some t') node
                  in chain (record_node UPDATE_OP_MUSE node' ext) (\<lambda>ext.
                     chain (record_node INSERT_OP_MUSE leaf_node ext) (\<lambda>ext.
                     Inr (set_modified True node', ext, True))))
          else chain (load_at env (unat k) t) (\<lambda>p.
               let t' = fst p; next_node = snd p; node' = set_children (Some t') node
               in case match_edge 0 (sub_key next_node) (k # ks) of
                    Hit \<Rightarrow> Inr (node', ext, False)
                  | Short \<Rightarrow> Inr (node', ext, False)
                  | BadEdge \<Rightarrow> Inl MptMemory
                  | Differ j r \<Rightarrow>
                      chain (split_edge key a j r (unat k) t' next_node node ext)
                        (\<lambda>(n, ext). Inr (n, ext, True))
                  | Deeper rest \<Rightarrow>
                      chain (insert_at env key a rest next_node ext) (\<lambda>(n, ext, changed).
                      let node' = set_children (Some (put_child (unat k) n t')) node
                      in Inr (if changed then set_modified True node' else node', ext, changed)))))"

definition mpt_insert :: "mpt_env \<Rightarrow> uint256 \<Rightarrow> account \<Rightarrow> merkle_patricia_trie \<Rightarrow> merkle_patricia_trie mres" where
  "mpt_insert env key a t =
     (case root t of
        None \<Rightarrow> Inl MptRuntimeError
      | Some n \<Rightarrow>
          chain (insert_at env key a (subscripts key) n (extension_nodes t)) (\<lambda>(n', ext, _).
          Inr (t\<lparr>root := Some n', extension_nodes := ext\<rparr>)))"

section \<open>Deletion\<close>

text \<open>
  What the loop of \<open>erase\<close> leaves to the node above: nothing, the marking, or the replacement of the
  parent of the deleted leaf by its only other child.
\<close>

datatype erased = NotFound mpt_node | Erased mpt_node | Merge mpt_node mpt_node

text \<open>The parent of the leaf: \<open>is_root\<close> says whether it is the root.\<close>

definition erase_leaf ::
  "mpt_env \<Rightarrow> bool \<Rightarrow> nat \<Rightarrow> mpt_node node_table \<Rightarrow> mpt_node \<Rightarrow> mpt_node \<Rightarrow> change_store \<Rightarrow>
   (erased \<times> change_store) mres" where
  "erase_leaf env is_root idx t leaf_node parent ext =
     chain (record_node DELETE_OP_MUSE leaf_node ext) (\<lambda>ext.
     chain (table_erase idx t) (\<lambda>(t', _).
     let parent' = set_modified True (set_children (Some t') parent)
     in if is_root
        then chain (record_node UPDATE_OP_MUSE parent' ext) (\<lambda>ext. Inr (Erased parent', ext))
        else if tcount t' = 1
        then (case table_first t' of
                None \<Rightarrow> Inr (Erased parent', ext)
              | Some i \<Rightarrow>
                  chain (record_node DELETE_OP_MUSE parent' ext) (\<lambda>ext.
                  chain (load_at env i t') (\<lambda>(_, brother).
                  Inr (Merge parent'
                        (set_modified True (set_sub_key (sub_key parent @ sub_key brother) brother)), ext))))
        else Inr (Erased parent', ext)))"

text \<open>The grandparent gives the place of the parent to the brother.\<close>

definition adopt ::
  "nat \<Rightarrow> mpt_node node_table \<Rightarrow> mpt_node \<Rightarrow> mpt_node \<Rightarrow> mpt_node \<Rightarrow> change_store \<Rightarrow>
   (mpt_node \<times> change_store) mres" where
  "adopt idx t parent brother node ext =
     chain (table_erase (unat (hd (sub_key parent))) (put_child idx parent t)) (\<lambda>(t', _).
     chain (table_insert (unat (hd (sub_key brother))) (Some brother) t') (\<lambda>(t'', _).
     let node' = set_modified True (set_children (Some t'') node)
     in chain (record_node UPDATE_OP_MUSE brother ext) (\<lambda>ext.
        chain (record_node UPDATE_OP_MUSE node' ext) (\<lambda>ext. Inr (node', ext)))))"

fun erase_at ::
  "mpt_env \<Rightarrow> bool \<Rightarrow> byte list \<Rightarrow> mpt_node \<Rightarrow> change_store \<Rightarrow> (erased \<times> change_store) mres" where
  "erase_at env is_root [] node ext = Inr (NotFound node, ext)"
| "erase_at env is_root (k # ks) node ext =
     (case children node of
        None \<Rightarrow> Inl MptMemory
      | Some t \<Rightarrow>
          chain (get_exist (unat k) t) (\<lambda>e.
          if \<not> e then Inr (NotFound node, ext)
          else chain (load_at env (unat k) t) (\<lambda>p.
               let t' = fst p; next_node = snd p; node' = set_children (Some t') node
               in case match_edge 0 (sub_key next_node) (k # ks) of
                    Hit \<Rightarrow> erase_leaf env is_root (unat (hd (sub_key next_node))) t' next_node node ext
                  | Short \<Rightarrow> Inr (NotFound node', ext)
                  | Differ j r \<Rightarrow> Inr (NotFound node', ext)
                  | BadEdge \<Rightarrow> Inl MptMemory
                  | Deeper rest \<Rightarrow>
                      chain (erase_at env False rest next_node ext) (\<lambda>(e, ext).
                      case e of
                        NotFound n \<Rightarrow> Inr (NotFound (set_children (Some (put_child (unat k) n t')) node), ext)
                      | Erased n \<Rightarrow>
                          Inr (Erased (set_modified True
                                (set_children (Some (put_child (unat k) n t')) node)), ext)
                      | Merge parent brother \<Rightarrow>
                          chain (adopt (unat k) t' parent brother node ext) (\<lambda>(n, ext). Inr (Erased n, ext))))))"

definition mpt_erase :: "mpt_env \<Rightarrow> uint256 \<Rightarrow> merkle_patricia_trie \<Rightarrow> (merkle_patricia_trie \<times> bool) mres" where
  "mpt_erase env key t =
     (case root t of
        None \<Rightarrow> Inl MptRuntimeError
      | Some n \<Rightarrow>
          chain (erase_at env True (subscripts key) n (extension_nodes t)) (\<lambda>(e, ext).
          case e of
            NotFound n' \<Rightarrow> Inr (t\<lparr>root := Some n', extension_nodes := ext\<rparr>, False)
          | Erased n' \<Rightarrow> Inr (t\<lparr>root := Some n', extension_nodes := ext\<rparr>, True)
          | Merge _ _ \<Rightarrow> Inl MptMemory))"

section \<open>The root hash\<close>

text \<open>Pointers into the tree are paths: the slots taken from the root.\<close>

primrec node_at :: "nat list \<Rightarrow> mpt_node \<Rightarrow> mpt_node option" where
  "node_at [] n = Some n"
| "node_at (i # p) n =
     (case children n of
        None \<Rightarrow> None
      | Some t \<Rightarrow>
          if i < length (slots t)
          then (case cnode (slots t ! i) of None \<Rightarrow> None | Some c \<Rightarrow> node_at p c) else None)"

primrec replace_at :: "nat list \<Rightarrow> mpt_node \<Rightarrow> mpt_node \<Rightarrow> mpt_node" where
  "replace_at [] m n = m"
| "replace_at (i # p) m n =
     (case children n of
        None \<Rightarrow> n
      | Some t \<Rightarrow>
          if i < length (slots t)
          then (case cnode (slots t ! i) of
                  None \<Rightarrow> n
                | Some c \<Rightarrow> set_children (Some (put_child i (replace_at p m c) t)) n)
          else n)"

text \<open>The children of a node are loaded; those that are branches and marked are to be visited.\<close>

primrec scan :: "mpt_env \<Rightarrow> nat list \<Rightarrow> mpt_node node_table \<Rightarrow> (mpt_node node_table \<times> nat list) mres" where
  "scan env [] t = Inr (t, [])"
| "scan env (i # is) t =
     chain (get_exist i t) (\<lambda>e.
     if \<not> e then scan env is t
     else chain (load_at env i t) (\<lambda>(t, c).
          chain (scan env is t) (\<lambda>(t, js).
          Inr (t, if modified c \<and> \<not> leaf c then i # js else js))))"

text \<open>
  The first loop: \<open>aux\<close> is the stack of nodes to visit, \<open>cache\<close> the stack of nodes to compute, both
  with the top in front. \<open>None\<close> would be a loop that does not end.
\<close>

partial_function (option) collect ::
  "mpt_env \<Rightarrow> nat list list \<Rightarrow> nat list list \<Rightarrow> mpt_node \<Rightarrow> (nat list list \<times> mpt_node) mres option" where
  "collect env aux cache n =
     (case aux of
        [] \<Rightarrow> Some (Inr (cache, n))
      | p # aux' \<Rightarrow>
          (case node_at p n of
             None \<Rightarrow> Some (Inl MptMemory)
           | Some current \<Rightarrow>
               if leaf current then collect env aux' cache n
               else (case children current of
                       None \<Rightarrow> Some (Inl MptMemory)
                     | Some t \<Rightarrow>
                         if tcount t = 0 then collect env aux' cache n
                         else (case scan env [0..<CHILDREN_COUNT] t of
                                 Inl e \<Rightarrow> Some (Inl e)
                               | Inr r \<Rightarrow>
                                   collect env (rev (map (\<lambda>j. p @ [j]) (snd r)) @ aux')
                                     (rev (map (\<lambda>j. p @ [j]) (snd r)) @ cache)
                                     (replace_at p (set_children (Some (fst r)) current) n)))))"

text \<open>The sum of the hashes of the children; the hash of a leaf is computed from its account.\<close>

definition restamp :: "byte list \<Rightarrow> uint256 \<Rightarrow> change_store \<Rightarrow> change_store" where
  "restamp k x ext = (case ext k of None \<Rightarrow> ext | Some st \<Rightarrow> ext(k \<mapsto> st\<lparr>st_value_hash := x\<rparr>))"

primrec sum_children ::
  "mpt_env \<Rightarrow> nat list \<Rightarrow> mpt_node node_table \<Rightarrow> change_store \<Rightarrow> uint256 \<Rightarrow>
   (mpt_node node_table \<times> change_store \<times> uint256) mres" where
  "sum_children env [] t ext result = Inr (t, ext, result)"
| "sum_children env (i # is) t ext result =
     chain (get_exist i t) (\<lambda>e.
     if \<not> e then sum_children env is t ext result
     else chain (load_at env i t) (\<lambda>(t, c).
          chain (if leaf c
                 then (case nvalue c of
                         None \<Rightarrow> Inl MptMemory
                       | Some a \<Rightarrow>
                           let x = account_hash (mpt_host env) (mpt_sha3 env) a
                           in Inr (set_hash x c, restamp (nkey c) x ext))
                 else Inr (c, ext)) (\<lambda>(c, ext).
          sum_children env is (put_child i (set_modified False c) t) ext (uint256_plus result (value_hash c)))))"

definition rehash :: "mpt_env \<Rightarrow> mpt_node \<Rightarrow> change_store \<Rightarrow> (mpt_node \<times> change_store) mres" where
  "rehash env node ext =
     (case children node of
        None \<Rightarrow> Inl MptMemory
      | Some t \<Rightarrow>
          chain (sum_children env [0..<CHILDREN_COUNT] t ext base_binary_default) (\<lambda>(t', ext, result).
          let x = get_sha3_256 (mpt_sha3 env) result;
              node' = set_hash x (set_modified False (set_children (Some t') node))
          in if ext (nkey node) \<noteq> None then Inr (node', restamp (nkey node) x ext)
             else chain (record_node UPDATE_OP_MUSE node' ext) (\<lambda>ext. Inr (node', ext))))"

primrec rehash_all :: "mpt_env \<Rightarrow> nat list list \<Rightarrow> mpt_node \<Rightarrow> change_store \<Rightarrow> (mpt_node \<times> change_store) mres" where
  "rehash_all env [] n ext = Inr (n, ext)"
| "rehash_all env (p # ps) n ext =
     (case node_at p n of
        None \<Rightarrow> Inl MptMemory
      | Some current \<Rightarrow>
          chain (rehash env current ext) (\<lambda>(current', ext).
          rehash_all env ps (replace_at p current' n) ext))"

definition mpt_get_hash :: "mpt_env \<Rightarrow> merkle_patricia_trie \<Rightarrow> (merkle_patricia_trie \<times> uint256) mres option" where
  "mpt_get_hash env t =
     (case root t of
        None \<Rightarrow> Some (Inl MptRuntimeError)
      | Some n \<Rightarrow>
          if modified n
          then (case collect env [[]] [[]] n of
                  None \<Rightarrow> None
                | Some r \<Rightarrow>
                    Some (chain r (\<lambda>(cache, n).
                          chain (rehash_all env cache n (extension_nodes t)) (\<lambda>(n, ext).
                          Inr (t\<lparr>root := Some n, extension_nodes := ext\<rparr>, value_hash n)))))
          else Some (Inr (t, value_hash n)))"

text \<open>\<open>get_change_store\<close> brings the hashes up to date and gives the store.\<close>

definition get_change_store :: "mpt_env \<Rightarrow> merkle_patricia_trie \<Rightarrow> (merkle_patricia_trie \<times> change_store) mres option" where
  "get_change_store env t =
     map_option (\<lambda>r. chain r (\<lambda>(t, _). Inr (t, extension_nodes t))) (mpt_get_hash env t)"

section \<open>Construction and moves\<close>

definition empty_root :: mpt_node where
  "empty_root = Node False True (base_binary_fill 0) EMPTY_KEY [] None (Some new_table)"

text \<open>The trie in memory.\<close>

definition mpt_memory :: "mpt_env \<Rightarrow> merkle_patricia_trie mres option" where
  "mpt_memory env =
     map_option (\<lambda>r. chain r (\<lambda>(t, _). Inr t))
       (mpt_get_hash env \<lparr>extension_nodes = Map.empty, root = Some empty_root\<rparr>)"

definition mpt_move :: "merkle_patricia_trie \<Rightarrow> merkle_patricia_trie \<times> merkle_patricia_trie" where
  "mpt_move other = (\<lparr>extension_nodes = Map.empty, root = root other\<rparr>, other\<lparr>root := None\<rparr>)"

definition mpt_move_assign ::
  "merkle_patricia_trie \<Rightarrow> merkle_patricia_trie \<Rightarrow> merkle_patricia_trie \<times> merkle_patricia_trie" where
  "mpt_move_assign other t = (t\<lparr>root := root other\<rparr>, other\<lparr>root := None\<rparr>)"

text \<open>
  The trie over the databases: the stored root, or a new one together with the bytes that are
  written under its key. \<open>put_ok\<close> is the status of the write.
\<close>

definition mpt_open ::
  "mpt_env \<Rightarrow> bool \<Rightarrow> (merkle_patricia_trie \<times> (byte list \<times> byte list) option) mres option" where
  "mpt_open env put_ok =
     (case extensions_db env of
        None \<Rightarrow> Some (Inl MptMemory)
      | Some db \<Rightarrow>
          (case db EMPTY_KEY of
             Some bs \<Rightarrow>
               Some (chain (read_object env storage_type bs) (\<lambda>v.
                     chain (mns_to_mnp (storage_of_val v) False) (\<lambda>n.
                     Inr (\<lparr>extension_nodes = Map.empty, root = Some n\<rparr>, None))))
           | None \<Rightarrow>
               map_option (\<lambda>r.
                 chain r (\<lambda>(t, x).
                 case root t of
                   None \<Rightarrow> Inl MptMemory
                 | Some n \<Rightarrow>
                     let n = set_hash x n
                     in chain (to_mpt_node_storage INSERT_OP_MUSE n) (\<lambda>st.
                        case input_val (storage_val st) (new_serializer (mpt_host env)) of
                          (s, Inl e) \<Rightarrow> Inl (MptSerializer e)
                        | (s, Inr _) \<Rightarrow>
                            if put_ok then Inr (t\<lparr>root := Some n\<rparr>, Some (EMPTY_KEY, byteStream s))
                            else Inl MptRuntimeError)))
                 (mpt_get_hash env \<lparr>extension_nodes = Map.empty, root = Some empty_root\<rparr>)))"

text \<open>A caller that changes an account through the pointer \<open>search_and_mark\<close> gave it.\<close>

fun update_at :: "byte list \<Rightarrow> (account \<Rightarrow> account) \<Rightarrow> mpt_node \<Rightarrow> mpt_node" where
  "update_at [] f node = node"
| "update_at (k # ks) f node =
     (case children node of
        None \<Rightarrow> node
      | Some t \<Rightarrow>
          if unat k < length (slots t) \<and> exist (slots t ! unat k)
          then (case cnode (slots t ! unat k) of
                  None \<Rightarrow> node
                | Some c \<Rightarrow>
                    (case match_edge 0 (sub_key c) (k # ks) of
                       Hit \<Rightarrow> set_children (Some (put_child (unat k) (set_value (map_option f (nvalue c)) c) t)) node
                     | Deeper rest \<Rightarrow> set_children (Some (put_child (unat k) (update_at rest f c) t)) node
                     | _ \<Rightarrow> node))
          else node)"

end
