(* ===== verification/Mpt_Shape.thy ===== *)
theory Mpt_Shape
  imports Mpt
begin

text \<open>
  The shape of a trie kept in memory: every existing slot holds its node, a leaf ends at depth 64, a
  branch below the root has at least two children, and a child sits in the slot of the first
  nibble of its edge. Lookup, insertion and deletion keep the shape and act on the contents as on
  a map; the shape is determined by the contents.
\<close>

section \<open>Children\<close>

definition child :: "mpt_node \<Rightarrow> nat \<Rightarrow> mpt_node option" where
  "child n i =
     (case children n of
        None \<Rightarrow> None
      | Some t \<Rightarrow> if i < length (slots t) \<and> exist (slots t ! i) then cnode (slots t ! i) else None)"

definition wf_table :: "'n node_table \<Rightarrow> bool" where
  "wf_table t \<longleftrightarrow> length (slots t) = 16 \<and> tcount t = length (filter exist (slots t)) \<and>
     (\<forall>c \<in> set (slots t). exist c \<longleftrightarrow> cnode c \<noteq> None)"

lemma node_fields [simp]:
  "leaf (set_modified b n) = leaf n" "leaf (set_hash x n) = leaf n" "leaf (set_sub_key s n) = leaf n"
  "leaf (set_value v n) = leaf n" "leaf (set_children ch n) = leaf n"
  "sub_key (set_modified b n) = sub_key n" "sub_key (set_hash x n) = sub_key n" "sub_key (set_sub_key s n) = s"
  "sub_key (set_value v n) = sub_key n" "sub_key (set_children ch n) = sub_key n"
  "nvalue (set_modified b n) = nvalue n" "nvalue (set_hash x n) = nvalue n" "nvalue (set_sub_key s n) = nvalue n"
  "nvalue (set_value v n) = v" "nvalue (set_children ch n) = nvalue n"
  "children (set_modified b n) = children n" "children (set_hash x n) = children n"
  "children (set_sub_key s n) = children n" "children (set_value v n) = children n"
  "children (set_children ch n) = ch"
  "modified (set_modified b n) = b" "modified (set_hash x n) = modified n" "modified (set_sub_key s n) = modified n"
  "modified (set_value v n) = modified n" "modified (set_children ch n) = modified n"
  "value_hash (set_modified b n) = value_hash n" "value_hash (set_hash x n) = x"
  "value_hash (set_sub_key s n) = value_hash n" "value_hash (set_value v n) = value_hash n"
  "value_hash (set_children ch n) = value_hash n"
  "nkey (set_modified b n) = nkey n" "nkey (set_hash x n) = nkey n" "nkey (set_sub_key s n) = nkey n"
  "nkey (set_value v n) = nkey n" "nkey (set_children ch n) = nkey n"
  by (cases n; simp)+

lemma child_setters [simp]:
  "child (set_modified b n) = child n" "child (set_hash x n) = child n" "child (set_sub_key s n) = child n"
  "child (set_value v n) = child n"
  by (simp_all add: child_def fun_eq_iff)

lemma child_cong: "children n = children m \<Longrightarrow> child n = child m"
  by (simp add: child_def fun_eq_iff)

lemma cache_size:
  assumes "c \<in> set (slots t)" "cnode c = Some n"
  shows "size n < size_node_table size t"
proof -
  obtain m cs where t: "t = Table m cs" by (cases t)
  obtain b k where c: "c = Cache b (Some n) k" using assms(2) by (cases c) simp
  have "size n < size_mpt_node_cache size c" by (simp add: c)
  moreover have "size_mpt_node_cache size c \<le> size_list (size_mpt_node_cache size) cs"
    using assms(1) t by (simp add: size_list_estimation' order_less_imp_le)
  ultimately show ?thesis using t by simp
qed

lemma child_size [termination_simp]: "child n i = Some c \<Longrightarrow> size c < size n"
proof (cases n)
  case (Node l m vh k sk v ch)
  assume "child n i = Some c"
  then obtain t where t: "ch = Some t" "i < length (slots t)" "cnode (slots t ! i) = Some c"
    using Node by (auto simp: child_def split: option.splits if_splits)
  then have "size c < size_node_table size t" using cache_size by (meson nth_mem)
  then show ?thesis using Node t by simp
qed

lemma wf_table_slot:
  assumes "wf_table t" "i < 16"
  shows "exist (slots t ! i) \<longleftrightarrow> cnode (slots t ! i) \<noteq> None" "i < length (slots t)"
  using assms by (auto simp: wf_table_def)

lemma child_table: "children n = Some t \<Longrightarrow> wf_table t \<Longrightarrow> i < 16 \<Longrightarrow> child n i = cnode (slots t ! i)"
  using wf_table_slot [of t i] by (auto simp: child_def)

lemma child_less: "children n = Some t \<Longrightarrow> wf_table t \<Longrightarrow> child n i = Some c \<Longrightarrow> i < 16"
  by (auto simp: child_def wf_table_def split: if_splits)

lemma get_exist_child: "children n = Some t \<Longrightarrow> wf_table t \<Longrightarrow> i < 16 \<Longrightarrow>
    get_exist i t = Inr (child n i \<noteq> None)"
  using wf_table_slot [of t i] by (simp add: get_exist_def child_table not_le)

lemma put_child_same: "cnode (slots t ! i) = Some n \<Longrightarrow> put_child i n t = t"
proof -
  assume "cnode (slots t ! i) = Some n"
  then have "Cache (exist (slots t ! i)) (Some n) (ckey (slots t ! i)) = slots t ! i"
    by (metis mpt_node_cache.collapse)
  then show ?thesis by (simp add: put_child_def)
qed

lemma load_at_child:
  assumes "children n = Some t" "wf_table t" "i < 16" "child n i = Some c"
  shows "load_at env i t = Inr (t, c)"
proof -
  have "cnode (slots t ! i) = Some c" using assms by (simp add: child_table)
  then show ?thesis
    using wf_table_slot [OF assms(2,3)]
    by (simp add: load_at_def table_find_def load_node_from_leveldb_def put_child_same)
qed

lemma set_children_same: "children n = Some t \<Longrightarrow> set_children (Some t) n = n"
  by (cases n) simp

lemma set_children_twice: "set_children t (set_children t' n) = set_children t n"
  by (cases n) simp

text \<open>A slot that is filled, emptied or given another node.\<close>

lemma filter_update:
  assumes "i < length xs"
  shows "length (filter P (xs[i := x])) + (if P (xs ! i) then 1 else 0) =
    length (filter P xs) + (if P x then 1 else 0)"
  using assms
proof (induction xs arbitrary: i)
  case (Cons y ys)
  then show ?case by (cases i) auto
qed simp

lemma wf_table_update:
  assumes "wf_table t" "i < 16" "exist c \<longleftrightarrow> cnode c \<noteq> None"
    and "n + (if exist (slots t ! i) then 1 else 0) = tcount t + (if exist c then 1 else 0)"
  shows "wf_table (Table n ((slots t)[i := c]))"
proof -
  have "length (filter exist ((slots t)[i := c])) = n"
    using assms filter_update [of i "slots t" exist c] by (auto simp: wf_table_def split: if_splits)
  then show ?thesis using assms set_update_subset_insert [of "slots t" i c] by (auto simp: wf_table_def)
qed

lemma put_child_wf:
  assumes "wf_table t" "i < 16" "cnode (slots t ! i) \<noteq> None"
  shows "wf_table (put_child i c t)"
  unfolding put_child_def using assms by (intro wf_table_update) (auto simp: wf_table_def)

lemma child_put_child:
  assumes "children n = Some t" "wf_table t" "i < 16" "child n i \<noteq> None"
  shows "child (set_children (Some (put_child i c t)) n) = (child n)(i := Some c)"
  using assms by (auto simp: child_def put_child_def wf_table_def nth_list_update fun_eq_iff)

lemma table_insert_new:
  assumes "wf_table t" "i < 16" "\<not> exist (slots t ! i)"
  obtains t' where "table_insert i (Some c) t = Inr (t', True)" "wf_table t'"
    "\<And>n m. children n = Some t \<Longrightarrow> children m = Some t' \<Longrightarrow> child m = (child n)(i := Some c)"
proof -
  let ?t = "Table (tcount t + 1) ((slots t)[i := Cache True (Some c) (ckey (slots t ! i))])"
  have "table_insert i (Some c) t = Inr (?t, True)"
    using assms by (simp add: table_insert_def wf_table_def)
  moreover have "wf_table ?t" using assms by (intro wf_table_update) auto
  moreover have "child m = (child n)(i := Some c)" if "children n = Some t" "children m = Some ?t" for n m
    using that assms by (auto simp: child_def wf_table_def nth_list_update fun_eq_iff)
  ultimately show ?thesis using that by blast
qed

lemma table_erase_child:
  assumes "wf_table t" "i < 16" "exist (slots t ! i)"
  obtains t' where "table_erase i t = Inr (t', True)" "wf_table t'" "tcount t' = tcount t - 1"
    "\<And>n m. children n = Some t \<Longrightarrow> children m = Some t' \<Longrightarrow> child m = (child n)(i := None)"
proof -
  let ?t = "Table (tcount t - 1) ((slots t)[i := Cache False None (ckey (slots t ! i))])"
  have e: "cnode (slots t ! i) \<noteq> None" using wf_table_slot [OF assms(1,2)] assms(3) by simp
  have "slots t ! i \<in> set (filter exist (slots t))" using assms by (auto simp: wf_table_def)
  then have "0 < length (filter exist (slots t))" by (rule length_pos_if_in_set)
  then have "0 < tcount t" using assms(1) by (simp add: wf_table_def)
  then have "wf_table ?t" using assms by (intro wf_table_update) auto
  moreover have "table_erase i t = Inr (?t, True)"
    using assms e by (auto simp: table_erase_def wf_table_def)
  moreover have "child m = (child n)(i := None)" if "children n = Some t" "children m = Some ?t" for n m
    using that assms by (auto simp: child_def wf_table_def nth_list_update fun_eq_iff)
  ultimately show ?thesis using that [of ?t] by simp
qed

lemma wf_new_table: "wf_table new_table" "\<not> exist (slots new_table ! i)" if "i < 16"
  using that by (simp_all add: new_table_def wf_table_def CHILDREN_COUNT_def)

lemma child_new_table: "children n = Some new_table \<Longrightarrow> child n = Map.empty"
  by (auto simp: child_def new_table_def CHILDREN_COUNT_def fun_eq_iff)

section \<open>Edges\<close>

lemma edge_cases:
  assumes "ss \<noteq> []" "ks \<noteq> []"
  obtains (hit) "ss = ks" "match_edge j ss ks = Hit"
  | (short) x where "x \<noteq> []" "ss = ks @ x" "match_edge j ss ks = Short"
  | (deeper) r where "r \<noteq> []" "ks = ss @ r" "match_edge j ss ks = Deeper r"
  | (differ) p a x b y where "ss = p @ a # x" "ks = p @ b # y" "a \<noteq> b"
      "match_edge j ss ks = Differ (j + length p) (b # y)"
proof -
  have "(ss = ks \<and> match_edge j ss ks = Hit) \<or>
    (\<exists>x. x \<noteq> [] \<and> ss = ks @ x \<and> match_edge j ss ks = Short) \<or>
    (\<exists>r. r \<noteq> [] \<and> ks = ss @ r \<and> match_edge j ss ks = Deeper r) \<or>
    (\<exists>p a x b y. ss = p @ a # x \<and> ks = p @ b # y \<and> a \<noteq> b \<and>
      match_edge j ss ks = Differ (j + length p) (b # y))"
    using assms
  proof (induction j ss ks rule: match_edge.induct)
    case (1 j s ss k ks)
    show ?case
    proof (cases "s = k \<and> ss \<noteq> [] \<and> ks \<noteq> []")
      case True
      with 1 consider "ss = ks" "match_edge (Suc j) ss ks = Hit"
        | x where "x \<noteq> []" "ss = ks @ x" "match_edge (Suc j) ss ks = Short"
        | r where "r \<noteq> []" "ks = ss @ r" "match_edge (Suc j) ss ks = Deeper r"
        | p a x b y where "ss = p @ a # x" "ks = p @ b # y" "a \<noteq> b"
            "match_edge (Suc j) ss ks = Differ (Suc j + length p) (b # y)" by blast
      then show ?thesis
      proof cases
        case (4 p a x b y)
        then show ?thesis
          using True by (intro disjI2 exI [of _ "k # p"] exI [of _ a] exI [of _ x] exI [of _ b] exI [of _ y]) simp
      qed (use True in simp_all)
    next
      case False
      then show ?thesis
        by (cases "s = k"; cases ss; cases ks) (auto intro: exI [of _ "[]"])
    qed
  qed simp_all
  then show ?thesis using that by blast
qed

lemma match_append [simp]:
  "ss \<noteq> [] \<Longrightarrow> match_edge j ss (ss @ r) = (if r = [] then Hit else Deeper r)"
  by (induction ss arbitrary: j) (auto simp: neq_Nil_conv)

definition nib :: "byte list \<Rightarrow> bool" where
  "nib ks \<longleftrightarrow> (\<forall>b \<in> set ks. unat b < 16)"

lemma nib_simps [simp]: "nib []" "nib (b # ks) \<longleftrightarrow> unat b < 16 \<and> nib ks" "nib (xs @ ys) \<longleftrightarrow> nib xs \<and> nib ys"
  by (auto simp: nib_def)

section \<open>Well-formed nodes\<close>

inductive wf_node :: "nat \<Rightarrow> mpt_node \<Rightarrow> bool" where
  wf_leaf: "leaf n \<Longrightarrow> nvalue n \<noteq> None \<Longrightarrow> children n = None \<Longrightarrow> sub_key n \<noteq> [] \<Longrightarrow> nib (sub_key n) \<Longrightarrow>
    d + length (sub_key n) = 64 \<Longrightarrow> wf_node d n"
| wf_branch: "\<not> leaf n \<Longrightarrow> children n = Some t \<Longrightarrow> wf_table t \<Longrightarrow> sub_key n \<noteq> [] \<Longrightarrow> nib (sub_key n) \<Longrightarrow>
    d + length (sub_key n) < 64 \<Longrightarrow>
    (\<forall>i c. child n i = Some c \<longrightarrow> unat (hd (sub_key c)) = i \<and> wf_node (d + length (sub_key n)) c) \<Longrightarrow>
    \<exists>i j. i \<noteq> j \<and> child n i \<noteq> None \<and> child n j \<noteq> None \<Longrightarrow> wf_node d n"

text \<open>A node that is not a leaf, seen from below its edge, at depth \<open>d\<close>; the root is one at depth 0.\<close>

definition branch :: "nat \<Rightarrow> mpt_node \<Rightarrow> bool" where
  "branch d n \<longleftrightarrow> \<not> leaf n \<and> d < 64 \<and> (\<exists>t. children n = Some t \<and> wf_table t) \<and>
     (\<forall>i c. child n i = Some c \<longrightarrow> unat (hd (sub_key c)) = i \<and> wf_node d c)"

definition forks :: "mpt_node \<Rightarrow> bool" where
  "forks n \<longleftrightarrow> (\<exists>i j. i \<noteq> j \<and> child n i \<noteq> None \<and> child n j \<noteq> None)"

lemma wf_node_iff:
  "wf_node d n \<longleftrightarrow> sub_key n \<noteq> [] \<and> nib (sub_key n) \<and>
     (if leaf n then nvalue n \<noteq> None \<and> children n = None \<and> d + length (sub_key n) = 64
      else branch (d + length (sub_key n)) n \<and> forks n)"
  unfolding branch_def forks_def
  by (subst wf_node.simps) auto

lemma wf_recordable: "wf_node d n \<Longrightarrow> leaf n \<or> children n \<noteq> None"
  by (cases rule: wf_node.cases) auto

lemma branch_table:
  assumes "branch d n"
  obtains t where "children n = Some t" "wf_table t"
  using assms by (auto simp: branch_def)

lemma branch_key:
  assumes "branch d n" "d + length ks = 64"
  obtains k r where "ks = k # r"
  using assms by (cases ks) (auto simp: branch_def)

lemma branch_child: "branch d n \<Longrightarrow> child n i = Some c \<Longrightarrow> unat (hd (sub_key c)) = i \<and> wf_node d c \<and> i < 16"
  using child_less by (auto simp: branch_def)

lemma branch_setters [simp]:
  "branch d (set_modified b n) = branch d n" "branch d (set_hash x n) = branch d n"
  "forks (set_modified b n) = forks n" "forks (set_hash x n) = forks n"
  by (simp_all add: branch_def forks_def)

lemma wf_setters [simp]: "wf_node d (set_modified b n) = wf_node d n" "wf_node d (set_hash x n) = wf_node d n"
  by (simp_all add: wf_node_iff)

lemma branch_update:
  assumes "branch d n" "children n' = Some t" "wf_table t" "\<not> leaf n'" "child n' = (child n)(i := x)"
    and "\<And>c. x = Some c \<Longrightarrow> unat (hd (sub_key c)) = i \<and> wf_node d c"
  shows "branch d n'"
  using assms by (auto simp: branch_def)

section \<open>The contents\<close>

fun look :: "byte list \<Rightarrow> mpt_node \<Rightarrow> account option" where
  "look [] n = None"
| "look (k # ks) n =
     (case child n (unat k) of
        None \<Rightarrow> None
      | Some c \<Rightarrow>
          (case match_edge 0 (sub_key c) (k # ks) of
             Hit \<Rightarrow> nvalue c | Deeper r \<Rightarrow> look r c | _ \<Rightarrow> None))"

text \<open>The same, from above the edge of the node.\<close>

definition look_edge :: "byte list \<Rightarrow> mpt_node \<Rightarrow> account option" where
  "look_edge ks c = (case match_edge 0 (sub_key c) ks of Hit \<Rightarrow> nvalue c | Deeper r \<Rightarrow> look r c | _ \<Rightarrow> None)"

lemma look_Cons: "look (k # ks) n = (case child n (unat k) of None \<Rightarrow> None | Some c \<Rightarrow> look_edge (k # ks) c)"
  by (auto simp: look_edge_def split: option.split edge.split)

lemma look_child_cong: "child n = child m \<Longrightarrow> look ks n = look ks m"
  by (cases ks) (simp_all add: look_Cons)

lemma look_setters [simp]:
  "look ks (set_modified b n) = look ks n" "look ks (set_hash x n) = look ks n"
  "look ks (set_sub_key s n) = look ks n"
  by (rule look_child_cong, simp)+

lemma look_edge_setters [simp]:
  "look_edge ks (set_modified b n) = look_edge ks n" "look_edge ks (set_hash x n) = look_edge ks n"
  by (simp_all add: look_edge_def split: edge.split)

lemma look_edge_append: "sub_key c \<noteq> [] \<Longrightarrow> look_edge (sub_key c @ r) c = (if r = [] then nvalue c else look r c)"
  by (simp add: look_edge_def)

lemma look_edge_None:
  assumes "sub_key c \<noteq> []" "\<nexists>r. ks = sub_key c @ r"
  shows "look_edge ks c = None"
proof (cases "ks = []")
  case False
  show ?thesis
    by (rule edge_cases [OF assms(1) False, of 0]) (use assms(2) in \<open>auto simp: look_edge_def\<close>)
qed (cases "sub_key c", auto simp: look_edge_def)

lemma look_edge_strip:
  assumes "sub_key c = p @ s" "s \<noteq> []"
  shows "look_edge (p @ r) c = look_edge r (set_sub_key s c)"
proof (cases "\<exists>q. r = s @ q")
  case True
  then obtain q where "r = s @ q" ..
  then show ?thesis
    using look_edge_append [of c q] look_edge_append [of "set_sub_key s c" q] assms by simp
next
  case False
  then show ?thesis using look_edge_None [of c "p @ r"] look_edge_None [of "set_sub_key s c" r] assms by simp
qed

text \<open>A search in memory finds what the contents hold and changes nothing.\<close>

lemma wf_deeper:
  assumes "wf_node d c" "d + length ks = 64" "ks = sub_key c @ r" "r \<noteq> []"
  shows "\<not> leaf c \<and> forks c \<and> branch (d + length (sub_key c)) c \<and> (d + length (sub_key c)) + length r = 64"
proof -
  have "d + length (sub_key c) < 64" using assms(2-4) by (cases r) simp_all
  then show ?thesis using assms by (auto simp: wf_node_iff split: if_splits)
qed

lemma wf_hit: "wf_node d c \<Longrightarrow> d + length (sub_key c) = 64 \<Longrightarrow> leaf c \<and> nvalue c \<noteq> None"
  by (auto simp: wf_node_iff branch_def split: if_splits)

lemma wf_not_short:
  assumes "wf_node d c" "d + length ks = 64" "sub_key c = ks @ x" "x \<noteq> []"
  shows False
  using assms by (cases x) (auto simp: wf_node_iff branch_def split: if_splits)

lemma descend_unmarked:
  assumes "branch d n" "d + length ks = 64" "nib ks"
  shows "descend env False ks n = Inr (n, look ks n \<noteq> None, look ks n)"
  using assms
proof (induction ks n arbitrary: d rule: look.induct)
  case (2 k ks n)
  obtain t where t: "children n = Some t" "wf_table t" using 2(2) by (rule branch_table)
  show ?case
  proof (cases "child n (unat k)")
    case None
    then show ?thesis using t 2(4) by (simp add: get_exist_child [OF t])
  next
    case (Some c)
    have k: "unat k < 16" using 2(4) by simp
    have c: "wf_node d c" using branch_child [OF 2(2) Some] by simp
    note s = get_exist_child [OF t k] load_at_child [OF t k Some] set_children_same [OF t(1)]
    have ne: "sub_key c \<noteq> []" using c by (simp add: wf_node_iff)
    have kn: "k # ks \<noteq> []" by simp
    show ?thesis
    proof (rule edge_cases [OF ne kn, of 0], goal_cases)
      case 1
      then show ?case using s Some t wf_hit [OF c] 2(3) by simp
    next
      case (3 r)
      have "nib r" using 2(4) unfolding 3(2) by simp
      then have "descend env False r c = Inr (c, look r c \<noteq> None, look r c)"
        using 2(1) [OF Some 3(3)] wf_deeper [OF c 2(3) 3(2,1)] by blast
      moreover have "put_child (unat k) c t = t"
        using Some by (simp add: put_child_same child_table [OF t k])
      ultimately show ?case using s Some t 3(3) by simp
    next
      case (2 x)
      show ?case using s Some t 2(3) by simp
    next
      case (4 p a x b y)
      show ?case using s Some t 4(4) by simp
    qed
  qed
qed (simp add: branch_def)

section \<open>The reference hash\<close>

text \<open>The hash of a tree computed from scratch: no cached hash and no mark is used.\<close>

fun tree_hash :: "mpt_env \<Rightarrow> mpt_node \<Rightarrow> uint256" where
  "tree_hash env n =
     (if leaf n then account_hash (mpt_host env) (mpt_sha3 env) (the (nvalue n))
      else get_sha3_256 (mpt_sha3 env)
        (fold (\<lambda>i x. case child n i of None \<Rightarrow> x | Some c \<Rightarrow> uint256_plus x (tree_hash env c))
          [0..<CHILDREN_COUNT] base_binary_default))"

declare tree_hash.simps [simp del]

lemma tree_hash_cong:
  assumes "leaf n = leaf m" "leaf n \<Longrightarrow> nvalue n = nvalue m" "\<And>i. map_option (tree_hash env) (child n i) = map_option (tree_hash env) (child m i)"
  shows "tree_hash env n = tree_hash env m"
proof -
  have "(case child n i of None \<Rightarrow> x | Some c \<Rightarrow> uint256_plus x (tree_hash env c)) =
      (case child m i of None \<Rightarrow> x | Some c \<Rightarrow> uint256_plus x (tree_hash env c))" for i x
    using assms(3) [of i] by (auto split: option.splits)
  then show ?thesis using assms(1,2) by (subst (1 2) tree_hash.simps) simp
qed

lemma tree_hash_setters [simp]:
  "tree_hash env (set_modified b n) = tree_hash env n" "tree_hash env (set_hash x n) = tree_hash env n"
  "tree_hash env (set_sub_key s n) = tree_hash env n"
  by (rule tree_hash_cong; simp)+

text \<open>A branch is marked, or its cached hash is the hash of its tree.\<close>

inductive hash_ok :: "mpt_env \<Rightarrow> mpt_node \<Rightarrow> bool" for env where
  hash_leaf: "leaf n \<Longrightarrow> hash_ok env n"
| hash_branch: "\<not> leaf n \<Longrightarrow> modified n \<or> value_hash n = tree_hash env n \<Longrightarrow>
    (\<forall>i c. child n i = Some c \<longrightarrow> hash_ok env c) \<Longrightarrow> hash_ok env n"

lemma hash_ok_iff: "hash_ok env n \<longleftrightarrow> leaf n \<or>
    (modified n \<or> value_hash n = tree_hash env n) \<and> (\<forall>i c. child n i = Some c \<longrightarrow> hash_ok env c)"
  by (subst hash_ok.simps) auto

lemma hash_ok_setters [simp]: "hash_ok env (set_sub_key s n) = hash_ok env n"
  by (simp add: hash_ok_iff [of env n] hash_ok_iff [of env "set_sub_key s n"])

lemma hash_ok_marked:
  assumes "hash_ok env n" "\<not> leaf n" "\<not> leaf n'" "modified n'" "child n' = (child n)(i := x)"
    and "\<And>c. x = Some c \<Longrightarrow> hash_ok env c"
  shows "hash_ok env n'"
proof -
  have "hash_ok env c" if "child n j = Some c" for j c
    using assms(1,2) that by (auto simp: hash_ok_iff [of env n])
  then show ?thesis
    using assms(3-) by (auto simp: hash_ok_iff [of env n'] split: if_splits)
qed

section \<open>Insertion\<close>

lemma record_node_ok: "leaf n \<or> children n \<noteq> None \<Longrightarrow> \<exists>ext'. record_node op_type n ext = Inr ext'"
  by (auto simp: record_node_def to_mpt_node_storage_def)

declare look.simps(2) [simp del]

lemma nibble_eq [simp]: "unat a = unat b \<longleftrightarrow> a = b" for a b :: byte
  by (simp add: word_unat_eq_iff)

lemma look_update:
  "child n' = (child n)(unat k := Some c) \<Longrightarrow>
    look (k' # ks) n' = (if k' = k then look_edge (k' # ks) c else look (k' # ks) n)"
  by (auto simp: look_Cons)

lemma look_edge_leaf: "sub_key c = ks \<Longrightarrow> ks \<noteq> [] \<Longrightarrow> length ks' = length ks \<Longrightarrow>
    look_edge ks' c = (if ks' = ks then nvalue c else None)"
  using look_edge_append [of c "[]"] look_edge_None [of c ks'] by (cases "\<exists>r. ks' = sub_key c @ r") auto

lemma new_leaf_fields [simp]:
  "leaf (new_leaf key sk a)" "sub_key (new_leaf key sk a) = sk" "nvalue (new_leaf key sk a) = Some a"
  "children (new_leaf key sk a) = None"
  by (simp_all add: new_leaf_def)

lemma wf_new_leaf: "sk \<noteq> [] \<Longrightarrow> nib sk \<Longrightarrow> d + length sk = 64 \<Longrightarrow> wf_node d (new_leaf key sk a)"
  by (simp add: wf_node_iff)

lemma wf_strip:
  assumes "wf_node d c" "sub_key c = p @ s" "s \<noteq> []"
  shows "wf_node (d + length p) (set_sub_key s c)"
proof -
  have "branch e (set_sub_key s c) = branch e c" "forks (set_sub_key s c) = forks c" for e
    by (simp_all add: branch_def forks_def)
  then show ?thesis
    using assms(1) unfolding wf_node_iff by (auto simp: assms(2,3) add.assoc split: if_splits)
qed

text \<open>A node with two children that takes the place of a node whose edge is split.\<close>

lemma split_edge_ok:
  assumes n: "branch d n" "children n = Some t" "wf_table t" "child n (unat k) = Some c"
    and e: "sub_key c = p @ b' # x" "k # ks = p @ b # y" "b' \<noteq> b"
    and l: "d + length (k # ks) = 64" "nib (k # ks)"
  obtains n' ext' m where "split_edge key a (length p) (b # y) (unat k) t c n ext = Inr (n', ext')"
    "branch d n'" "sub_key n' = sub_key n" "modified n'" "child n' = (child n)(unat k := Some m)"
    "\<And>ks'. d + length ks' = 64 \<Longrightarrow> look_edge ks' m = (if ks' = k # ks then Some a else look_edge ks' c)"
    "hash_ok env c \<Longrightarrow> hash_ok env m"
proof -
  have k: "unat k < 16" and c: "wf_node d c" "unat (hd (sub_key c)) = unat k"
    using l(2) branch_child [OF n(1,4)] by auto
  have p: "p \<noteq> []" using c(2) e by (cases p) auto
  have nibs: "unat b < 16" "nib y" "nib p" "unat b' < 16"
    using l(2) c(1) unfolding e(2) by (simp_all add: wf_node_iff e(1))
  define leaf_node where "leaf_node = new_leaf key (b # y) a"
  define prev where "prev = set_sub_key (b' # x) c"
  obtain t1 where t1: "table_insert (unat b) (Some leaf_node) new_table = Inr (t1, True)" "wf_table t1"
    "\<And>n m. children n = Some new_table \<Longrightarrow> children m = Some t1 \<Longrightarrow> child m = (child n)(unat b := Some leaf_node)"
    using table_insert_new [OF wf_new_table(1) nibs(1) wf_new_table(2)] nibs(1) by blast
  have c1: "child m = [unat b \<mapsto> leaf_node]" if "children m = Some t1" for m
    using t1(3) [of "set_children (Some new_table) m" m] that child_new_table [of "set_children (Some new_table) m"] by simp
  have free: "\<not> exist (slots t1 ! unat b')"
    using c1 [of "set_children (Some t1) c"] child_table [of "set_children (Some t1) c" t1 "unat b'"] e(3)
      wf_table_slot(1) [OF t1(2) nibs(4)] t1(2) nibs(4) by (simp split: if_splits)
  obtain t2 where t2: "table_insert (unat b') (Some prev) t1 = Inr (t2, True)" "wf_table t2"
    "\<And>n m. children n = Some t1 \<Longrightarrow> children m = Some t2 \<Longrightarrow> child m = (child n)(unat b' := Some prev)"
    using table_insert_new [OF t1(2) nibs(4) free] by blast
  define m where "m = Node False True (base_binary_fill 0) (take (Width * 2 - Suc (length y)) (get_hex key)) p None (Some t2)"
  have m: "child m = [unat b \<mapsto> leaf_node, unat b' \<mapsto> prev]" "sub_key m = p" "\<not> leaf m" "modified m" "children m = Some t2"
    using t2(3) [of "set_children (Some t1) m" m] c1 [of "set_children (Some t1) m"] by (simp_all add: m_def)
  define t' where "t' = Table (tcount t) ((slots t)[unat k := Cache True (Some m) (ckey (slots t ! unat k))])"
  have ex: "exist (slots t ! unat k)" "unat k < length (slots t)"
    using n(4) wf_table_slot [OF n(3) k] by (auto simp: child_table [OF n(2,3) k])
  have up: "table_update (unat k) m t = Inr (t', cnode (slots t ! unat k))"
    using ex by (simp add: table_update_def t'_def)
  have wt: "wf_table t'" unfolding t'_def using n(3) k ex by (intro wf_table_update) simp_all
  have put: "t' = put_child (unat k) m t" using ex by (simp add: t'_def put_child_def)
  define n' where "n' = set_modified True (set_children (Some t') n)"
  have cn: "child n' = (child n)(unat k := Some m)"
    using child_put_child [OF n(2,3) k] n(4) by (simp add: n'_def put)
  obtain e1 where "record_node UPDATE_OP_MUSE prev ext = Inr e1"
    using record_node_ok [of prev] wf_recordable [OF c(1)] by (auto simp: prev_def)
  moreover obtain e2 where "record_node INSERT_OP_MUSE m e1 = Inr e2" using record_node_ok m(5) by blast
  moreover obtain e3 where "record_node UPDATE_OP_MUSE (set_children (Some t') n) e2 = Inr e3"
    using record_node_ok [of "set_children (Some t') n"] by auto
  moreover obtain e4 where "record_node INSERT_OP_MUSE leaf_node e3 = Inr e4"
    using record_node_ok [of leaf_node] by (auto simp: leaf_node_def)
  moreover have hp: "hd (sub_key prev) = b'" by (simp add: prev_def)
  ultimately have run: "split_edge key a (length p) (b # y) (unat k) t c n ext = Inr (n', e4)"
    using t1(1) t2(1) up hp by (simp add: split_edge_def Let_def leaf_node_def [symmetric] e(1) prev_def [symmetric] m_def [symmetric] n'_def)
  have dp: "(d + length p) + length (b # y) = 64" using l(1) unfolding e(2) by simp
  have sons: "wf_node (d + length p) leaf_node" "wf_node (d + length p) prev"
    using wf_new_leaf [OF _ _ dp] nibs wf_strip [OF c(1) e(1)] by (simp_all add: leaf_node_def prev_def)
  have "branch (d + length p) m"
    using m sons dp t2(2) by (auto simp: branch_def leaf_node_def prev_def split: if_splits)
  moreover have "forks m" using m(1) e(3) unfolding forks_def by (intro exI [of _ "unat b"] exI [of _ "unat b'"]) simp
  ultimately have wm: "wf_node d m" using m(2,3) p nibs(3) by (simp add: wf_node_iff)
  have km: "unat (hd (sub_key m)) = unat k" using c(2) p by (simp add: m(2) e(1))
  have "branch d n'"
    by (rule branch_update [OF n(1) _ wt _ cn]) (use n(1) wm km in \<open>auto simp: n'_def branch_def\<close>)
  moreover have "look_edge ks' m = (if ks' = k # ks then Some a else look_edge ks' c)" if "d + length ks' = 64" for ks'
  proof (cases "\<exists>r. ks' = p @ r")
    case True
    then obtain r where r: "ks' = p @ r" ..
    have len: "length r = length (b # y)" using that dp r by simp
    then obtain b1 r1 where r1: "r = b1 # r1" by (cases r) auto
    have "look_edge ks' m = look r m" using look_edge_append [of m r] m(2) p r r1 by simp
    also have "\<dots> = (if b1 = b then look_edge r leaf_node else if b1 = b' then look_edge r prev else None)"
      using m(1) e(3) by (auto simp: r1 look_Cons)
    also have "look_edge r leaf_node = (if r = b # y then Some a else None)"
      using look_edge_leaf [of leaf_node "b # y" r] len by (simp add: leaf_node_def)
    also have "look_edge r prev = look_edge ks' c"
      using look_edge_strip [OF e(1), of r] r by (simp add: prev_def)
    moreover have "look_edge ks' c = None" if "b1 \<noteq> b'"
      using look_edge_None [of c ks'] that by (simp add: e(1) r r1)
    ultimately show ?thesis using e(3) by (auto simp: r r1 e(2))
  next
    case False
    then show ?thesis
      using look_edge_None [of m ks'] look_edge_None [of c ks'] m(2) p e(1,2) by auto
  qed
  moreover have "hash_ok env m" if "hash_ok env c"
  proof -
    have "hash_ok env leaf_node" "hash_ok env prev" using that by (simp_all add: leaf_node_def prev_def hash_leaf)
    then show ?thesis using m by (auto simp: hash_ok_iff [of env m] split: if_splits)
  qed
  moreover have "sub_key n' = sub_key n" "modified n'" by (simp_all add: n'_def)
  ultimately show ?thesis using that run cn by blast
qed

text \<open>What an operation on the tree below a branch may do to the branch.\<close>

definition kept :: "mpt_env \<Rightarrow> nat \<Rightarrow> mpt_node \<Rightarrow> mpt_node \<Rightarrow> bool" where
  "kept env d n n' \<longleftrightarrow> branch d n' \<and> sub_key n' = sub_key n \<and> (hash_ok env n \<longrightarrow> hash_ok env n')"

lemma kept_refl: "branch d n \<Longrightarrow> kept env d n n"
  by (simp add: kept_def)

text \<open>A child is replaced by one with the same edge: the node above is marked or keeps its hash.\<close>

lemma kept_child:
  assumes n: "branch d n" "children n = Some t" "wf_table t" "child n (unat k) = Some c"
    and c: "wf_node d c'" "sub_key c' = sub_key c" "hash_ok env c \<Longrightarrow> hash_ok env c'"
  shows "kept env d n (set_modified True (set_children (Some (put_child (unat k) c' t)) n))"
    and "child (set_modified True (set_children (Some (put_child (unat k) c' t)) n)) = (child n)(unat k := Some c')"
proof -
  let ?n = "set_modified True (set_children (Some (put_child (unat k) c' t)) n)"
  have k: "unat k < 16" and kc: "unat (hd (sub_key c)) = unat k" using branch_child [OF n(1,4)] by auto
  show cn: "child ?n = (child n)(unat k := Some c')" using child_put_child [OF n(2,3) k] n(4) by simp
  have "wf_table (put_child (unat k) c' t)"
    using put_child_wf [OF n(3) k] n(4) child_table [OF n(2,3) k] by simp
  then have "branch d ?n"
    using branch_update [OF n(1) _ _ _ cn] n(1) c kc by (simp add: branch_def)
  moreover have "hash_ok env ?n" if "hash_ok env n"
  proof (rule hash_ok_marked [OF that _ _ _ cn])
    show "\<And>x. Some c' = Some x \<Longrightarrow> hash_ok env x"
      using that n(1,4) c(3) hash_ok_iff [of env n] by (auto simp: branch_def)
  qed (use n(1) in \<open>auto simp: branch_def\<close>)
  ultimately show "kept env d n ?n" by (simp add: kept_def)
qed

lemma wf_kept: "wf_node d c \<Longrightarrow> \<not> leaf c \<Longrightarrow> kept env (d + length (sub_key c)) c c' \<Longrightarrow> forks c' \<Longrightarrow> wf_node d c'"
  by (simp add: wf_node_iff [of d] kept_def) (auto simp: branch_def)

lemma forks_mono: "forks c \<Longrightarrow> (\<And>i. child c i \<noteq> None \<Longrightarrow> child c' i \<noteq> None) \<Longrightarrow> forks c'"
  unfolding forks_def by meson

text \<open>Looking through an edge that both nodes share.\<close>

lemma look_edge_same_edge:
  assumes "sub_key c' = sub_key c" "sub_key c \<noteq> []" "d + length (sub_key c) < 64" "d + length ks = 64"
    and "\<And>r. (d + length (sub_key c)) + length r = 64 \<Longrightarrow> look r c' = (if r = r0 \<and> Q then v else look r c)"
  shows "look_edge ks c' = (if ks = sub_key c @ r0 \<and> Q then v else look_edge ks c)"
proof (cases "\<exists>r. ks = sub_key c @ r")
  case True
  then obtain r where r: "ks = sub_key c @ r" ..
  have "r \<noteq> []" using assms(3,4) r by auto
  then show ?thesis
    using assms(1,2,4) r assms(5) [of r] look_edge_append [of c r] look_edge_append [of c' r] by simp
next
  case False
  then show ?thesis using look_edge_None [of c ks] look_edge_None [of c' ks] assms(1,2) by auto
qed

text \<open>A change below the child of a branch, seen from the branch.\<close>

lemma deeper_step:
  assumes n: "branch d n" "children n = Some t" "wf_table t" "child n (unat k) = Some c"
    and r: "k # ks = sub_key c @ r" "r \<noteq> []" "d + length (k # ks) = 64"
    and c': "kept env (d + length (sub_key c)) c c'" "forks c'"
      "\<And>q. (d + length (sub_key c)) + length q = 64 \<Longrightarrow> look q c' = (if q = r \<and> Q then v else look q c)"
  defines "n' \<equiv> set_modified True (set_children (Some (put_child (unat k) c' t)) n)"
  shows "kept env d n n'" "child n' = (child n)(unat k := Some c')" "look (k # ks) n = look r c"
    and "d + length ks' = 64 \<Longrightarrow> look ks' n' = (if ks' = k # ks \<and> Q then v else look ks' n)"
proof -
  have c: "wf_node d c" using branch_child [OF n(1,4)] by simp
  then have ne: "sub_key c \<noteq> []" by (simp add: wf_node_iff)
  note w = wf_deeper [OF c r(3,1,2)]
  have wc: "wf_node d c'" "sub_key c' = sub_key c"
    using wf_kept [OF c _ c'(1,2)] w c'(1) by (auto simp: kept_def)
  note kc = kept_child [OF n wc, of env]
  show "kept env d n n'" and cn: "child n' = (child n)(unat k := Some c')"
    using kc c'(1) unfolding n'_def by (simp_all add: kept_def)
  show "look (k # ks) n = look r c"
    using look_edge_append [OF ne, of r] r(2) unfolding r(1) [symmetric] by (simp add: look_Cons n(4))
  assume len: "d + length ks' = 64"
  obtain k' q where q: "ks' = k' # q" using branch_key [OF n(1) len] .
  have "look_edge ks' c' = (if ks' = k # ks \<and> Q then v else look_edge ks' c)"
    using look_edge_same_edge [OF wc(2) ne _ len, of r Q v] c'(3) w by (simp add: r(1) branch_def)
  then show "look ks' n' = (if ks' = k # ks \<and> Q then v else look ks' n)"
    using look_update [OF cn, of k' q] n(4) by (auto simp: q look_Cons)
qed

lemma forks_update: "forks n \<Longrightarrow> child n' = (child n)(i := Some c) \<Longrightarrow> forks n'"
  by (erule forks_mono) simp

lemma insert_at_ok:
  assumes "branch d n" "d + length ks = 64" "nib ks"
  shows "\<exists>n' ext' ch. insert_at env key a ks n ext = Inr (n', ext', ch) \<and> kept env d n n' \<and>
    (\<forall>i. child n i \<noteq> None \<longrightarrow> child n' i \<noteq> None) \<and> (if ch then modified n' else n' = n) \<and>
    (\<forall>ks'. d + length ks' = 64 \<longrightarrow> look ks' n' = (if ks' = ks \<and> look ks n = None then Some a else look ks' n))"
  using assms
proof (induction env key a ks n ext arbitrary: d rule: insert_at.induct)
  case (1 env key a n ext)
  then show ?case by (simp add: branch_def)
next
  case (2 env key a k ks n ext)
  obtain t where t: "children n = Some t" "wf_table t" using 2(2) by (rule branch_table)
  have k: "unat k < 16" using 2(4) by simp
  note ge = get_exist_child [OF t k]
  show ?case
  proof (cases "child n (unat k)")
    case None
    let ?leaf = "new_leaf key (k # ks) a"
    have "\<not> exist (slots t ! unat k)" using ge None by (simp add: get_exist_def split: if_splits)
    then obtain t' where t': "table_insert (unat k) (Some ?leaf) t = Inr (t', True)" "wf_table t'"
      "\<And>n m. children n = Some t \<Longrightarrow> children m = Some t' \<Longrightarrow> child m = (child n)(unat k := Some ?leaf)"
      using table_insert_new [OF t(2) k] by blast
    let ?n = "set_modified True (set_children (Some t') n)"
    have cn: "child ?n = (child n)(unat k := Some ?leaf)" using t'(3) [OF t(1), of ?n] by simp
    obtain e1 e2 where "record_node UPDATE_OP_MUSE (set_children (Some t') n) ext = Inr e1"
      "record_node INSERT_OP_MUSE ?leaf e1 = Inr e2"
      using record_node_ok [of "set_children (Some t') n"] record_node_ok [of ?leaf] by fastforce
    then have run: "insert_at env key a (k # ks) n ext = Inr (?n, e2, True)" using t ge None t'(1) by simp
    have "branch d ?n"
      by (rule branch_update [OF 2(2) _ t'(2) _ cn]) (use 2 wf_new_leaf in \<open>auto simp: branch_def\<close>)
    moreover have "hash_ok env ?n" if "hash_ok env n"
      by (rule hash_ok_marked [OF that _ _ _ cn]) (use 2(2) in \<open>auto simp: branch_def hash_leaf\<close>)
    moreover have "look ks' ?n = (if ks' = k # ks \<and> look (k # ks) n = None then Some a else look ks' n)"
      if len: "d + length ks' = 64" for ks'
    proof -
      obtain k' r where r: "ks' = k' # r" using branch_key [OF 2(2) len] by blast
      have "look_edge ks' ?leaf = (if ks' = k # ks then Some a else None)"
        using look_edge_leaf [of ?leaf "k # ks" ks'] len 2(3) by simp
      then show ?thesis
        using look_update [OF cn, of k' r] None by (auto simp: r look_Cons)
    qed
    ultimately show ?thesis using run cn by (auto simp: kept_def)
  next
    case (Some c)
    note la = load_at_child [OF t k Some] and same = set_children_same [OF t(1)]
    have c: "wf_node d c" using branch_child [OF 2(2) Some] by simp
    then have ne: "sub_key c \<noteq> []" by (simp add: wf_node_iff)
    have kn: "k # ks \<noteq> []" by simp
    show ?thesis
    proof (rule edge_cases [OF ne kn, of 0], goal_cases)
      case 1
      have "look_edge (k # ks) c = nvalue c" using look_edge_append [OF ne, of "[]"] unfolding 1(1) by simp
      then have found: "look (k # ks) n \<noteq> None" using wf_hit [OF c] 2(3) by (simp add: look_Cons Some 1(1))
      have run: "insert_at env key a (k # ks) n ext = Inr (n, ext, False)" using t ge Some la same 1(2) by simp
      show ?case
        unfolding run using found kept_refl [OF 2(2)] by (intro exI [of _ n] exI [of _ ext] exI [of _ False]) auto
    next
      case (2 x)
      then show ?case using wf_not_short [OF c \<open>d + length (k # ks) = 64\<close>] by blast
    next
      case (4 p b' x b y)
      obtain n' ext' m where s: "split_edge key a (length p) (b # y) (unat k) t c n ext = Inr (n', ext')"
        "branch d n'" "sub_key n' = sub_key n" "modified n'" "child n' = (child n)(unat k := Some m)"
        "\<And>ks'. d + length ks' = 64 \<Longrightarrow> look_edge ks' m = (if ks' = k # ks then Some a else look_edge ks' c)"
        "hash_ok env c \<Longrightarrow> hash_ok env m"
        using split_edge_ok [OF 2(2) t Some 4(1-3) 2(3,4)] by blast
      have "insert_at env key a (k # ks) n ext = Inr (n', ext', True)"
        using t ge Some la 4(4) s(1) by simp
      moreover have "hash_ok env n'" if "hash_ok env n"
        by (rule hash_ok_marked [OF that _ _ s(4,5)])
           (use that 2(2) s(2,7) Some hash_ok_iff [of env n] in \<open>auto simp: branch_def\<close>)
      moreover have "look_edge (k # ks) c = None"
        using look_edge_None [OF ne, of "k # ks"] 4(1,2,3) by auto
      then have "look (k # ks) n = None" by (simp add: look_Cons Some)
      moreover have "look ks' n' = (if ks' = k # ks then Some a else look ks' n)" if len: "d + length ks' = 64" for ks'
      proof -
        obtain k' r where r: "ks' = k' # r" using branch_key [OF 2(2) len] by blast
        show ?thesis using look_update [OF s(5), of k' r] s(6) [OF len] Some by (auto simp: r look_Cons)
      qed
      ultimately show ?case using s by (auto simp: kept_def)
    next
      case (3 r)
      note w = wf_deeper [OF c \<open>d + length (k # ks) = 64\<close> 3(2,1)]
      have nr: "nib r" using 2(4) unfolding 3(2) by simp
      have g: "get_exist (unat k) t = Inr True" using ge Some by simp
      obtain c' ext' ch where i: "insert_at env key a r c ext = Inr (c', ext', ch)"
        "kept env (d + length (sub_key c)) c c'" "\<And>i. child c i \<noteq> None \<Longrightarrow> child c' i \<noteq> None"
        "if ch then modified c' else c' = c"
        "\<And>ks'. (d + length (sub_key c)) + length ks' = 64 \<Longrightarrow>
          look ks' c' = (if ks' = r \<and> look r c = None then Some a else look ks' c)"
        using 2(1) [OF t(1) g _ la refl _ refl 3(3), of "d + length (sub_key c)"] w nr by auto
      have fc: "forks c'" using w forks_mono [OF _ i(3)] by blast
      note step = deeper_step [OF 2(2) t Some 3(2,1) 2(3) i(2) fc i(5)]
      show ?case
      proof (cases ch)
        case False
        moreover have "put_child (unat k) c t = t" using Some by (simp add: put_child_same child_table [OF t k])
        ultimately have run: "insert_at env key a (k # ks) n ext = Inr (n, ext', False)"
          using t ge Some la 3(3) i(1,4) same by simp
        have "look r c \<noteq> None" using i(4) i(5) [of r] False w by (auto split: if_splits)
        then show ?thesis
          unfolding run using step(3) kept_refl [OF 2(2)] by (intro exI [of _ n] exI [of _ ext'] exI [of _ False]) auto
      next
        case True
        then have "insert_at env key a (k # ks) n ext =
            Inr (set_modified True (set_children (Some (put_child (unat k) c' t)) n), ext', True)"
          using t ge Some la 3(3) i(1) by simp
        then show ?thesis using step by auto
      qed
    qed
  qed
qed

end
