(* ===== verification/Mpt_Erase.thy ===== *)
theory Mpt_Erase
  imports Mpt_Shape
begin

text \<open>
  Deletion in a trie kept in memory: \<open>erase\<close> removes exactly its key from the contents, keeps the
  shape (a branch left with one child is merged with it) and the cached hashes.
\<close>

section \<open>Counting children\<close>

lemma tcount_card:
  assumes "children n = Some t" "wf_table t"
  shows "tcount t = card (dom (child n))" "finite (dom (child n))"
proof -
  have "dom (child n) = {i. i < length (slots t) \<and> exist (slots t ! i)}"
    using assms by (auto simp: child_def wf_table_def split: if_splits)
  then show "tcount t = card (dom (child n))" "finite (dom (child n))"
    using assms(2) by (simp_all add: wf_table_def length_filter_conv_card)
qed

lemma forks_tcount:
  assumes "children n = Some t" "wf_table t"
  shows "forks n \<longleftrightarrow> 2 \<le> tcount t"
proof -
  have "forks n \<longleftrightarrow> (\<exists>i j. i \<noteq> j \<and> {i, j} \<subseteq> dom (child n))" by (auto simp: forks_def)
  also have "\<dots> \<longleftrightarrow> 2 \<le> card (dom (child n))"
  proof
    assume "\<exists>i j. i \<noteq> j \<and> {i, j} \<subseteq> dom (child n)"
    then show "2 \<le> card (dom (child n))" using card_mono [OF tcount_card(2) [OF assms]] by (metis card_2_iff)
  next
    assume "2 \<le> card (dom (child n))"
    then obtain A where "A \<subseteq> dom (child n)" "card A = 2" by (rule obtain_subset_with_card_n)
    then show "\<exists>i j. i \<noteq> j \<and> {i, j} \<subseteq> dom (child n)" by (metis card_2_iff)
  qed
  finally show ?thesis using tcount_card(1) [OF assms] by simp
qed

lemma table_first_only:
  assumes "children n = Some t" "wf_table t" "tcount t = 1"
  obtains i c where "table_first t = Some i" "child n = [i \<mapsto> c]" "i < 16"
proof -
  obtain i where "dom (child n) = {i}" using tcount_card [OF assms(1,2)] assms(3) by (metis card_1_singletonE)
  then obtain c where i: "child n = [i \<mapsto> c]" using dom_eq_singleton_conv by metis
  have l: "i < 16" using child_less [OF assms(1,2)] i by simp
  have "exist (slots t ! j) \<longleftrightarrow> j = i" if "j < 16" for j
    using that i child_table [OF assms(1,2) that] wf_table_slot [OF assms(2) that] by (auto split: if_splits)
  then have "table_first t = Some i"
    using assms(2) l unfolding table_first_def wf_table_def find_Some_iff by (intro exI [of _ i]) auto
  then show ?thesis using that i l by blast
qed

section \<open>The parent of the deleted leaf\<close>

definition erase_post :: "mpt_env \<Rightarrow> nat \<Rightarrow> bool \<Rightarrow> byte list \<Rightarrow> mpt_node \<Rightarrow> erased \<Rightarrow> bool" where
  "erase_post env d is_root ks n e =
     (let d' = d + length (sub_key n)
      in case e of
           NotFound n' \<Rightarrow> n' = n \<and> look ks n = None
         | Erased n' \<Rightarrow> kept env d' n n' \<and> modified n' \<and> (is_root \<or> forks n') \<and> look ks n \<noteq> None \<and>
             (\<forall>ks'. d' + length ks' = 64 \<longrightarrow> look ks' n' = (if ks' = ks then None else look ks' n))
         | Merge p b \<Rightarrow> \<not> is_root \<and> sub_key p = sub_key n \<and> (\<exists>s. sub_key b = sub_key n @ s) \<and>
             wf_node d b \<and> (hash_ok env n \<longrightarrow> hash_ok env b) \<and> look ks n \<noteq> None \<and>
             (\<forall>ks'. d' + length ks' = 64 \<longrightarrow>
               look_edge (sub_key n @ ks') b = (if ks' = ks then None else look ks' n)))"

text \<open>The contents below a branch without the leaf that is reached by \<open>ks\<close>.\<close>

lemma look_without_leaf:
  assumes "branch d n" "child n (unat k) = Some c" "sub_key c = k # ks" "d + length (k # ks) = 64"
    and "child n' = (child n)(unat k := None)" "d + length ks' = 64"
  shows "look ks' n' = (if ks' = k # ks then None else look ks' n)"
proof -
  obtain k' r where r: "ks' = k' # r" using branch_key [OF assms(1,6)] .
  have "look_edge ks' c = (if ks' = k # ks then nvalue c else None)"
    using look_edge_leaf [OF assms(3)] assms(4,6) by simp
  then show ?thesis using assms(2,5) by (auto simp: r look_Cons)
qed

text \<open>A branch with one child left: the child takes over the edge of the branch.\<close>

lemma merge_brother:
  assumes "sub_key n \<noteq> []" "nib (sub_key n)" "child m = [i \<mapsto> b]" "unat (hd (sub_key b)) = i"
    and "wf_node (d + length (sub_key n)) b"
  defines "b' \<equiv> set_modified True (set_sub_key (sub_key n @ sub_key b) b)"
  shows "wf_node d b'"
    and "(d + length (sub_key n)) + length ks = 64 \<Longrightarrow> ks \<noteq> [] \<Longrightarrow> look_edge (sub_key n @ ks) b' = look ks m"
proof -
  have ne: "sub_key b \<noteq> []" using assms(5) by (simp add: wf_node_iff)
  have "branch e (set_sub_key s b) = branch e b" "forks (set_sub_key s b) = forks b" for e s
    by (simp_all add: branch_def forks_def)
  then show "wf_node d b'"
    using assms(1,2,5) unfolding wf_node_iff b'_def by (auto simp: add.assoc split: if_splits)
  assume "(d + length (sub_key n)) + length ks = 64" "ks \<noteq> []"
  then obtain k r where k: "ks = k # r" by (cases ks) auto
  have "look_edge (sub_key n @ ks) b' = look_edge ks (set_sub_key (sub_key b) b')"
    using look_edge_strip [of b' "sub_key n" "sub_key b" ks] ne by (simp add: b'_def)
  also have "set_sub_key (sub_key b) b' = set_modified True b" by (cases b) (simp add: b'_def)
  also have "look_edge ks \<dots> = look_edge ks b" by simp
  also have "\<dots> = look ks m"
  proof (cases "unat k = i")
    case False
    then have "\<nexists>q. ks = sub_key b @ q" using assms(4) ne k by (cases "sub_key b") auto
    then show ?thesis using look_edge_None [OF ne] False assms(3) by (simp add: k look_Cons)
  qed (use assms(3) in \<open>simp add: k look_Cons\<close>)
  finally show "look_edge (sub_key n @ ks) b' = look ks m" .
qed

lemma erase_leaf_ok:
  assumes n: "branch (d + length (sub_key n)) n" "children n = Some t" "wf_table t" "child n (unat k) = Some c"
    and r: "is_root \<or> sub_key n \<noteq> [] \<and> nib (sub_key n) \<and> forks n"
    and c: "sub_key c = k # ks" "(d + length (sub_key n)) + length (k # ks) = 64"
  shows "\<exists>e ext'. erase_leaf env is_root (unat k) t c n ext = Inr (e, ext') \<and>
    erase_post env d is_root (k # ks) n e"
proof -
  let ?d = "d + length (sub_key n)"
  have k: "unat k < 16" and wc: "wf_node ?d c" using branch_child [OF n(1,4)] by auto
  have hit: "leaf c" "nvalue c \<noteq> None" using wf_hit [OF wc] c by auto
  have found: "look (k # ks) n \<noteq> None"
    using look_edge_leaf [OF c(1), of "k # ks"] hit by (simp add: look_Cons n(4))
  have "exist (slots t ! unat k)" using n(4) wf_table_slot [OF n(3) k] child_table [OF n(2,3) k] by simp
  then obtain t' where t': "table_erase (unat k) t = Inr (t', True)" "wf_table t'" "tcount t' = tcount t - 1"
    "\<And>n m. children n = Some t \<Longrightarrow> children m = Some t' \<Longrightarrow> child m = (child n)(unat k := None)"
    using table_erase_child [OF n(3) k] by blast
  define m where "m = set_modified True (set_children (Some t') n)"
  have m: "children m = Some t'" "child m = (child n)(unat k := None)" "modified m" "sub_key m = sub_key n" "\<not> leaf m"
    using t'(4) [OF n(2), of m] n(1) by (simp_all add: m_def branch_def)
  obtain e1 where e1: "record_node DELETE_OP_MUSE c ext = Inr e1" using record_node_ok hit(1) by blast
  have bm: "branch ?d m" by (rule branch_update [OF n(1) m(1) t'(2) m(5,2)]) simp
  have hm: "hash_ok env m" if "hash_ok env n"
    by (rule hash_ok_marked [OF that _ m(5,3,2)]) (use n(1) in \<open>auto simp: branch_def\<close>)
  note without = look_without_leaf [OF n(1,4) c m(2)]
  have erased: "erase_post env d is_root (k # ks) n (Erased m)" if "is_root \<or> forks m"
    using that bm hm m(3,4) found without by (simp add: erase_post_def kept_def Let_def)
  show ?thesis
  proof (cases is_root)
    case True
    obtain e2 where "record_node UPDATE_OP_MUSE m e1 = Inr e2" using record_node_ok m(1) by blast
    then have "erase_leaf env is_root (unat k) t c n ext = Inr (Erased m, e2)"
      using e1 t'(1) True by (simp add: erase_leaf_def m_def [symmetric] Let_def)
    then show ?thesis using erased True by simp
  next
    case nonroot: False
    then have f: "2 \<le> tcount t" using r forks_tcount [OF n(2,3)] by simp
    show ?thesis
    proof (cases "tcount t' = 1")
      case False
      then have "erase_leaf env is_root (unat k) t c n ext = Inr (Erased m, e1)"
        using e1 t'(1) nonroot by (simp add: erase_leaf_def m_def [symmetric] Let_def)
      moreover have "forks m" using forks_tcount [OF m(1) t'(2)] f False t'(3) by simp
      ultimately show ?thesis using erased by simp
    next
      case True
      obtain i b where i: "table_first t' = Some i" "child m = [i \<mapsto> b]" "i < 16"
        using table_first_only [OF m(1) t'(2) True] .
      let ?b = "set_modified True (set_sub_key (sub_key n @ sub_key b) b)"
      have b: "child m i = Some b" by (simp add: i(2))
      have ib: "unat (hd (sub_key b)) = i" "wf_node ?d b" using branch_child [OF bm b] by auto
      obtain e2 where e2: "record_node DELETE_OP_MUSE m e1 = Inr e2" using record_node_ok m(1) by blast
      have run: "erase_leaf env is_root (unat k) t c n ext = Inr (Merge m ?b, e2)"
        using e1 t'(1) nonroot True i(1) e2 load_at_child [OF m(1) t'(2) i(3) b]
        by (simp add: erase_leaf_def m_def [symmetric] Let_def)
      have rn: "sub_key n \<noteq> []" "nib (sub_key n)" using r nonroot by auto
      note mb = merge_brother [OF rn i(2) ib]
      have "hash_ok env b" if "hash_ok env n" using hm [OF that] b m(5) hash_ok_iff [of env m] by auto
      then have "hash_ok env ?b" if "hash_ok env n"
        using that by (auto simp: hash_ok_iff [of env b] hash_ok_iff [of env ?b])
      moreover have "look_edge (sub_key n @ ks') ?b = (if ks' = k # ks then None else look ks' n)"
        if len: "?d + length ks' = 64" for ks'
      proof -
        obtain k' q where "ks' = k' # q" using branch_key [OF n(1) len] .
        then show ?thesis using mb(2) [OF len] without [OF len] by simp
      qed
      ultimately have "erase_post env d is_root (k # ks) n (Merge m ?b)"
        using nonroot m(4) mb(1) found by (simp add: erase_post_def Let_def)
      then show ?thesis using run by blast
    qed
  qed
qed

section \<open>The nodes above\<close>

lemma table_erase_at:
  assumes "children n = Some t" "wf_table t" "i < 16" "child n i \<noteq> None"
  shows "\<exists>t'. table_erase i t = Inr (t', True) \<and> wf_table t' \<and>
    child (set_children (Some t') n) = (child n)(i := None)"
proof -
  have "exist (slots t ! i)" using assms wf_table_slot [OF assms(2,3)] child_table [OF assms(1-3)] by simp
  from table_erase_child [OF assms(2,3) this] show ?thesis using assms(1) by (metis node_fields(20))
qed

lemma table_insert_at:
  assumes "children n = Some t" "wf_table t" "i < 16" "child n i = None"
  shows "\<exists>t'. table_insert i (Some c) t = Inr (t', True) \<and> wf_table t' \<and>
    child (set_children (Some t') n) = (child n)(i := Some c)"
proof -
  have "\<not> exist (slots t ! i)" using assms wf_table_slot [OF assms(2,3)] child_table [OF assms(1-3)] by simp
  from table_insert_new [OF assms(2,3) this] show ?thesis using assms(1) by (metis node_fields(20))
qed

lemma adopt_ok:
  assumes n: "branch d n" "children n = Some t" "wf_table t" "child n (unat k) = Some c"
    and p: "sub_key p = sub_key c" "hd (sub_key b) = hd (sub_key c)" "leaf b \<or> children b \<noteq> None"
  obtains n' t' ext' where "adopt (unat k) t p b n ext = Inr (n', ext')" "children n' = Some t'" "wf_table t'"
    "child n' = (child n)(unat k := Some b)" "modified n'" "sub_key n' = sub_key n" "\<not> leaf n'"
proof -
  have k: "unat k < 16" "unat (hd (sub_key c)) = unat k" using branch_child [OF n(1,4)] by auto
  let ?t = "put_child (unat k) p t"
  let ?n = "set_children (Some ?t) n"
  have wt: "wf_table ?t" using put_child_wf [OF n(3) k(1)] n(4) child_table [OF n(2,3) k(1)] by simp
  have cn: "child ?n = (child n)(unat k := Some p)" using child_put_child [OF n(2,3) k(1)] n(4) by simp
  obtain t1 where t1: "table_erase (unat k) ?t = Inr (t1, True)" "wf_table t1"
    "child (set_children (Some t1) n) = (child n)(unat k := None)"
    using table_erase_at [of ?n ?t "unat k"] wt k(1) cn by (auto simp: set_children_twice)
  obtain t2 where t2: "table_insert (unat k) (Some b) t1 = Inr (t2, True)" "wf_table t2"
    "child (set_children (Some t2) n) = (child n)(unat k := Some b)"
    using table_insert_at [of "set_children (Some t1) n" t1 "unat k" b] t1(2,3) k(1) by (auto simp: set_children_twice)
  let ?m = "set_modified True (set_children (Some t2) n)"
  have "child ?m = (child n)(unat k := Some b)"
    using t2(3) by simp
  moreover obtain e1 e2 where "record_node UPDATE_OP_MUSE b ext = Inr e1" "record_node UPDATE_OP_MUSE ?m e1 = Inr e2"
    using record_node_ok [OF p(3)] record_node_ok [of ?m] by fastforce
  then have "adopt (unat k) t p b n ext = Inr (?m, e2)"
    using t1(1) t2(1) k(2) p(1,2) by (simp add: adopt_def Let_def)
  ultimately show ?thesis using that [of ?m e2 t2] t2(2) n(1) by (simp add: branch_def)
qed

text \<open>The contents above an edge, when the node below was merged with its parent.\<close>

lemma look_edge_merged:
  assumes "wf_node d c" "sub_key c \<noteq> []" "sub_key b = sub_key c @ s" "d + length ks' = 64"
    and "\<And>q. (d + length (sub_key c)) + length q = 64 \<Longrightarrow>
      look_edge (sub_key c @ q) b = (if q = r then None else look q c)"
    and "ks = sub_key c @ r" "\<not> leaf c"
  shows "look_edge ks' b = (if ks' = ks then None else look_edge ks' c)"
proof (cases "\<exists>q. ks' = sub_key c @ q")
  case True
  then obtain q where q: "ks' = sub_key c @ q" ..
  have "q \<noteq> []" using assms(1,4,7) q by (auto simp: wf_node_iff [of d c] branch_def)
  then show ?thesis using assms(5) [of q] look_edge_append [OF assms(2), of q] assms(4,6) q by simp
next
  case False
  then show ?thesis
    using look_edge_None [of b ks'] look_edge_None [of c ks'] assms(2,3,6) by auto
qed

lemma erase_at_ok:
  assumes "branch (d + length (sub_key n)) n" "(d + length (sub_key n)) + length ks = 64" "nib ks"
    and "is_root \<or> sub_key n \<noteq> [] \<and> nib (sub_key n) \<and> forks n"
  shows "\<exists>e ext'. erase_at env is_root ks n ext = Inr (e, ext') \<and> erase_post env d is_root ks n e"
  using assms
proof (induction env is_root ks n ext arbitrary: d rule: erase_at.induct)
  case (1 env is_root n ext)
  then show ?case by (simp add: branch_def)
next
  case (2 env is_root k ks n ext)
  let ?d = "d + length (sub_key n)"
  obtain t where t: "children n = Some t" "wf_table t" using 2(2) by (rule branch_table)
  have k: "unat k < 16" using 2(4) by simp
  note ge = get_exist_child [OF t k] and same = set_children_same [OF t(1)]
  show ?case
  proof (cases "child n (unat k)")
    case None
    then show ?thesis using t ge by (simp add: look_Cons erase_post_def)
  next
    case (Some c)
    note la = load_at_child [OF t k Some]
    have c: "wf_node ?d c" "unat (hd (sub_key c)) = unat k" using branch_child [OF 2(2) Some] by auto
    then have ne: "sub_key c \<noteq> []" by (simp add: wf_node_iff)
    have kn: "k # ks \<noteq> []" by simp
    have g: "get_exist (unat k) t = Inr True" using ge Some by simp
    have missing: "\<exists>e ext'. erase_at env is_root (k # ks) n ext = Inr (e, ext') \<and> erase_post env d is_root (k # ks) n e"
      if "erase_at env is_root (k # ks) n ext = Inr (NotFound n, ext2)" "look (k # ks) n = None" for ext2
      using that by (simp add: erase_post_def Let_def)
    show ?thesis
    proof (rule edge_cases [OF ne kn, of 0], goal_cases)
      case 1
      have "erase_at env is_root (k # ks) n ext = erase_leaf env is_root (unat k) t c n ext"
        using t g la 1(1,2) by simp
      then show ?case using erase_leaf_ok [OF 2(2) t Some 2(5) 1(1) 2(3)] by simp
    next
      case (2 x)
      then show ?case using wf_not_short [OF c(1) \<open>?d + length (k # ks) = 64\<close>] by blast
    next
      case (4 p b' x b y)
      have "look_edge (k # ks) c = None" using look_edge_None [OF ne, of "k # ks"] 4(1,2,3) by auto
      then show ?case using missing t g la 4(4) same by (simp add: look_Cons Some)
    next
      case (3 r)
      note w = wf_deeper [OF c(1) \<open>?d + length (k # ks) = 64\<close> 3(2,1)]
      have nr: "nib r" using 2(4) unfolding 3(2) by simp
      have nc: "nib (sub_key c)" using c(1) by (simp add: wf_node_iff)
      obtain e ext' where e: "erase_at env False r c ext = Inr (e, ext')" "erase_post env ?d False r c e"
        using 2(1) [OF t(1) g _ la refl _ refl 3(3), of ?d] w nr nc ne by auto
      have lr: "look (k # ks) n = look r c"
        using look_edge_append [OF ne, of r] 3(1) unfolding 3(2) [symmetric] by (simp add: look_Cons Some)
      have run: "erase_at env is_root (k # ks) n ext =
          (case e of
             NotFound m \<Rightarrow> Inr (NotFound (set_children (Some (put_child (unat k) m t)) n), ext')
           | Erased m \<Rightarrow> Inr (Erased (set_modified True (set_children (Some (put_child (unat k) m t)) n)), ext')
           | Merge p b \<Rightarrow> chain (adopt (unat k) t p b n ext') (\<lambda>(n, ext). Inr (Erased n, ext)))"
        using t g la 3(3) e(1) by simp
      show ?case
      proof (cases e)
        case (NotFound m)
        then have "m = c" "look r c = None" using e(2) by (simp_all add: erase_post_def Let_def)
        moreover have "put_child (unat k) c t = t" using Some by (simp add: put_child_same child_table [OF t k])
        ultimately have "erase_at env is_root (k # ks) n ext = Inr (NotFound n, ext')"
          unfolding run NotFound by (simp add: same)
        then show ?thesis using missing lr \<open>look r c = None\<close> by simp
      next
        case (Erased m)
        then have m: "kept env (?d + length (sub_key c)) c m" "forks m" "look r c \<noteq> None"
          "\<And>ks'. (?d + length (sub_key c)) + length ks' = 64 \<Longrightarrow> look ks' m = (if ks' = r then None else look ks' c)"
          using e(2) by (simp_all add: erase_post_def Let_def)
        let ?n = "set_modified True (set_children (Some (put_child (unat k) m t)) n)"
        have q: "\<And>q. (?d + length (sub_key c)) + length q = 64 \<Longrightarrow> look q m = (if q = r \<and> True then None else look q c)"
          using m(4) by simp
        note st = deeper_step [OF 2(2) t Some 3(2,1) 2(3) m(1,2) q]
        have "is_root \<or> forks ?n" using 2(5) forks_update [OF _ st(2)] by blast
        then have "erase_post env d is_root (k # ks) n (Erased ?n)"
          using st(1,4) m(3) lr by (simp add: erase_post_def Let_def)
        then show ?thesis using run Erased by simp
      next
        case (Merge p b)
        then obtain s where m: "sub_key p = sub_key c" "sub_key b = sub_key c @ s" "wf_node ?d b"
          "hash_ok env c \<Longrightarrow> hash_ok env b" "look r c \<noteq> None"
          "\<And>ks'. (?d + length (sub_key c)) + length ks' = 64 \<Longrightarrow>
            look_edge (sub_key c @ ks') b = (if ks' = r then None else look ks' c)"
          using e(2) by (auto simp: erase_post_def Let_def)
        have hd_b: "hd (sub_key b) = hd (sub_key c)" using ne by (simp add: m(2))
        obtain n' t' ext2 where a: "adopt (unat k) t p b n ext' = Inr (n', ext2)" "children n' = Some t'" "wf_table t'"
          "child n' = (child n)(unat k := Some b)" "modified n'" "sub_key n' = sub_key n" "\<not> leaf n'"
          using adopt_ok [OF 2(2) t Some m(1) hd_b wf_recordable [OF m(3)]] by blast
        have "branch ?d n'"
          by (rule branch_update [OF 2(2) a(2,3,7,4)]) (use hd_b m(3) c(2) in auto)
        moreover have "hash_ok env n'" if "hash_ok env n"
          by (rule hash_ok_marked [OF that _ a(7,5,4)])
             (use that 2(2) m(4) Some hash_ok_iff [of env n] in \<open>auto simp: branch_def\<close>)
        moreover have "look ks' n' = (if ks' = k # ks then None else look ks' n)" if len: "?d + length ks' = 64" for ks'
        proof -
          obtain k' q where q: "ks' = k' # q" using branch_key [OF 2(2) len] .
          have "look_edge ks' b = (if ks' = k # ks then None else look_edge ks' c)"
            by (rule look_edge_merged [OF c(1) ne m(2) len m(6) 3(2)]) (use w in auto)
          then show ?thesis using look_update [OF a(4), of k' q] Some by (auto simp: q look_Cons)
        qed
        ultimately show ?thesis
          using run Merge a(1,5,6) m(5) lr forks_update [OF _ a(4)] 2(5) by (auto simp: erase_post_def kept_def Let_def)
      qed
    qed
  qed
qed

end
