(* ===== verification/Mpt_Canonical.thy ===== *)
theory Mpt_Canonical
  imports Mpt_Erase
begin

text \<open>
  Marking and changing an account in a trie kept in memory, and the canonical form: the hash of a
  tree depends only on its contents.
\<close>

section \<open>Marked paths\<close>

text \<open>The branches on the way to a key are marked.\<close>

fun path_marked :: "byte list \<Rightarrow> mpt_node \<Rightarrow> bool" where
  "path_marked [] n = True"
| "path_marked (k # ks) n \<longleftrightarrow> modified n \<and>
     (case child n (unat k) of
        None \<Rightarrow> True
      | Some c \<Rightarrow> (case match_edge 0 (sub_key c) (k # ks) of Deeper r \<Rightarrow> path_marked r c | _ \<Rightarrow> True))"

declare path_marked.simps(2) [simp del]

lemma forks_dom: "dom (child m) = dom (child n) \<Longrightarrow> forks m = forks n"
  unfolding forks_def by (metis domIff)

lemma descend_marked:
  assumes "branch d n" "d + length ks = 64" "nib ks"
  shows "\<exists>n'. descend env True ks n = Inr (n', look ks n \<noteq> None, look ks n) \<and> kept env d n n' \<and>
    dom (child n') = dom (child n) \<and> (\<forall>ks'. d + length ks' = 64 \<longrightarrow> look ks' n' = look ks' n) \<and>
    (if look ks n = None then n' = n else path_marked ks n')"
  using assms
proof (induction ks n arbitrary: d rule: look.induct)
  case (2 k ks n)
  obtain t where t: "children n = Some t" "wf_table t" using 2(2) by (rule branch_table)
  have k: "unat k < 16" using 2(4) by simp
  note ge = get_exist_child [OF t k] and same = set_children_same [OF t(1)]
  show ?case
  proof (cases "child n (unat k)")
    case None
    then show ?thesis using t ge kept_refl [OF 2(2)] by (simp add: look_Cons)
  next
    case (Some c)
    note la = load_at_child [OF t k Some]
    have c: "wf_node d c" using branch_child [OF 2(2) Some] by simp
    then have ne: "sub_key c \<noteq> []" by (simp add: wf_node_iff)
    have kn: "k # ks \<noteq> []" by simp
    have g: "get_exist (unat k) t = Inr True" using ge Some by simp
    show ?thesis
    proof (rule edge_cases [OF ne kn, of 0], goal_cases)
      case 1
      have v: "look (k # ks) n = nvalue c" "nvalue c \<noteq> None"
        using look_edge_leaf [OF 1(1) kn, of "k # ks"] wf_hit [OF c] 2(3) 1(1) by (simp_all add: look_Cons Some)
      have run: "descend env True (k # ks) n = Inr (set_modified True n, True, nvalue c)"
        using t g la same 1(2) by simp
      have "kept env d n (set_modified True n)"
        using 2(2) by (auto simp: kept_def hash_ok_iff [of env n] hash_ok_iff [of env "set_modified True n"])
      moreover have "path_marked (k # ks) (set_modified True n)"
        using Some 1(2) by (simp add: path_marked.simps(2))
      ultimately show ?case unfolding run using v by auto
    next
      case (2 x)
      then show ?case using wf_not_short [OF c \<open>d + length (k # ks) = 64\<close>] by blast
    next
      case (4 p b' x b y)
      have "look_edge (k # ks) c = None" using look_edge_None [OF ne, of "k # ks"] 4(1,2,3) by auto
      then show ?case using t g la 4(4) same kept_refl [OF 2(2)] by (simp add: look_Cons Some)
    next
      case (3 r)
      note w = wf_deeper [OF c \<open>d + length (k # ks) = 64\<close> 3(2,1)]
      have nr: "nib r" using 2(4) unfolding 3(2) by simp
      obtain c' where i: "descend env True r c = Inr (c', look r c \<noteq> None, look r c)"
        "kept env (d + length (sub_key c)) c c'" "dom (child c') = dom (child c)"
        "\<And>q. (d + length (sub_key c)) + length q = 64 \<Longrightarrow> look q c' = look q c"
        "if look r c = None then c' = c else path_marked r c'"
        using 2(1) [OF Some 3(3), of "d + length (sub_key c)"] w nr by blast
      have fc: "forks c'" using w forks_dom [OF i(3)] by simp
      have q: "\<And>q. (d + length (sub_key c)) + length q = 64 \<Longrightarrow> look q c' = (if q = r \<and> False then None else look q c)"
        using i(4) by simp
      note st = deeper_step [OF 2(2) t Some 3(2,1) 2(3) i(2) fc q]
      let ?n = "set_modified True (set_children (Some (put_child (unat k) c' t)) n)"
      show ?case
      proof (cases "look r c = None")
        case True
        moreover have "put_child (unat k) c t = t" using Some by (simp add: put_child_same child_table [OF t k])
        ultimately have "descend env True (k # ks) n = Inr (n, False, None)"
          using t g la 3(3) i(1,5) same by simp
        then show ?thesis using True st(3) kept_refl [OF 2(2)] by simp
      next
        case False
        then have "descend env True (k # ks) n = Inr (?n, True, look r c)"
          using t g la 3(3) i(1) by simp
        moreover have "path_marked (k # ks) ?n"
          using st(2) i(2,5) False 3(3) by (simp add: path_marked.simps(2) kept_def)
        moreover have "dom (child ?n) = dom (child n)" using st(2) Some by auto
        ultimately show ?thesis using st False by auto
      qed
    qed
  qed
qed (simp add: branch_def)

text \<open>A leaf keeps its edge and takes another account.\<close>

lemma update_at_ok:
  assumes "branch d n" "d + length ks = 64" "nib ks" "look ks n \<noteq> None \<longrightarrow> path_marked ks n"
  shows "kept env d n (update_at ks f n) \<and> dom (child (update_at ks f n)) = dom (child n) \<and>
    (\<forall>ks'. d + length ks' = 64 \<longrightarrow>
      look ks' (update_at ks f n) = (if ks' = ks then map_option f (look ks n) else look ks' n)) \<and>
    (look ks n = None \<longrightarrow> update_at ks f n = n)"
  using assms
proof (induction ks n arbitrary: d rule: look.induct)
  case (2 k ks n)
  obtain t where t: "children n = Some t" "wf_table t" using 2(2) by (rule branch_table)
  have k: "unat k < 16" using 2(4) by simp
  note slot = wf_table_slot [OF t(2) k] child_table [OF t k]
  have stay: ?case if "update_at (k # ks) f n = n" "look (k # ks) n = None"
    unfolding that(1) using that(2) kept_refl [OF 2(2)] by simp
  show ?case
  proof (cases "child n (unat k)")
    case None
    then show ?thesis using stay t slot by (simp add: look_Cons)
  next
    case (Some c)
    have c: "wf_node d c" using branch_child [OF 2(2) Some] by simp
    then have ne: "sub_key c \<noteq> []" by (simp add: wf_node_iff)
    have kn: "k # ks \<noteq> []" by simp
    have s: "cnode (slots t ! unat k) = Some c" "exist (slots t ! unat k)" "unat k < length (slots t)"
      using slot Some by auto
    show ?thesis
    proof (rule edge_cases [OF ne kn, of 0], goal_cases)
      case 1
      have v: "look (k # ks) n = nvalue c" "nvalue c \<noteq> None" "leaf c"
        using look_edge_leaf [OF 1(1) kn, of "k # ks"] wf_hit [OF c] 2(3) 1(1) by (simp_all add: look_Cons Some)
      let ?c = "set_value (map_option f (nvalue c)) c"
      let ?n = "set_children (Some (put_child (unat k) ?c t)) n"
      have "modified n" using 2(5) v by (simp add: path_marked.simps(2))
      then have marked: "set_modified True ?n = ?n" by (cases n) simp
      have run: "update_at (k # ks) f n = ?n" using t s 1(2) by simp
      have wc: "wf_node d ?c" "sub_key ?c = sub_key c" "hash_ok env ?c"
        using c v by (simp_all add: wf_node_iff [of d] hash_leaf)
      note kc = kept_child [OF 2(2) t Some wc(1,2), of env, OF wc(3), unfolded marked]
      have "look ks' ?n = (if ks' = k # ks then map_option f (look (k # ks) n) else look ks' n)"
        if len: "d + length ks' = 64" for ks'
      proof -
        obtain k' q where q: "ks' = k' # q" using branch_key [OF 2(2) len] .
        have l: "length ks' = length (k # ks)" using len 2(3) by simp
        have "look_edge ks' ?c = (if ks' = k # ks then map_option f (nvalue c) else None)"
          "look_edge ks' c = (if ks' = k # ks then nvalue c else None)"
          using look_edge_leaf [of ?c "k # ks" ks'] look_edge_leaf [OF 1(1) kn l] l 1(1) by simp_all
        then show ?thesis using look_update [OF kc(2), of k' q] Some v(1) by (auto simp: q look_Cons)
      qed
      moreover have "dom (child ?n) = dom (child n)" using kc(2) Some by auto
      ultimately show ?case unfolding run using kc(1) v by auto
    next
      case (2 x)
      then show ?case using wf_not_short [OF c \<open>d + length (k # ks) = 64\<close>] by blast
    next
      case (4 p b' x b y)
      have "look_edge (k # ks) c = None" using look_edge_None [OF ne, of "k # ks"] 4(1,2,3) by auto
      then show ?case using stay t s 4(4) by (simp add: look_Cons Some)
    next
      case (3 r)
      note w = wf_deeper [OF c \<open>d + length (k # ks) = 64\<close> 3(2,1)]
      have nr: "nib r" using 2(4) unfolding 3(2) by simp
      have lr: "look (k # ks) n = look r c"
        using look_edge_append [OF ne, of r] 3(1) unfolding 3(2) [symmetric] by (simp add: look_Cons Some)
      have pm: "look r c \<noteq> None \<longrightarrow> path_marked r c" "look r c \<noteq> None \<longrightarrow> modified n"
        using 2(5) lr Some 3(3) by (auto simp: path_marked.simps(2))
      let ?c = "update_at r f c"
      have i: "kept env (d + length (sub_key c)) c ?c" "dom (child ?c) = dom (child c)"
        "\<And>q. (d + length (sub_key c)) + length q = 64 \<Longrightarrow>
          look q ?c = (if q = r \<and> True then map_option f (look r c) else look q c)"
        "look r c = None \<Longrightarrow> ?c = c"
        using 2(1) [OF Some 3(3), of "d + length (sub_key c)"] w nr pm(1) by auto
      have run: "update_at (k # ks) f n = set_children (Some (put_child (unat k) ?c t)) n"
        using t s 3(3) by simp
      have fc: "forks ?c" using w forks_dom [OF i(2)] by simp
      note st = deeper_step [OF 2(2) t Some 3(2,1) 2(3) i(1) fc i(3)]
      show ?case
      proof (cases "look r c = None")
        case True
        moreover have "put_child (unat k) c t = t" using Some by (simp add: put_child_same child_table [OF t k])
        ultimately show ?thesis using stay run i(4) lr set_children_same [OF t(1)] by simp
      next
        case False
        then have "modified n" using pm(2) by simp
        then have marked: "set_modified True (set_children (Some (put_child (unat k) ?c t)) n) = update_at (k # ks) f n"
          unfolding run by (cases n) simp
        have "dom (child (update_at (k # ks) f n)) = dom (child n)" using st(2) Some unfolding marked by auto
        then show ?thesis using st(1,4) False lr unfolding marked by auto
      qed
    qed
  qed
qed (simp add: branch_def)

section \<open>Canonical form\<close>

lemma look_edge_prefix: "look_edge ks c \<noteq> None \<Longrightarrow> sub_key c \<noteq> [] \<Longrightarrow> \<exists>r. ks = sub_key c @ r"
  using look_edge_None [of c ks] by metis

text \<open>A child of a branch is seen through the keys that start with its nibble.\<close>

lemma look_child:
  assumes "branch d n" "child n i = Some c" "look_edge ks c \<noteq> None"
  shows "look ks n = look_edge ks c" "\<exists>k r. ks = k # r \<and> unat k = i"
proof -
  have c: "unat (hd (sub_key c)) = i" "sub_key c \<noteq> []" using branch_child [OF assms(1,2)] by (auto simp: wf_node_iff)
  obtain r where "ks = sub_key c @ r" using look_edge_prefix [OF assms(3) c(2)] ..
  then obtain k q where q: "ks = k # q" "unat k = i" using c by (cases "sub_key c") auto
  then show "look ks n = look_edge ks c" "\<exists>k r. ks = k # r \<and> unat k = i"
    using assms(2) by (simp_all add: look_Cons)
qed

text \<open>Every node holds at least one account.\<close>

lemma wf_inhabited: "wf_node d c \<Longrightarrow> \<exists>ks. d + length ks = 64 \<and> look_edge ks c \<noteq> None"
proof (induction rule: wf_node.induct)
  case (wf_leaf n d)
  then show ?case using look_edge_append [of n "[]"] by (intro exI [of _ "sub_key n"]) simp
next
  case (wf_branch n t d)
  obtain i c where c: "child n i = Some c" using wf_branch.hyps(7) by auto
  have b: "branch (d + length (sub_key n)) n" using wf_branch by (auto simp: branch_def)
  obtain q where q: "(d + length (sub_key n)) + length q = 64" "look_edge q c \<noteq> None"
    using wf_branch.IH c by blast
  have "look q n \<noteq> None" "q \<noteq> []" using look_child [OF b c q(2)] q(2) by auto
  then have "look_edge (sub_key n @ q) n \<noteq> None" using look_edge_append [OF wf_branch.hyps(4), of q] by simp
  then show ?case using q(1) by (intro exI [of _ "sub_key n @ q"]) simp
qed

text \<open>Nodes with the same contents have the same edge.\<close>

lemma edge_not_longer:
  assumes "wf_node d c" "wf_node d c'" "\<And>ks. d + length ks = 64 \<Longrightarrow> look_edge ks c = look_edge ks c'"
  shows "sub_key c' \<noteq> sub_key c @ b # y"
proof
  assume e: "sub_key c' = sub_key c @ b # y"
  have "d + length (sub_key c') \<le> 64" using assms(2) by (auto simp: wf_node_iff [of d c'] branch_def split: if_splits)
  then have l: "\<not> leaf c" using assms(1) e by (auto simp: wf_node_iff [of d c])
  have ne: "sub_key c \<noteq> []" and br: "branch (d + length (sub_key c)) c" and f: "forks c"
    using assms(1) l by (auto simp: wf_node_iff [of d c])
  obtain i x where x: "i \<noteq> unat b" "child c i = Some x" using f by (auto simp: forks_def) metis
  obtain q where q: "(d + length (sub_key c)) + length q = 64" "look_edge q x \<noteq> None"
    using wf_inhabited branch_child [OF br x(2)] by blast
  obtain k r where k: "q = k # r" "unat k = i" using look_child(2) [OF br x(2) q(2)] by blast
  have "look_edge (sub_key c @ q) c \<noteq> None"
    using look_edge_append [OF ne, of q] look_child(1) [OF br x(2) q(2)] q(2) k by simp
  then have "look_edge (sub_key c @ q) c' \<noteq> None" using assms(3) [of "sub_key c @ q"] q(1) by simp
  then obtain s where "sub_key c @ q = sub_key c' @ s" using look_edge_prefix e by blast
  then show False using e k x(1) by simp
qed

lemma same_edge:
  assumes "wf_node d c" "wf_node d c'" "\<And>ks. d + length ks = 64 \<Longrightarrow> look_edge ks c = look_edge ks c'"
  shows "sub_key c = sub_key c'"
proof -
  have ne: "sub_key c \<noteq> []" "sub_key c' \<noteq> []" using assms(1,2) by (auto simp: wf_node_iff)
  obtain ks where ks: "d + length ks = 64" "look_edge ks c \<noteq> None" using wf_inhabited [OF assms(1)] by blast
  obtain r where r: "ks = sub_key c @ r" using look_edge_prefix [OF ks(2) ne(1)] by blast
  obtain r' where "ks = sub_key c' @ r'" using look_edge_prefix ks assms(3) ne(2) by metis
  then have "sub_key c @ r = sub_key c' @ r'" using r by simp
  then obtain s where "sub_key c = sub_key c' @ s \<or> sub_key c' = sub_key c @ s"
    unfolding append_eq_append_conv2 by metis
  then show ?thesis
    using edge_not_longer [OF assms] edge_not_longer [OF assms(2,1) assms(3) [symmetric]] by (cases s) auto
qed

text \<open>Branches with the same contents have children in the same slots, with the same contents.\<close>

lemma same_children:
  assumes "branch d n" "branch d n'" "\<And>ks. d + length ks = 64 \<Longrightarrow> look ks n = look ks n'" "child n i = Some c"
  obtains c' where "child n' i = Some c'" "wf_node d c'" "\<And>ks. d + length ks = 64 \<Longrightarrow> look_edge ks c = look_edge ks c'"
proof -
  obtain q where q: "d + length q = 64" "look_edge q c \<noteq> None"
    using wf_inhabited branch_child [OF assms(1,4)] by blast
  have "look q n' \<noteq> None" using look_child(1) [OF assms(1,4) q(2)] q assms(3) by simp
  moreover obtain k r where k: "q = k # r" "unat k = i" using look_child(2) [OF assms(1,4) q(2)] by blast
  ultimately obtain c' where c': "child n' i = Some c'" by (auto simp: look_Cons split: option.splits)
  have "look_edge ks c = look_edge ks c'" if len: "d + length ks = 64" for ks
  proof (cases "look_edge ks c = None \<and> look_edge ks c' = None")
    case False
    then have "look_edge ks c \<noteq> None \<or> look_edge ks c' \<noteq> None" by simp
    then obtain k r where k: "ks = k # r" "unat k = i"
      using look_child(2) [OF assms(1,4)] look_child(2) [OF assms(2) c'] by metis
    then show ?thesis using assms(3) [OF len] assms(4) c' by (simp add: look_Cons)
  qed simp
  then show ?thesis using that c' branch_child [OF assms(2) c'] by blast
qed

lemma same_contents_branch:
  assumes "branch d n" "branch d n'" "\<And>ks. d + length ks = 64 \<Longrightarrow> look ks n = look ks n'"
    and "\<And>i c c'. child n i = Some c \<Longrightarrow> wf_node d c' \<Longrightarrow>
      (\<And>ks. d + length ks = 64 \<Longrightarrow> look_edge ks c = look_edge ks c') \<Longrightarrow> tree_hash env c = tree_hash env c'"
  shows "tree_hash env n = tree_hash env n'"
proof (rule tree_hash_cong)
  show "leaf n = leaf n'" using assms(1,2) by (simp add: branch_def)
  fix i
  show "map_option (tree_hash env) (child n i) = map_option (tree_hash env) (child n' i)"
  proof (cases "child n i")
    case None
    have "child n' i = None"
    proof (rule ccontr)
      assume "child n' i \<noteq> None"
      then obtain x where "child n' i = Some x" by blast
      then show False using same_children [OF assms(2,1) assms(3) [symmetric]] None by fastforce
    qed
    then show ?thesis using None by simp
  next
    case (Some c)
    then obtain c' where "child n' i = Some c'" "wf_node d c'" "\<And>ks. d + length ks = 64 \<Longrightarrow> look_edge ks c = look_edge ks c'"
      using same_children [OF assms(1-3)] by blast
    then show ?thesis using Some assms(4) by simp
  qed
qed (use assms(1) in \<open>simp add: branch_def\<close>)

lemma same_contents_node:
  "wf_node d c \<Longrightarrow> wf_node d c' \<Longrightarrow> (\<And>ks. d + length ks = 64 \<Longrightarrow> look_edge ks c = look_edge ks c') \<Longrightarrow>
    tree_hash env c = tree_hash env c'"
proof (induction arbitrary: c' rule: wf_node.induct)
  case (wf_leaf n d)
  have w: "wf_node d n" using wf_leaf.hyps by (rule wf_node.wf_leaf)
  have e: "sub_key n = sub_key c'" using same_edge [OF w wf_leaf.prems] .
  then have l: "leaf c'" using wf_hit [OF wf_leaf.prems(1)] wf_leaf.hyps by simp
  have "nvalue n = nvalue c'"
    using wf_leaf.prems(2) [of "sub_key n"] wf_leaf.hyps look_edge_append [of n "[]"] look_edge_append [of c' "[]"] e by simp
  moreover have "child n i = None" "child c' i = None" for i
    using wf_leaf.hyps wf_leaf.prems(1) l by (auto simp: child_def wf_node_iff)
  ultimately show ?case by (intro tree_hash_cong) (simp_all add: wf_leaf.hyps l)
next
  case (wf_branch n t d)
  have w: "wf_node d n" by (rule wf_node.wf_branch) (use wf_branch in auto)
  have e: "sub_key n = sub_key c'" using same_edge [OF w wf_branch.prems] .
  let ?d = "d + length (sub_key n)"
  have ne: "sub_key n \<noteq> []" using wf_branch.hyps by simp
  have l: "\<not> leaf c'" using wf_branch.hyps wf_branch.prems(1) e by (auto simp: wf_node_iff)
  have b: "branch ?d n" "branch ?d c'" using w wf_branch.prems(1) e l wf_branch.hyps(1) by (simp_all add: wf_node_iff [of d])
  have "look q n = look q c'" if "?d + length q = 64" for q
  proof -
    have "q \<noteq> []" using branch_key [OF b(1) that] by blast
    then show ?thesis
      using wf_branch.prems(2) [of "sub_key n @ q"] that look_edge_append [OF ne, of q] look_edge_append [of c' q] ne e by simp
  qed
  then show ?case by (rule same_contents_branch [OF b]) (use wf_branch.IH in blast)+
qed

text \<open>The hash of a trie is determined by its contents.\<close>

lemma same_contents_root:
  assumes "branch 0 n" "branch 0 n'" "\<And>ks. length ks = 64 \<Longrightarrow> look ks n = look ks n'"
  shows "tree_hash env n = tree_hash env n'"
proof (rule same_contents_branch [OF assms(1,2)])
  fix ks :: "byte list"
  assume "0 + length ks = 64"
  then show "look ks n = look ks n'" using assms(3) by simp
next
  fix i c c'
  assume "child n i = Some c" "wf_node 0 c'" "\<And>ks. 0 + length ks = 64 \<Longrightarrow> look_edge ks c = look_edge ks c'"
  then show "tree_hash env c = tree_hash env c'"
    using branch_child [OF assms(1)] same_contents_node [of 0 c c'] by blast
qed

end
