(* ===== verification/Mpt_Hash.thy ===== *)
theory Mpt_Hash
  imports Mpt_Canonical
begin

text \<open>
  The incremental root hash: the two loops of \<open>get_hash_helper_2stack\<close> end, and leave the root with
  the hash of its tree and without a mark. The first loop collects the marked branches, parents
  before children; the second computes their hashes in the opposite order.
\<close>

section \<open>Paths\<close>

definition mem :: "mpt_node \<Rightarrow> bool" where
  "mem n \<longleftrightarrow> (\<exists>d. branch d n)"

lemma mem_table: "mem n \<Longrightarrow> \<exists>t. children n = Some t \<and> wf_table t"
  by (auto simp: mem_def branch_def)

lemma mem_child: "mem n \<Longrightarrow> child n i = Some c \<Longrightarrow> if leaf c then children c = None \<and> nvalue c \<noteq> None else mem c"
  unfolding mem_def using branch_child by (metis wf_node_iff)

lemma child_slot:
  assumes "children n = Some t" "wf_table t"
  shows "child n i = (if i < length (slots t) then cnode (slots t ! i) else None)"
  using assms child_table [OF assms, of i] by (simp add: child_def wf_table_def)

lemma node_at_child:
  assumes "mem n \<or> children n = None"
  shows "node_at (i # p) n = (case child n i of None \<Rightarrow> None | Some c \<Rightarrow> node_at p c)"
proof (cases "children n")
  case (Some t)
  then have "wf_table t" using assms mem_table by fastforce
  then show ?thesis using Some by (simp add: child_slot)
qed (simp add: child_def)

lemma node_at_append: "node_at (p @ q) n = (case node_at p n of None \<Rightarrow> None | Some c \<Rightarrow> node_at q c)"
  by (induction p arbitrary: n) (auto split: option.splits)

lemma replace_at_child:
  assumes "children n = Some t" "wf_table t"
  shows "replace_at (i # p) m n =
    (case child n i of None \<Rightarrow> n | Some c \<Rightarrow> set_children (Some (put_child i (replace_at p m c) t)) n)"
  using assms by (simp add: child_slot)

declare node_at.simps(2) [simp del] replace_at.simps(2) [simp del]

lemma node_at_Cons:
  assumes "mem n" "node_at (i # p) n = Some c"
  obtains x where "child n i = Some x" "node_at p x = Some c"
  using assms node_at_child [of n i p] by (cases "child n i") auto

lemma node_at_leaf: "children n = None \<Longrightarrow> node_at p n = (if p = [] then Some n else None)"
  using node_at_child [of n] by (cases p) (simp_all add: child_def)

lemma node_at_inner:
  "mem n \<Longrightarrow> node_at p n = Some c \<Longrightarrow> if leaf c then children c = None \<and> nvalue c \<noteq> None else mem c"
proof (induction p arbitrary: n)
  case Nil
  then show ?case by (auto simp: mem_def branch_def)
next
  case (Cons i p)
  obtain x where x: "child n i = Some x" "node_at p x = Some c" using node_at_Cons [OF Cons.prems] .
  note inner = mem_child [OF Cons.prems(1) x(1)]
  show ?case
  proof (cases "leaf x")
    case True
    then show ?thesis using inner x(2) node_at_leaf [of x p] by (simp split: if_splits)
  next
    case False
    then show ?thesis using Cons.IH [OF _ x(2)] inner by simp
  qed
qed

lemma replace_at_same: "mem n \<Longrightarrow> node_at p n = Some c \<Longrightarrow> mem c \<Longrightarrow> replace_at p c n = n"
proof (induction p arbitrary: n)
  case (Cons i p)
  obtain x where x: "child n i = Some x" "node_at p x = Some c" using node_at_Cons [OF Cons.prems(1,2)] .
  obtain t where t: "children n = Some t" "wf_table t" using mem_table [OF Cons.prems(1)] by blast
  have "mem x"
    using mem_child [OF Cons.prems(1) x(1)] x(2) Cons.prems(3) node_at_leaf [of x p] mem_def branch_def
    by (auto split: if_splits)
  then have "replace_at p c x = x" using Cons.IH x(2) Cons.prems(3) by blast
  moreover have "cnode (slots t ! i) = Some x" using x(1) child_slot [OF t] by (simp split: if_splits)
  ultimately show ?case using x(1) by (simp add: replace_at_child [OF t] put_child_same set_children_same [OF t(1)])
qed simp

text \<open>The paths of the marked branches.\<close>

definition marked :: "mpt_node \<Rightarrow> nat list set" where
  "marked n = {p. \<exists>c. node_at p n = Some c \<and> modified c \<and> \<not> leaf c}"

definition todo :: "mpt_node \<Rightarrow> nat \<Rightarrow> bool" where
  "todo n i \<longleftrightarrow> (case child n i of None \<Rightarrow> False | Some c \<Rightarrow> modified c \<and> \<not> leaf c)"

lemma marked_child:
  assumes "mem n"
  shows "i # p \<in> marked n \<longleftrightarrow> (\<exists>c. child n i = Some c \<and> p \<in> marked c)"
  using node_at_child [of n i p] assms by (auto simp: marked_def split: option.splits)

lemma marked_snoc:
  assumes "mem n" "node_at p n = Some c" "mem c"
  shows "p @ [i] \<in> marked n \<longleftrightarrow> todo c i"
  using assms node_at_child [of c i "[]"] by (auto simp: marked_def node_at_append todo_def split: option.splits)

section \<open>The first loop\<close>

lemma scan_memory:
  assumes "children n = Some t" "wf_table t" "set is \<subseteq> {..<16}"
  shows "scan env is t = Inr (t, filter (todo n) is)"
  using assms(3)
proof (induction "is")
  case (Cons i "is")
  have i: "i < 16" using Cons.prems by simp
  show ?case
    using Cons get_exist_child [OF assms(1,2) i] load_at_child [OF assms(1,2) i]
    by (cases "child n i") (auto simp: todo_def)
qed simp

fun mods :: "mpt_node \<Rightarrow> nat" where
  "mods n = Suc (sum_list (map (\<lambda>i. case child n i of None \<Rightarrow> 0 | Some c \<Rightarrow>
     if modified c \<and> \<not> leaf c then mods c else 0) [0..<16]))"

declare mods.simps [simp del]

lemma mods_filter:
  "sum_list (map (\<lambda>i. case child n i of None \<Rightarrow> 0 | Some c \<Rightarrow> if modified c \<and> \<not> leaf c then mods c else 0) is) =
   sum_list (map (\<lambda>i. mods (the (child n i))) (filter (todo n) is))"
  by (induction "is") (auto simp: todo_def split: option.splits)

lemma mods_pushed:
  assumes "node_at p n = Some c" "mem c"
  shows "sum_list (map (\<lambda>q. mods (the (node_at q n))) (rev (map (\<lambda>j. p @ [j]) (filter (todo c) [0..<16])))) < mods c"
proof -
  have "node_at (p @ [j]) n = child c j" for j
    using assms node_at_child [of c j "[]"] by (simp add: node_at_append split: option.splits)
  then have "sum_list (map (\<lambda>q. mods (the (node_at q n))) (rev (map (\<lambda>j. p @ [j]) (filter (todo c) [0..<16])))) =
      sum_list (map (\<lambda>j. mods (the (child c j))) (filter (todo c) [0..<16]))"
    by (simp add: rev_map [symmetric] sum_list_rev comp_def)
  then show ?thesis by (subst (2) mods.simps) (simp add: mods_filter)
qed

text \<open>
  In front of a collected node are its marked children, unless it is still to be visited: they are
  taken from the stack before it.
\<close>

definition collected :: "mpt_node \<Rightarrow> nat list list \<Rightarrow> nat list list \<Rightarrow> bool" where
  "collected n aux cache \<longleftrightarrow> (\<forall>p \<in> set aux \<union> set cache. \<exists>c. node_at p n = Some c \<and> mem c) \<and>
     (\<forall>xs p ys c j. cache = xs @ p # ys \<longrightarrow> p \<notin> set aux \<longrightarrow> node_at p n = Some c \<longrightarrow> todo c j \<longrightarrow> p @ [j] \<in> set xs)"

lemma collected_step:
  assumes "collected n (p # aux) cache" "node_at p n = Some c" "mem n" "mem c"
    and "new = rev (map (\<lambda>j. p @ [j]) (filter (todo c) [0..<16]))"
  shows "collected n (new @ aux) (new @ cache)"
proof -
  have todo16: "todo c j \<Longrightarrow> j < 16" for j
    using mem_table [OF assms(4)] child_less by (fastforce simp: todo_def split: option.splits)
  have new: "q \<in> set new \<longleftrightarrow> (\<exists>j. q = p @ [j] \<and> todo c j)" for q using assms(5) todo16 by auto
  have "\<exists>x. node_at q n = Some x \<and> mem x" if q: "q \<in> set new" for q
  proof -
    obtain j where j: "q = p @ [j]" "todo c j" using q new by blast
    then have "q \<in> marked n" using marked_snoc [OF assms(3,2,4)] by simp
    then obtain x where "node_at q n = Some x" "\<not> leaf x" by (auto simp: marked_def)
    then show ?thesis using node_at_inner [OF assms(3)] by fastforce
  qed
  moreover have "q @ [j] \<in> set xs"
    if s: "new @ cache = xs @ q # ys" and q: "q \<notin> set (new @ aux)" "node_at q n = Some x" "todo x j" for xs q ys x j
  proof -
    have "\<exists>zs. xs = new @ zs \<and> cache = zs @ q # ys"
      using s q(1) by (auto simp: append_eq_append_conv2 append_eq_Cons_conv)
    then obtain zs where zs: "xs = new @ zs" "cache = zs @ q # ys" by blast
    show ?thesis
    proof (cases "q = p")
      case True
      then show ?thesis using zs(1) new q(2,3) assms(2) by auto
    next
      case False
      then have "q @ [j] \<in> set zs" using assms(1) zs(2) q unfolding collected_def by auto
      then show ?thesis using zs(1) by simp
    qed
  qed
  ultimately show ?thesis using assms(1) unfolding collected_def by auto
qed

lemma collect_ok:
  assumes "mem n" "collected n aux cache"
  shows "\<exists>cache'. collect env aux cache n = Some (Inr (cache', n)) \<and> collected n [] cache' \<and> set cache \<subseteq> set cache'"
  using assms(2)
proof (induction "sum_list (map (\<lambda>p. mods (the (node_at p n))) aux)" arbitrary: aux cache rule: less_induct)
  case less
  show ?case
  proof (cases aux)
    case Nil
    then show ?thesis using less.prems by (simp add: collect.simps)
  next
    case (Cons p aux')
    obtain c where c: "node_at p n = Some c" "mem c" using less.prems Cons by (auto simp: collected_def)
    obtain t where t: "children c = Some t" "wf_table t" using mem_table [OF c(2)] by blast
    have l: "\<not> leaf c" using c(2) by (auto simp: mem_def branch_def)
    let ?new = "rev (map (\<lambda>j. p @ [j]) (filter (todo c) [0..<16]))"
    have inv: "collected n (?new @ aux') (?new @ cache)"
      using collected_step less.prems Cons c assms(1) by blast
    have "sum_list (map (\<lambda>p. mods (the (node_at p n))) (?new @ aux')) <
        sum_list (map (\<lambda>p. mods (the (node_at p n))) aux)"
      using mods_pushed [OF c] Cons c(1) by simp
    from less.hyps [OF this inv] obtain cache' where r:
      "collect env (?new @ aux') (?new @ cache) n = Some (Inr (cache', n))" "collected n [] cache'"
      "set (?new @ cache) \<subseteq> set cache'" by blast
    have "collect env aux cache n = collect env (?new @ aux') (?new @ cache) n"
    proof (cases "tcount t = 0")
      case True
      then have "todo c j = False" for j
        using tcount_card [OF t] by (auto simp: todo_def dom_def split: option.splits)
      then show ?thesis using True c t l by (subst collect.simps) (simp add: Cons)
    next
      case False
      have sc: "scan env [0..<CHILDREN_COUNT] t = Inr (t, filter (todo c) [0..<16])"
        unfolding CHILDREN_COUNT_def by (rule scan_memory [OF t]) auto
      have "replace_at p c n = n" using replace_at_same [OF assms(1) c] .
      then show ?thesis
        using False c t l sc set_children_same [OF t(1)]
        by (subst collect.simps) (simp add: Cons)
    qed
    then show ?thesis using r by auto
  qed
qed

section \<open>Trees that differ in their marks and hashes\<close>

inductive similar :: "mpt_node \<Rightarrow> mpt_node \<Rightarrow> bool" where
  similar: "leaf n = leaf m \<Longrightarrow> nkey n = nkey m \<Longrightarrow> sub_key n = sub_key m \<Longrightarrow> nvalue n = nvalue m \<Longrightarrow>
    (children n = None) = (children m = None) \<Longrightarrow> (\<forall>t. children m = Some t \<longrightarrow> wf_table t) \<Longrightarrow>
    (\<forall>i. (child n i = None) = (child m i = None)) \<Longrightarrow>
    (\<forall>i c c'. child n i = Some c \<longrightarrow> child m i = Some c' \<longrightarrow> similar c c') \<Longrightarrow> similar n m"

inductive_cases similarE: "similar n m"

lemma similar_fields:
  "similar n m \<Longrightarrow> leaf n = leaf m \<and> nkey n = nkey m \<and> sub_key n = sub_key m \<and> nvalue n = nvalue m"
  by (erule similarE) simp

lemma similar_child:
  assumes "similar n m" "child n i = Some c"
  obtains c' where "child m i = Some c'" "similar c c'"
  using assms by (elim similarE) (metis not_Some_eq)

lemma similar_child_back:
  assumes "similar n m" "child m i = Some c'"
  obtains c where "child n i = Some c" "similar c c'"
  using assms by (elim similarE) (metis not_Some_eq)

lemma similar_refl_node: "wf_node d n \<Longrightarrow> similar n n"
proof (induction rule: wf_node.induct)
  case (wf_leaf n d)
  then show ?case by (intro similar) (simp_all add: child_def)
next
  case (wf_branch n t d)
  then show ?case by (intro similar) auto
qed

lemma similar_refl: "branch d n \<Longrightarrow> similar n n"
  by (rule similar) (auto simp: branch_def intro: similar_refl_node)

lemma similar_trans: "similar a b \<Longrightarrow> similar b c \<Longrightarrow> similar a c"
proof (induction arbitrary: c rule: similar.induct)
  case (similar n m)
  have "similar x z" if x: "child n i = Some x" and z: "child c i = Some z" for i x z
  proof -
    obtain y where "child m i = Some y" "similar y z" using similar_child_back [OF similar.prems z] .
    then show ?thesis using similar.IH x by blast
  qed
  moreover have "(child n i = None) = (child c i = None)" for i
    using similar.hyps(7) [rule_format, of i] similar.prems by (elim similarE) simp
  ultimately show ?case
    using similar.hyps similar.prems by (intro similar.similar) (simp_all add: similar.simps [of m c])
qed

lemma similar_hash: "similar n m \<Longrightarrow> tree_hash env n = tree_hash env m"
proof (induction rule: similar.induct)
  case (similar n m)
  have "map_option (tree_hash env) (child n i) = map_option (tree_hash env) (child m i)" for i
    using similar.hyps(7) [rule_format, of i] similar.IH by (cases "child n i"; cases "child m i") auto
  then show ?case using similar.hyps by (intro tree_hash_cong) simp_all
qed

lemma similar_look: "similar n m \<Longrightarrow> look ks n = look ks m"
proof (induction ks n arbitrary: m rule: look.induct)
  case (2 k ks n)
  show ?case
  proof (cases "child n (unat k)")
    case None
    then have "child m (unat k) = None" using 2(2) similar_child_back by (metis not_Some_eq option.distinct(1))
    then show ?thesis using None by (simp add: look_Cons)
  next
    case (Some c)
    then obtain c' where c': "child m (unat k) = Some c'" "similar c c'" using 2(2) similar_child by blast
    then show ?thesis
      using Some 2(1) [OF Some] similar_fields [OF c'(2)]
      by (auto simp: look_Cons look_edge_def split: edge.split)
  qed
qed simp

lemma similar_forks: "similar n m \<Longrightarrow> forks n = forks m"
  unfolding forks_def by (erule similarE) simp

lemma similar_wf: "wf_node d n \<Longrightarrow> similar n m \<Longrightarrow> wf_node d m"
proof (induction arbitrary: m rule: wf_node.induct)
  case (wf_leaf n d)
  then show ?case by (elim similarE) (intro wf_node.wf_leaf, simp_all)
next
  case (wf_branch n t d)
  obtain t' where t': "children m = Some t'" "wf_table t'"
    using wf_branch.hyps(2) wf_branch.prems by (elim similarE) fastforce
  have "unat (hd (sub_key c')) = i \<and> wf_node (d + length (sub_key n)) c'" if "child m i = Some c'" for i c'
    using similar_child_back [OF wf_branch.prems that] wf_branch.IH similar_fields by metis
  then show ?case
    using wf_branch.hyps similar_fields [OF wf_branch.prems] similar_forks [OF wf_branch.prems] t'
    by (intro wf_node.wf_branch [of m t']) (simp_all add: forks_def)
qed

lemma similar_branch:
  assumes "branch d n" "similar n m"
  shows "branch d m"
proof -
  obtain t' where "children m = Some t'" "wf_table t'"
    using assms by (elim similarE) (fastforce simp: branch_def)
  moreover have "unat (hd (sub_key c')) = i \<and> wf_node d c'" if c': "child m i = Some c'" for i c'
    using similar_child_back [OF assms(2) c'] branch_child [OF assms(1)] similar_wf similar_fields by metis
  ultimately show ?thesis using assms(1) similar_fields [OF assms(2)] by (simp add: branch_def)
qed

lemma similar_mem: "mem n \<Longrightarrow> similar n m \<Longrightarrow> mem m"
  unfolding mem_def using similar_branch by blast

section \<open>The second loop\<close>

definition own_hash :: "mpt_env \<Rightarrow> mpt_node \<Rightarrow> uint256" where
  "own_hash env c =
     (if leaf c then account_hash (mpt_host env) (mpt_sha3 env) (the (nvalue c)) else value_hash c)"

definition clean :: "mpt_env \<Rightarrow> mpt_node \<Rightarrow> mpt_node" where
  "clean env c = set_modified False (if leaf c then set_hash (own_hash env c) c else c)"

definition add_child :: "mpt_env \<Rightarrow> mpt_node \<Rightarrow> nat \<Rightarrow> uint256 \<Rightarrow> uint256" where
  "add_child env n i x = (case child n i of None \<Rightarrow> x | Some c \<Rightarrow> uint256_plus x (own_hash env c))"

lemma sum_children_step:
  assumes "children n = Some t" "wf_table t" "i < 16" "child n i = Some c" "leaf c \<Longrightarrow> nvalue c \<noteq> None"
  shows "\<exists>ext'. sum_children env (i # is) t ext r =
    sum_children env is (put_child i (clean env c) t) ext' (add_child env n i r)"
  using get_exist_child [OF assms(1-3)] load_at_child [OF assms(1-4)] assms(4,5)
  by (cases "leaf c") (auto simp: add_child_def own_hash_def clean_def Let_def)

lemma sum_children_ok:
  assumes "children n = Some t" "wf_table t" "set is \<subseteq> {..<16}" "distinct is"
    and "\<And>i c. child n i = Some c \<Longrightarrow> leaf c \<Longrightarrow> nvalue c \<noteq> None"
  shows "\<exists>t' ext'. sum_children env is t ext r = Inr (t', ext', fold (add_child env n) is r) \<and> wf_table t' \<and>
    child (set_children (Some t') n) = (\<lambda>i. if i \<in> set is then map_option (clean env) (child n i) else child n i)"
  using assms
proof (induction "is" arbitrary: n t ext r)
  case Nil
  then show ?case by (simp add: set_children_same)
next
  case (Cons i "is")
  have i: "i < 16" "i \<notin> set is" using Cons.prems by auto
  show ?case
  proof (cases "child n i")
    case None
    then have "sum_children env (i # is) t ext r = sum_children env is t ext r"
      using get_exist_child [OF Cons.prems(1,2) i(1)] by simp
    moreover obtain t' e where "sum_children env is t ext r = Inr (t', e, fold (add_child env n) is r)" "wf_table t'"
      "child (set_children (Some t') n) = (\<lambda>j. if j \<in> set is then map_option (clean env) (child n j) else child n j)"
      using Cons.IH [of n t ext r] Cons.prems by auto
    moreover have "add_child env n i r = r" using None by (simp add: add_child_def)
    ultimately show ?thesis using None by (auto simp: fun_eq_iff)
  next
    case (Some c)
    let ?t = "put_child i (clean env c) t"
    let ?n = "set_children (Some ?t) n"
    obtain ext' where step: "sum_children env (i # is) t ext r = sum_children env is ?t ext' (add_child env n i r)"
      using sum_children_step [OF Cons.prems(1,2) i(1) Some] Cons.prems(5) [OF Some] by metis
    have cn: "child ?n = (child n)(i := Some (clean env c))"
      using child_put_child [OF Cons.prems(1,2) i(1)] Some by simp
    have wt: "wf_table ?t"
      using Some i(1) by (intro put_child_wf [OF Cons.prems(2)]) (simp_all add: child_table [OF Cons.prems(1,2)])
    have lv: "nvalue x \<noteq> None" if "child ?n j = Some x" "leaf x" for j x
      using that(2) that(1) [unfolded cn] Cons.prems(5) [of j x] Cons.prems(5) [OF Some]
      by (cases "j = i") (auto simp: clean_def)
    have "fold (add_child env ?n) is x = fold (add_child env n) is x" for x
      using i(2) by (intro fold_cong) (auto simp: add_child_def cn)
    moreover obtain t' e where "sum_children env is ?t ext' (add_child env n i r) =
        Inr (t', e, fold (add_child env ?n) is (add_child env n i r))" "wf_table t'"
      and c': "child (set_children (Some t') ?n) = (\<lambda>j. if j \<in> set is then map_option (clean env) (child ?n j) else child ?n j)"
      using Cons.IH [of ?n ?t ext' "add_child env n i r"] wt lv Cons.prems(3,4) by auto
    moreover have "child (set_children (Some t') n) =
        (\<lambda>j. if j \<in> set (i # is) then map_option (clean env) (child n j) else child n j)"
      using c' Some i(2) unfolding set_children_twice cn by (auto simp: fun_eq_iff)
    ultimately show ?thesis unfolding step by (intro exI [of _ t'] exI [of _ e]) simp
  qed
qed

lemma similar_clean: "wf_node d c \<Longrightarrow> similar c (clean env c)"
  using similar_refl_node [of d c] by (auto simp: clean_def similar.simps [of c])

lemma clean_unmarked: "\<not> leaf c \<Longrightarrow> \<not> modified c \<Longrightarrow> clean env c = c"
  by (cases c) (simp add: clean_def)

lemma own_hash_ok: "hash_ok env c \<Longrightarrow> leaf c \<or> \<not> modified c \<Longrightarrow> own_hash env c = tree_hash env c"
  by (cases rule: hash_ok.cases) (auto simp: own_hash_def tree_hash.simps [of env c])

lemma hash_ok_child: "hash_ok env n \<Longrightarrow> \<not> leaf n \<Longrightarrow> child n i = Some c \<Longrightarrow> hash_ok env c"
  by (erule hash_ok.cases) blast+

lemma hash_ok_stale: "hash_ok env n \<Longrightarrow> \<not> leaf n \<Longrightarrow> modified n \<or> value_hash n = tree_hash env n"
  by (erule hash_ok.cases) blast+

lemma hash_ok_node_at: "hash_ok env n \<Longrightarrow> mem n \<Longrightarrow> node_at p n = Some c \<Longrightarrow> hash_ok env c"
proof (induction p arbitrary: n)
  case (Cons i p)
  obtain x where x: "child n i = Some x" "node_at p x = Some c" using node_at_Cons [OF Cons.prems(2,3)] .
  have "hash_ok env x" using hash_ok_child [OF Cons.prems(1) _ x(1)] Cons.prems(2) by (auto simp: mem_def branch_def)
  then show ?case
    using Cons.IH [OF _ _ x(2)] mem_child [OF Cons.prems(2) x(1)] x(2) node_at_leaf [of x p] by (auto split: if_splits)
qed simp

text \<open>One step of the second loop, on a branch whose children that are branches are up to date.\<close>

lemma rehash_ok:
  assumes "branch d n" "hash_ok env n" "\<And>i. \<not> todo n i"
  shows "\<exists>n' ext'. rehash env n ext = Inr (n', ext') \<and> similar n n' \<and> hash_ok env n' \<and> \<not> modified n' \<and>
    (\<forall>i c. child n' i = Some c \<longrightarrow> leaf c \<or> child n i = Some c)"
proof -
  obtain t where t: "children n = Some t" "wf_table t" using assms(1) by (rule branch_table)
  have l: "\<not> leaf n" using assms(1) by (simp add: branch_def)
  have kids: "wf_node d c" "hash_ok env c" "leaf c \<or> \<not> modified c" if "child n i = Some c" for i c
  proof -
    show "wf_node d c" using branch_child [OF assms(1) that] by simp
    show "hash_ok env c" using hash_ok_child [OF assms(2) l that] .
    show "leaf c \<or> \<not> modified c" using assms(3) [of i] that by (auto simp: todo_def)
  qed
  have lv: "nvalue c \<noteq> None" if "child n i = Some c" "leaf c" for i c
    using kids(1) [OF that(1)] that(2) by (simp add: wf_node_iff [of d c])
  obtain t' e where s: "sum_children env [0..<CHILDREN_COUNT] t ext base_binary_default =
      Inr (t', e, fold (add_child env n) [0..<CHILDREN_COUNT] base_binary_default)" "wf_table t'"
    "child (set_children (Some t') n) = (\<lambda>i. if i < 16 then map_option (clean env) (child n i) else child n i)"
    using sum_children_ok [OF t, of "[0..<CHILDREN_COUNT]" env ext base_binary_default] lv
    by (auto simp: CHILDREN_COUNT_def atLeast0LessThan)
  have cn: "child (set_children (Some t') n) i = map_option (clean env) (child n i)" for i
    using s(3) child_less [OF t] by (cases "child n i") auto
  have sum: "add_child env n = (\<lambda>i x. case child n i of None \<Rightarrow> x | Some c \<Rightarrow> uint256_plus x (tree_hash env c))"
    using own_hash_ok [OF kids(2,3)] by (simp add: add_child_def fun_eq_iff split: option.split)
  let ?x = "get_sha3_256 (mpt_sha3 env) (fold (add_child env n) [0..<CHILDREN_COUNT] base_binary_default)"
  have x: "?x = tree_hash env n" using l by (simp add: tree_hash.simps [of env n] sum)
  let ?n = "set_hash ?x (set_modified False (set_children (Some t') n))"
  obtain e0 where rec: "record_node UPDATE_OP_MUSE ?n e = Inr e0" using record_node_ok [of ?n UPDATE_OP_MUSE e] by auto
  then have "rehash env n ext = Inr (?n, if e (nkey n) \<noteq> None then restamp (nkey n) ?x e else e0)"
    using t(1) s(1) by (simp add: rehash_def Let_def)
  then obtain e' where run: "rehash env n ext = Inr (?n, e')" by blast
  have sim: "similar n ?n"
  proof (rule similar)
    show "\<forall>i c c'. child n i = Some c \<longrightarrow> child ?n i = Some c' \<longrightarrow> similar c c'"
      using similar_clean [OF kids(1)] by (simp add: cn)
  qed (use t s(2) in \<open>simp_all add: cn\<close>)
  have kept_kids: "leaf c \<or> child n i = Some c" if c: "child ?n i = Some c" for i c
  proof -
    obtain x where x: "child n i = Some x" "c = clean env x" using c by (auto simp: cn)
    then show ?thesis using kids(3) [OF x(1)] clean_unmarked [of x env] by (auto simp: clean_def)
  qed
  have "hash_ok env c" if "child ?n i = Some c" for i c
    using kept_kids [OF that] kids(2) hash_leaf by blast
  moreover have "value_hash ?n = tree_hash env ?n" using x similar_hash [OF sim, of env] by simp
  ultimately have "hash_ok env ?n" using l by (intro hash_branch) simp_all
  then show ?thesis using run sim kept_kids by (intro exI [of _ ?n] exI [of _ e']) simp
qed

text \<open>A node of the tree is replaced by one that differs in marks and hashes only.\<close>

lemma similar_put_child:
  assumes "branch d n" "children n = Some t" "wf_table t" "child n i = Some c" "similar c c'"
  defines "n' \<equiv> set_children (Some (put_child i c' t)) n"
  shows "similar n n'" "child n' = (child n)(i := Some c')"
proof -
  have i: "i < 16" using assms(1,4) branch_child by blast
  show cn: "child n' = (child n)(i := Some c')"
    unfolding n'_def using child_put_child [OF assms(2,3) i] assms(4) by simp
  have wt: "wf_table (put_child i c' t)"
    using put_child_wf [OF assms(3) i] assms(4) by (simp add: child_table [OF assms(2,3) i])
  have "similar x y" if "child n j = Some x" "child n' j = Some y" for j x y
    using that branch_child [OF assms(1) that(1)] assms(4,5) similar_refl_node
    by (cases "j = i") (auto simp: cn)
  then show "similar n n'"
    by (intro similar) (use assms(2,4) wt cn in \<open>auto simp: n'_def\<close>)
qed

lemma marked_Nil: "[] \<in> marked n \<longleftrightarrow> modified n \<and> \<not> leaf n"
  by (simp add: marked_def)

lemma marked_leaf: "children n = None \<Longrightarrow> leaf n \<Longrightarrow> marked n = {}"
  by (auto simp: marked_def node_at_leaf split: if_splits)

lemma replace_at_ok:
  assumes "branch d n" "node_at p n = Some c" "\<not> leaf c" "similar c c'" "marked c' \<subseteq> marked c - {[]}"
    and "hash_ok env n" "hash_ok env c'"
  shows "similar n (replace_at p c' n) \<and> hash_ok env (replace_at p c' n) \<and>
    marked (replace_at p c' n) \<subseteq> marked n - {p}"
  using assms
proof (induction p arbitrary: n d)
  case (Cons i p)
  have n: "mem n" using Cons.prems(1) by (auto simp: mem_def)
  obtain x where x: "child n i = Some x" "node_at p x = Some c" using node_at_Cons [OF n Cons.prems(2)] .
  obtain t where t: "children n = Some t" "wf_table t" using Cons.prems(1) by (rule branch_table)
  have ln: "\<not> leaf n" using Cons.prems(1) by (simp add: branch_def)
  have hx: "hash_ok env x" "wf_node d x"
    using hash_ok_child [OF Cons.prems(6) ln x(1)] branch_child [OF Cons.prems(1) x(1)] by simp_all
  have lx: "\<not> leaf x" using mem_child [OF n x(1)] x(2) Cons.prems(3) node_at_leaf [of x p] by (auto split: if_splits)
  let ?x = "replace_at p c' x" and ?n = "replace_at (i # p) c' n"
  have IH: "similar x ?x" "hash_ok env ?x" "marked ?x \<subseteq> marked x - {p}"
    using Cons.IH [OF _ x(2) Cons.prems(3-5) hx(1) Cons.prems(7), of "d + length (sub_key x)"] hx(2) lx
    by (auto simp: wf_node_iff [of d x])
  have n': "?n = set_children (Some (put_child i ?x t)) n" using x(1) by (simp add: replace_at_child [OF t])
  note s = similar_put_child [OF Cons.prems(1) t x(1) IH(1)]
  have sim: "similar n ?n" and cn: "child ?n = (child n)(i := Some ?x)" using s unfolding n' by simp_all
  have flags: "modified ?n = modified n" "value_hash ?n = value_hash n" "leaf ?n = leaf n" unfolding n' by simp_all
  have "hash_ok env y" if "child ?n j = Some y" for j y
    using that IH(2) hash_ok_child [OF Cons.prems(6) ln, of j y] by (cases "j = i") (auto simp: cn)
  then have "hash_ok env ?n"
    using hash_ok_stale [OF Cons.prems(6) ln] ln flags similar_hash [OF sim, of env] by (intro hash_branch) auto
  moreover have "marked ?n \<subseteq> marked n - {i # p}"
  proof
    fix q
    assume q: "q \<in> marked ?n"
    show "q \<in> marked n - {i # p}"
    proof (cases q)
      case Nil
      then show ?thesis using q flags by (simp add: marked_Nil)
    next
      case (Cons j r)
      then obtain y where "child ?n j = Some y" "r \<in> marked y"
        using q marked_child [OF similar_mem [OF n sim]] by auto
      then show ?thesis using Cons x(1) IH(3) marked_child [OF n] by (cases "j = i") (auto simp: cn)
    qed
  qed
  ultimately show ?case using sim by simp
qed auto

lemma rehash_marked:
  assumes "mem n" "similar n n'" "\<not> modified n'" "\<And>i c. child n' i = Some c \<Longrightarrow> leaf c \<or> child n i = Some c"
  shows "marked n' \<subseteq> marked n - {[]}"
proof
  fix q
  assume q: "q \<in> marked n'"
  have m: "mem n'" using similar_mem [OF assms(1,2)] .
  obtain i r where r: "q = i # r" using q assms(3) by (cases q) (auto simp: marked_Nil)
  then obtain c where c: "child n' i = Some c" "r \<in> marked c" using q marked_child [OF m] by auto
  then have "\<not> leaf c" using mem_child [OF m c(1)] marked_leaf by auto
  then show "q \<in> marked n - {[]}" using assms(4) [OF c(1)] c(2) r marked_child [OF assms(1)] by auto
qed

lemma similar_node_at:
  "similar n m \<Longrightarrow> mem n \<Longrightarrow> node_at p n = Some c \<Longrightarrow> \<exists>c'. node_at p m = Some c' \<and> similar c c'"
proof (induction p arbitrary: n m)
  case (Cons i p)
  obtain x where x: "child n i = Some x" "node_at p x = Some c" using node_at_Cons [OF Cons.prems(2,3)] .
  obtain y where y: "child m i = Some y" "similar x y" using similar_child [OF Cons.prems(1) x(1)] .
  have "node_at (i # p) m = node_at p y"
    using node_at_child [of m i p] similar_mem [OF Cons.prems(2,1)] y(1) by simp
  moreover have "\<exists>c'. node_at p y = Some c' \<and> similar c c'"
  proof (cases "leaf x")
    case True
    then show ?thesis using mem_child [OF Cons.prems(2) x(1)] x(2) y(2) node_at_leaf [of x p] by (auto split: if_splits)
  next
    case False
    then show ?thesis using Cons.IH [OF y(2) _ x(2)] mem_child [OF Cons.prems(2) x(1)] by simp
  qed
  ultimately show ?case by simp
qed simp

text \<open>The nodes are taken in an order in which the marked children of each come before it.\<close>

lemma rehash_all_ok:
  assumes "branch d n" "collected n [] (done @ rest)"
    and "similar n m" "hash_ok env m" "marked m \<subseteq> marked n - set done"
  shows "\<exists>n' ext'. rehash_all env rest m ext = Inr (n', ext') \<and> similar n n' \<and> hash_ok env n' \<and>
    marked n' \<subseteq> marked n - set (done @ rest)"
  using assms(2-)
proof (induction rest arbitrary: "done" m ext)
  case (Cons p rest)
  have n: "mem n" using assms(1) by (auto simp: mem_def)
  have m: "branch d m" "mem m" using similar_branch [OF assms(1) Cons.prems(2)] by (auto simp: mem_def)
  obtain c where c: "node_at p n = Some c" "mem c"
    using Cons.prems(1) unfolding collected_def by auto
  obtain x where x: "node_at p m = Some x" "similar c x"
    using similar_node_at [OF Cons.prems(2) n c(1)] by blast
  have mx: "mem x" using similar_mem [OF c(2) x(2)] .
  then obtain e where e: "branch e x" by (auto simp: mem_def)
  have "\<not> todo x i" for i
  proof
    assume "todo x i"
    then have q: "p @ [i] \<in> marked m" using marked_snoc [OF m(2) x(1) mx] by simp
    then have "todo c i" using Cons.prems(4) marked_snoc [OF n c] by blast
    then have "p @ [i] \<in> set done" using Cons.prems(1) c(1) unfolding collected_def by auto
    then show False using q Cons.prems(4) by blast
  qed
  moreover have "hash_ok env x" using hash_ok_node_at [OF Cons.prems(3) m(2) x(1)] .
  ultimately obtain x' ext' where x': "rehash env x ext = Inr (x', ext')" "similar x x'" "hash_ok env x'" "\<not> modified x'"
    "\<And>i c. child x' i = Some c \<Longrightarrow> leaf c \<or> child x i = Some c"
    using rehash_ok [OF e, of env ext] by blast
  have lx: "\<not> leaf x" using e by (simp add: branch_def)
  note r = replace_at_ok [OF m(1) x(1) lx x'(2) rehash_marked [OF mx x'(2,4,5)] Cons.prems(3) x'(3)]
  have "marked (replace_at p x' m) \<subseteq> marked n - set (done @ [p])" using r Cons.prems(4) by auto
  then show ?case
    using Cons.IH [of "done @ [p]" "replace_at p x' m" ext'] r Cons.prems(1) similar_trans [OF Cons.prems(2)] x(1) x'(1)
    by auto
qed auto

section \<open>The root hash\<close>

lemma get_hash_ok:
  assumes "root t = Some n" "branch 0 n" "hash_ok env n"
  shows "\<exists>n' ext'. mpt_get_hash env t =
      Some (Inr (t\<lparr>root := Some n', extension_nodes := ext'\<rparr>, tree_hash env n)) \<and>
    similar n n' \<and> hash_ok env n' \<and> \<not> modified n'"
proof (cases "modified n")
  case False
  then have "mpt_get_hash env t = Some (Inr (t\<lparr>root := Some n, extension_nodes := extension_nodes t\<rparr>, tree_hash env n))"
    using assms hash_ok_stale [of env n] by (simp add: mpt_get_hash_def branch_def)
  then show ?thesis using False assms similar_refl by blast
next
  case True
  have l: "\<not> leaf n" using assms(2) by (simp add: branch_def)
  have n: "mem n" unfolding mem_def using assms(2) by blast
  have "collected n [[]] [[]]" using n by (auto simp: collected_def)
  from collect_ok [OF n this, of env] obtain cache where
    c: "collect env [[]] [[]] n = Some (Inr (cache, n))" "collected n [] cache" "set [[]] \<subseteq> set cache" by blast
  obtain n' ext' where r: "rehash_all env cache n (extension_nodes t) = Inr (n', ext')" "similar n n'" "hash_ok env n'"
    "marked n' \<subseteq> marked n - set cache"
    using rehash_all_ok [OF assms(2), of "[]" cache n env "extension_nodes t"] c(2) similar_refl [OF assms(2)] assms(3)
    by auto
  have l': "\<not> leaf n'" using similar_fields [OF r(2)] l by simp
  then have m: "\<not> modified n'" using r(4) c(3) marked_Nil [of n'] by auto
  then have "value_hash n' = tree_hash env n" using hash_ok_stale [OF r(3) l'] similar_hash [OF r(2)] by simp
  then have "mpt_get_hash env t = Some (Inr (t\<lparr>root := Some n', extension_nodes := ext'\<rparr>, tree_hash env n))"
    using True assms(1) c(1) r(1) by (simp add: mpt_get_hash_def)
  then show ?thesis using r m by blast
qed

end
