(* ===== verification/Mpt_Refinement.thy ===== *)
theory Mpt_Refinement
  imports Mpt_Hash
begin

text \<open>
  The Merkle Patricia trie as a map from addresses to accounts with a root hash: every sequence of
  insertions, deletions, changes of an account and hash computations from the empty trie succeeds,
  acts on the contents as on a map, and leaves a tree whose root hash depends on the contents only.
\<close>

section \<open>Keys\<close>

lemma length_subscripts [simp]: "length (subscripts key) = 2 * length key"
  by (induction key) simp_all

lemma nib_subscripts: "nib (subscripts key)"
proof -
  have "unat (drop_bit 4 b) < 16" for b :: byte
    using unat_byte_less [of b] unfolding unat_drop_bit_eq by (simp add: drop_bit_eq_div)
  moreover have "unat (and b 15) < 16" for b :: byte
    using word_and_le1 [of b 15] by (simp add: word_le_nat_alt)
  ultimately show ?thesis by (induction key) simp_all
qed

lemma nibbles_of_byte: "drop_bit 4 a = drop_bit 4 b \<Longrightarrow> and a 15 = and b 15 \<Longrightarrow> a = b" for a b :: byte
proof -
  assume a: "drop_bit 4 a = drop_bit 4 b" "and a 15 = and b 15"
  have "push_bit 4 (drop_bit 4 x) + and x 15 = x" for x :: byte
    using bits_ident [of 4 x] by (simp add: take_bit_eq_mask mask_numeral)
  then show "a = b" using a by metis
qed

lemma subscripts_inject: "subscripts a = subscripts b \<longleftrightarrow> a = b"
proof (induction a arbitrary: b)
  case Nil
  then show ?case by (cases b) auto
next
  case (Cons x a)
  then show ?case by (cases b) (auto dest: nibbles_of_byte)
qed

lemma nibbles_join:
  assumes "unat a < 16" "unat b < 16"
  shows "\<exists>c :: byte. drop_bit 4 c = a \<and> and c 15 = b"
proof (intro exI conjI)
  let ?c = "word_of_nat (16 * unat a + unat b) :: byte"
  have u: "unat ?c = 16 * unat a + unat b" unfolding unat_byte_of_nat using assms by simp
  show "drop_bit 4 ?c = a"
    unfolding word_unat_eq_iff unat_drop_bit_eq u using assms by (simp add: drop_bit_eq_div)
  have "and ?c 15 = take_bit 4 ?c" unfolding take_bit_eq_mask by (simp add: mask_numeral)
  then show "and ?c 15 = b"
    unfolding word_unat_eq_iff using assms by (simp only: unsigned_take_bit_eq u) (simp add: take_bit_eq_mod)
qed

lemma subscripts_onto: "nib ks \<Longrightarrow> length ks = 2 * n \<Longrightarrow> \<exists>key. length key = n \<and> subscripts key = ks"
proof (induction n arbitrary: ks)
  case (Suc n)
  then obtain a b r where ks: "ks = a # b # r" by (cases ks rule: remdups_adj.cases) auto
  then obtain key where key: "length key = n" "subscripts key = r" using Suc by auto
  obtain c where "drop_bit 4 c = a" "and c 15 = b" using nibbles_join [of a b] Suc.prems(1) ks by auto
  then show ?case using key ks by (intro exI [of _ "c # key"]) simp
qed simp

lemma key_path: "wf256 key \<Longrightarrow> 0 + length (subscripts key) = 64"
  by (simp add: wf256_def Width_def)

section \<open>The invariant and the contents\<close>

definition mpt_inv :: "mpt_env \<Rightarrow> merkle_patricia_trie \<Rightarrow> bool" where
  "mpt_inv env t \<longleftrightarrow> (\<exists>n. root t = Some n \<and> branch 0 n \<and> sub_key n = [] \<and> hash_ok env n)"

definition mpt_map :: "merkle_patricia_trie \<Rightarrow> uint256 \<rightharpoonup> account" where
  "mpt_map t key =
     (if wf256 key then case root t of None \<Rightarrow> None | Some n \<Rightarrow> look (subscripts key) n else None)"

text \<open>A tree whose root is changed like a map at one key.\<close>

lemma mpt_update:
  assumes "root t = Some n" "root t' = Some n'" "wf256 key"
    and "\<And>ks. 0 + length ks = 64 \<Longrightarrow> look ks n' = (if ks = subscripts key then v else look ks n)"
  shows "mpt_map t' = (mpt_map t)(key := v)"
proof
  fix k
  show "mpt_map t' k = ((mpt_map t)(key := v)) k"
    using assms(1-3) assms(4) [OF key_path, of k] by (auto simp: mpt_map_def subscripts_inject)
qed

lemma mpt_same:
  assumes "root t = Some n" "root t' = Some n'" "\<And>ks. 0 + length ks = 64 \<Longrightarrow> look ks n' = look ks n"
  shows "mpt_map t' = mpt_map t"
proof
  fix k
  show "mpt_map t' k = mpt_map t k"
    using assms(1,2) assms(3) [OF key_path, of k] by (simp add: mpt_map_def)
qed

lemma mpt_inv_kept:
  "mpt_inv env t \<Longrightarrow> root t = Some n \<Longrightarrow> kept env 0 n n' \<Longrightarrow> root t' = Some n' \<Longrightarrow> mpt_inv env t'"
  by (auto simp: mpt_inv_def kept_def)

lemma mpt_inv_root:
  assumes "mpt_inv env t"
  obtains n where "root t = Some n" "branch 0 n" "sub_key n = []" "hash_ok env n"
  using assms by (auto simp: mpt_inv_def)

lemma mpt_search_ok: "mpt_inv env t \<Longrightarrow> wf256 key \<Longrightarrow> mpt_search env key t = Inr (t, mpt_map t key)"
  and mpt_find_ok: "mpt_inv env t \<Longrightarrow> wf256 key \<Longrightarrow> mpt_find env key t = Inr (t, mpt_map t key \<noteq> None)"
  by (auto elim!: mpt_inv_root simp: mpt_search_def mpt_find_def with_root_def mpt_map_def
      descend_unmarked [OF _ key_path nib_subscripts])

lemma mpt_insert_ok:
  assumes "mpt_inv env t" "wf256 key"
  shows "\<exists>t'. mpt_insert env key a t = Inr t' \<and> mpt_inv env t' \<and>
    mpt_map t' = (if mpt_map t key = None then (mpt_map t)(key \<mapsto> a) else mpt_map t)"
proof -
  obtain n where n: "root t = Some n" "branch 0 n" using assms(1) by (rule mpt_inv_root)
  obtain n' ext' ch where i: "insert_at env key a (subscripts key) n (extension_nodes t) = Inr (n', ext', ch)" "kept env 0 n n'"
    "\<And>ks. 0 + length ks = 64 \<Longrightarrow>
      look ks n' = (if ks = subscripts key \<and> look (subscripts key) n = None then Some a else look ks n)"
    using insert_at_ok [OF n(2) key_path nib_subscripts, OF assms(2)] by blast
  let ?t = "t\<lparr>root := Some n', extension_nodes := ext'\<rparr>"
  have "mpt_insert env key a t = Inr ?t" using n(1) i(1) by (simp add: mpt_insert_def)
  moreover have "mpt_map ?t = (if mpt_map t key = None then (mpt_map t)(key \<mapsto> a) else mpt_map t)"
  proof (cases "mpt_map t key = None")
    case True
    then have "look (subscripts key) n = None" using n(1) assms(2) by (simp add: mpt_map_def)
    then show ?thesis using True mpt_update [OF n(1), of ?t n' key "Some a"] i(3) assms(2) by simp
  next
    case False
    then have "look (subscripts key) n \<noteq> None" using n(1) assms(2) by (simp add: mpt_map_def)
    then show ?thesis using False mpt_same [OF n(1), of ?t n'] i(3) by auto
  qed
  ultimately show ?thesis using mpt_inv_kept [OF assms(1) n(1) i(2), of ?t] by simp
qed

lemma mpt_erase_ok:
  assumes "mpt_inv env t" "wf256 key"
  shows "\<exists>t'. mpt_erase env key t = Inr (t', mpt_map t key \<noteq> None) \<and> mpt_inv env t' \<and> mpt_map t' = (mpt_map t)(key := None)"
proof -
  obtain n where n: "root t = Some n" "branch 0 n" "sub_key n = []" using assms(1) by (rule mpt_inv_root)
  have m: "mpt_map t key = look (subscripts key) n" using n(1) assms(2) by (simp add: mpt_map_def)
  obtain e ext' where e: "erase_at env True (subscripts key) n (extension_nodes t) = Inr (e, ext')"
    "erase_post env 0 True (subscripts key) n e"
    using erase_at_ok [of 0 n "subscripts key" True env "extension_nodes t"] n key_path [OF assms(2)] nib_subscripts by auto
  show ?thesis
  proof (cases e)
    case (NotFound n')
    let ?t = "t\<lparr>root := Some n', extension_nodes := ext'\<rparr>"
    have s: "n' = n" "look (subscripts key) n = None" using e(2) NotFound by (simp_all add: erase_post_def)
    have "mpt_map ?t = mpt_map t" using mpt_same [OF n(1), of ?t n'] s by simp
    then show ?thesis
      using e(1) n(1) NotFound s m mpt_inv_kept [OF assms(1) n(1) kept_refl [OF n(2)], of ?t]
      by (auto simp: mpt_erase_def)
  next
    case (Erased n')
    let ?t = "t\<lparr>root := Some n', extension_nodes := ext'\<rparr>"
    have s: "kept env 0 n n'" "look (subscripts key) n \<noteq> None"
      "\<And>ks. 0 + length ks = 64 \<Longrightarrow> look ks n' = (if ks = subscripts key then None else look ks n)"
      using e(2) Erased n(3) by (simp_all add: erase_post_def)
    then show ?thesis
      using e(1) n(1) Erased m mpt_inv_kept [OF assms(1) n(1) s(1), of ?t] mpt_update [OF n(1), of ?t n' key None] assms(2)
      by (auto simp: mpt_erase_def)
  qed (use e(2) in \<open>simp add: erase_post_def\<close>)
qed

text \<open>A caller changes the account that \<open>search_and_mark\<close> gives it.\<close>

definition mpt_modify ::
  "mpt_env \<Rightarrow> uint256 \<Rightarrow> (account \<Rightarrow> account) \<Rightarrow> merkle_patricia_trie \<Rightarrow> merkle_patricia_trie mres" where
  "mpt_modify env key f t =
     chain (search_and_mark env key t) (\<lambda>(t, v).
     case v of
       None \<Rightarrow> Inr t
     | Some a \<Rightarrow> Inr (t\<lparr>root := map_option (update_at (subscripts key) f) (root t)\<rparr>))"

text \<open>A write keeps the marks on the way to the leaf.\<close>

lemma update_at_path:
  "branch d n \<Longrightarrow> path_marked ks n \<Longrightarrow> path_marked ks (update_at ks f n) \<and> sub_key (update_at ks f n) = sub_key n"
proof (induction ks n arbitrary: d rule: look.induct)
  case (2 k ks n)
  obtain t where t: "children n = Some t" "wf_table t" using 2(2) by (rule branch_table)
  show ?case
  proof (cases "child n (unat k)")
    case None
    then have "\<not> (unat k < length (slots t) \<and> exist (slots t ! unat k))"
      using child_slot [OF t, of "unat k"] wf_table_slot(1) [OF t(2), of "unat k"] t(2) by (auto simp: wf_table_def)
    then have "update_at (k # ks) f n = n" using t(1) by (simp del: de_Morgan_conj)
    then show ?thesis using 2(3) by simp
  next
    case (Some c)
    have k: "unat k < 16" and c: "wf_node d c" using branch_child [OF 2(2) Some] by simp_all
    have s: "cnode (slots t ! unat k) = Some c" "exist (slots t ! unat k)" "unat k < length (slots t)"
      using wf_table_slot [OF t(2) k] child_table [OF t k] Some by auto
    have m: "modified n" using 2(3) by (simp add: path_marked.simps(2))
    have child': "child (set_children (Some (put_child (unat k) x t)) n) (unat k) = Some x" for x
      using child_put_child [OF t k] Some by simp
    show ?thesis
    proof (cases "match_edge 0 (sub_key c) (k # ks)")
      case Hit
      then show ?thesis using t s m child' by (simp add: path_marked.simps(2))
    next
      case (Deeper r)
      have pr: "path_marked r c" using 2(3) Some Deeper by (simp add: path_marked.simps(2))
      have "path_marked r (update_at r f c) \<and> sub_key (update_at r f c) = sub_key c"
      proof (cases "leaf c")
        case True
        then have "children c = None" using c by (simp add: wf_node_iff [of d c])
        then have "update_at r f c = c" by (cases r) simp_all
        then show ?thesis using pr by simp
      next
        case False
        then show ?thesis using 2(1) [OF Some Deeper _ pr] c by (auto simp: wf_node_iff [of d c])
      qed
      then show ?thesis using t s m child' Deeper by (simp add: path_marked.simps(2))
    qed (use t s 2(3) in simp_all)
  qed
qed simp

text \<open>A trie in which the way to a key is marked, so that its account may be written.\<close>

definition marked_at :: "mpt_env \<Rightarrow> uint256 \<Rightarrow> merkle_patricia_trie \<Rightarrow> bool" where
  "marked_at env key t \<longleftrightarrow> mpt_inv env t \<and>
     (\<forall>n. root t = Some n \<longrightarrow> look (subscripts key) n \<noteq> None \<longrightarrow> path_marked (subscripts key) n)"

lemma mpt_mark_ok:
  assumes "mpt_inv env t" "wf256 key"
  shows "\<exists>t'. search_and_mark env key t = Inr (t', mpt_map t key) \<and> marked_at env key t' \<and> mpt_map t' = mpt_map t"
proof -
  obtain n where n: "root t = Some n" "branch 0 n" using assms(1) by (rule mpt_inv_root)
  let ?ks = "subscripts key"
  have m: "mpt_map t key = look ?ks n" using n(1) assms(2) by (simp add: mpt_map_def)
  obtain n' where d: "descend env True ?ks n = Inr (n', look ?ks n \<noteq> None, look ?ks n)" "kept env 0 n n'"
    "\<And>ks. 0 + length ks = 64 \<Longrightarrow> look ks n' = look ks n" "if look ?ks n = None then n' = n else path_marked ?ks n'"
    using descend_marked [OF n(2) key_path nib_subscripts, OF assms(2)] by blast
  let ?t = "t\<lparr>root := Some n'\<rparr>"
  have "search_and_mark env key t = Inr (?t, mpt_map t key)"
    using n(1) d(1) m by (simp add: search_and_mark_def with_root_def)
  moreover have "look ?ks n' \<noteq> None \<longrightarrow> path_marked ?ks n'" using d(3) [OF key_path [OF assms(2)]] d(4) by (simp split: if_splits)
  then have "marked_at env key ?t" using mpt_inv_kept [OF assms(1) n(1) d(2), of ?t] by (simp add: marked_at_def)
  moreover have "mpt_map ?t = mpt_map t" using mpt_same [OF n(1), of ?t n'] d(3) by simp
  ultimately show ?thesis by blast
qed

lemma mpt_write_ok:
  fixes f :: "account \<Rightarrow> account"
  assumes "marked_at env key t" "wf256 key"
  defines "t' \<equiv> t\<lparr>root := map_option (update_at (subscripts key) f) (root t)\<rparr>"
  shows "marked_at env key t' \<and> mpt_map t' = (mpt_map t)(key := map_option f (mpt_map t key))"
proof -
  let ?ks = "subscripts key"
  have inv: "mpt_inv env t" using assms(1) by (simp add: marked_at_def)
  then obtain n where n: "root t = Some n" "branch 0 n" by (rule mpt_inv_root)
  have pm: "look ?ks n \<noteq> None \<longrightarrow> path_marked ?ks n" using assms(1) n(1) by (simp add: marked_at_def)
  have u: "kept env 0 n (update_at ?ks f n)" "look ?ks n = None \<longrightarrow> update_at ?ks f n = n"
    "\<And>ks. 0 + length ks = 64 \<Longrightarrow> look ks (update_at ?ks f n) = (if ks = ?ks then map_option f (look ?ks n) else look ks n)"
    using update_at_ok [OF n(2) key_path [OF assms(2)] nib_subscripts pm, of env f] by blast+
  have t': "root t' = Some (update_at ?ks f n)" using n(1) by (simp add: t'_def)
  have "mpt_inv env t'" using mpt_inv_kept [OF inv n(1) u(1) t'] .
  moreover have "path_marked ?ks (update_at ?ks f n)" if "look ?ks (update_at ?ks f n) \<noteq> None"
    using update_at_path [OF n(2), of ?ks f] pm u(2) that by metis
  ultimately have "marked_at env key t'" using t' by (simp add: marked_at_def)
  moreover have "mpt_map t' = (mpt_map t)(key := map_option f (mpt_map t key))"
    using n(1) assms(2) by (intro mpt_update [OF n(1) t' assms(2)]) (simp add: u(3) mpt_map_def)
  ultimately show ?thesis ..
qed

lemma marked_inv: "marked_at env key t \<Longrightarrow> mpt_inv env t"
  by (simp add: marked_at_def)

lemma mpt_modify_ok:
  assumes "mpt_inv env t" "wf256 key"
  shows "\<exists>t'. mpt_modify env key f t = Inr t' \<and> mpt_inv env t' \<and>
    mpt_map t' = (mpt_map t)(key := map_option f (mpt_map t key))"
proof -
  obtain t1 where t1: "search_and_mark env key t = Inr (t1, mpt_map t key)" "marked_at env key t1" "mpt_map t1 = mpt_map t"
    using mpt_mark_ok [OF assms] by blast
  show ?thesis
  proof (cases "mpt_map t key")
    case None
    then show ?thesis using t1 marked_inv [OF t1(2)] by (simp add: mpt_modify_def fun_upd_idem)
  next
    case (Some a)
    then show ?thesis using t1(1,3) mpt_write_ok [OF t1(2) assms(2), of f] marked_inv by (auto simp: mpt_modify_def)
  qed
qed

lemma mpt_hash_ok:
  assumes "mpt_inv env t"
  shows "\<exists>t'. mpt_get_hash env t = Some (Inr (t', tree_hash env (the (root t)))) \<and> mpt_inv env t' \<and> mpt_map t' = mpt_map t"
proof -
  obtain n where n: "root t = Some n" "branch 0 n" "sub_key n = []" "hash_ok env n" using assms by (rule mpt_inv_root)
  obtain n' ext' where h: "mpt_get_hash env t =
      Some (Inr (t\<lparr>root := Some n', extension_nodes := ext'\<rparr>, tree_hash env n))" "similar n n'" "hash_ok env n'"
    using get_hash_ok [OF n(1,2,4)] by blast
  let ?t = "t\<lparr>root := Some n', extension_nodes := ext'\<rparr>"
  have "mpt_inv env ?t"
    using similar_branch [OF n(2) h(2)] similar_fields [OF h(2)] n(3) h(3) by (simp add: mpt_inv_def)
  moreover have "mpt_map ?t = mpt_map t" using mpt_same [OF n(1), of ?t n'] similar_look [OF h(2)] by simp
  ultimately show ?thesis using h(1) n(1) by auto
qed

text \<open>A second computation gives the same hash and changes nothing.\<close>

lemma mpt_hash_stable:
  assumes "mpt_inv env t"
  shows "\<exists>t' x. mpt_get_hash env t = Some (Inr (t', x)) \<and> mpt_inv env t' \<and> mpt_map t' = mpt_map t \<and>
    mpt_get_hash env t' = Some (Inr (t', x))"
proof -
  obtain n where n: "root t = Some n" "branch 0 n" "sub_key n = []" "hash_ok env n" using assms by (rule mpt_inv_root)
  obtain n' ext' where h: "mpt_get_hash env t =
      Some (Inr (t\<lparr>root := Some n', extension_nodes := ext'\<rparr>, tree_hash env n))" "similar n n'" "hash_ok env n'" "\<not> modified n'"
    using get_hash_ok [OF n(1,2,4)] by blast
  let ?t = "t\<lparr>root := Some n', extension_nodes := ext'\<rparr>"
  have l: "\<not> leaf n'" using n(2) similar_fields [OF h(2)] by (simp add: branch_def)
  have "value_hash n' = tree_hash env n" using hash_ok_stale [OF h(3) l] h(4) similar_hash [OF h(2)] by simp
  then have "mpt_get_hash env ?t = Some (Inr (?t, tree_hash env n))" using h(4) by (simp add: mpt_get_hash_def)
  moreover have "mpt_inv env ?t" "mpt_map ?t = mpt_map t" using mpt_hash_ok [OF assms] h(1) by auto
  ultimately show ?thesis using h(1) by blast
qed

text \<open>Every path of 64 nibbles is the path of a key.\<close>

lemma look_nib: "branch d n \<Longrightarrow> look ks n \<noteq> None \<Longrightarrow> nib ks"
proof (induction ks n arbitrary: d rule: look.induct)
  case (2 k ks n)
  obtain c where c: "child n (unat k) = Some c" "look_edge (k # ks) c \<noteq> None"
    using 2(3) by (auto simp: look_Cons split: option.splits)
  have w: "wf_node d c" using branch_child [OF 2(2) c(1)] by simp
  then have s: "sub_key c \<noteq> []" "nib (sub_key c)" by (simp_all add: wf_node_iff)
  obtain r where r: "k # ks = sub_key c @ r" using look_edge_prefix [OF c(2) s(1)] by blast
  have "nib r"
  proof (cases "r = []")
    case False
    then have e: "match_edge 0 (sub_key c) (k # ks) = Deeper r" unfolding r using s(1) by simp
    have "look r c \<noteq> None" using c(2) False s(1) look_edge_append [OF s(1), of r] unfolding r by simp
    moreover have "child c (unat (hd r)) \<noteq> None"
      using calculation False by (cases r) (auto simp: look_Cons split: option.splits)
    then have "\<exists>d. branch d c" using w by (auto simp: wf_node_iff [of d c] child_def split: if_splits)
    ultimately show ?thesis using 2(1) [OF c(1) e] by blast
  qed simp
  then show ?case unfolding r using s(2) by simp
qed simp

lemma same_contents:
  assumes "root t = Some n" "branch 0 n" "root u = Some m" "branch 0 m" "mpt_map t = mpt_map u"
  shows "tree_hash env n = tree_hash env m"
proof (rule same_contents_root [OF assms(2,4)])
  fix ks :: "byte list"
  assume "length ks = 64"
  show "look ks n = look ks m"
  proof (cases "nib ks")
    case True
    then obtain key where "length key = 32" "subscripts key = ks" using subscripts_onto [of ks 32] \<open>length ks = 64\<close> by auto
    then show ?thesis using fun_cong [OF assms(5), of key] assms(1,3) by (simp add: mpt_map_def wf256_def Width_def)
  next
    case False
    then have "look ks n = None" "look ks m = None" using look_nib [OF assms(2)] look_nib [OF assms(4)] by blast+
    then show ?thesis by simp
  qed
qed

lemma empty_root_child: "child empty_root = Map.empty"
  by (rule child_new_table) (simp add: empty_root_def)

lemma empty_root_branch: "branch 0 empty_root"
  using wf_new_table(1) [of 0] empty_root_child by (simp add: branch_def empty_root_def)

lemma mpt_memory_ok: "\<exists>t. mpt_memory env = Some (Inr t) \<and> mpt_inv env t \<and> mpt_map t = Map.empty"
proof -
  let ?t = "\<lparr>extension_nodes = Map.empty, root = Some empty_root\<rparr>"
  note c = empty_root_child and empty_root_branch
  moreover have "hash_ok env empty_root" using c by (intro hash_branch) (simp_all add: empty_root_def)
  ultimately have "mpt_inv env ?t" by (simp add: mpt_inv_def empty_root_def)
  moreover have "mpt_map ?t = Map.empty"
    using c by (auto simp: mpt_map_def fun_eq_iff look_Cons split: option.split) (metis list.exhaust look.simps(1) look_Cons option.case(1))
  ultimately show ?thesis using mpt_hash_ok [of env ?t] by (auto simp: mpt_memory_def)
qed

section \<open>The trie refines a map\<close>

datatype state_op = Insert uint256 account | Erase uint256 | Modify uint256 account_op | GetHash

text \<open>An operation of an account that throws leaves it as it is.\<close>

definition account_apply :: "account_op \<Rightarrow> account \<Rightarrow> account" where
  "account_apply p a = (case account_step p a of None \<Rightarrow> a | Some b \<Rightarrow> b)"

definition succeeded :: "'a mres option \<Rightarrow> 'a option" where
  "succeeded r = (case r of Some (Inr a) \<Rightarrow> Some a | _ \<Rightarrow> None)"

primrec mpt_step :: "mpt_env \<Rightarrow> state_op \<Rightarrow> merkle_patricia_trie \<Rightarrow> merkle_patricia_trie option" where
  "mpt_step env (Insert key a) t = succeeded (Some (mpt_insert env key a t))"
| "mpt_step env (Erase key) t = map_option fst (succeeded (Some (mpt_erase env key t)))"
| "mpt_step env (Modify key p) t = succeeded (Some (mpt_modify env key (account_apply p) t))"
| "mpt_step env GetHash t = map_option fst (succeeded (mpt_get_hash env t))"

text \<open>What the operations promise: \<open>insert\<close> keeps an account that is already there.\<close>

primrec map_step :: "state_op \<Rightarrow> (uint256 \<rightharpoonup> account) \<Rightarrow> uint256 \<rightharpoonup> account" where
  "map_step (Insert key a) m = (if m key = None then m(key \<mapsto> a) else m)"
| "map_step (Erase key) m = m(key := None)"
| "map_step (Modify key p) m = m(key := map_option (account_apply p) (m key))"
| "map_step GetHash m = m"

primrec valid_op :: "state_op \<Rightarrow> bool" where
  "valid_op (Insert key a) = wf256 key"
| "valid_op (Erase key) = wf256 key"
| "valid_op (Modify key p) = wf256 key"
| "valid_op GetHash = True"

lemma mpt_step_ok:
  assumes "mpt_inv env t" "valid_op p"
  shows "\<exists>t'. mpt_step env p t = Some t' \<and> mpt_inv env t' \<and> mpt_map t' = map_step p (mpt_map t)"
proof (cases p)
  case (Insert key a)
  then show ?thesis using mpt_insert_ok [OF assms(1), of key a] assms(2) by (auto simp: succeeded_def)
next
  case (Erase key)
  then show ?thesis using mpt_erase_ok [OF assms(1), of key] assms(2) by (auto simp: succeeded_def)
next
  case (Modify key q)
  then show ?thesis using mpt_modify_ok [OF assms(1), of key "account_apply q"] assms(2) by (auto simp: succeeded_def)
next
  case GetHash
  then show ?thesis using mpt_hash_ok [OF assms(1)] by (auto simp: succeeded_def)
qed

interpretation state_trie: refines_spec "mpt_inv env" mpt_map "mpt_step env" map_step valid_op for env
  by unfold_locales (rule mpt_step_ok)

definition mpt_run :: "mpt_env \<Rightarrow> state_op list \<Rightarrow> merkle_patricia_trie option" where
  "mpt_run env ps = Option.bind (succeeded (mpt_memory env)) (run_ops (mpt_step env) ps)"

lemma mpt_run_ok:
  assumes "list_all valid_op ps"
  shows "\<exists>t. mpt_run env ps = Some t \<and> mpt_inv env t \<and> mpt_map t = fold map_step ps Map.empty"
proof -
  obtain t where t: "mpt_memory env = Some (Inr t)" "mpt_inv env t" "mpt_map t = Map.empty" using mpt_memory_ok by blast
  then show ?thesis using state_trie.run_refines [OF t(2) assms] by (simp add: mpt_run_def succeeded_def)
qed

section \<open>Properties\<close>

definition sample_env :: mpt_env where
  "sample_env = \<lparr>extensions_db = None, accounts_db = None, mpt_host = LittleEndian,
     mpt_sha3 = (\<lambda>bs. replicate 32 (word_of_nat (length bs)))\<rparr>"

definition sample_key :: "byte \<Rightarrow> uint256" where
  "sample_key b = replicate 31 1 @ [b]"

lemma wf_sample_key [simp]: "wf256 (sample_key b)"
  by (simp add: wf256_def sample_key_def Width_def)

lemma sample_key_eq [simp]: "sample_key a = sample_key b \<longleftrightarrow> a = b"
  by (simp add: sample_key_def)

text \<open>
  C1 The trie is a map. Whatever sequence of insertions, deletions, changes of an account and hash
  computations is run on the trie that the default constructor makes, no operation fails or fails
  to end, and afterwards \<open>search\<close> and \<open>find\<close> answer for every address as the map that the same
  sequence makes: \<open>insert\<close> adds an account only where there is none.
\<close>

theorem mpt_refines_map:
  assumes "list_all valid_op ps" "wf256 key"
  shows "\<exists>t. mpt_run env ps = Some t \<and>
    mpt_search env key t = Inr (t, fold map_step ps Map.empty key) \<and>
    mpt_find env key t = Inr (t, fold map_step ps Map.empty key \<noteq> None)"
  using mpt_run_ok [OF assms(1), of env] mpt_search_ok [OF _ assms(2)] mpt_find_ok [OF _ assms(2)] by metis

theorem mpt_refines_map_witness:
  "\<exists>t. mpt_run sample_env [Insert (sample_key 1) sample_account, Insert (sample_key 17) account_default,
       Modify (sample_key 1) (SetNonce 4), GetHash, Erase (sample_key 17)] = Some t \<and>
     mpt_search sample_env (sample_key 1) t = Inr (t, Some (set_nonce 4 sample_account)) \<and>
     mpt_find sample_env (sample_key 1) t = Inr (t, True)"
  using mpt_refines_map [of "[Insert (sample_key 1) sample_account, Insert (sample_key 17) account_default,
       Modify (sample_key 1) (SetNonce 4), GetHash, Erase (sample_key 17)]" "sample_key 1" sample_env]
  by (simp add: account_apply_def)

text \<open>
  C26 The shape of the trie is an invariant: every existing slot of a node holds its node and the
  counter of the table is right, a child sits in the slot of the first nibble of its edge, leaves
  end at depth 64 and hold an account, a branch below the root has at least two children, and a
  node without a mark has the hash of its tree. Every operation, on a trie that satisfies it,
  ends without an exception in one that satisfies it.
\<close>

theorem mpt_step_keeps_invariant:
  assumes "mpt_inv env t" "valid_op p"
  shows "\<exists>t'. mpt_step env p t = Some t' \<and> mpt_inv env t'"
  using mpt_step_ok [OF assms] by blast

theorem mpt_step_keeps_invariant_witness:
  "\<exists>t t'. mpt_run sample_env [Insert (sample_key 1) sample_account] = Some t \<and> mpt_inv sample_env t \<and>
     mpt_step sample_env (Erase (sample_key 1)) t = Some t' \<and> mpt_inv sample_env t'"
  using mpt_run_ok [of "[Insert (sample_key 1) sample_account]" sample_env]
    mpt_step_keeps_invariant [of sample_env _ "Erase (sample_key 1)"] by fastforce

text \<open>
  C25 The cached hash is right: the hash that \<open>get_hash\<close> computes from the nodes that are marked is
  the hash of the whole tree computed from the accounts, with no cached hash used.
\<close>

theorem mpt_incremental_hash:
  assumes "list_all valid_op ps"
  shows "\<exists>t t' n. mpt_run env ps = Some t \<and> root t = Some n \<and>
    mpt_get_hash env t = Some (Inr (t', tree_hash env n)) \<and> mpt_map t' = mpt_map t"
  using mpt_run_ok [OF assms, of env] mpt_hash_ok [of env] by (metis mpt_inv_def option.sel)

theorem mpt_incremental_hash_witness:
  "\<exists>t t' n. mpt_run sample_env [Insert (sample_key 1) sample_account, GetHash, Insert (sample_key 2) sample_account] = Some t \<and>
     root t = Some n \<and> mpt_get_hash sample_env t = Some (Inr (t', tree_hash sample_env n)) \<and> mpt_map t' = mpt_map t"
  by (rule mpt_incremental_hash) simp

text \<open>
  C10 The root hash is determined by the accounts: two sequences of operations that make the same
  map from addresses to accounts leave tries with the same root hash, in whatever order accounts
  were inserted, deleted and changed and whenever hashes were computed.
\<close>

theorem mpt_root_hash_canonical:
  assumes "list_all valid_op ps" "list_all valid_op qs" "fold map_step ps Map.empty = fold map_step qs Map.empty"
  shows "\<exists>t u t' u' x. mpt_run env ps = Some t \<and> mpt_run env qs = Some u \<and>
    mpt_get_hash env t = Some (Inr (t', x)) \<and> mpt_get_hash env u = Some (Inr (u', x))"
proof -
  obtain t u where t: "mpt_run env ps = Some t" "mpt_inv env t" and u: "mpt_run env qs = Some u" "mpt_inv env u"
    and e: "mpt_map t = mpt_map u"
    using mpt_run_ok [OF assms(1), of env] mpt_run_ok [OF assms(2), of env] assms(3) by auto
  obtain n m where n: "root t = Some n" "branch 0 n" and m: "root u = Some m" "branch 0 m"
    using t(2) u(2) by (auto elim!: mpt_inv_root)
  have "tree_hash env n = tree_hash env m" using same_contents [OF n m e] .
  then show ?thesis using t u n m mpt_hash_ok [OF t(2)] mpt_hash_ok [OF u(2)] by auto
qed

theorem mpt_root_hash_canonical_witness:
  "\<exists>t u t' u' x.
     mpt_run sample_env [Insert (sample_key 1) sample_account, Insert (sample_key 2) account_default] = Some t \<and>
     mpt_run sample_env [Insert (sample_key 2) account_default, GetHash, Insert (sample_key 3) sample_account,
       Insert (sample_key 1) sample_account, Erase (sample_key 3)] = Some u \<and>
     mpt_get_hash sample_env t = Some (Inr (t', x)) \<and> mpt_get_hash sample_env u = Some (Inr (u', x))"
  by (rule mpt_root_hash_canonical) (auto simp: fun_eq_iff)

text \<open>
  The account with address 0 hides the root in the change store. The key of its leaf is the
  string of 64 characters \<open>0\<close>, which is also the key under which the root is stored: when the
  account is inserted in a trie whose root has no child in slot 0, the last entry written under
  the key of the root is a leaf without children, so that a trie opened from the stored nodes has
  no account at all.
\<close>

theorem mpt_zero_address_hides_root:
  assumes "root t = Some n" "branch 0 n" "child n 0 = None" "nkey n = EMPTY_KEY"
  shows "\<exists>t' n' st. mpt_insert env (replicate 32 0) a t = Inr t' \<and> root t' = Some n' \<and> nkey n' = EMPTY_KEY \<and>
    mpt_map t' (replicate 32 0) = Some a \<and>
    extension_nodes t' EMPTY_KEY = Some st \<and> st_values st = [] \<and> st_sub_key st = replicate 64 0"
proof -
  let ?key = "replicate 32 0 :: uint256"
  have ks: "subscripts ?key = 0 # replicate 63 0" by (simp add: numeral_eq_Suc)
  have hex: "get_hex ?key = EMPTY_KEY" by code_simp
  obtain t1 where t1: "children n = Some t1" "wf_table t1" using assms(2) by (rule branch_table)
  let ?leaf = "new_leaf ?key (0 # replicate 63 0) a"
  have z: "(0::nat) < 16" by simp
  have free: "\<not> exist (slots t1 ! 0)" using assms(3) wf_table_slot [OF t1(2), of 0] child_table [OF t1, of 0] by simp
  obtain t2 where t2: "table_insert 0 (Some ?leaf) t1 = Inr (t2, True)" "wf_table t2"
    "\<And>n m. children n = Some t1 \<Longrightarrow> children m = Some t2 \<Longrightarrow> child m = (child n)(0 := Some ?leaf)"
    using table_insert_new [OF t1(2) z free] by blast
  let ?n = "set_modified True (set_children (Some t2) n)"
  have ge: "get_exist 0 t1 = Inr False" using get_exist_child [OF t1, of 0] assms(3) by simp
  obtain e1 where e1: "record_node UPDATE_OP_MUSE (set_children (Some t2) n) (extension_nodes t) = Inr e1"
    using record_node_ok [of "set_children (Some t2) n"] by auto
  let ?st = "\<lparr>st_key = EMPTY_KEY, operator_type = INSERT_OP_MUSE, st_sub_key = 0 # replicate 63 0,
    st_value_hash = base_binary_fill 0, st_values = []\<rparr>"
  have e2: "record_node INSERT_OP_MUSE ?leaf e1 = Inr (e1(EMPTY_KEY \<mapsto> ?st))"
    by (simp add: record_node_def to_mpt_node_storage_def new_leaf_def hex)
  let ?t = "t\<lparr>root := Some ?n, extension_nodes := e1(EMPTY_KEY \<mapsto> ?st)\<rparr>"
  have "mpt_insert env ?key a t = Inr ?t"
    using assms(1) t1(1) ge t2(1) e1 e2 by (simp add: mpt_insert_def ks)
  moreover have "mpt_map ?t ?key = Some a"
    using t2(3) [OF t1(1), of ?n] look_edge_append [of ?leaf "[]"]
    by (simp add: mpt_map_def wf256_def Width_def ks look_Cons)
  moreover have "0 # replicate 63 0 = (replicate 64 0 :: byte list)" by (simp add: numeral_eq_Suc)
  ultimately show ?thesis using assms(4) by (intro exI [of _ ?t] exI [of _ ?n] exI [of _ ?st]) simp
qed

theorem mpt_zero_address_hides_root_witness:
  "\<exists>t' n' st. mpt_insert sample_env (replicate 32 0) sample_account
      \<lparr>extension_nodes = Map.empty, root = Some empty_root\<rparr> = Inr t' \<and> root t' = Some n' \<and> nkey n' = EMPTY_KEY \<and>
    mpt_map t' (replicate 32 0) = Some sample_account \<and>
    extension_nodes t' EMPTY_KEY = Some st \<and> st_values st = [] \<and> st_sub_key st = replicate 64 0"
  by (rule mpt_zero_address_hides_root [OF _ empty_root_branch])
     (simp_all only: empty_root_child merkle_patricia_trie.simps, simp add: empty_root_def)

end
