(* ===== verification/Chain_Data.thy ===== *)
theory Chain_Data
  imports Account Serializer_Safety
begin

text \<open>
  The objects a block is made of (\<open>src/include/db\<close>: \<open>out_entry\<close>, \<open>transaction\<close>, \<open>affair\<close>, \<open>block_header\<close>,
  \<open>block_body\<close>, \<open>block\<close>, \<open>receipt\<close>). A transaction keeps its fields in an array of 64 bytes, which the
  accessors read and write through pointers of the host's byte order \<open>h\<close>. The digest is the
  parameter \<open>sha3\<close>. Memory that a constructor does not initialise is a parameter.
\<close>

section \<open>Bytes in an array\<close>

definition peek :: "nat \<Rightarrow> nat \<Rightarrow> byte list \<Rightarrow> byte list" where
  "peek i n d = take n (drop i d)"

definition poke :: "nat \<Rightarrow> byte list \<Rightarrow> byte list \<Rightarrow> byte list" where
  "poke i bs d = take i d @ bs @ drop (i + length bs) d"

lemma length_poke [simp]: "i + length bs \<le> length d \<Longrightarrow> length (poke i bs d) = length d"
  by (simp add: poke_def)

lemma peek_poke_same: "i + length bs \<le> length d \<Longrightarrow> length bs = n \<Longrightarrow> peek i n (poke i bs d) = bs"
  by (simp add: peek_def poke_def)

lemma peek_poke_other:
  assumes "i + length bs \<le> length d" "j + n \<le> i \<or> i + length bs \<le> j"
  shows "peek j n (poke i bs d) = peek j n d"
  using assms(2)
proof
  assume "j + n \<le> i"
  then show ?thesis using assms(1) by (simp add: peek_def poke_def drop_take min_absorb1)
next
  assume "i + length bs \<le> j"
  then show ?thesis using assms(1) by (simp add: peek_def poke_def)
qed

section \<open>Transactions\<close>

record out_entry =
  receiver :: uint256
  out_count :: u64

datatype transaction_version = Ban | V0001

datatype transaction_operator = NullOP | Append | Establish

record transaction =
  tx_data :: "byte list"
  outs :: "out_entry list"
  signature :: "byte list"

definition Bytes :: nat where "Bytes = 64"

primrec version_code :: "transaction_version \<Rightarrow> byte" where
  "version_code Ban = 0" | "version_code V0001 = 1"

primrec operator_code :: "transaction_operator \<Rightarrow> byte" where
  "operator_code NullOP = 0" | "operator_code Append = 1" | "operator_code Establish = 2"

definition set_transaction_version :: "transaction_version \<Rightarrow> transaction \<Rightarrow> transaction" where
  "set_transaction_version v t = t\<lparr>tx_data := poke 0 [version_code v] (tx_data t)\<rparr>"

definition get_transaction_version :: "transaction \<Rightarrow> transaction_version" where
  "get_transaction_version t = (if peek 0 1 (tx_data t) = [1] then V0001 else Ban)"

definition set_asset_type :: "ByteSequence \<Rightarrow> u32 \<Rightarrow> transaction \<Rightarrow> transaction" where
  "set_asset_type h x t = t\<lparr>tx_data := poke 1 (mem_of h x) (tx_data t)\<rparr>"

definition get_asset_type :: "ByteSequence \<Rightarrow> transaction \<Rightarrow> u32" where
  "get_asset_type h t = word_at h (peek 1 4 (tx_data t))"

definition set_transaction_operator :: "transaction_operator \<Rightarrow> transaction \<Rightarrow> transaction" where
  "set_transaction_operator p t = t\<lparr>tx_data := poke 5 [operator_code p] (tx_data t)\<rparr>"

definition get_transaction_operator :: "transaction \<Rightarrow> transaction_operator" where
  "get_transaction_operator t =
     (if peek 5 1 (tx_data t) = [1] then Append else if peek 5 1 (tx_data t) = [2] then Establish else NullOP)"

definition set_count :: "ByteSequence \<Rightarrow> u64 \<Rightarrow> transaction \<Rightarrow> transaction" where
  "set_count h x t = t\<lparr>tx_data := poke 6 (mem_of h x) (tx_data t)\<rparr>"

definition get_count :: "ByteSequence \<Rightarrow> transaction \<Rightarrow> u64" where
  "get_count h t = word_at h (peek 6 8 (tx_data t))"

definition set_create_time :: "ByteSequence \<Rightarrow> u64 \<Rightarrow> transaction \<Rightarrow> transaction" where
  "set_create_time h x t = t\<lparr>tx_data := poke 14 (mem_of h x) (tx_data t)\<rparr>"

definition get_create_time :: "ByteSequence \<Rightarrow> transaction \<Rightarrow> u64" where
  "get_create_time h t = word_at h (peek 14 8 (tx_data t))"

definition set_expired_epoch :: "byte \<Rightarrow> transaction \<Rightarrow> transaction" where
  "set_expired_epoch x t = t\<lparr>tx_data := poke 22 [x] (tx_data t)\<rparr>"

definition get_expired_epoch :: "transaction \<Rightarrow> byte" where
  "get_expired_epoch t = hd (peek 22 1 (tx_data t))"

definition set_sender :: "uint256 \<Rightarrow> transaction \<Rightarrow> transaction" where
  "set_sender x t = t\<lparr>tx_data := poke 23 (take Width x) (tx_data t)\<rparr>"

definition get_sender :: "transaction \<Rightarrow> uint256" where
  "get_sender t = peek 23 Width (tx_data t)"

definition set_tx_nonce :: "ByteSequence \<Rightarrow> u64 \<Rightarrow> transaction \<Rightarrow> transaction" where
  "set_tx_nonce h x t = t\<lparr>tx_data := poke 55 (mem_of h x) (tx_data t)\<rparr>"

definition get_tx_nonce :: "ByteSequence \<Rightarrow> transaction \<Rightarrow> u64" where
  "get_tx_nonce h t = word_at h (peek 55 8 (tx_data t))"

definition transaction_default :: transaction where
  "transaction_default = set_transaction_version V0001 \<lparr>tx_data = replicate Bytes 0, outs = [], signature = []\<rparr>"

text \<open>The two constructors with arguments; \<open>junk\<close> is the content of the array before, which they do not clear.\<close>

definition append_transaction ::
  "ByteSequence \<Rightarrow> byte list \<Rightarrow> uint256 \<Rightarrow> u64 \<Rightarrow> u64 \<Rightarrow> u32 \<Rightarrow> u64 \<Rightarrow> byte \<Rightarrow> transaction_operator \<Rightarrow>
   transaction_version \<Rightarrow> transaction" where
  "append_transaction h junk sender n count ty time epoch op v =
     set_transaction_version v (set_transaction_operator op (set_count h count (set_expired_epoch epoch
       (set_sender sender (set_asset_type h ty (set_create_time h time (set_tx_nonce h n
         \<lparr>tx_data = junk, outs = [], signature = []\<rparr>)))))))"

definition establish_transaction ::
  "ByteSequence \<Rightarrow> byte list \<Rightarrow> uint256 \<Rightarrow> u64 \<Rightarrow> u32 \<Rightarrow> u64 \<Rightarrow> byte \<Rightarrow> transaction_operator \<Rightarrow>
   transaction_version \<Rightarrow> transaction" where
  "establish_transaction h junk sender n ty time epoch op v =
     set_transaction_version v (set_transaction_operator op (set_expired_epoch epoch
       (set_sender sender (set_asset_type h ty (set_create_time h time (set_tx_nonce h n
         \<lparr>tx_data = junk, outs = [], signature = []\<rparr>))))))"

definition push_output :: "uint256 \<Rightarrow> u64 \<Rightarrow> transaction \<Rightarrow> transaction" where
  "push_output r n t = t\<lparr>outs := outs t @ [\<lparr>receiver = r, out_count = n\<rparr>]\<rparr>"

definition set_signature :: "byte list \<Rightarrow> transaction \<Rightarrow> transaction" where
  "set_signature s t = t\<lparr>signature := s\<rparr>"

text \<open>Copy and move construction leave the signature empty, assignment leaves the old one.\<close>

definition copy_transaction :: "transaction \<Rightarrow> transaction" where
  "copy_transaction other = \<lparr>tx_data = tx_data other, outs = outs other, signature = []\<rparr>"

definition assign_transaction :: "transaction \<Rightarrow> transaction \<Rightarrow> transaction" where
  "assign_transaction other t = t\<lparr>tx_data := tx_data other, outs := outs other\<rparr>"

primrec outs_sum :: "ByteSequence \<Rightarrow> (byte list \<Rightarrow> byte list) \<Rightarrow> out_entry list \<Rightarrow> uint256 \<Rightarrow> uint256" where
  "outs_sum h sha3 [] result = result"
| "outs_sum h sha3 (out # rest) result =
     outs_sum h sha3 rest (uint256_plus (sha3 (mem_of h (out_count out))) (uint256_plus result (receiver out)))"

definition transaction_hash :: "ByteSequence \<Rightarrow> (byte list \<Rightarrow> byte list) \<Rightarrow> transaction \<Rightarrow> uint256" where
  "transaction_hash h sha3 t = outs_sum h sha3 (outs t) (uint256_plus (sha3 (tx_data t)) (get_sender t))"

text \<open>\<open>MUSE_IBinarySerializable(receiver, count)\<close> and \<open>MUSE_IBinarySerializable(data, outs, signature)\<close>.\<close>

definition out_entry_val :: "out_entry \<Rightarrow> sval" where
  "out_entry_val out = VClass [uint256_val (receiver out), VUInt64 (out_count out)]"

definition out_entry_type :: cty where
  "out_entry_type = TClass [uint256_type, TUInt64]"

definition transaction_val :: "transaction \<Rightarrow> sval" where
  "transaction_val t =
     VClass [VArray (map VUChar (tx_data t)), VVector (map out_entry_val (outs t)), VString (signature t)]"

definition transaction_type :: cty where
  "transaction_type = TClass [TArray Bytes TUChar, TVector out_entry_type, TString]"

section \<open>Affairs\<close>

datatype affair_type = GenesisData | PureData | MaliciousMessages | MaliciousTransactions | MaliciousAffair |
  MaliciousBlock | OwnerAddressHash | ParticipatorAddressHash

primrec affair_code :: "affair_type \<Rightarrow> byte" where
  "affair_code GenesisData = 0" | "affair_code PureData = 1" | "affair_code MaliciousMessages = 2"
| "affair_code MaliciousTransactions = 3" | "affair_code MaliciousAffair = 4" | "affair_code MaliciousBlock = 5"
| "affair_code OwnerAddressHash = 6" | "affair_code ParticipatorAddressHash = 7"

record affair =
  af_nonce :: u64
  af_owner :: uint256
  af_type :: byte
  af_data :: "byte list"
  af_signature :: "byte list"
  af_create_time :: u64
  af_epoch :: byte

text \<open>\<open>time0\<close> and \<open>epoch0\<close> are what the members hold that a constructor does not initialise.\<close>

definition affair_default :: "u64 \<Rightarrow> byte \<Rightarrow> affair" where
  "affair_default time0 epoch0 =
     \<lparr>af_nonce = 0, af_owner = base_binary_fill 0, af_type = affair_code PureData, af_data = [], af_signature = [],
      af_create_time = time0, af_epoch = epoch0\<rparr>"

definition affair_of_data :: "u64 \<Rightarrow> byte \<Rightarrow> u64 \<Rightarrow> uint256 \<Rightarrow> affair_type \<Rightarrow> byte list \<Rightarrow> affair option" where
  "affair_of_data time0 epoch0 n owner ty d =
     (if d = [] then None
      else Some \<lparr>af_nonce = n, af_owner = owner, af_type = affair_code ty, af_data = d, af_signature = [],
        af_create_time = time0, af_epoch = epoch0\<rparr>)"

definition new_affair :: "u64 \<Rightarrow> uint256 \<Rightarrow> affair_type \<Rightarrow> u64 \<Rightarrow> byte \<Rightarrow> byte list \<Rightarrow> affair" where
  "new_affair n owner ty time epoch d =
     \<lparr>af_nonce = n, af_owner = owner, af_type = affair_code ty, af_data = d, af_signature = [],
      af_create_time = time, af_epoch = epoch\<rparr>"

text \<open>Every type but one is reported as \<open>PureData\<close>.\<close>

definition affair_get_type :: "affair \<Rightarrow> affair_type" where
  "affair_get_type a = (if af_type a = affair_code PureData then PureData
     else if af_type a = affair_code MaliciousMessages then MaliciousMessages else PureData)"

definition is_db_level_affair_type :: "affair \<Rightarrow> bool" where
  "is_db_level_affair_type a \<longleftrightarrow> af_type a \<noteq> affair_code OwnerAddressHash \<and> af_type a \<noteq> affair_code PureData"

text \<open>The value computed from the time and the epoch is overwritten by that of the data.\<close>

definition affair_hash :: "ByteSequence \<Rightarrow> (byte list \<Rightarrow> byte list) \<Rightarrow> affair \<Rightarrow> uint256" where
  "affair_hash h sha3 a =
     (let temp = sha3 (mem_of h (af_create_time a));
          result = uint256_plus temp (base_binary_fill (af_epoch a));
          temp = sha3 (af_data a);
          result = uint256_plus temp (af_owner a);
          temp = sha3 (mem_of h (af_nonce a));
          result = uint256_plus result temp;
          temp = uint256_plus result (base_binary_fill (af_type a))
      in sha3 temp)"

text \<open>\<open>MUSE_IBinarySerializable(nonce, owner, _affair_type, signature, create_time, epoch, data)\<close>; the data are a \<open>std::vector<char>\<close>.\<close>

definition affair_val :: "affair \<Rightarrow> sval" where
  "affair_val a = VClass [VUInt64 (af_nonce a), uint256_val (af_owner a), VUChar (af_type a), VString (af_signature a),
     VUInt64 (af_create_time a), VUChar (af_epoch a), VVector (map VChar (af_data a))]"

definition affair_cty :: cty where
  "affair_cty = TClass [TUInt64, uint256_type, TUChar, TString, TUInt64, TUChar, TVector TChar]"

section \<open>Blocks\<close>

record block_header =
  prev_block_hash :: uint256
  assets_blf_hash :: uint256
  transactions_merkle_root :: uint256
  affairs_merkle_root :: uint256
  merkle_patricia_trie_root :: uint256
  black_block_hashes :: "uint256 list"
  height :: u64
  create_time :: u64

definition header_default :: block_header where
  "header_default = \<lparr>prev_block_hash = base_binary_fill 0, assets_blf_hash = base_binary_default,
     transactions_merkle_root = base_binary_fill 0, affairs_merkle_root = base_binary_fill 0,
     merkle_patricia_trie_root = base_binary_fill 0, black_block_hashes = [], height = 0, create_time = 0\<rparr>"

definition get_block_hash :: "ByteSequence \<Rightarrow> (byte list \<Rightarrow> byte list) \<Rightarrow> block_header \<Rightarrow> uint256" where
  "get_block_hash h sha3 bh =
     (let result = uint256_plus (uint256_plus (prev_block_hash bh) (transactions_merkle_root bh)) (affairs_merkle_root bh);
          result = uint256_plus result (sha3 (mem_of h (height bh)));
          temp = sha3 (mem_of h (create_time bh));
          result = uint256_plus result temp;
          result = (if black_block_hashes bh \<noteq> []
                    then uint256_plus result (fold (\<lambda>x t. uint256_plus t x) (black_block_hashes bh) temp) else result)
      in get_sha3_256 sha3 result)"

record block_body =
  transactions :: "transaction list"
  affairs :: "affair list"

record block =
  header :: block_header
  body :: block_body
  blk_signature :: "byte list"

definition block_default :: block where
  "block_default = \<lparr>header = header_default, body = \<lparr>transactions = [], affairs = []\<rparr>, blk_signature = []\<rparr>"

definition block_hash :: "ByteSequence \<Rightarrow> (byte list \<Rightarrow> byte list) \<Rightarrow> block \<Rightarrow> uint256" where
  "block_hash h sha3 b = get_block_hash h sha3 (header b)"

text \<open>
  Copies: a \<open>std::vector\<close> copies its elements with their copy constructors, and the copy of a block
  leaves out its signature.
\<close>

definition copy_body :: "block_body \<Rightarrow> block_body" where
  "copy_body other = \<lparr>transactions = map copy_transaction (transactions other), affairs = affairs other\<rparr>"

definition copy_block :: "block \<Rightarrow> block" where
  "copy_block other = \<lparr>header = header other, body = copy_body (body other), blk_signature = []\<rparr>"

text \<open>A moved vector keeps its elements.\<close>

definition move_block :: "block \<Rightarrow> block" where
  "move_block other = \<lparr>header = header other, body = body other, blk_signature = []\<rparr>"

definition header_val :: "block_header \<Rightarrow> sval" where
  "header_val bh = VClass [uint256_val (prev_block_hash bh), uint256_val (assets_blf_hash bh),
     uint256_val (transactions_merkle_root bh), uint256_val (affairs_merkle_root bh),
     uint256_val (merkle_patricia_trie_root bh), VVector (map uint256_val (black_block_hashes bh)),
     VUInt64 (height bh), VUInt64 (create_time bh)]"

definition header_type :: cty where
  "header_type = TClass [uint256_type, uint256_type, uint256_type, uint256_type, uint256_type,
     TVector uint256_type, TUInt64, TUInt64]"

definition body_val :: "block_body \<Rightarrow> sval" where
  "body_val b = VClass [VVector (map transaction_val (transactions b)), VVector (map affair_val (affairs b))]"

definition body_type :: cty where
  "body_type = TClass [TVector transaction_type, TVector affair_cty]"

definition block_val :: "block \<Rightarrow> sval" where
  "block_val b = VClass [header_val (header b), body_val (body b), VString (blk_signature b)]"

definition block_type :: cty where
  "block_type = TClass [header_type, body_type, TString]"

section \<open>Receipts\<close>

text \<open>
  What the transactions of one account in a block add up to: by asset type the amount available and
  the amount spent, and the nonces. The balances are a \<open>std::map\<close>, kept in ascending order.
\<close>

record receipt =
  nonce_start :: u64
  rbalances :: "(u32 \<times> u64 \<times> u64) list"
  nonces :: "u64 list"

definition receipt_default :: receipt where
  "receipt_default = \<lparr>nonce_start = 0, rbalances = [], nonces = []\<rparr>"

definition new_receipt :: "u64 \<Rightarrow> receipt" where
  "new_receipt start = \<lparr>nonce_start = start, rbalances = [], nonces = []\<rparr>"

text \<open>The check sorts the nonces when there are several; the loop compares neighbours.\<close>

fun consecutive :: "u64 list \<Rightarrow> bool" where
  "consecutive (a # b # ns) = (b = a + 1 \<and> consecutive (b # ns))"
| "consecutive _ = True"

definition check_nonce :: "receipt \<Rightarrow> receipt \<times> bool" where
  "check_nonce r =
     (if nonces r = [] then (r, True)
      else if 1 < length (nonces r)
      then let ns = sort (nonces r) in (r\<lparr>nonces := ns\<rparr>, hd ns = nonce_start r + 1 \<and> consecutive ns)
      else (r, hd (nonces r) = nonce_start r + 1))"

definition check_receipt :: "receipt \<Rightarrow> receipt \<times> bool" where
  "check_receipt r =
     (let (r', ok) = check_nonce r
      in if \<not> ok then (r', False)
         else (r', list_all (\<lambda>(k, have, spent). spent \<le> have) (rbalances r')))"

definition input_and_check :: "transaction \<Rightarrow> receipt \<Rightarrow> bool" where
  "input_and_check t r = True"

section \<open>Properties of transactions\<close>

lemmas tx_defs = set_transaction_version_def get_transaction_version_def set_asset_type_def get_asset_type_def
  set_transaction_operator_def get_transaction_operator_def set_count_def get_count_def set_create_time_def
  get_create_time_def set_expired_epoch_def get_expired_epoch_def set_sender_def get_sender_def
  set_tx_nonce_def get_tx_nonce_def

lemma append_transaction_read:
  fixes h n count ty time epoch op v
  assumes "length junk = Bytes" "wf256 sender"
  defines "t \<equiv> append_transaction h junk sender n count ty time epoch op v"
  shows "length (tx_data t) = Bytes" "get_transaction_version t = v" "get_asset_type h t = ty"
    "get_transaction_operator t = op" "get_count h t = count" "get_create_time h t = time"
    "get_expired_epoch t = epoch" "get_sender t = sender" "get_tx_nonce h t = n" "outs t = []"
  using assms(1,2) unfolding t_def
  by (cases v; cases op;
      simp add: append_transaction_def tx_defs Bytes_def Width_def wf256_def peek_poke_same peek_poke_other word_at_mem_of)+

text \<open>
  C40 The layout of a transaction. The constructor of a transfer, whatever the array held before,
  gives an object from which the eight accessors read what was given: no two fields overlap and
  all lie within the 64 bytes.
\<close>

theorem append_transaction_fields:
  assumes "length junk = Bytes" "wf256 sender"
  shows "let t = append_transaction h junk sender n count ty time epoch op v
    in length (tx_data t) = Bytes \<and> get_transaction_version t = v \<and> get_asset_type h t = ty \<and>
       get_transaction_operator t = op \<and> get_count h t = count \<and> get_create_time h t = time \<and>
       get_expired_epoch t = epoch \<and> get_sender t = sender \<and> get_tx_nonce h t = n"
  using append_transaction_read [OF assms] by (simp add: Let_def)

theorem append_transaction_fields_witness:
  "get_count LittleEndian (append_transaction LittleEndian (replicate 64 171) (replicate 32 7) 1 500 10 99 255 Append V0001) = 500 \<and>
   get_sender (append_transaction LittleEndian (replicate 64 171) (replicate 32 7) 1 500 10 99 255 Append V0001) = replicate 32 7"
  using append_transaction_fields [of "replicate 64 171" "replicate 32 7" LittleEndian 1 500 10 99 255 Append V0001]
  by (simp add: Bytes_def wf256_def Width_def Let_def)

end
