(* ===== verification/Block_Check.thy ===== *)
theory Block_Check
  imports Chain_Data Mpt_Refinement Bloom_Filter
begin

text \<open>
  The checks of transactions, affairs and blocks against the accounts and the packaging of the next
  block (\<open>src/include/db/connector_account.cpp\<close>: \<open>check_transaction\<close>, \<open>check_affair\<close>, \<open>check_block_body\<close>,
  \<open>package_next_block_body\<close>, \<open>try_package_next_block_body\<close>). The environment \<open>env\<close> of the trie holds the host's
  byte order; \<open>md5\<close> is the digest of the asset filter. A \<open>std::map\<close> from addresses to receipts is an
  association list: nothing here depends on its order.
\<close>

section \<open>Constants\<close>

definition EPOCH_TIME_UINT :: u32 where "EPOCH_TIME_UINT = 300000"
definition ASSET_MAX_COUNT :: u64 where "ASSET_MAX_COUNT = 68719476736"
definition Epoch_Time_Uint :: u32 where "Epoch_Time_Uint = 300000000"

record chain_ini =
  transaction_maximum_number_in_block :: u32
  affair_maximum_number_in_block :: u32
  transaction_minimum_number_in_block :: u32
  affair_minimum_number_in_block :: u32

section \<open>Single transactions and affairs\<close>

definition sum_outs :: "transaction \<Rightarrow> u64" where
  "sum_outs tsc = sum_list (map out_count (outs tsc))"

definition check_transaction ::
  "mpt_env \<Rightarrow> (byte list \<Rightarrow> byte list) \<Rightarrow> u64 \<Rightarrow> bloom_filter \<Rightarrow> transaction \<Rightarrow> merkle_patricia_trie \<Rightarrow>
   (merkle_patricia_trie \<times> bool) mres" where
  "check_transaction env md5 now flt tsc t =
     (let h = mpt_host env
      in case get_transaction_operator tsc of
           Establish \<Rightarrow> Inr (t, bloom_test md5 h flt (get_asset_type h tsc) \<and> outs tsc = [])
         | Append \<Rightarrow>
             if sum_outs tsc \<noteq> get_count h tsc then Inr (t, False)
             else chain (mpt_search env (get_sender tsc) t) (\<lambda>(t, sender).
                  case sender of
                    None \<Rightarrow> Inr (t, False)
                  | Some a \<Rightarrow>
                      Inr (t, \<not> get_balance (get_asset_type h tsc) a < get_count h tsc \<and>
                              \<not> nonce a \<le> get_tx_nonce h tsc \<and>
                              \<not> get_create_time h tsc + ucast (get_expired_epoch tsc) * ucast EPOCH_TIME_UINT < now))
         | NullOP \<Rightarrow> Inr (t, False))"

definition check_affair :: "mpt_env \<Rightarrow> affair \<Rightarrow> merkle_patricia_trie \<Rightarrow> (merkle_patricia_trie \<times> bool) mres" where
  "check_affair env afi t =
     chain (mpt_search env (af_owner afi) t) (\<lambda>(t, owner).
     case owner of None \<Rightarrow> Inr (t, True) | Some a \<Rightarrow> Inr (t, nonce a < af_nonce afi))"

section \<open>The body of a block\<close>

type_synonym receipts = "(uint256 \<times> receipt) list"

text \<open>The bodies of the loops end with an exception, with \<open>return false\<close>, or go on.\<close>

datatype check_exit = CheckThrow mpt_error | Reject merkle_patricia_trie

definition checked :: "'a mres \<Rightarrow> check_exit + 'a" where
  "checked r = (case r of Inl e \<Rightarrow> Inl (CheckThrow e) | Inr a \<Rightarrow> Inr a)"

definition add_nonce :: "u64 \<Rightarrow> receipt \<Rightarrow> receipt" where
  "add_nonce n r = r\<lparr>nonces := nonces r @ [n]\<rparr>"

text \<open>\<open>balances[ty].second += count\<close> through the iterator of an entry, and \<open>balances[ty].first += count\<close>.\<close>

definition add_spent :: "u32 \<Rightarrow> u64 \<times> u64 \<Rightarrow> u64 \<Rightarrow> receipt \<Rightarrow> receipt" where
  "add_spent ty b n r = r\<lparr>rbalances := put ty (fst b, snd b + n) (rbalances r)\<rparr>"

definition add_available :: "u32 \<Rightarrow> u64 \<Rightarrow> receipt \<Rightarrow> receipt" where
  "add_available ty n r =
     (let b = (case map_of (rbalances r) ty of None \<Rightarrow> (0, 0) | Some b \<Rightarrow> b)
      in r\<lparr>rbalances := put ty (fst b + n, snd b) (rbalances r)\<rparr>)"

definition new_asset :: "u32 \<Rightarrow> u64 \<Rightarrow> u64 \<Rightarrow> receipt \<Rightarrow> receipt" where
  "new_asset ty available spent r = r\<lparr>rbalances := put ty (available, spent) (rbalances r)\<rparr>"

definition account_nonce :: "account option \<Rightarrow> u64" where
  "account_nonce a = (case a of None \<Rightarrow> 0 | Some a \<Rightarrow> nonce a)"

definition check_append ::
  "mpt_env \<Rightarrow> transaction \<Rightarrow> account option \<Rightarrow> merkle_patricia_trie \<Rightarrow> receipts \<Rightarrow> check_exit + receipts" where
  "check_append env tsc acc t rs =
     (let h = mpt_host env; sender = get_sender tsc; ty = get_asset_type h tsc;
          count = get_count h tsc; n = get_tx_nonce h tsc
      in case acc of
           None \<Rightarrow>
             (case map_of rs sender of
                None \<Rightarrow> Inl (Reject t)
              | Some r \<Rightarrow>
                  (case map_of (rbalances r) ty of
                     None \<Rightarrow> Inl (Reject t)
                   | Some b \<Rightarrow> Inr (AList.update sender (add_spent ty b count (add_nonce n r)) rs)))
         | Some a \<Rightarrow>
             if sum_outs tsc \<noteq> count then Inl (Reject t)
             else (case map_of rs sender of
                     None \<Rightarrow> Inr (AList.update sender (add_nonce n (new_asset ty (get_balance ty a) count (new_receipt (nonce a)))) rs)
                   | Some r \<Rightarrow>
                       (case map_of (rbalances r) ty of
                          None \<Rightarrow> Inr (AList.update sender (new_asset ty (get_balance ty a) count (add_nonce n r)) rs)
                        | Some b \<Rightarrow> Inr (AList.update sender (add_spent ty b count (add_nonce n r)) rs))))"

definition check_establish ::
  "mpt_env \<Rightarrow> (byte list \<Rightarrow> byte list) \<Rightarrow> transaction \<Rightarrow> account option \<Rightarrow> merkle_patricia_trie \<Rightarrow> receipts \<times> bloom_filter \<Rightarrow>
   check_exit + receipts \<times> bloom_filter" where
  "check_establish env md5 tsc acc t st =
     (let h = mpt_host env; rs = fst st; flt = snd st; sender = get_sender tsc; ty = get_asset_type h tsc;
          n = get_tx_nonce h tsc
      in if bloom_test md5 h flt ty then Inl (Reject t)
         else let flt = fst (bloom_insert md5 h ty flt)
              in case map_of rs sender of
                   None \<Rightarrow>
                     Inr (AList.update sender
                            (add_nonce n (new_asset ty ASSET_MAX_COUNT 0 (new_receipt (account_nonce acc)))) rs, flt)
                 | Some r \<Rightarrow> Inr (AList.update sender (add_available ty ASSET_MAX_COUNT (add_nonce n r)) rs, flt))"

definition check_tx ::
  "mpt_env \<Rightarrow> (byte list \<Rightarrow> byte list) \<Rightarrow> transaction \<Rightarrow> merkle_patricia_trie \<times> receipts \<times> bloom_filter \<Rightarrow>
   check_exit + merkle_patricia_trie \<times> receipts \<times> bloom_filter" where
  "check_tx env md5 tsc st =
     (let rs = fst (snd st); flt = snd (snd st)
      in chain (checked (mpt_search env (get_sender tsc) (fst st))) (\<lambda>(t, acc).
         case get_transaction_operator tsc of
           Append \<Rightarrow> chain (check_append env tsc acc t rs) (\<lambda>rs. Inr (t, rs, flt))
         | Establish \<Rightarrow> chain (check_establish env md5 tsc acc t (rs, flt)) (\<lambda>p. Inr (t, p))
         | NullOP \<Rightarrow> Inl (Reject t)))"

primrec check_txs ::
  "mpt_env \<Rightarrow> (byte list \<Rightarrow> byte list) \<Rightarrow> transaction list \<Rightarrow> merkle_patricia_trie \<times> receipts \<times> bloom_filter \<Rightarrow>
   check_exit + merkle_patricia_trie \<times> receipts \<times> bloom_filter" where
  "check_txs env md5 [] st = Inr st"
| "check_txs env md5 (tsc # ts) st = chain (check_tx env md5 tsc st) (check_txs env md5 ts)"

primrec check_affairs :: "mpt_env \<Rightarrow> affair list \<Rightarrow> merkle_patricia_trie \<times> receipts \<Rightarrow> check_exit + merkle_patricia_trie \<times> receipts" where
  "check_affairs env [] st = Inr st"
| "check_affairs env (air # as) st =
     (if \<not> is_db_level_affair_type air then check_affairs env as st
      else let rs = snd st; owner = af_owner air
           in chain (checked (mpt_search env owner (fst st))) (\<lambda>(t, acc).
              case map_of rs owner of
                None \<Rightarrow>
                  check_affairs env as (t, AList.update owner (add_nonce (af_nonce air) (new_receipt (account_nonce acc))) rs)
              | Some r \<Rightarrow> check_affairs env as (t, AList.update owner (add_nonce (af_nonce air) r) rs)))"

definition check_block_body ::
  "mpt_env \<Rightarrow> (byte list \<Rightarrow> byte list) \<Rightarrow> block_body \<Rightarrow> bloom_filter \<Rightarrow> merkle_patricia_trie \<Rightarrow>
   (merkle_patricia_trie \<times> bool) mres" where
  "check_block_body env md5 b flt t =
     (case chain (check_txs env md5 (transactions b) (t, [], flt)) (\<lambda>(t, rs, flt).
           check_affairs env (affairs b) (t, rs)) of
        Inl (CheckThrow e) \<Rightarrow> Inl e
      | Inl (Reject t) \<Rightarrow> Inr (t, False)
      | Inr (t, rs) \<Rightarrow> Inr (t, list_all (\<lambda>p. snd (check_receipt (snd p))) rs))"

end
