(* ===== verification/Block_Package.thy ===== *)
theory Block_Package
  imports Block_Check
begin

text \<open>
  Packaging of the next block from the queues of transactions and affairs
  (\<open>src/include/db/connector_account.cpp\<close>: \<open>package_next_block_body\<close>, \<open>try_package_next_block_body\<close>). The loops move an
  iterator over a queue: it erases the element, goes to the next one or stays. \<open>None\<close> is a loop that
  does not end.
\<close>

section \<open>Transactions\<close>

text \<open>\<open>Leave\<close> is the \<open>continue\<close> after \<open>start++\<close>, which skips the test of the size of the block.\<close>

datatype move = Expired | Leave | Add | Discard | Next | Stay

record packing =
  pk_trie :: merkle_patricia_trie
  pk_receipts :: receipts
  pk_filter :: bloom_filter

text \<open>
  \<open>uint8_t\<close> times \<open>uint32_t\<close> is computed in 32 bits.
\<close>

definition tx_expires :: "ByteSequence \<Rightarrow> transaction \<Rightarrow> u64" where
  "tx_expires h tsc = get_create_time h tsc + ucast (ucast (get_expired_epoch tsc) * Epoch_Time_Uint)"

definition pop_nonce :: "receipt \<Rightarrow> receipt" where
  "pop_nonce r = r\<lparr>nonces := butlast (nonces r)\<rparr>"

definition put_receipt :: "uint256 \<Rightarrow> receipt \<Rightarrow> packing \<Rightarrow> packing" where
  "put_receipt k r p = p\<lparr>pk_receipts := AList.update k r (pk_receipts p)\<rparr>"

text \<open>A new receipt is stored when it passes the check.\<close>

definition first_receipt :: "uint256 \<Rightarrow> receipt \<Rightarrow> packing \<Rightarrow> packing \<times> bool" where
  "first_receipt k r p =
     (let (r', ok) = check_receipt r in if ok then (put_receipt k r' p, True) else (p, False))"

definition package_append :: "ByteSequence \<Rightarrow> transaction \<Rightarrow> account option \<Rightarrow> packing \<Rightarrow> packing \<times> move" where
  "package_append h tsc acc p =
     (let sender = get_sender tsc; ty = get_asset_type h tsc; count = get_count h tsc; n = get_tx_nonce h tsc
      in case acc of
           None \<Rightarrow>
             (case map_of (pk_receipts p) sender of
                None \<Rightarrow> (p, Leave)
              | Some r \<Rightarrow>
                  (case map_of (rbalances r) ty of
                     None \<Rightarrow> (p, Leave)
                   | Some b \<Rightarrow>
                       let (r', ok) = check_receipt (add_spent ty b count (add_nonce n r))
                       in if ok then (put_receipt sender r' p, Add)
                          else (put_receipt sender (new_asset ty (fst b) (snd b + count - count) (pop_nonce r')) p, Next)))
         | Some a \<Rightarrow>
             (case map_of (pk_receipts p) sender of
                None \<Rightarrow>
                  let (p', ok) = first_receipt sender
                        (add_nonce n (new_asset ty (get_balance ty a) count (new_receipt (nonce a)))) p
                  in (p', if ok then Add else Next)
              | Some r \<Rightarrow>
                  (case map_of (rbalances r) ty of
                     None \<Rightarrow>
                       let (r', ok) = check_receipt (new_asset ty (get_balance ty a) count (add_nonce n r))
                       in if ok then (put_receipt sender r' p, Add)
                          else (put_receipt sender ((pop_nonce r')\<lparr>rbalances := AList.delete ty (rbalances r')\<rparr>) p, Stay)
                   | Some b \<Rightarrow>
                       let (r', ok) = check_receipt (add_spent ty b count (add_nonce n r))
                       in if ok then (put_receipt sender r' p, Add)
                          else (put_receipt sender (new_asset ty (fst b) (snd b + count - count) r') p, Next))))"

definition package_establish ::
  "ByteSequence \<Rightarrow> (byte list \<Rightarrow> byte list) \<Rightarrow> transaction \<Rightarrow> account option \<Rightarrow> packing \<Rightarrow> packing \<times> move" where
  "package_establish h md5 tsc acc p =
     (let sender = get_sender tsc; ty = get_asset_type h tsc; n = get_tx_nonce h tsc
      in if bloom_test md5 h (pk_filter p) ty then (p, Next)
         else let p = p\<lparr>pk_filter := fst (bloom_insert md5 h ty (pk_filter p))\<rparr>
              in case map_of (pk_receipts p) sender of
                   None \<Rightarrow>
                     let (p', ok) = first_receipt sender
                           (add_nonce n (new_asset ty ASSET_MAX_COUNT 0 (new_receipt (account_nonce acc)))) p
                     in (p', if ok then Add else Next)
                 | Some r \<Rightarrow>
                     let (r', ok) = check_nonce (add_nonce n r)
                     in if ok then (put_receipt sender (add_available ty ASSET_MAX_COUNT r') p, Add)
                        else (put_receipt sender (pop_nonce r') p, Next))"

definition package_tx ::
  "mpt_env \<Rightarrow> (byte list \<Rightarrow> byte list) \<Rightarrow> u64 \<Rightarrow> transaction \<Rightarrow> packing \<Rightarrow> (packing \<times> move) mres" where
  "package_tx env md5 current tsc p =
     (let h = mpt_host env
      in if tx_expires h tsc < current then Inr (p, Expired)
         else chain (mpt_search env (get_sender tsc) (pk_trie p)) (\<lambda>(t, acc).
              let p = p\<lparr>pk_trie := t\<rparr>
              in Inr (case get_transaction_operator tsc of
                        Append \<Rightarrow> package_append h tsc acc p
                      | Establish \<Rightarrow> package_establish h md5 tsc acc p
                      | NullOP \<Rightarrow> (p, Discard))))"

text \<open>
  The inner loop. The queue is split at the iterator; \<open>packed\<close> are the transactions of the block and
  \<open>added\<close> counts those of this pass.
\<close>

partial_function (option) package_pass ::
  "mpt_env \<Rightarrow> (byte list \<Rightarrow> byte list) \<Rightarrow> u64 \<Rightarrow> nat \<Rightarrow> transaction list \<Rightarrow> transaction list \<Rightarrow> transaction list \<Rightarrow> nat \<Rightarrow>
   packing \<Rightarrow> (packing \<times> transaction list \<times> transaction list \<times> nat) mres option" where
  "package_pass env md5 current maximum before rest packed added p =
     (case rest of
        [] \<Rightarrow> Some (Inr (p, before, packed, added))
      | tsc # rest' \<Rightarrow>
          (case package_tx env md5 current tsc p of
             Inl e \<Rightarrow> Some (Inl e)
           | Inr q \<Rightarrow>
               let p' = fst q;
                   packed' = (if snd q = Add then packed @ [copy_transaction tsc] else packed);
                   added' = (if snd q = Add then added + 1 else added);
                   before' = (if snd q = Leave \<or> snd q = Next then before @ [tsc] else before);
                   rest'' = (if snd q = Stay then rest else rest')
               in if snd q \<noteq> Expired \<and> snd q \<noteq> Leave \<and> maximum \<le> length packed'
                  then Some (Inr (p', before' @ rest'', packed', added'))
                  else package_pass env md5 current maximum before' rest'' packed' added' p'))"

text \<open>Passes are made while transactions are added.\<close>

partial_function (option) package_transactions ::
  "mpt_env \<Rightarrow> (byte list \<Rightarrow> byte list) \<Rightarrow> u64 \<Rightarrow> nat \<Rightarrow> transaction list \<Rightarrow> transaction list \<Rightarrow>
   packing \<Rightarrow> (packing \<times> transaction list \<times> transaction list) mres option" where
  "package_transactions env md5 current maximum queue packed p =
     (case package_pass env md5 current maximum [] queue packed 0 p of
        None \<Rightarrow> None
      | Some (Inl e) \<Rightarrow> Some (Inl e)
      | Some (Inr (p', queue', packed', added)) \<Rightarrow>
          if 0 < added then package_transactions env md5 current maximum queue' packed' p'
          else Some (Inr (p', queue', packed')))"

section \<open>Affairs\<close>

definition af_expires :: "affair \<Rightarrow> u64" where
  "af_expires air = af_create_time air + ucast (ucast (af_epoch air) * Epoch_Time_Uint)"

definition package_affair :: "mpt_env \<Rightarrow> u64 \<Rightarrow> affair \<Rightarrow> packing \<Rightarrow> (packing \<times> move) mres" where
  "package_affair env current air p =
     (if af_expires air < current then Inr (p, Expired)
      else let owner = af_owner air; n = af_nonce air
           in chain (mpt_search env owner (pk_trie p)) (\<lambda>(t, acc).
              let p = p\<lparr>pk_trie := t\<rparr>
              in Inr (case map_of (pk_receipts p) owner of
                        None \<Rightarrow>
                          let (p', ok) = first_receipt owner (add_nonce n (new_receipt (account_nonce acc))) p
                          in (p', if ok then Add else Stay)
                      | Some r \<Rightarrow>
                          let (r', ok) = check_nonce (add_nonce n r)
                          in if ok then (put_receipt owner r' p, Add)
                             else (put_receipt owner (r'\<lparr>nonces := removeAll n (nonces r')\<rparr>) p, Stay))))"

partial_function (option) affair_pass ::
  "mpt_env \<Rightarrow> u64 \<Rightarrow> affair list \<Rightarrow> affair list \<Rightarrow> nat \<Rightarrow> packing \<Rightarrow> (packing \<times> affair list \<times> affair list \<times> nat) mres option" where
  "affair_pass env current queue packed added p =
     (case queue of
        [] \<Rightarrow> Some (Inr (p, [], packed, added))
      | air # queue' \<Rightarrow>
          (case package_affair env current air p of
             Inl e \<Rightarrow> Some (Inl e)
           | Inr q \<Rightarrow>
               affair_pass env current (if snd q = Stay then queue else queue')
                 (if snd q = Add then packed @ [air] else packed) (if snd q = Add then added + 1 else added) (fst q)))"

partial_function (option) package_affairs ::
  "mpt_env \<Rightarrow> u64 \<Rightarrow> affair list \<Rightarrow> affair list \<Rightarrow> packing \<Rightarrow> (packing \<times> affair list \<times> affair list) mres option" where
  "package_affairs env current queue packed p =
     (case affair_pass env current queue packed 0 p of
        None \<Rightarrow> None
      | Some (Inl e) \<Rightarrow> Some (Inl e)
      | Some (Inr (p', queue', packed', added)) \<Rightarrow>
          if 0 < added then package_affairs env current queue' packed' p' else Some (Inr (p', queue', packed')))"

section \<open>The block\<close>

text \<open>The queues of a \<open>connector_block\<close> that packaging uses.\<close>

record queues =
  transactions_queue :: "transaction list"
  affairs_queue :: "affair list"

definition package_next_block_body ::
  "mpt_env \<Rightarrow> (byte list \<Rightarrow> byte list) \<Rightarrow> u64 \<Rightarrow> chain_ini \<Rightarrow> bloom_filter \<Rightarrow> block \<Rightarrow> queues \<Rightarrow> merkle_patricia_trie \<Rightarrow>
   (merkle_patricia_trie \<times> block \<times> queues) mres option" where
  "package_next_block_body env md5 current ini flt blk q t =
     (case package_transactions env md5 current (unat (transaction_maximum_number_in_block ini)) (transactions_queue q)
             (transactions (body blk)) \<lparr>pk_trie = t, pk_receipts = [], pk_filter = flt\<rparr> of
        None \<Rightarrow> None
      | Some (Inl e) \<Rightarrow> Some (Inl e)
      | Some (Inr (p, tq, txs)) \<Rightarrow>
          (case package_affairs env current (affairs_queue q) (affairs (body blk)) p of
             None \<Rightarrow> None
           | Some (Inl e) \<Rightarrow> Some (Inl e)
           | Some (Inr (p, aq, afs)) \<Rightarrow>
               Some (Inr (pk_trie p,
                 blk\<lparr>header := (header blk)\<lparr>create_time := current, assets_blf_hash := bloom_get_hash (mpt_sha3 env) (pk_filter p)\<rparr>,
                     body := \<lparr>transactions = txs, affairs = afs\<rparr>\<rparr>,
                 \<lparr>transactions_queue = tq, affairs_queue = aq\<rparr>))))"

text \<open>The numbers of transactions and affairs that a block may have.\<close>

definition counts_ok :: "chain_ini \<Rightarrow> block_body \<Rightarrow> bool" where
  "counts_ok ini b =
     (let n = length (transactions b); k = length (filter is_db_level_affair_type (affairs b))
      in \<not> n < unat (transaction_minimum_number_in_block ini) \<and> \<not> unat (transaction_maximum_number_in_block ini) < n \<and>
         \<not> k < unat (affair_minimum_number_in_block ini) \<and> \<not> unat (affair_maximum_number_in_block ini) < k)"

definition try_package_next_block_body ::
  "mpt_env \<Rightarrow> (byte list \<Rightarrow> byte list) \<Rightarrow> u64 \<Rightarrow> chain_ini \<Rightarrow> bloom_filter \<Rightarrow> block \<Rightarrow> queues \<Rightarrow> merkle_patricia_trie \<Rightarrow>
   (merkle_patricia_trie \<times> block \<times> queues \<times> bool) mres option" where
  "try_package_next_block_body env md5 current ini flt blk q t =
     map_option (\<lambda>r. chain r (\<lambda>(t, blk, q).
       if counts_ok ini (body blk)
       then Inr (t, blk,
              \<lparr>transactions_queue = rev (map copy_transaction (transactions (body blk))) @ transactions_queue q,
               affairs_queue = rev (affairs (body blk)) @ affairs_queue q\<rparr>, True)
       else Inr (t, blk, q, False)))
     (package_next_block_body env md5 current ini flt blk q t)"

section \<open>Loops that do not end\<close>

lemma affair_pass_stays:
  assumes "affair_pass env current queue packed added p = Some y"
  shows "queue = [] \<or> package_affair env current (hd queue) p \<noteq> Inr (p, Stay)"
proof (rule affair_pass.raw_induct [where P = "\<lambda>env current queue packed added p y.
    queue = [] \<or> package_affair env current (hd queue) p \<noteq> Inr (p, Stay)", OF _ assms], goal_cases)
  case (1 rec env current queue packed added p y)
  have "False" if "queue = air # q" "package_affair env current air p = Inr (p, Stay)" for air q
    using 1(1) [of env current queue packed added p y] 1(2) that by simp
  then show ?case by (cases queue) auto
qed

lemma affair_pass_stuck:
  "package_affair env current air p = Inr (p, Stay) \<Longrightarrow> affair_pass env current (air # q) packed added p = None"
  using affair_pass_stays [of env current "air # q" packed added p] by fastforce

lemma package_pass_stays:
  assumes "package_pass env md5 current maximum before rest packed added p = Some y"
  shows "rest = [] \<or> maximum \<le> length packed \<or> package_tx env md5 current (hd rest) p \<noteq> Inr (p, Stay)"
proof (rule package_pass.raw_induct [where P = "\<lambda>env md5 current maximum before rest packed added p y.
    rest = [] \<or> maximum \<le> length packed \<or> package_tx env md5 current (hd rest) p \<noteq> Inr (p, Stay)", OF _ assms], goal_cases)
  case (1 rec env md5 current maximum before rest packed added p y)
  have "False" if "rest = tsc # q" "package_tx env md5 current tsc p = Inr (p, Stay)" "\<not> maximum \<le> length packed" for tsc q
    using 1(1) [of env md5 current maximum before rest packed added p y] 1(2) that by (simp add: Let_def)
  then show ?case by (cases rest) auto
qed

lemma package_pass_stuck:
  "package_tx env md5 current tsc p = Inr (p, Stay) \<Longrightarrow> length packed < maximum \<Longrightarrow>
    package_pass env md5 current maximum before (tsc # q) packed added p = None"
  using package_pass_stays [of env md5 current maximum before "tsc # q" packed added p] by fastforce

text \<open>
  C32 An affair that does not fit blocks the node. When no transaction waits, the first affair of the
  queue has not expired and its nonce is not the successor of the nonce of its owner (0 for an owner
  without an account), the iterator stays at the affair, and \<open>package_next_block_body\<close> never returns.
\<close>

theorem package_blocked_by_affair:
  assumes "mpt_inv env t" "wf256 (af_owner air)" "\<not> af_expires air < current"
    and "af_nonce air \<noteq> account_nonce (mpt_map t (af_owner air)) + 1"
    and "transactions_queue q = []" "affairs_queue q = air # rest"
  shows "package_next_block_body env md5 current ini flt blk q t = None"
proof -
  let ?p = "\<lparr>pk_trie = t, pk_receipts = [], pk_filter = flt\<rparr>"
  have "package_affair env current air ?p = Inr (?p, Stay)"
    using assms(3,4) mpt_search_ok [OF assms(1,2)]
    by (simp add: package_affair_def first_receipt_def check_receipt_def check_nonce_def add_nonce_def new_receipt_def Let_def)
  then have "affair_pass env current (air # rest) packed added ?p = None" for packed added by (rule affair_pass_stuck)
  then have "package_affairs env current (air # rest) packed ?p = None" for packed
    by (simp add: package_affairs.simps)
  then show ?thesis
    using assms(5,6) by (simp add: package_next_block_body_def package_transactions.simps package_pass.simps)
qed

theorem package_blocked_by_affair_witness:
  "\<exists>t. mpt_run sample_env [Insert (sample_key 1) sample_account] = Some t \<and>
     package_next_block_body sample_env (\<lambda>bs. replicate 16 0) 10
       \<lparr>transaction_maximum_number_in_block = 500, affair_maximum_number_in_block = 500,
        transaction_minimum_number_in_block = 1, affair_minimum_number_in_block = 1\<rparr> new_filter block_default
       \<lparr>transactions_queue = [], affairs_queue = [new_affair 9 (sample_key 1) MaliciousBlock 20 1 [65]]\<rparr> t = None"
proof -
  obtain t where t: "mpt_run sample_env [Insert (sample_key 1) sample_account] = Some t" "mpt_inv sample_env t"
    "mpt_map t = [sample_key 1 \<mapsto> sample_account]"
    using mpt_run_ok [of "[Insert (sample_key 1) sample_account]" sample_env] by auto
  show ?thesis
    by (rule exI [of _ t], rule conjI, rule t(1), rule package_blocked_by_affair [OF t(2)])
       (simp_all add: new_affair_def af_expires_def Epoch_Time_Uint_def t(3) account_nonce_def sample_account_def)
qed

end
