(* ===== verification/Connector_Account.thy ===== *)
theory Connector_Account
  imports Block_Check
begin

text \<open>
  The accounts of the chain (\<open>src/include/db/connector_account.cpp\<close>): a block is executed on the trie of the
  accounts, with a list of operations that undo it; blocks are taken back and written to the
  databases. An exception is an error value, and a handler is a function on the state at the
  exception. An operation of the trie that throws leaves it as it was; nodes that it had read from
  the database are read again. A write through the pointer to an account is a write at its key.
\<close>

section \<open>Errors and undo operations\<close>

datatype db_error_code = asset_already_exist | establish_transaction_no_output | account_no_exist |
  memory_not_enough | atomic_operation_failed | transaction_operator_error | invalid_account_address |
  invalid_patricia_merkle_tree_root_hash | leveldb_pointer_is_nullptr | root_hash_of_the_MPT_cannot_be_restored

text \<open>\<open>NoReturn\<close> stands for a call that does not end; no handler catches it.\<close>

datatype chain_error = ChainDb db_error_code | StdException mpt_error | NoReturn

datatype rollback_type = INSERT | DELETE_ACCOUNT | UPDATE | ONLY_REDUCE_NONCE

datatype rollback_update = NO_UPDATE | UPDATE_ADD | UPDATE_REDUCE | UPDATE_DELETE_ASSET

record rollback_operation =
  rop_type :: rollback_type
  rop_asset :: u32
  target_address :: uint256
  update_type :: rollback_update
  rop_value :: u64

section \<open>The state while a block is executed\<close>

record inserting =
  in_trie :: merkle_patricia_trie
  in_storage :: "rollback_operation list"
  in_filter :: bloom_filter
  in_commit :: "uint256 list"

type_synonym 'a ins_run = "(inserting, chain_error, 'a) run"

definition on_trie :: "(merkle_patricia_trie \<Rightarrow> (merkle_patricia_trie \<times> 'a) mres) \<Rightarrow> 'a ins_run" where
  "on_trie f s =
     (case f (in_trie s) of Inl e \<Rightarrow> (s, Inl (StdException e)) | Inr p \<Rightarrow> (s\<lparr>in_trie := fst p\<rparr>, Inr (snd p)))"

definition write_account :: "uint256 \<Rightarrow> (account \<Rightarrow> account) \<Rightarrow> unit ins_run" where
  "write_account key f s =
     (s\<lparr>in_trie := (in_trie s)\<lparr>root := map_option (update_at (subscripts key) f) (root (in_trie s))\<rparr>\<rparr>, Inr ())"

definition insert_account :: "mpt_env \<Rightarrow> uint256 \<Rightarrow> account \<Rightarrow> unit ins_run" where
  "insert_account env key a = on_trie (\<lambda>t. chain (mpt_insert env key a t) (\<lambda>t. Inr (t, ())))"

definition push_rollback :: "rollback_operation \<Rightarrow> unit ins_run" where
  "push_rollback rop s = (s\<lparr>in_storage := in_storage s @ [rop]\<rparr>, Inr ())"

definition pop_rollback :: "unit ins_run" where
  "pop_rollback s = (s\<lparr>in_storage := butlast (in_storage s)\<rparr>, Inr ())"

definition commit_account :: "uint256 \<Rightarrow> unit ins_run" where
  "commit_account key s = (s\<lparr>in_commit := List.insert key (in_commit s)\<rparr>, Inr ())"

text \<open>\<open>catch (...)\<close>: the handler runs on the state of the exception.\<close>

definition catch_all :: "'a ins_run \<Rightarrow> 'a ins_run \<Rightarrow> 'a ins_run" where
  "catch_all m handler s =
     (case m s of
        (s', Inl NoReturn) \<Rightarrow> (s', Inl NoReturn)
      | (s', Inl e) \<Rightarrow> handler s'
      | (s', Inr a) \<Rightarrow> (s', Inr a))"

section \<open>The list of undo operations\<close>

primrec rollback_outs :: "mpt_env \<Rightarrow> u32 \<Rightarrow> out_entry list \<Rightarrow> unit ins_run" where
  "rollback_outs env ty [] = ret ()"
| "rollback_outs env ty (out # rest) =
     andthen (on_trie (mpt_find env (receiver out))) (\<lambda>found.
       seq (push_rollback \<lparr>rop_type = (if found then UPDATE else DELETE_ACCOUNT), rop_asset = ty,
              target_address = receiver out, update_type = (if found then UPDATE_REDUCE else NO_UPDATE),
              rop_value = out_count out\<rparr>)
         (rollback_outs env ty rest))"

definition append_created_rollback :: "mpt_env \<Rightarrow> transaction \<Rightarrow> unit ins_run" where
  "append_created_rollback env tsc =
     (let h = mpt_host env; sender = get_sender tsc; ty = get_asset_type h tsc
      in case get_transaction_operator tsc of
           Append \<Rightarrow>
             seq (push_rollback \<lparr>rop_type = UPDATE, rop_asset = ty, target_address = sender,
                    update_type = UPDATE_ADD, rop_value = get_count h tsc\<rparr>)
               (rollback_outs env ty (outs tsc))
         | Establish \<Rightarrow>
             andthen (on_trie (mpt_find env sender)) (\<lambda>found.
               push_rollback \<lparr>rop_type = (if found then UPDATE else DELETE_ACCOUNT), rop_asset = ty,
                 target_address = sender, update_type = (if found then UPDATE_DELETE_ASSET else NO_UPDATE),
                 rop_value = get_count h tsc\<rparr>)
         | NullOP \<Rightarrow> ret ())"

definition append_affair_rollback :: "mpt_env \<Rightarrow> affair \<Rightarrow> unit ins_run" where
  "append_affair_rollback env afi =
     andthen (on_trie (mpt_search env (af_owner afi))) (\<lambda>act.
       push_rollback \<lparr>rop_type = (if act = None then DELETE_ACCOUNT else ONLY_REDUCE_NONCE), rop_asset = 0,
         target_address = af_owner afi, update_type = NO_UPDATE, rop_value = 0\<rparr>)"

section \<open>Transfers\<close>

text \<open>One output; the flag tells whether the account existed.\<close>

definition pay_out :: "mpt_env \<Rightarrow> u32 \<Rightarrow> out_entry \<Rightarrow> bool ins_run" where
  "pay_out env ty out =
     andthen (on_trie (search_and_mark env (receiver out))) (\<lambda>rcv.
       seq (commit_account (receiver out))
         (case rcv of
            None \<Rightarrow>
              seq (catch_all (insert_account env (receiver out) (add_balance ty (out_count out) (new_account (receiver out) 0)))
                     (seq (on_trie (mpt_erase env (receiver out))) (throw (ChainDb atomic_operation_failed))))
                (ret False)
          | Some a \<Rightarrow> seq (write_account (receiver out) (add_balance ty (out_count out))) (ret True)))"

text \<open>The loop over the outputs. On an exception the outputs that are done are left with it.\<close>

primrec pay_outs ::
  "mpt_env \<Rightarrow> u32 \<Rightarrow> out_entry list \<Rightarrow> (out_entry \<times> bool) list \<Rightarrow> inserting \<Rightarrow>
   inserting \<times> (out_entry \<times> bool) list \<times> (chain_error + unit)" where
  "pay_outs env ty [] fin s = (s, fin, Inr ())"
| "pay_outs env ty (out # rest) fin s =
     (case pay_out env ty out s of
        (s', Inl e) \<Rightarrow> (s', fin, Inl e)
      | (s', Inr ex) \<Rightarrow> pay_outs env ty rest (fin @ [(out, ex)]) s')"

text \<open>The handler takes the finished outputs back; a null pointer is followed when an account is gone.\<close>

primrec undo_outs :: "mpt_env \<Rightarrow> u32 \<Rightarrow> (out_entry \<times> bool) list \<Rightarrow> unit ins_run" where
  "undo_outs env ty [] = ret ()"
| "undo_outs env ty (p # ps) =
     (if snd p
      then andthen (on_trie (search_and_mark env (receiver (fst p)))) (\<lambda>rcv.
           case rcv of
             None \<Rightarrow> throw (StdException MptMemory)
           | Some a \<Rightarrow>
               (case reduce_balance ty (out_count (fst p)) a of
                  None \<Rightarrow> throw (StdException MptRuntimeError)
                | Some b \<Rightarrow> seq (write_account (receiver (fst p)) (\<lambda>_. b)) (undo_outs env ty ps)))
      else andthen (on_trie (mpt_erase env (receiver (fst p)))) (\<lambda>_. undo_outs env ty ps))"

definition exec_append :: "mpt_env \<Rightarrow> transaction \<Rightarrow> account option \<Rightarrow> unit ins_run" where
  "exec_append env tsc acc =
     (let h = mpt_host env; sender = get_sender tsc; ty = get_asset_type h tsc
      in case acc of
           None \<Rightarrow> throw (ChainDb account_no_exist)
         | Some a \<Rightarrow>
             let restore = write_account sender (\<lambda>x. set_balance ty (get_balance ty a) (set_nonce (nonce a) x))
             in seq (write_account sender (set_nonce (get_tx_nonce h tsc + 1)))
                  (case reduce_balance ty (get_count h tsc) a of
                     None \<Rightarrow> seq restore (throw (ChainDb atomic_operation_failed))
                   | Some b \<Rightarrow>
                       seq (write_account sender (\<lambda>_. set_nonce (get_tx_nonce h tsc + 1) b))
                         (seq (\<lambda>s. case pay_outs env ty (outs tsc) [] s of
                                     (s', fin, Inr _) \<Rightarrow> (s', Inr ())
                                   | (s', fin, Inl NoReturn) \<Rightarrow> (s', Inl NoReturn)
                                   | (s', fin, Inl e) \<Rightarrow>
                                       seq (undo_outs env ty fin) (seq restore (throw (ChainDb atomic_operation_failed))) s')
                           (commit_account sender))))"

section \<open>Assets, affairs\<close>

definition exec_establish :: "mpt_env \<Rightarrow> (byte list \<Rightarrow> byte list) \<Rightarrow> transaction \<Rightarrow> account option \<Rightarrow> unit ins_run" where
  "exec_establish env md5 tsc acc s =
     (let h = mpt_host env; sender = get_sender tsc; ty = get_asset_type h tsc
      in if \<not> bloom_test md5 h (in_filter s) ty
         then seq (case acc of
                     None \<Rightarrow>
                       catch_all (insert_account env sender (add_balance ty ASSET_MAX_COUNT (new_account sender 1)))
                         (seq (on_trie (mpt_erase env sender)) (seq pop_rollback (throw (ChainDb atomic_operation_failed))))
                   | Some a \<Rightarrow> write_account sender (add_balance ty ASSET_MAX_COUNT))
                (commit_account sender) (s\<lparr>in_filter := fst (bloom_insert md5 h ty (in_filter s))\<rparr>)
         else seq pop_rollback (throw (ChainDb asset_already_exist)) s)"

definition exec_tx :: "mpt_env \<Rightarrow> (byte list \<Rightarrow> byte list) \<Rightarrow> transaction \<Rightarrow> unit ins_run" where
  "exec_tx env md5 tsc =
     seq (append_created_rollback env tsc)
       (andthen (on_trie (search_and_mark env (get_sender tsc))) (\<lambda>acc.
          case get_transaction_operator tsc of
            Append \<Rightarrow> exec_append env tsc acc
          | Establish \<Rightarrow> exec_establish env md5 tsc acc
          | NullOP \<Rightarrow> ret ()))"

primrec exec_txs :: "mpt_env \<Rightarrow> (byte list \<Rightarrow> byte list) \<Rightarrow> transaction list \<Rightarrow> unit ins_run" where
  "exec_txs env md5 [] = ret ()"
| "exec_txs env md5 (tsc # ts) = seq (exec_tx env md5 tsc) (exec_txs env md5 ts)"

definition exec_affair :: "mpt_env \<Rightarrow> affair \<Rightarrow> unit ins_run" where
  "exec_affair env air =
     seq (append_affair_rollback env air)
       (andthen (on_trie (search_and_mark env (af_owner air))) (\<lambda>acc.
          seq (case acc of
                 None \<Rightarrow>
                   catch_all (insert_account env (af_owner air) (new_account (af_owner air) 1))
                     (seq (on_trie (mpt_erase env (af_owner air))) (throw (ChainDb asset_already_exist)))
               | Some a \<Rightarrow> write_account (af_owner air) (set_nonce (nonce a + 1)))
            (commit_account (af_owner air))))"

primrec exec_affairs :: "mpt_env \<Rightarrow> affair list \<Rightarrow> unit ins_run" where
  "exec_affairs env [] = ret ()"
| "exec_affairs env (air # as) =
     (if is_db_level_affair_type air then seq (exec_affair env air) (exec_affairs env as) else exec_affairs env as)"

section \<open>Taking a block back\<close>

text \<open>The undo operations are executed in the order in which they were made.\<close>

definition rollback_step :: "mpt_env \<Rightarrow> rollback_operation \<Rightarrow> unit ins_run" where
  "rollback_step env otp =
     (let key = target_address otp
      in case rop_type otp of
           INSERT \<Rightarrow> ret ()
         | DELETE_ACCOUNT \<Rightarrow> andthen (on_trie (mpt_erase env key)) (\<lambda>_. ret ())
         | UPDATE \<Rightarrow>
             andthen (on_trie (search_and_mark env key)) (\<lambda>act.
               case act of
                 None \<Rightarrow> ret ()
               | Some a \<Rightarrow>
                   (case update_type otp of
                      UPDATE_ADD \<Rightarrow> write_account key (\<lambda>_. set_nonce (nonce a - 1) (add_balance (rop_asset otp) (rop_value otp) a))
                    | UPDATE_DELETE_ASSET \<Rightarrow> write_account key (\<lambda>_. set_nonce (nonce a - 1) (delete_asset (rop_asset otp) a))
                    | UPDATE_REDUCE \<Rightarrow>
                        (case reduce_balance (rop_asset otp) (rop_value otp) a of
                           None \<Rightarrow> throw (StdException MptRuntimeError)
                         | Some b \<Rightarrow> write_account key (\<lambda>_. b))
                    | NO_UPDATE \<Rightarrow> ret ()))
         | ONLY_REDUCE_NONCE \<Rightarrow>
             andthen (on_trie (search_and_mark env key)) (\<lambda>act.
               case act of None \<Rightarrow> ret () | Some a \<Rightarrow> write_account key (set_nonce (nonce a - 1))))"

primrec execute_rollback :: "mpt_env \<Rightarrow> rollback_operation list \<Rightarrow> unit ins_run" where
  "execute_rollback env [] = ret ()"
| "execute_rollback env (otp # rtp) = seq (rollback_step env otp) (execute_rollback env rtp)"

section \<open>The connector\<close>

record leveldb_account_commit =
  lac_block_hash :: uint256
  lac_height :: u64
  prev_mpt_root :: uint256
  lac_commits :: "(uint256 \<times> byte list) list"

record connector_account =
  account_mpt :: merkle_patricia_trie
  asset_bloom_filter :: bloom_filter
  mpt_root_hash :: uint256
  block_height :: u64
  top_block_hash :: uint256
  account_bloom_filters :: "bloom_filter list"
  commits :: "leveldb_account_commit list"
  rollbacks :: "rollback_operation list list"
  extensions :: "change_store list"

definition hash_of_trie :: "mpt_env \<Rightarrow> uint256 ins_run" where
  "hash_of_trie env s = (case mpt_get_hash env (in_trie s) of None \<Rightarrow> (s, Inl NoReturn) | Some r \<Rightarrow> on_trie (\<lambda>_. r) s)"

definition verify_root :: "mpt_env \<Rightarrow> uint256 \<Rightarrow> bool \<Rightarrow> unit ins_run" where
  "verify_root env expected check =
     (if check
      then andthen (hash_of_trie env) (\<lambda>x.
             if \<not> uint256_eq x expected then throw (ChainDb invalid_patricia_merkle_tree_root_hash) else ret ())
      else ret ())"

text \<open>The accounts that changed, in their serialized form.\<close>

definition serialize_account :: "mpt_env \<Rightarrow> account \<Rightarrow> byte list mres" where
  "serialize_account env a =
     (case input_val (account_val a) (new_serializer (mpt_host env)) of
        (s, Inl e) \<Rightarrow> Inl (MptSerializer e)
      | (s, Inr _) \<Rightarrow> Inr (byteStream s))"

primrec make_commits :: "mpt_env \<Rightarrow> uint256 list \<Rightarrow> (uint256 \<times> byte list) list ins_run" where
  "make_commits env [] = ret []"
| "make_commits env (key # keys) =
     andthen (on_trie (mpt_search env key)) (\<lambda>act.
       case act of
         None \<Rightarrow> throw (ChainDb invalid_account_address)
       | Some a \<Rightarrow>
           andthen (on_trie (\<lambda>t. chain (serialize_account env a) (\<lambda>bs. Inr (t, bs)))) (\<lambda>bs.
           andthen (make_commits env keys) (\<lambda>rest. ret ((key, bs) # rest))))"

definition exec_block :: "mpt_env \<Rightarrow> (byte list \<Rightarrow> byte list) \<Rightarrow> block \<Rightarrow> bool \<Rightarrow> (uint256 \<times> byte list) list ins_run" where
  "exec_block env md5 blk check =
     seq (exec_txs env md5 (transactions (body blk)))
       (seq (exec_affairs env (affairs (body blk)))
         (seq (verify_root env (merkle_patricia_trie_root (header blk)) check)
           (\<lambda>s. make_commits env (in_commit s) s)))"

definition refresh_root :: "mpt_env \<Rightarrow> connector_account \<Rightarrow> connector_account \<times> (chain_error + unit)" where
  "refresh_root env c =
     (case mpt_get_hash env (account_mpt c) of
        None \<Rightarrow> (c, Inl NoReturn)
      | Some (Inl e) \<Rightarrow> (c, Inl (StdException e))
      | Some (Inr (t, x)) \<Rightarrow> (c\<lparr>account_mpt := t, mpt_root_hash := x\<rparr>, Inr ()))"

definition insert_block ::
  "mpt_env \<Rightarrow> (byte list \<Rightarrow> byte list) \<Rightarrow> block \<Rightarrow> bool \<Rightarrow> connector_account \<Rightarrow> connector_account \<times> (chain_error + bool)" where
  "insert_block env md5 blk check c =
     (case check_block_body env md5 (body blk) (asset_bloom_filter c) (account_mpt c) of
        Inl e \<Rightarrow> (c, Inl (StdException e))
      | Inr (t, ok) \<Rightarrow>
          let c = c\<lparr>account_mpt := t\<rparr>
          in if \<not> ok then (c, Inr False)
             else if height (header blk) \<noteq> block_height c + 1 \<or> \<not> uint256_eq (prev_block_hash (header blk)) (top_block_hash c)
             then (c, Inr False)
             else case exec_block env md5 blk check
                         \<lparr>in_trie = t, in_storage = [],
                          in_filter = set_block_height (height (header blk)) (asset_bloom_filter c), in_commit = []\<rparr> of
                    (s, Inl NoReturn) \<Rightarrow> (c\<lparr>account_mpt := in_trie s\<rparr>, Inl NoReturn)
                  | (s, Inl e) \<Rightarrow>
                      let (s', r) = execute_rollback env (in_storage s) s; c = c\<lparr>account_mpt := in_trie s'\<rparr>
                      in (case r of
                            Inl e' \<Rightarrow> (c, Inl e')
                          | Inr _ \<Rightarrow> (c, case e of ChainDb code \<Rightarrow> Inl (ChainDb code) | _ \<Rightarrow> Inr False))
                  | (s, Inr lac) \<Rightarrow>
                      let c1 = c\<lparr>account_mpt := in_trie s,
                                 commits := commits c @ [\<lparr>lac_block_hash = top_block_hash c, lac_height = block_height c,
                                                          prev_mpt_root = mpt_root_hash c, lac_commits = lac\<rparr>],
                                 rollbacks := rollbacks c @ [in_storage s]\<rparr>
                      in case refresh_root env c1 of
                           (c2, Inl e) \<Rightarrow> (c2, Inl e)
                         | (c2, Inr _) \<Rightarrow>
                             let top = get_block_hash (mpt_host env) (mpt_sha3 env) (header blk);
                                 flt = set_block_hash top (in_filter s)
                             in (c2\<lparr>block_height := height (header blk), top_block_hash := top, asset_bloom_filter := flt,
                                    account_bloom_filters := account_bloom_filters c2 @ [flt]\<rparr>, Inr True))"

section \<open>Rollback\<close>

text \<open>The loop takes the last list of operations; with none left it reads the end of an empty list.\<close>

primrec rollback_loop :: "mpt_env \<Rightarrow> nat \<Rightarrow> connector_account \<Rightarrow> connector_account \<times> (chain_error + unit)" where
  "rollback_loop env 0 c = (c, Inr ())"
| "rollback_loop env (Suc i) c =
     (if rollbacks c = [] then (c, Inl (StdException MptMemory))
      else let (s, r) = execute_rollback env (last (rollbacks c))
                 \<lparr>in_trie = account_mpt c, in_storage = [], in_filter = asset_bloom_filter c, in_commit = []\<rparr>;
               c = c\<lparr>account_mpt := in_trie s\<rparr>
           in (case r of
                 Inl e \<Rightarrow> (c, Inl e)
               | Inr _ \<Rightarrow> rollback_loop env i (c\<lparr>rollbacks := butlast (rollbacks c)\<rparr>)))"

definition rollback :: "mpt_env \<Rightarrow> u32 \<Rightarrow> connector_account \<Rightarrow> connector_account \<times> (chain_error + bool)" where
  "rollback env step c =
     (if length (rollbacks c) \<le> unat step
      then case rollback_loop env (unat step) c of
             (c1, Inl e) \<Rightarrow> (c1, Inl e)
           | (c1, Inr _) \<Rightarrow>
               (case refresh_root env c1 of
                  (c2, Inl e) \<Rightarrow> (c2, Inl e)
                | (c2, Inr _) \<Rightarrow> (c2\<lparr>account_mpt := (account_mpt c2)\<lparr>extension_nodes := Map.empty\<rparr>\<rparr>, Inr True))
      else (c, Inr False))"

definition total_rollback :: "mpt_env \<Rightarrow> connector_account \<Rightarrow> connector_account \<times> (chain_error + bool)" where
  "total_rollback env c =
     (case rollback env 1 c of
        (c1, Inl e) \<Rightarrow> (c1, Inl e)
      | (c1, Inr False) \<Rightarrow> (c1, Inr False)
      | (c1, Inr True) \<Rightarrow>
          (case refresh_root env c1 of
             (c2, Inl e) \<Rightarrow> (c2, Inl e)
           | (c2, Inr _) \<Rightarrow>
               if commits c2 = [] then (c2, Inl (StdException MptMemory))
               else let commit = hd (commits c2)
                    in if \<not> uint256_eq (mpt_root_hash c2) (prev_mpt_root commit)
                       then (c2, Inl (ChainDb root_hash_of_the_MPT_cannot_be_restored))
                       else let c3 = c2\<lparr>block_height := block_height c2 - 1, top_block_hash := lac_block_hash commit,
                                        commits := butlast (commits c2)\<rparr>
                            in if extensions c3 = [] \<or> account_bloom_filters c3 = [] then (c3, Inl (StdException MptMemory))
                               else (c3\<lparr>extensions := butlast (extensions c3),
                                        asset_bloom_filter := last (account_bloom_filters c3),
                                        account_bloom_filters := butlast (account_bloom_filters c3)\<rparr>, Inr True)))"

section \<open>Packaging the root of the accounts\<close>

definition package_next_block_MPTR ::
  "mpt_env \<Rightarrow> (byte list \<Rightarrow> byte list) \<Rightarrow> block \<Rightarrow> connector_account \<Rightarrow> connector_account \<times> block \<times> (chain_error + bool)" where
  "package_next_block_MPTR env md5 blk c =
     (if uint256_eq (prev_block_hash (header blk)) (top_block_hash c)
      then case insert_block env md5 blk False c of
             (c1, Inl NoReturn) \<Rightarrow> (c1, blk, Inl NoReturn)
           | (c1, Inl e) \<Rightarrow> (c1, blk, Inr False)
           | (c1, Inr False) \<Rightarrow> (c1, blk, Inr False)
           | (c1, Inr True) \<Rightarrow>
               (case mpt_get_hash env (account_mpt c1) of
                  None \<Rightarrow> (c1, blk, Inl NoReturn)
                | Some (Inl e) \<Rightarrow> (c1, blk, Inr False)
                | Some (Inr (t, x)) \<Rightarrow>
                    (c1\<lparr>account_mpt := t\<lparr>extension_nodes := Map.empty\<rparr>, extensions := extensions c1 @ [extension_nodes t]\<rparr>,
                     blk\<lparr>header := (header blk)\<lparr>merkle_patricia_trie_root := x\<rparr>\<rparr>, Inr True))
      else (c, blk, Inr False))"

section \<open>Writing to the databases\<close>

text \<open>
  A write batch is applied as a whole when LevelDB accepts it (\<open>ok\<close>). The keys of a batch are
  different, so the order of its entries does not matter.
\<close>

type_synonym leveldb = "byte list \<Rightarrow> byte list option"

definition storage_bytes :: "mpt_env \<Rightarrow> mpt_node_storage \<Rightarrow> byte list" where
  "storage_bytes env st = byteStream (fst (input_val (storage_val st) (new_serializer (mpt_host env))))"

definition extension_batch :: "mpt_env \<Rightarrow> change_store \<Rightarrow> leveldb \<Rightarrow> leveldb" where
  "extension_batch env ext db key =
     (case ext key of
        None \<Rightarrow> db key
      | Some st \<Rightarrow>
          if operator_type st = UPDATE_OP_MUSE \<or> operator_type st = INSERT_OP_MUSE then Some (storage_bytes env st)
          else if operator_type st = DELETE_OP_MUSE then None else db key)"

definition account_batch :: "(uint256 \<times> byte list) list \<Rightarrow> leveldb \<Rightarrow> leveldb" where
  "account_batch cs db key = (case map_of cs key of None \<Rightarrow> db key | Some bs \<Rightarrow> Some bs)"

text \<open>The three databases, absent when the pointer is null, and the results of the coming writes.\<close>

record disk =
  extensions_disk :: "leveldb option"
  accounts_disk :: "leveldb option"
  assets_disk :: "leveldb option"
  statuses :: "bool list"

definition next_status :: "disk \<Rightarrow> bool \<times> disk" where
  "next_status d = (case statuses d of [] \<Rightarrow> (True, d) | ok # oks \<Rightarrow> (ok, d\<lparr>statuses := oks\<rparr>))"

definition commit_extensions_node_to_leveldb ::
  "mpt_env \<Rightarrow> change_store \<Rightarrow> connector_account \<times> disk \<Rightarrow> (connector_account \<times> disk) \<times> (chain_error + bool)" where
  "commit_extensions_node_to_leveldb env ext st =
     (let c = fst st; d = snd st
      in case mpt_get_hash env (account_mpt c) of
           None \<Rightarrow> (st, Inl NoReturn)
         | Some (Inl e) \<Rightarrow> (st, Inl (StdException e))
         | Some (Inr (t, _)) \<Rightarrow>
             let c = c\<lparr>account_mpt := t\<rparr>
             in case extensions_disk d of
                  None \<Rightarrow> ((c, d), Inr False)
                | Some db \<Rightarrow>
                    let (ok, d) = next_status d
                    in ((c, if ok then d\<lparr>extensions_disk := Some (extension_batch env ext db)\<rparr> else d), Inr ok))"

definition commit_account_to_leveldb :: "leveldb_account_commit \<Rightarrow> disk \<Rightarrow> disk \<times> bool" where
  "commit_account_to_leveldb lac d =
     (case accounts_disk d of
        None \<Rightarrow> (d, False)
      | Some db \<Rightarrow>
          let (ok, d) = next_status d
          in (if ok then d\<lparr>accounts_disk := Some (account_batch (lac_commits lac) db)\<rparr> else d, ok))"

text \<open>\<open>std::to_string\<close>, and the key \<open>hash___height\<close> of a filter.\<close>

fun decimal :: "nat \<Rightarrow> byte list" where
  "decimal n = (if n < 10 then [word_of_nat (48 + n)] else decimal (n div 10) @ [word_of_nat (48 + n mod 10)])"

definition filter_key :: "uint256 \<Rightarrow> u64 \<Rightarrow> byte list" where
  "filter_key x n = get_hex x @ [95, 95, 95] @ decimal (unat n)"

definition commit_asset_bloom_filter_to_leveldb :: "mpt_env \<Rightarrow> bloom_filter \<Rightarrow> disk \<Rightarrow> disk \<times> bool" where
  "commit_asset_bloom_filter_to_leveldb env blf d =
     (case assets_disk d of
        None \<Rightarrow> (d, False)
      | Some db \<Rightarrow>
          let st = to_store blf;
              bs = byteStream (fst (input_val (store_val st) (new_serializer (mpt_host env))));
              (ok, d) = next_status d
          in (if ok then d\<lparr>assets_disk := Some (db(filter_key (store_hash st) (filter_height blf) \<mapsto> bs))\<rparr> else d, ok))"

primrec commit_extensions_loop ::
  "mpt_env \<Rightarrow> change_store list \<Rightarrow> connector_account \<times> disk \<Rightarrow> (connector_account \<times> disk) \<times> (chain_error + bool)" where
  "commit_extensions_loop env [] st = (st, Inr True)"
| "commit_extensions_loop env (ext # exts) st =
     (case commit_extensions_node_to_leveldb env ext ((fst st)\<lparr>extensions := exts\<rparr>, snd st) of
        (st, Inl e) \<Rightarrow> (st, Inl e)
      | (st, Inr False) \<Rightarrow> (st, Inr False)
      | (st, Inr True) \<Rightarrow> commit_extensions_loop env exts st)"

primrec commit_accounts_loop :: "leveldb_account_commit list \<Rightarrow> connector_account \<times> disk \<Rightarrow> (connector_account \<times> disk) \<times> bool" where
  "commit_accounts_loop [] st = (st, True)"
| "commit_accounts_loop (lac # lacs) st =
     (let (d, ok) = commit_account_to_leveldb lac (snd st); st = ((fst st)\<lparr>commits := lacs\<rparr>, d)
      in if ok then commit_accounts_loop lacs st else (st, False))"

definition total_commit_to_leveldb ::
  "mpt_env \<Rightarrow> connector_account \<times> disk \<Rightarrow> (connector_account \<times> disk) \<times> (chain_error + bool)" where
  "total_commit_to_leveldb env st =
     (if extensions_disk (snd st) = None then (st, Inr False)
      else case commit_extensions_loop env (extensions (fst st)) st of
             (st, Inl e) \<Rightarrow> (st, Inl e)
           | (st, Inr False) \<Rightarrow> (st, Inr False)
           | (st, Inr True) \<Rightarrow>
               let (st, ok) = commit_accounts_loop (commits (fst st)) st
               in if \<not> ok then (st, Inr False)
                  else case account_bloom_filters (fst st) of
                         [] \<Rightarrow> (((fst st)\<lparr>rollbacks := []\<rparr>, snd st), Inr True)
                       | blf # blfs \<Rightarrow>
                           let (d, ok) = commit_asset_bloom_filter_to_leveldb env blf (snd st);
                               c = (fst st)\<lparr>account_bloom_filters := blfs\<rparr>
                           in if ok then ((c\<lparr>rollbacks := []\<rparr>, d), Inr True) else ((c, d), Inr False))"

section \<open>Construction, moves and queries\<close>

definition connector_memory :: "mpt_env \<Rightarrow> connector_account mres option" where
  "connector_memory env =
     map_option (\<lambda>r. chain r (\<lambda>t. Inr \<lparr>account_mpt = t, asset_bloom_filter = new_filter, mpt_root_hash = base_binary_default,
       block_height = 0, top_block_hash = base_binary_default, account_bloom_filters = [], commits = [],
       rollbacks = [], extensions = []\<rparr>)) (mpt_memory env)"

definition connector_exists :: "mpt_env \<Rightarrow> uint256 \<Rightarrow> connector_account \<Rightarrow> (connector_account \<times> bool) mres" where
  "connector_exists env key c = chain (mpt_find env key (account_mpt c)) (\<lambda>(t, b). Inr (c\<lparr>account_mpt := t\<rparr>, b))"

definition find_account :: "mpt_env \<Rightarrow> uint256 \<Rightarrow> connector_account \<Rightarrow> (connector_account \<times> account option) mres" where
  "find_account env key c = chain (mpt_search env key (account_mpt c)) (\<lambda>(t, a). Inr (c\<lparr>account_mpt := t\<rparr>, a))"

text \<open>Assignment from a moved connector leaves out the undo lists and the changed nodes.\<close>

definition connector_move_assign :: "connector_account \<Rightarrow> connector_account \<Rightarrow> connector_account" where
  "connector_move_assign other c =
     c\<lparr>account_mpt := fst (mpt_move_assign (account_mpt other) (account_mpt c)),
       asset_bloom_filter := asset_bloom_filter other, mpt_root_hash := mpt_root_hash other,
       block_height := block_height other, top_block_hash := top_block_hash other,
       account_bloom_filters := account_bloom_filters other, commits := commits other\<rparr>"

end
