(* ===== verification/Ledger.thy ===== *)
theory Ledger
  imports Connector_Account
begin

text \<open>
  What the execution of transactions does to the accounts, seen as a map from addresses to
  accounts, and that the execution on the trie refines it. A transfer is atomic: it is done
  completely or the accounts are left as they were. Transfers with exact outputs neither make nor
  destroy assets.
\<close>

section \<open>The ledger\<close>

type_synonym state = "uint256 \<rightharpoonup> account"

definition ledger_pay :: "u32 \<Rightarrow> out_entry \<Rightarrow> state \<Rightarrow> state" where
  "ledger_pay ty out m =
     m(receiver out \<mapsto> add_balance ty (out_count out)
        (case m (receiver out) of None \<Rightarrow> new_account (receiver out) 0 | Some a \<Rightarrow> a))"

definition ledger_append :: "ByteSequence \<Rightarrow> transaction \<Rightarrow> state \<Rightarrow> state option" where
  "ledger_append h tsc m =
     Option.bind (m (get_sender tsc)) (\<lambda>a.
     map_option (\<lambda>b. fold (ledger_pay (get_asset_type h tsc)) (outs tsc)
       (m(get_sender tsc \<mapsto> set_nonce (get_tx_nonce h tsc + 1) b)))
     (reduce_balance (get_asset_type h tsc) (get_count h tsc) a))"

definition ledger_establish ::
  "ByteSequence \<Rightarrow> (byte list \<Rightarrow> byte list) \<Rightarrow> transaction \<Rightarrow> state \<times> bloom_filter \<Rightarrow> (state \<times> bloom_filter) option" where
  "ledger_establish h md5 tsc st =
     (let sender = get_sender tsc; ty = get_asset_type h tsc
      in if bloom_test md5 h (snd st) ty then None
         else Some ((fst st)(sender \<mapsto> add_balance ty ASSET_MAX_COUNT
                      (case fst st sender of None \<Rightarrow> new_account sender 1 | Some a \<Rightarrow> a)),
                    fst (bloom_insert md5 h ty (snd st))))"

definition ledger_tx ::
  "ByteSequence \<Rightarrow> (byte list \<Rightarrow> byte list) \<Rightarrow> transaction \<Rightarrow> state \<times> bloom_filter \<Rightarrow> (state \<times> bloom_filter) option" where
  "ledger_tx h md5 tsc st =
     (case get_transaction_operator tsc of
        Append \<Rightarrow> map_option (\<lambda>m. (m, snd st)) (ledger_append h tsc (fst st))
      | Establish \<Rightarrow> ledger_establish h md5 tsc st
      | NullOP \<Rightarrow> Some st)"

definition ledger_affair :: "affair \<Rightarrow> state \<Rightarrow> state" where
  "ledger_affair air m =
     m(af_owner air \<mapsto> (case m (af_owner air) of None \<Rightarrow> new_account (af_owner air) 1 | Some a \<Rightarrow> set_nonce (nonce a + 1) a))"

primrec ledger_txs ::
  "ByteSequence \<Rightarrow> (byte list \<Rightarrow> byte list) \<Rightarrow> transaction list \<Rightarrow> state \<times> bloom_filter \<Rightarrow> (state \<times> bloom_filter) option" where
  "ledger_txs h md5 [] st = Some st"
| "ledger_txs h md5 (tsc # ts) st = Option.bind (ledger_tx h md5 tsc st) (ledger_txs h md5 ts)"

definition ledger_block ::
  "ByteSequence \<Rightarrow> (byte list \<Rightarrow> byte list) \<Rightarrow> block_body \<Rightarrow> state \<times> bloom_filter \<Rightarrow> (state \<times> bloom_filter) option" where
  "ledger_block h md5 b st =
     map_option (\<lambda>p. (fold ledger_affair (filter is_db_level_affair_type (affairs b)) (fst p), snd p))
       (ledger_txs h md5 (transactions b) st)"

text \<open>No account is ever removed.\<close>

lemma dom_ledger_pays: "dom m \<subseteq> dom (fold (ledger_pay ty) os m)"
proof (induction os arbitrary: m)
  case (Cons out os)
  have "dom m \<subseteq> dom (ledger_pay ty out m)" by (auto simp: ledger_pay_def)
  then show ?case using Cons.IH [of "ledger_pay ty out m"] by auto
qed simp

lemma dom_ledger_tx: "ledger_tx h md5 tsc st = Some st' \<Longrightarrow> dom (fst st) \<subseteq> dom (fst st')"
proof (cases "get_transaction_operator tsc")
  case Append
  assume "ledger_tx h md5 tsc st = Some st'"
  then obtain b where "fst st' = fold (ledger_pay (get_asset_type h tsc)) (outs tsc) ((fst st)(get_sender tsc \<mapsto> b))"
    using Append by (auto simp: ledger_tx_def ledger_append_def Option.bind_eq_Some_conv)
  then show ?thesis using dom_ledger_pays [of "(fst st)(get_sender tsc \<mapsto> b)"] by auto
qed (auto simp: ledger_tx_def ledger_establish_def Let_def split: if_splits)

lemma dom_ledger_txs: "ledger_txs h md5 ts st = Some st' \<Longrightarrow> dom (fst st) \<subseteq> dom (fst st')"
  by (induction ts arbitrary: st) (use dom_ledger_tx in \<open>fastforce simp: Option.bind_eq_Some_conv\<close>)+

section \<open>Operations of the trie inside the execution\<close>

text \<open>The state of the execution stands for a map.\<close>

definition stands :: "mpt_env \<Rightarrow> inserting \<Rightarrow> state \<Rightarrow> bool" where
  "stands env s m \<longleftrightarrow> mpt_inv env (in_trie s) \<and> mpt_map (in_trie s) = m"

definition stands_at :: "mpt_env \<Rightarrow> uint256 \<Rightarrow> inserting \<Rightarrow> state \<Rightarrow> bool" where
  "stands_at env key s m \<longleftrightarrow> marked_at env key (in_trie s) \<and> mpt_map (in_trie s) = m"

lemma stands_weaken: "stands_at env key s m \<Longrightarrow> stands env s m"
  by (auto simp: stands_def stands_at_def dest: marked_inv)

lemma on_trie_Inr: "f (in_trie s) = Inr (t, a) \<Longrightarrow> on_trie f s = (s\<lparr>in_trie := t\<rparr>, Inr a)"
  by (simp add: on_trie_def)

lemma find_run: "stands env s m \<Longrightarrow> wf256 key \<Longrightarrow> on_trie (mpt_find env key) s = (s, Inr (m key \<noteq> None))"
  using mpt_find_ok [of env "in_trie s" key] on_trie_Inr [of "mpt_find env key" s] by (simp add: stands_def)

lemma search_run: "stands env s m \<Longrightarrow> wf256 key \<Longrightarrow> on_trie (mpt_search env key) s = (s, Inr (m key))"
  using mpt_search_ok [of env "in_trie s" key] on_trie_Inr [of "mpt_search env key" s] by (simp add: stands_def)

lemma mark_run:
  assumes "stands env s m" "wf256 key"
  obtains t where "on_trie (search_and_mark env key) s = (s\<lparr>in_trie := t\<rparr>, Inr (m key))" "stands_at env key (s\<lparr>in_trie := t\<rparr>) m"
  using assms mpt_mark_ok [of env "in_trie s" key] on_trie_Inr [of "search_and_mark env key" s]
  by (auto simp: stands_def stands_at_def)

lemma write_run:
  assumes "stands_at env key s m" "wf256 key"
  obtains t where "write_account key f s = (s\<lparr>in_trie := t\<rparr>, Inr ())"
    "stands_at env key (s\<lparr>in_trie := t\<rparr>) (m(key := map_option f (m key)))"
  using assms mpt_write_ok [of env key "in_trie s" f] by (auto simp: stands_at_def write_account_def)

lemma insert_run:
  assumes "stands env s m" "wf256 key" "m key = None"
  obtains t where "insert_account env key a s = (s\<lparr>in_trie := t\<rparr>, Inr ())" "stands env (s\<lparr>in_trie := t\<rparr>) (m(key \<mapsto> a))"
  using assms mpt_insert_ok [of env "in_trie s" key a] by (auto simp: stands_def insert_account_def on_trie_def)

lemma catch_all_Inr: "m s = (s', Inr a) \<Longrightarrow> catch_all m handler s = (s', Inr a)"
  by (simp add: catch_all_def)

section \<open>Transfers\<close>

lemma pay_out_ok:
  assumes "stands env s m" "wf256 (receiver out)"
  shows "\<exists>s'. pay_out env ty out s = (s', Inr (m (receiver out) \<noteq> None)) \<and> stands env s' (ledger_pay ty out m) \<and>
    in_storage s' = in_storage s \<and> in_filter s' = in_filter s \<and> set (in_commit s') = insert (receiver out) (set (in_commit s))"
proof -
  obtain t where t: "on_trie (search_and_mark env (receiver out)) s = (s\<lparr>in_trie := t\<rparr>, Inr (m (receiver out)))"
    "stands_at env (receiver out) (s\<lparr>in_trie := t\<rparr>) m" using mark_run [OF assms] .
  let ?s = "s\<lparr>in_trie := t, in_commit := List.insert (receiver out) (in_commit s)\<rparr>"
  have s1: "stands_at env (receiver out) ?s m" using t(2) by (simp add: stands_at_def)
  have s2: "stands env ?s m" using stands_weaken [OF s1] .
  show ?thesis
  proof (cases "m (receiver out)")
    case None
    let ?a = "add_balance ty (out_count out) (new_account (receiver out) 0)"
    obtain t' where "insert_account env (receiver out) ?a ?s = (?s\<lparr>in_trie := t'\<rparr>, Inr ())"
      "stands env (?s\<lparr>in_trie := t'\<rparr>) (m(receiver out \<mapsto> ?a))" using insert_run [OF s2 assms(2) None] .
    then show ?thesis
      using t(1) None by (simp add: pay_out_def ledger_pay_def andthen_def seq_def ret_def catch_all_def commit_account_def)
  next
    case (Some a)
    obtain t' where "write_account (receiver out) (add_balance ty (out_count out)) ?s = (?s\<lparr>in_trie := t'\<rparr>, Inr ())"
      "stands_at env (receiver out) (?s\<lparr>in_trie := t'\<rparr>) (m(receiver out := map_option (add_balance ty (out_count out)) (m (receiver out))))"
      using write_run [OF s1 assms(2)] .
    then show ?thesis
      using t(1) Some stands_weaken by (fastforce simp: pay_out_def ledger_pay_def andthen_def seq_def ret_def commit_account_def)
  qed
qed

lemma pay_outs_ok:
  assumes "stands env s m" "\<forall>out \<in> set os. wf256 (receiver out)"
  shows "\<exists>s' fin'. pay_outs env ty os fin s = (s', fin', Inr ()) \<and> stands env s' (fold (ledger_pay ty) os m) \<and>
    in_storage s' = in_storage s \<and> in_filter s' = in_filter s \<and>
    set (in_commit s') = set (in_commit s) \<union> receiver ` set os"
  using assms
proof (induction os arbitrary: s m fin)
  case (Cons out os)
  obtain s1 where s1: "pay_out env ty out s = (s1, Inr (m (receiver out) \<noteq> None))" "stands env s1 (ledger_pay ty out m)"
    "in_storage s1 = in_storage s" "in_filter s1 = in_filter s" "set (in_commit s1) = insert (receiver out) (set (in_commit s))"
    using pay_out_ok [OF Cons.prems(1), of out ty] Cons.prems(2) by auto
  obtain s' fin' where s': "pay_outs env ty os (fin @ [(out, m (receiver out) \<noteq> None)]) s1 = (s', fin', Inr ())"
    "stands env s' (fold (ledger_pay ty) os (ledger_pay ty out m))" "in_storage s' = in_storage s1" "in_filter s' = in_filter s1"
    "set (in_commit s') = set (in_commit s1) \<union> receiver ` set os"
    using Cons.IH [OF s1(2), of "fin @ [(out, m (receiver out) \<noteq> None)]"] Cons.prems(2) by auto
  have "pay_outs env ty (out # os) fin s = (s', fin', Inr ())" using s1(1) s'(1) by simp
  then show ?case using s'(2-5) s1(3-5) by (intro exI [of _ s'] exI [of _ fin']) auto
qed simp

lemma set_balance_same:
  assumes "wf_account a"
  shows "set_balance ty (get_balance ty a) a = a"
proof -
  have o: "ordered (balances a)" using assms by (simp add: wf_account_def)
  have "map_of (balances (set_balance ty (get_balance ty a) a)) = map_of (balances a)"
  proof (cases "map_of (balances a) ty")
    case None
    then show ?thesis by (simp add: set_balance_def get_balance_def AList.delete_conv' fun_upd_idem)
  next
    case (Some v)
    then have "get_balance ty a = v" "0 < v" using assms by (auto simp: get_balance_def wf_account_def ran_def)
    then show ?thesis using Some o by (simp add: set_balance_def fun_upd_idem)
  qed
  moreover have "ordered (balances (set_balance ty (get_balance ty a) a))"
    using wf_set_balance [OF assms] by (simp add: wf_account_def)
  ultimately have "balances (set_balance ty (get_balance ty a) a) = balances a" using ordered_map_of_unique o by blast
  moreover have "address (set_balance ty v a) = address a" "nonce (set_balance ty v a) = nonce a" for v
    by (simp_all add: set_balance_def split: option.splits)
  ultimately show ?thesis by (intro account.equality) simp_all
qed

lemma restore_account:
  "wf_account a \<Longrightarrow> set_balance ty (get_balance ty a) (set_nonce (nonce a) (set_nonce n a)) = a"
  using set_balance_same [of a ty] by (simp add: set_nonce_def)

text \<open>A transfer is done completely, or throws and leaves the accounts as they were.\<close>

lemma exec_append_ok:
  assumes "stands_at env (get_sender tsc) s m" "wf256 (get_sender tsc)" "\<forall>out \<in> set (outs tsc). wf256 (receiver out)"
  shows "case ledger_append (mpt_host env) tsc m of
      Some m' \<Rightarrow> \<exists>s'. exec_append env tsc (m (get_sender tsc)) s = (s', Inr ()) \<and> stands env s' m' \<and>
        in_storage s' = in_storage s \<and> in_filter s' = in_filter s \<and>
        set (in_commit s') = set (in_commit s) \<union> insert (get_sender tsc) (receiver ` set (outs tsc))
    | None \<Rightarrow> (\<forall>a. m (get_sender tsc) = Some a \<longrightarrow> wf_account a) \<longrightarrow>
        (\<exists>s' code. exec_append env tsc (m (get_sender tsc)) s = (s', Inl (ChainDb code)) \<and> stands env s' m \<and>
          in_storage s' = in_storage s \<and> in_filter s' = in_filter s)"
proof (cases "m (get_sender tsc)")
  case None
  then show ?thesis
    using stands_weaken [OF assms(1)] by (simp add: ledger_append_def exec_append_def throw_def)
next
  case (Some a)
  let ?h = "mpt_host env" and ?k = "get_sender tsc"
  let ?ty = "get_asset_type ?h tsc" and ?n = "get_tx_nonce ?h tsc + 1"
  obtain t1 where t1: "write_account ?k (set_nonce ?n) s = (s\<lparr>in_trie := t1\<rparr>, Inr ())"
    "stands_at env ?k (s\<lparr>in_trie := t1\<rparr>) (m(?k := map_option (set_nonce ?n) (m ?k)))" using write_run [OF assms(1,2)] .
  show ?thesis
  proof (cases "reduce_balance ?ty (get_count ?h tsc) a")
    case None
    let ?f = "\<lambda>x. set_balance ?ty (get_balance ?ty a) (set_nonce (nonce a) x)"
    obtain t2 where t2: "write_account ?k ?f (s\<lparr>in_trie := t1\<rparr>) = (s\<lparr>in_trie := t1, in_trie := t2\<rparr>, Inr ())"
      "stands_at env ?k (s\<lparr>in_trie := t1, in_trie := t2\<rparr>) (m(?k := map_option (set_nonce ?n) (m ?k), ?k := map_option ?f (map_option (set_nonce ?n) (m ?k))))"
      using write_run [OF t1(2) assms(2), of ?f] by (metis fun_upd_same)
    have run: "exec_append env tsc (m ?k) s = (s\<lparr>in_trie := t2\<rparr>, Inl (ChainDb atomic_operation_failed))"
      using t1(1) t2(1) Some None by (simp add: exec_append_def Let_def seq_def andthen_def throw_def)
    have "stands env (s\<lparr>in_trie := t2\<rparr>) m" if "wf_account a"
    proof -
      have "m(?k := map_option (set_nonce ?n) (m ?k), ?k := map_option ?f (map_option (set_nonce ?n) (m ?k))) = m"
        using Some restore_account [OF that] by (simp add: fun_upd_idem)
      then show ?thesis using stands_weaken [OF t2(2)] by simp
    qed
    then show ?thesis using run Some None by (simp add: ledger_append_def)
  next
    case (Some b)
    let ?m = "m(?k \<mapsto> set_nonce ?n b)"
    obtain t2 where t2: "write_account ?k (\<lambda>_. set_nonce ?n b) (s\<lparr>in_trie := t1\<rparr>) = (s\<lparr>in_trie := t1, in_trie := t2\<rparr>, Inr ())"
      "stands_at env ?k (s\<lparr>in_trie := t1, in_trie := t2\<rparr>) (m(?k := map_option (set_nonce ?n) (m ?k), ?k := map_option (\<lambda>_. set_nonce ?n b) (map_option (set_nonce ?n) (m ?k))))"
      using write_run [OF t1(2) assms(2), of "\<lambda>_. set_nonce ?n b"] by (metis fun_upd_same)
    then have "stands env (s\<lparr>in_trie := t2\<rparr>) ?m" using stands_weaken [OF t2(2)] \<open>m ?k = Some a\<close> by simp
    then obtain s' fin where s': "pay_outs env ?ty (outs tsc) [] (s\<lparr>in_trie := t2\<rparr>) = (s', fin, Inr ())"
      "stands env s' (fold (ledger_pay ?ty) (outs tsc) ?m)" "in_storage s' = in_storage s" "in_filter s' = in_filter s"
      "set (in_commit s') = set (in_commit s) \<union> receiver ` set (outs tsc)"
      using pay_outs_ok [OF _ assms(3), of env "s\<lparr>in_trie := t2\<rparr>" ?m ?ty "[]"] by auto
    moreover from this have "exec_append env tsc (m ?k) s = (s'\<lparr>in_commit := List.insert ?k (in_commit s')\<rparr>, Inr ())"
      using t1(1) t2(1) Some \<open>m ?k = Some a\<close>
      by (simp add: exec_append_def Let_def seq_def andthen_def commit_account_def)
    ultimately show ?thesis
      using Some \<open>m ?k = Some a\<close> by (simp add: ledger_append_def stands_def)
  qed
qed

section \<open>Transactions\<close>

text \<open>The operations that undo a transaction on the accounts \<open>m\<close>.\<close>

definition undo_out :: "state \<Rightarrow> u32 \<Rightarrow> out_entry \<Rightarrow> rollback_operation" where
  "undo_out m ty out = \<lparr>rop_type = (if m (receiver out) \<noteq> None then UPDATE else DELETE_ACCOUNT), rop_asset = ty,
     target_address = receiver out, update_type = (if m (receiver out) \<noteq> None then UPDATE_REDUCE else NO_UPDATE),
     rop_value = out_count out\<rparr>"

definition undo_list :: "ByteSequence \<Rightarrow> transaction \<Rightarrow> state \<Rightarrow> rollback_operation list" where
  "undo_list h tsc m =
     (let sender = get_sender tsc; ty = get_asset_type h tsc
      in case get_transaction_operator tsc of
           Append \<Rightarrow> \<lparr>rop_type = UPDATE, rop_asset = ty, target_address = sender, update_type = UPDATE_ADD,
             rop_value = get_count h tsc\<rparr> # map (undo_out m ty) (outs tsc)
         | Establish \<Rightarrow> [\<lparr>rop_type = (if m sender \<noteq> None then UPDATE else DELETE_ACCOUNT), rop_asset = ty,
             target_address = sender, update_type = (if m sender \<noteq> None then UPDATE_DELETE_ASSET else NO_UPDATE),
             rop_value = get_count h tsc\<rparr>]
         | NullOP \<Rightarrow> [])"

lemma rollback_outs_ok:
  assumes "stands env s m" "\<forall>out \<in> set os. wf256 (receiver out)"
  shows "\<exists>s'. rollback_outs env ty os s = (s', Inr ()) \<and> in_trie s' = in_trie s \<and> in_filter s' = in_filter s \<and>
    in_commit s' = in_commit s \<and> in_storage s' = in_storage s @ map (undo_out m ty) os"
  using assms
proof (induction os arbitrary: s)
  case (Cons out os)
  let ?rop = "undo_out m ty out"
  let ?s = "s\<lparr>in_storage := in_storage s @ [?rop]\<rparr>"
  have "stands env ?s m" using Cons.prems(1) by (simp add: stands_def)
  then obtain s' where "rollback_outs env ty os ?s = (s', Inr ())" "in_trie s' = in_trie s" "in_filter s' = in_filter s"
    "in_commit s' = in_commit s" "in_storage s' = in_storage s @ map (undo_out m ty) (out # os)"
    using Cons.IH [of ?s] Cons.prems(2) by auto
  then show ?case
    using find_run [OF Cons.prems(1), of "receiver out"] Cons.prems(2)
    by (simp add: andthen_def seq_def push_rollback_def undo_out_def)
qed (simp add: ret_def)

lemma append_created_rollback_ok:
  assumes "stands env s m" "wf256 (get_sender tsc)" "\<forall>out \<in> set (outs tsc). wf256 (receiver out)"
  shows "\<exists>s'. append_created_rollback env tsc s = (s', Inr ()) \<and> in_trie s' = in_trie s \<and> in_filter s' = in_filter s \<and>
    in_commit s' = in_commit s \<and> in_storage s' = in_storage s @ undo_list (mpt_host env) tsc m"
proof (cases "get_transaction_operator tsc")
  case Append
  let ?s = "s\<lparr>in_storage := in_storage s @ [\<lparr>rop_type = UPDATE, rop_asset = get_asset_type (mpt_host env) tsc,
    target_address = get_sender tsc, update_type = UPDATE_ADD, rop_value = get_count (mpt_host env) tsc\<rparr>]\<rparr>"
  have "stands env ?s m" using assms(1) by (simp add: stands_def)
  from rollback_outs_ok [OF this assms(3), of "get_asset_type (mpt_host env) tsc"] show ?thesis
    using Append by (auto simp: append_created_rollback_def undo_list_def Let_def seq_def andthen_def push_rollback_def)
next
  case Establish
  then show ?thesis
    using find_run [OF assms(1,2)] by (simp add: append_created_rollback_def undo_list_def Let_def andthen_def push_rollback_def)
qed (simp add: append_created_rollback_def undo_list_def ret_def)

lemma exec_establish_ok:
  assumes "stands_at env (get_sender tsc) s m" "wf256 (get_sender tsc)"
  shows "case ledger_establish (mpt_host env) md5 tsc (m, in_filter s) of
      Some st \<Rightarrow> \<exists>s'. exec_establish env md5 tsc (m (get_sender tsc)) s = (s', Inr ()) \<and> stands env s' (fst st) \<and>
        in_filter s' = snd st \<and> in_storage s' = in_storage s \<and>
        set (in_commit s') = insert (get_sender tsc) (set (in_commit s))
    | None \<Rightarrow> \<exists>s'. exec_establish env md5 tsc (m (get_sender tsc)) s = (s', Inl (ChainDb asset_already_exist)) \<and> stands env s' m"
proof (cases "bloom_test md5 (mpt_host env) (in_filter s) (get_asset_type (mpt_host env) tsc)")
  case True
  then show ?thesis
    using stands_weaken [OF assms(1)]
    by (simp add: ledger_establish_def exec_establish_def Let_def seq_def andthen_def pop_rollback_def throw_def stands_def)
next
  case False
  let ?h = "mpt_host env" and ?k = "get_sender tsc"
  let ?ty = "get_asset_type ?h tsc"
  let ?s = "s\<lparr>in_filter := fst (bloom_insert md5 ?h ?ty (in_filter s))\<rparr>"
  have s1: "stands_at env ?k ?s m" using assms(1) by (simp add: stands_at_def)
  show ?thesis
  proof (cases "m ?k")
    case None
    obtain t where "insert_account env ?k (add_balance ?ty ASSET_MAX_COUNT (new_account ?k 1)) ?s = (?s\<lparr>in_trie := t\<rparr>, Inr ())"
      "stands env (?s\<lparr>in_trie := t\<rparr>) (m(?k \<mapsto> add_balance ?ty ASSET_MAX_COUNT (new_account ?k 1)))"
      using insert_run [OF stands_weaken [OF s1] assms(2) None] .
    then show ?thesis
      using False None
      by (auto simp: ledger_establish_def exec_establish_def Let_def seq_def andthen_def catch_all_def commit_account_def stands_def)
  next
    case (Some a)
    obtain t where "write_account ?k (add_balance ?ty ASSET_MAX_COUNT) ?s = (?s\<lparr>in_trie := t\<rparr>, Inr ())"
      "stands_at env ?k (?s\<lparr>in_trie := t\<rparr>) (m(?k := map_option (add_balance ?ty ASSET_MAX_COUNT) (m ?k)))"
      using write_run [OF s1 assms(2)] .
    then show ?thesis
      using False Some stands_weaken [of env ?k "?s\<lparr>in_trie := t\<rparr>"]
      by (auto simp: ledger_establish_def exec_establish_def Let_def seq_def andthen_def commit_account_def stands_def)
  qed
qed

definition wf_tx :: "transaction \<Rightarrow> bool" where
  "wf_tx tsc \<longleftrightarrow> wf256 (get_sender tsc) \<and> (\<forall>out \<in> set (outs tsc). wf256 (receiver out))"

definition wf_state :: "state \<Rightarrow> bool" where
  "wf_state m \<longleftrightarrow> (\<forall>k a. m k = Some a \<longrightarrow> wf_account a)"

text \<open>The accounts that a transaction is recorded to change.\<close>

definition touched :: "transaction \<Rightarrow> uint256 set" where
  "touched tsc =
     (case get_transaction_operator tsc of
        Append \<Rightarrow> insert (get_sender tsc) (receiver ` set (outs tsc))
      | Establish \<Rightarrow> {get_sender tsc}
      | NullOP \<Rightarrow> {})"

lemma receivers_paid: "receiver ` set os \<subseteq> dom (fold (ledger_pay ty) os m)"
proof (induction os arbitrary: m)
  case (Cons out os)
  have "receiver out \<in> dom (ledger_pay ty out m)" by (simp add: ledger_pay_def)
  then show ?case using Cons.IH [of "ledger_pay ty out m"] dom_ledger_pays [of "ledger_pay ty out m" ty os] by auto
qed simp

lemma touched_dom: "ledger_tx h md5 tsc st = Some st' \<Longrightarrow> touched tsc \<subseteq> dom (fst st')"
proof (cases "get_transaction_operator tsc")
  case Append
  assume "ledger_tx h md5 tsc st = Some st'"
  then obtain b where "fst st' = fold (ledger_pay (get_asset_type h tsc)) (outs tsc) ((fst st)(get_sender tsc \<mapsto> b))"
    using Append by (auto simp: ledger_tx_def ledger_append_def Option.bind_eq_Some_conv)
  then show ?thesis
    using dom_ledger_pays [of "(fst st)(get_sender tsc \<mapsto> b)"] receivers_paid [of "outs tsc"] Append
    by (auto simp: touched_def)
qed (auto simp: touched_def ledger_tx_def ledger_establish_def Let_def split: if_splits)

lemma exec_tx_ok:
  assumes "stands env s m" "wf_tx tsc"
  shows "case ledger_tx (mpt_host env) md5 tsc (m, in_filter s) of
      Some st \<Rightarrow> \<exists>s'. exec_tx env md5 tsc s = (s', Inr ()) \<and> stands env s' (fst st) \<and> in_filter s' = snd st \<and>
        in_storage s' = in_storage s @ undo_list (mpt_host env) tsc m \<and>
        set (in_commit s') = set (in_commit s) \<union> touched tsc
    | None \<Rightarrow> wf_state m \<longrightarrow> (\<exists>s' code. exec_tx env md5 tsc s = (s', Inl (ChainDb code)) \<and> stands env s' m)"
proof -
  have w: "wf256 (get_sender tsc)" "\<forall>out \<in> set (outs tsc). wf256 (receiver out)" using assms(2) by (simp_all add: wf_tx_def)
  obtain s1 where s1: "append_created_rollback env tsc s = (s1, Inr ())" "in_trie s1 = in_trie s" "in_filter s1 = in_filter s"
    "in_commit s1 = in_commit s" "in_storage s1 = in_storage s @ undo_list (mpt_host env) tsc m"
    using append_created_rollback_ok [OF assms(1) w] by blast
  have "stands env s1 m" using assms(1) s1(2) by (simp add: stands_def)
  then obtain t where t: "on_trie (search_and_mark env (get_sender tsc)) s1 = (s1\<lparr>in_trie := t\<rparr>, Inr (m (get_sender tsc)))"
    "stands_at env (get_sender tsc) (s1\<lparr>in_trie := t\<rparr>) m" using mark_run [OF _ w(1)] by blast
  have run: "exec_tx env md5 tsc s =
      (case get_transaction_operator tsc of
         Append \<Rightarrow> exec_append env tsc (m (get_sender tsc))
       | Establish \<Rightarrow> exec_establish env md5 tsc (m (get_sender tsc))
       | NullOP \<Rightarrow> ret ()) (s1\<lparr>in_trie := t\<rparr>)"
    using s1(1) t(1) by (simp add: exec_tx_def seq_def andthen_def)
  show ?thesis
  proof (cases "get_transaction_operator tsc")
    case Append
    then show ?thesis
      using exec_append_ok [OF t(2) w] s1(3-5) run
      by (auto simp: ledger_tx_def wf_state_def touched_def split: option.splits)
  next
    case Establish
    then show ?thesis
      using exec_establish_ok [OF t(2) w(1), of md5] s1(3-5) run by (fastforce simp: ledger_tx_def touched_def split: option.splits)
  next
    case NullOP
    then show ?thesis using run s1(3-5) stands_weaken [OF t(2)] by (simp add: ledger_tx_def ret_def touched_def)
  qed
qed

section \<open>Blocks\<close>

text \<open>The undo list of a block: the operations for every transaction and affair, on the accounts before it.\<close>

primrec undo_txs ::
  "ByteSequence \<Rightarrow> (byte list \<Rightarrow> byte list) \<Rightarrow> transaction list \<Rightarrow> state \<times> bloom_filter \<Rightarrow> rollback_operation list" where
  "undo_txs h md5 [] st = []"
| "undo_txs h md5 (tsc # ts) st =
     undo_list h tsc (fst st) @ (case ledger_tx h md5 tsc st of None \<Rightarrow> [] | Some st' \<Rightarrow> undo_txs h md5 ts st')"

definition undo_affair :: "affair \<Rightarrow> state \<Rightarrow> rollback_operation" where
  "undo_affair air m = \<lparr>rop_type = (if m (af_owner air) = None then DELETE_ACCOUNT else ONLY_REDUCE_NONCE), rop_asset = 0,
     target_address = af_owner air, update_type = NO_UPDATE, rop_value = 0\<rparr>"

primrec undo_affairs :: "affair list \<Rightarrow> state \<Rightarrow> rollback_operation list" where
  "undo_affairs [] m = []"
| "undo_affairs (air # as) m = undo_affair air m # undo_affairs as (ledger_affair air m)"

definition undo_block ::
  "ByteSequence \<Rightarrow> (byte list \<Rightarrow> byte list) \<Rightarrow> block_body \<Rightarrow> state \<times> bloom_filter \<Rightarrow> rollback_operation list" where
  "undo_block h md5 b st = undo_txs h md5 (transactions b) st @
     (case ledger_txs h md5 (transactions b) st of
        None \<Rightarrow> []
      | Some st' \<Rightarrow> undo_affairs (filter is_db_level_affair_type (affairs b)) (fst st'))"

text \<open>The accounts a block is recorded to change.\<close>

definition block_touched :: "block_body \<Rightarrow> uint256 set" where
  "block_touched b = (\<Union>tsc \<in> set (transactions b). touched tsc) \<union>
     af_owner ` set (filter is_db_level_affair_type (affairs b))"

lemma exec_txs_ok:
  assumes "stands env s m" "list_all wf_tx ts" "ledger_txs (mpt_host env) md5 ts (m, in_filter s) = Some st"
  shows "\<exists>s'. exec_txs env md5 ts s = (s', Inr ()) \<and> stands env s' (fst st) \<and> in_filter s' = snd st \<and>
    in_storage s' = in_storage s @ undo_txs (mpt_host env) md5 ts (m, in_filter s) \<and>
    set (in_commit s') = set (in_commit s) \<union> (\<Union>tsc \<in> set ts. touched tsc)"
  using assms
proof (induction ts arbitrary: s m)
  case (Cons tsc ts)
  obtain st1 where st1: "ledger_tx (mpt_host env) md5 tsc (m, in_filter s) = Some st1" "ledger_txs (mpt_host env) md5 ts st1 = Some st"
    using Cons.prems(3) by (auto simp: Option.bind_eq_Some_conv)
  obtain s1 where s1: "exec_tx env md5 tsc s = (s1, Inr ())" "stands env s1 (fst st1)" "in_filter s1 = snd st1"
    "in_storage s1 = in_storage s @ undo_list (mpt_host env) tsc m"
    "set (in_commit s1) = set (in_commit s) \<union> touched tsc"
    using exec_tx_ok [OF Cons.prems(1), of tsc md5] Cons.prems(2) st1(1) by auto
  have "ledger_txs (mpt_host env) md5 ts (fst st1, in_filter s1) = Some st" using st1(2) s1(3) by simp
  then obtain s' where s': "exec_txs env md5 ts s1 = (s', Inr ())" "stands env s' (fst st)" "in_filter s' = snd st"
    "in_storage s' = in_storage s1 @ undo_txs (mpt_host env) md5 ts (fst st1, in_filter s1)"
    "set (in_commit s') = set (in_commit s1) \<union> (\<Union>tsc \<in> set ts. touched tsc)"
    using Cons.IH [OF s1(2)] Cons.prems(2) by auto
  have "exec_txs env md5 (tsc # ts) s = (s', Inr ())" using s1(1) s'(1) by (simp add: seq_def andthen_def)
  then show ?case using s'(2-5) s1(3-5) st1(1) by (intro exI [of _ s']) auto
qed (auto simp: ret_def)

lemma touched_txs_dom:
  "ledger_txs h md5 ts st = Some st' \<Longrightarrow> (\<Union>tsc \<in> set ts. touched tsc) \<subseteq> dom (fst st')"
proof (induction ts arbitrary: st)
  case (Cons tsc ts)
  obtain st1 where st1: "ledger_tx h md5 tsc st = Some st1" "ledger_txs h md5 ts st1 = Some st'"
    using Cons.prems by (auto simp: Option.bind_eq_Some_conv)
  then show ?case using Cons.IH [OF st1(2)] touched_dom [OF st1(1)] dom_ledger_txs [OF st1(2)] by auto
qed simp

lemma exec_affair_ok:
  assumes "stands env s m" "wf256 (af_owner air)"
  shows "\<exists>s'. exec_affair env air s = (s', Inr ()) \<and> stands env s' (ledger_affair air m) \<and> in_filter s' = in_filter s \<and>
    in_storage s' = in_storage s @ [undo_affair air m] \<and>
    set (in_commit s') = insert (af_owner air) (set (in_commit s))"
proof -
  let ?k = "af_owner air"
  let ?rop = "undo_affair air m"
  let ?s = "s\<lparr>in_storage := in_storage s @ [?rop]\<rparr>"
  have a: "append_affair_rollback env air s = (?s, Inr ())"
    using search_run [OF assms] by (simp add: append_affair_rollback_def andthen_def push_rollback_def undo_affair_def)
  have "stands env ?s m" using assms(1) by (simp add: stands_def)
  then obtain t where t: "on_trie (search_and_mark env ?k) ?s = (?s\<lparr>in_trie := t\<rparr>, Inr (m ?k))"
    "stands_at env ?k (?s\<lparr>in_trie := t\<rparr>) m" using mark_run [OF _ assms(2)] by blast
  show ?thesis
  proof (cases "m ?k")
    case None
    obtain t' where "insert_account env ?k (new_account ?k 1) (?s\<lparr>in_trie := t\<rparr>) = (?s\<lparr>in_trie := t, in_trie := t'\<rparr>, Inr ())"
      "stands env (?s\<lparr>in_trie := t, in_trie := t'\<rparr>) (m(?k \<mapsto> new_account ?k 1))"
      using insert_run [OF stands_weaken [OF t(2)] assms(2) None] .
    then show ?thesis
      using a t(1) None by (simp add: exec_affair_def seq_def andthen_def catch_all_def commit_account_def ledger_affair_def stands_def)
  next
    case (Some x)
    obtain t' where "write_account ?k (set_nonce (nonce x + 1)) (?s\<lparr>in_trie := t\<rparr>) = (?s\<lparr>in_trie := t, in_trie := t'\<rparr>, Inr ())"
      "stands_at env ?k (?s\<lparr>in_trie := t, in_trie := t'\<rparr>) (m(?k := map_option (set_nonce (nonce x + 1)) (m ?k)))"
      using write_run [OF t(2) assms(2)] .
    then show ?thesis
      using a t(1) Some stands_weaken [of env ?k "?s\<lparr>in_trie := t, in_trie := t'\<rparr>"]
      by (simp add: exec_affair_def seq_def andthen_def commit_account_def ledger_affair_def stands_def)
  qed
qed

lemma dom_ledger_affairs: "dom m \<subseteq> dom (fold ledger_affair as m)"
proof (induction as arbitrary: m)
  case (Cons a as)
  have "dom m \<subseteq> dom (ledger_affair a m)" by (auto simp: ledger_affair_def)
  then show ?case using Cons.IH [of "ledger_affair a m"] by auto
qed simp

lemma owners_dom: "af_owner ` set as \<subseteq> dom (fold ledger_affair as m)"
proof (induction as arbitrary: m)
  case (Cons air as)
  have "af_owner air \<in> dom (ledger_affair air m)" by (simp add: ledger_affair_def)
  then show ?case using Cons.IH [of "ledger_affair air m"] dom_ledger_affairs [of "ledger_affair air m" as] by auto
qed simp

lemma exec_affairs_ok:
  assumes "stands env s m" "\<forall>air \<in> set as. wf256 (af_owner air)"
  defines "bs \<equiv> filter is_db_level_affair_type as"
  shows "\<exists>s'. exec_affairs env as s = (s', Inr ()) \<and> stands env s' (fold ledger_affair bs m) \<and> in_filter s' = in_filter s \<and>
    in_storage s' = in_storage s @ undo_affairs bs m \<and> set (in_commit s') = set (in_commit s) \<union> af_owner ` set bs"
  using assms(1,2) unfolding bs_def
proof (induction as arbitrary: s m)
  case (Cons air as)
  show ?case
  proof (cases "is_db_level_affair_type air")
    case True
    obtain s1 where s1: "exec_affair env air s = (s1, Inr ())" "stands env s1 (ledger_affair air m)" "in_filter s1 = in_filter s"
      "in_storage s1 = in_storage s @ [undo_affair air m]" "set (in_commit s1) = insert (af_owner air) (set (in_commit s))"
      using exec_affair_ok [OF Cons.prems(1), of air] Cons.prems(2) by auto
    obtain s' where s': "exec_affairs env as s1 = (s', Inr ())"
      "stands env s' (fold ledger_affair (filter is_db_level_affair_type as) (ledger_affair air m))" "in_filter s' = in_filter s1"
      "in_storage s' = in_storage s1 @ undo_affairs (filter is_db_level_affair_type as) (ledger_affair air m)"
      "set (in_commit s') = set (in_commit s1) \<union> af_owner ` set (filter is_db_level_affair_type as)"
      using Cons.IH [OF s1(2)] Cons.prems(2) by auto
    have "exec_affairs env (air # as) s = (s', Inr ())" using s1(1) s'(1) True by (simp add: seq_def andthen_def)
    then show ?thesis using s'(2-5) s1(3-5) True by (intro exI [of _ s']) auto
  next
    case False
    then show ?thesis using Cons by simp
  qed
qed (simp add: ret_def)

lemma stands_wf: "stands env s m \<Longrightarrow> m k \<noteq> None \<Longrightarrow> wf256 k"
  by (auto simp: stands_def mpt_map_def split: if_splits)

lemma make_commits_ok:
  assumes "stands env s m" "set keys \<subseteq> dom m" "\<And>k a. m k = Some a \<Longrightarrow> \<exists>bs. serialize_account env a = Inr bs"
  shows "\<exists>cs. make_commits env keys s = (s, Inr cs) \<and> map fst cs = keys \<and>
    (\<forall>(k, bs) \<in> set cs. \<exists>a. m k = Some a \<and> serialize_account env a = Inr bs)"
  using assms(2)
proof (induction keys)
  case (Cons key keys)
  obtain a where a: "m key = Some a" using Cons.prems by auto
  obtain bs where "serialize_account env a = Inr bs" using assms(3) [OF a] by blast
  then show ?case
    using Cons search_run [OF assms(1) stands_wf [OF assms(1)], of key] a
    by (auto simp: andthen_def on_trie_def ret_def)
qed (simp add: ret_def)

lemma verify_root_ok:
  assumes "stands env s m"
    and "check \<Longrightarrow> \<forall>t. mpt_inv env t \<longrightarrow> mpt_map t = m \<longrightarrow> uint256_eq (tree_hash env (the (root t))) expected"
  shows "\<exists>t. verify_root env expected check s = (s\<lparr>in_trie := t\<rparr>, Inr ()) \<and> stands env (s\<lparr>in_trie := t\<rparr>) m"
proof (cases check)
  case True
  obtain t where "mpt_get_hash env (in_trie s) = Some (Inr (t, tree_hash env (the (root (in_trie s)))))" "mpt_inv env t" "mpt_map t = m"
    using mpt_hash_ok [of env "in_trie s"] assms(1) by (auto simp: stands_def)
  then show ?thesis
    using True assms by (auto simp: verify_root_def hash_of_trie_def on_trie_def andthen_def ret_def stands_def)
next
  case False
  then show ?thesis using assms(1) by (intro exI [of _ "in_trie s"]) (simp add: verify_root_def ret_def)
qed

definition wf_body :: "block_body \<Rightarrow> bool" where
  "wf_body b \<longleftrightarrow> list_all wf_tx (transactions b) \<and> (\<forall>air \<in> set (affairs b). wf256 (af_owner air))"

lemma exec_block_ok:
  assumes "stands env s m" "in_commit s = []" "wf_body (body blk)"
    and "ledger_block (mpt_host env) md5 (body blk) (m, in_filter s) = Some st"
    and "check \<Longrightarrow> \<forall>t. mpt_inv env t \<longrightarrow> mpt_map t = fst st \<longrightarrow>
      uint256_eq (tree_hash env (the (root t))) (merkle_patricia_trie_root (header blk))"
    and "\<And>k a. fst st k = Some a \<Longrightarrow> \<exists>bs. serialize_account env a = Inr bs"
  shows "\<exists>s' cs. exec_block env md5 blk check s = (s', Inr cs) \<and> stands env s' (fst st) \<and> in_filter s' = snd st \<and>
    in_storage s' = in_storage s @ undo_block (mpt_host env) md5 (body blk) (m, in_filter s) \<and>
    fst ` set cs = block_touched (body blk) \<and>
    (\<forall>(k, bs) \<in> set cs. \<exists>a. fst st k = Some a \<and> serialize_account env a = Inr bs)"
proof -
  let ?as = "filter is_db_level_affair_type (affairs (body blk))"
  obtain st1 where st1: "ledger_txs (mpt_host env) md5 (transactions (body blk)) (m, in_filter s) = Some st1"
    "fst st = fold ledger_affair ?as (fst st1)" "snd st = snd st1"
    using assms(4) by (auto simp: ledger_block_def)
  obtain s1 where s1: "exec_txs env md5 (transactions (body blk)) s = (s1, Inr ())" "stands env s1 (fst st1)" "in_filter s1 = snd st1"
    "in_storage s1 = in_storage s @ undo_txs (mpt_host env) md5 (transactions (body blk)) (m, in_filter s)"
    "set (in_commit s1) = (\<Union>tsc \<in> set (transactions (body blk)). touched tsc)"
    using exec_txs_ok [OF assms(1) _ st1(1)] assms(2,3) by (auto simp: wf_body_def)
  obtain s2 where s2: "exec_affairs env (affairs (body blk)) s1 = (s2, Inr ())" "stands env s2 (fst st)" "in_filter s2 = in_filter s1"
    "in_storage s2 = in_storage s1 @ undo_affairs ?as (fst st1)" "set (in_commit s2) = set (in_commit s1) \<union> af_owner ` set ?as"
    using exec_affairs_ok [OF s1(2), of "affairs (body blk)"] assms(3) st1(2) by (auto simp: wf_body_def)
  obtain t where t: "verify_root env (merkle_patricia_trie_root (header blk)) check s2 = (s2\<lparr>in_trie := t\<rparr>, Inr ())"
    "stands env (s2\<lparr>in_trie := t\<rparr>) (fst st)"
    using verify_root_ok [OF s2(2), of check "merkle_patricia_trie_root (header blk)"] assms(5) by blast
  have c: "set (in_commit s2) = block_touched (body blk)" using s1(5) s2(5) by (simp add: block_touched_def)
  have "set (in_commit s2) \<subseteq> dom (fst st)"
    unfolding s2(5) s1(5) st1(2)
    by (intro Un_least owners_dom order.trans [OF touched_txs_dom [OF st1(1)] dom_ledger_affairs])
  then obtain cs where cs: "make_commits env (in_commit s2) (s2\<lparr>in_trie := t\<rparr>) = (s2\<lparr>in_trie := t\<rparr>, Inr cs)"
    "map fst cs = in_commit s2" "\<forall>(k, bs) \<in> set cs. \<exists>a. fst st k = Some a \<and> serialize_account env a = Inr bs"
    using make_commits_ok [OF t(2), of "in_commit s2"] assms(6) by blast
  have "fst ` set cs = block_touched (body blk)" using c unfolding cs(2) [symmetric] by simp
  moreover have "exec_block env md5 blk check s = (s2\<lparr>in_trie := t\<rparr>, Inr cs)"
    using s1(1) s2(1) t(1) cs(1) by (simp add: exec_block_def seq_def andthen_def)
  ultimately show ?thesis
    using t(2) s2(3,4) s1(3,4) st1(1,3) cs(3) by (auto simp: undo_block_def)
qed

text \<open>
  C2 A block is executed as the ledger says. Let the accounts be in order, the addresses of the block
  be of the right width, its body accepted by \<open>check_block_body\<close>, height and previous hash fit, the
  ledger execution be defined (that is, no transaction of the block throws), the header carry the root
  hash of the resulting accounts if the root is checked, and the resulting accounts be serializable.
  Then \<open>insert_block\<close> returns true; the accounts are those of the ledger, the height is one more, the
  hash of the block is the new top, the filter is that of the ledger with this hash and is appended to
  the list of filters, the root hash is that of the accounts; the undo list of the block is appended to
  the undo lists; and one commit is appended that names the previous top, height and root and holds
  exactly the accounts that the block touches, each serialized as it is now.
\<close>

theorem insert_block_executes:
  assumes "mpt_inv env (account_mpt c)" "wf_body (body blk)"
    and "check_block_body env md5 (body blk) (asset_bloom_filter c) (account_mpt c) = Inr (account_mpt c, True)"
    and "height (header blk) = block_height c + 1" "uint256_eq (prev_block_hash (header blk)) (top_block_hash c)"
    and "ledger_block (mpt_host env) md5 (body blk)
      (mpt_map (account_mpt c), set_block_height (height (header blk)) (asset_bloom_filter c)) = Some st"
    and "check \<Longrightarrow> \<forall>t. mpt_inv env t \<longrightarrow> mpt_map t = fst st \<longrightarrow>
      uint256_eq (tree_hash env (the (root t))) (merkle_patricia_trie_root (header blk))"
    and "\<And>k a. fst st k = Some a \<Longrightarrow> \<exists>bs. serialize_account env a = Inr bs"
  shows "\<exists>c'. insert_block env md5 blk check c = (c', Inr True) \<and> mpt_inv env (account_mpt c') \<and>
    mpt_map (account_mpt c') = fst st \<and> block_height c' = block_height c + 1 \<and>
    top_block_hash c' = get_block_hash (mpt_host env) (mpt_sha3 env) (header blk) \<and>
    asset_bloom_filter c' = set_block_hash (top_block_hash c') (snd st) \<and>
    account_bloom_filters c' = account_bloom_filters c @ [asset_bloom_filter c'] \<and>
    mpt_get_hash env (account_mpt c') = Some (Inr (account_mpt c', mpt_root_hash c')) \<and>
    rollbacks c' = rollbacks c @ [undo_block (mpt_host env) md5 (body blk)
      (mpt_map (account_mpt c), set_block_height (height (header blk)) (asset_bloom_filter c))] \<and>
    (\<exists>cs. commits c' = commits c @ [\<lparr>lac_block_hash = top_block_hash c, lac_height = block_height c,
        prev_mpt_root = mpt_root_hash c, lac_commits = cs\<rparr>] \<and>
      fst ` set cs = block_touched (body blk) \<and>
      (\<forall>(k, bs) \<in> set cs. \<exists>a. fst st k = Some a \<and> serialize_account env a = Inr bs))"
proof -
  let ?s = "\<lparr>in_trie = account_mpt c, in_storage = [],
    in_filter = set_block_height (height (header blk)) (asset_bloom_filter c), in_commit = []\<rparr>"
  have "stands env ?s (mpt_map (account_mpt c))" using assms(1) by (simp add: stands_def)
  then obtain s' cs where x: "exec_block env md5 blk check ?s = (s', Inr cs)" "stands env s' (fst st)" "in_filter s' = snd st"
    "in_storage s' = undo_block (mpt_host env) md5 (body blk) (mpt_map (account_mpt c), in_filter ?s)"
    "fst ` set cs = block_touched (body blk)" "\<forall>(k, bs) \<in> set cs. \<exists>a. fst st k = Some a \<and> serialize_account env a = Inr bs"
    using exec_block_ok [of env ?s "mpt_map (account_mpt c)" blk md5 st check] assms(2,6-8) by auto
  have i: "mpt_inv env (in_trie s')" "mpt_map (in_trie s') = fst st" using x(2) by (simp_all add: stands_def)
  obtain t y where t: "mpt_get_hash env (in_trie s') = Some (Inr (t, y))" "mpt_inv env t" "mpt_map t = fst st"
    "mpt_get_hash env t = Some (Inr (t, y))"
    using mpt_hash_stable [OF i(1)] i(2) by auto
  show ?thesis
    using assms(3-5) x(1,3-6) t by (simp add: insert_block_def Let_def refresh_root_def)
qed

section \<open>An example\<close>

lemma serialize_ok:
  assumes "mpt_host env = LittleEndian" "wf256 (address a)" "ordered (balances a)" "length (balances a) \<le> MUSE_MAX_MAP_COUNT"
  shows "\<exists>bs. serialize_account env a = Inr bs"
proof -
  have "sorted_wrt (key_less std_ops) (map (\<lambda>p. VUInt32 (fst p)) (balances a))"
    using assms(3)
    by (auto simp: ordered_def sorted_wrt_map std_ops_def std_less_def cmp_int_def word_less_def elim!: sorted_wrt_mono_rel [rotated])
  then have "has_type std_ops account_type (account_val a)"
    using assms by (simp add: account_type_def account_val_def uint256_has_type case_prod_unfold list_all_iff o_def)
  then have "appends LittleEndian (input_val (account_val a)) (enc (account_val a))" by (rule input_val_appends) simp
  moreover have "writable LittleEndian (new_serializer LittleEndian)"
    by (simp add: writable_def new_serializer_def getByteSequence_host limit_defs)
  ultimately show ?thesis using assms(1) by (auto elim!: appendsD simp: serialize_account_def)
qed

definition sample_transfer :: transaction where
  "sample_transfer = push_output (sample_key 2) 5
     (append_transaction LittleEndian (replicate 64 0) (sample_key 1) 4 5 1 0 1 Append V0001)"

lemma push_output_fields [simp]:
  "get_sender (push_output r n t) = get_sender t" "get_transaction_operator (push_output r n t) = get_transaction_operator t"
  "get_asset_type h (push_output r n t) = get_asset_type h t" "get_count h (push_output r n t) = get_count h t"
  "get_tx_nonce h (push_output r n t) = get_tx_nonce h t" "outs (push_output r n t) = outs t @ [\<lparr>receiver = r, out_count = n\<rparr>]"
  by (simp_all add: push_output_def tx_defs)

lemma sample_transfer_fields:
  "get_sender sample_transfer = sample_key 1" "get_transaction_operator sample_transfer = Append"
  "get_asset_type LittleEndian sample_transfer = 1" "get_count LittleEndian sample_transfer = 5"
  "get_tx_nonce LittleEndian sample_transfer = 4" "outs sample_transfer = [\<lparr>receiver = sample_key 2, out_count = 5\<rparr>]"
  by (simp_all add: sample_transfer_def append_transaction_read Bytes_def)

definition sample_block :: "transaction list \<Rightarrow> block" where
  "sample_block ts = \<lparr>header = header_default\<lparr>prev_block_hash := base_binary_default, height := 1\<rparr>,
     body = \<lparr>transactions = ts, affairs = []\<rparr>, blk_signature = []\<rparr>"

definition sample_connector :: "merkle_patricia_trie \<Rightarrow> connector_account" where
  "sample_connector t = \<lparr>account_mpt = t, asset_bloom_filter = new_filter, mpt_root_hash = base_binary_default,
     block_height = 0, top_block_hash = base_binary_default, account_bloom_filters = [], commits = [],
     rollbacks = [], extensions = []\<rparr>"

lemma sample_run:
  "\<exists>t. mpt_run sample_env [Insert (sample_key 1) sample_account] = Some t \<and> mpt_inv sample_env t \<and>
     mpt_map t = [sample_key 1 \<mapsto> sample_account]"
  using mpt_run_ok [of "[Insert (sample_key 1) sample_account]" sample_env] by auto

definition sample_state :: state where
  "sample_state = [sample_key 1 \<mapsto> sample_account\<lparr>nonce := 5, balances := [(1, 495), (9, 20)]\<rparr>,
     sample_key 2 \<mapsto> \<lparr>address = sample_key 2, nonce = 0, balances = [(1, 5)]\<rparr>]"

lemma sample_transfer_tx:
  "ledger_tx LittleEndian md5 sample_transfer ([sample_key 1 \<mapsto> sample_account], flt) = Some (sample_state, flt)"
  by (simp add: ledger_tx_def ledger_append_def sample_transfer_fields ledger_pay_def sample_state_def
      reduce_balance_def add_balance_def new_account_def sample_account_def set_nonce_def)

lemma wf_sample_transfer: "wf_tx sample_transfer"
  by (simp add: wf_tx_def sample_transfer_fields)

lemma sample_transfer_accepted:
  assumes "mpt_inv sample_env t" "mpt_map t = [sample_key 1 \<mapsto> sample_account]"
  shows "check_block_body sample_env md5 (body (sample_block [sample_transfer])) flt t = Inr (t, True)"
  using mpt_search_ok [OF assms(1), of "sample_key 1"] assms(2)
  by (simp add: check_block_body_def sample_block_def check_tx_def check_append_def sample_transfer_fields sum_outs_def
      checked_def sample_env_def check_receipt_def check_nonce_def add_nonce_def new_asset_def new_receipt_def
      sample_account_def get_balance_def Let_def)

theorem insert_block_executes_witness:
  "\<exists>t c'. mpt_run sample_env [Insert (sample_key 1) sample_account] = Some t \<and>
     insert_block sample_env (\<lambda>bs. replicate 16 0) (sample_block [sample_transfer]) False (sample_connector t) = (c', Inr True) \<and>
     mpt_map (account_mpt c') (sample_key 2) = Some \<lparr>address = sample_key 2, nonce = 0, balances = [(1, 5)]\<rparr> \<and>
     block_height c' = 1"
proof -
  obtain t where t: "mpt_run sample_env [Insert (sample_key 1) sample_account] = Some t" "mpt_inv sample_env t"
    "mpt_map t = [sample_key 1 \<mapsto> sample_account]" using sample_run by blast
  let ?b = "sample_block [sample_transfer]" and ?md5 = "\<lambda>bs. replicate 16 0" and ?c = "sample_connector t"
  have c: "account_mpt ?c = t" "asset_bloom_filter ?c = new_filter" "block_height ?c = 0" "top_block_hash ?c = base_binary_default"
    by (simp_all add: sample_connector_def)
  have h: "mpt_host sample_env = LittleEndian" by (simp add: sample_env_def)
  have "\<exists>bs. serialize_account sample_env a = Inr bs" if "sample_state k = Some a" for k a
    using that
    by (intro serialize_ok [OF h]) (auto simp: sample_state_def sample_account_def wf256_def Width_def limit_defs wf_sample_key [unfolded wf256_def Width_def] split: if_splits)
  moreover have "wf_body (body ?b)"
    by (simp add: wf_body_def sample_block_def wf_sample_transfer)
  moreover have "height (header ?b) = block_height ?c + 1" "uint256_eq (prev_block_hash (header ?b)) (top_block_hash ?c)"
    by (simp_all add: sample_block_def c uint256_eq_def Compare_def)
  moreover have "ledger_block LittleEndian ?md5 (body ?b) ([sample_key 1 \<mapsto> sample_account], flt) = Some (sample_state, flt)" for flt
    by (simp add: ledger_block_def sample_block_def sample_transfer_tx)
  ultimately have "\<exists>c'. insert_block sample_env ?md5 ?b False ?c = (c', Inr True) \<and> mpt_map (account_mpt c') = sample_state \<and>
      block_height c' = block_height ?c + 1"
    using insert_block_executes [of sample_env ?c ?b ?md5 "(sample_state, set_block_height 1 new_filter)" False]
      t(2) sample_transfer_accepted [OF t(2,3)] by (simp add: c t(3) h) blast
  then show ?thesis using t(1) c(3) by (auto simp: sample_state_def)
qed

end
