(* ===== verification/Ledger_Safety.thy ===== *)
theory Ledger_Safety
  imports Ledger
begin

text \<open>
  Safety of the execution of transactions (\<open>insert_block\<close> of \<open>src/include/db/connector_account.cpp\<close>): a
  transaction is executed completely or not at all, transfers with exact outputs keep the amount of
  every asset, and what the checks before the execution guarantee. The amounts are natural numbers
  here, so that a sum that wraps around at 64 bits is seen.
\<close>

section \<open>Atomic execution\<close>

text \<open>
  C7 A transaction is atomic. On a trie with the invariant whose accounts are well formed, the
  execution of a transaction either returns and the accounts and the asset filter are those of the
  ledger, or it throws one of the exceptions of the database, exactly when the ledger rejects the
  transaction, and the accounts are those from before.
\<close>

theorem exec_tx_atomic:
  assumes "mpt_inv env (in_trie s)" "wf_state (mpt_map (in_trie s))" "wf_tx tsc"
  shows "\<exists>s' r. exec_tx env md5 tsc s = (s', r) \<and> mpt_inv env (in_trie s') \<and>
    (case r of
       Inr _ \<Rightarrow> ledger_tx (mpt_host env) md5 tsc (mpt_map (in_trie s), in_filter s) = Some (mpt_map (in_trie s'), in_filter s')
     | Inl e \<Rightarrow> (\<exists>code. e = ChainDb code) \<and> mpt_map (in_trie s') = mpt_map (in_trie s) \<and>
         ledger_tx (mpt_host env) md5 tsc (mpt_map (in_trie s), in_filter s) = None)"
proof -
  have "stands env s (mpt_map (in_trie s))" using assms(1) by (simp add: stands_def)
  from exec_tx_ok [OF this assms(3), of md5] show ?thesis
    using assms(2) by (fastforce simp: stands_def split: option.splits)
qed

definition executing :: "merkle_patricia_trie \<Rightarrow> inserting" where
  "executing t = \<lparr>in_trie = t, in_storage = [], in_filter = new_filter, in_commit = []\<rparr>"

lemma executing_simps [simp]: "in_trie (executing t) = t" "in_filter (executing t) = new_filter" "in_storage (executing t) = []"
  by (simp_all add: executing_def)

lemma wf_sample_state: "wf_state [sample_key 1 \<mapsto> sample_account]"
  using wf_sample_account by (simp add: wf_state_def)

theorem exec_tx_atomic_witness:
  "\<exists>t s'. mpt_run sample_env [Insert (sample_key 1) sample_account] = Some t \<and>
     exec_tx sample_env (\<lambda>bs. replicate 16 0) sample_transfer (executing t) = (s', Inr ()) \<and> mpt_map (in_trie s') = sample_state"
proof -
  obtain t where t: "mpt_run sample_env [Insert (sample_key 1) sample_account] = Some t" "mpt_inv sample_env t"
    "mpt_map t = [sample_key 1 \<mapsto> sample_account]" using sample_run by blast
  have h: "mpt_host sample_env = LittleEndian" by (simp add: sample_env_def)
  obtain s' r where r: "exec_tx sample_env (\<lambda>bs. replicate 16 0) sample_transfer (executing t) = (s', r)"
    "case r of Inr _ \<Rightarrow> Some (sample_state, new_filter) = Some (mpt_map (in_trie s'), in_filter s')
     | Inl e \<Rightarrow> (\<exists>code. e = ChainDb code) \<and> mpt_map (in_trie s') = mpt_map t \<and> Some (sample_state, new_filter) = None"
    using exec_tx_atomic [of sample_env "executing t" sample_transfer "\<lambda>bs. replicate 16 0"] t(2,3) wf_sample_state wf_sample_transfer
    unfolding executing_simps t(3) h sample_transfer_tx by blast
  then show ?thesis using t(1) by (cases r) auto
qed

section \<open>Amounts\<close>

definition balance_of :: "u32 \<Rightarrow> state \<Rightarrow> uint256 \<Rightarrow> nat" where
  "balance_of ty m k = (case m k of None \<Rightarrow> 0 | Some a \<Rightarrow> unat (get_balance ty a))"

definition asset_total :: "u32 \<Rightarrow> state \<Rightarrow> nat" where
  "asset_total ty m = (\<Sum>k \<in> dom m. balance_of ty m k)"

definition in_order :: "state \<Rightarrow> bool" where
  "in_order m \<longleftrightarrow> (\<forall>k a. m k = Some a \<longrightarrow> ordered (balances a))"

definition paid :: "uint256 \<Rightarrow> out_entry list \<Rightarrow> nat" where
  "paid k os = sum_list (map (\<lambda>out. if receiver out = k then unat (out_count out) else 0) os)"

lemma paid_simps [simp]:
  "paid k [] = 0"
  "paid k (out # os) = (if receiver out = k then unat (out_count out) else 0) + paid k os"
  by (simp_all add: paid_def)

lemma balance_of_upd: "balance_of ty (m(k \<mapsto> a)) k' = (if k' = k then unat (get_balance ty a) else balance_of ty m k')"
  by (simp add: balance_of_def)

lemma total_upd:
  assumes "finite (dom m)"
  shows "asset_total ty (m(k \<mapsto> a)) + balance_of ty m k = asset_total ty m + unat (get_balance ty a)"
proof -
  have "asset_total ty (m(k \<mapsto> a)) = unat (get_balance ty a) + (\<Sum>k' \<in> dom m - {k}. balance_of ty m k')"
    using assms by (simp add: asset_total_def sum.insert_remove balance_of_upd)
  moreover have "asset_total ty m = balance_of ty m k + (\<Sum>k' \<in> dom m - {k}. balance_of ty m k')"
  proof (cases "k \<in> dom m")
    case True
    then show ?thesis using assms by (simp add: asset_total_def sum.remove)
  next
    case False
    then have "balance_of ty m k = 0" "dom m - {k} = dom m" by (auto simp: balance_of_def domIff)
    then show ?thesis by (simp add: asset_total_def)
  qed
  ultimately show ?thesis by simp
qed

lemma balance_le_total: "finite (dom m) \<Longrightarrow> balance_of ty m k \<le> asset_total ty m"
  unfolding asset_total_def by (cases "k \<in> dom m") (auto intro: member_le_sum simp: balance_of_def domIff)

lemma in_order_upd: "in_order m \<Longrightarrow> ordered (balances a) \<Longrightarrow> in_order (m(k \<mapsto> a))"
  by (simp add: in_order_def)

lemma ordered_add_balance: "ordered (balances a) \<Longrightarrow> ordered (balances (add_balance ty n a))"
  by (simp add: add_balance_def split: option.splits)

lemma ordered_set_balance: "ordered (balances a) \<Longrightarrow> ordered (balances (set_balance ty n a))"
  by (simp add: set_balance_def split: option.splits)

text \<open>One output.\<close>

lemma pay_in_order: "in_order m \<Longrightarrow> in_order (ledger_pay ty out m)"
  unfolding ledger_pay_def
  by (intro in_order_upd) (auto simp: in_order_def new_account_def intro!: ordered_add_balance split: option.splits)

lemma pay_balance:
  assumes "in_order m" "ty' = ty \<Longrightarrow> balance_of ty m (receiver out) + unat (out_count out) < 2 ^ 64"
  shows "balance_of ty' (ledger_pay ty out m) k =
    balance_of ty' m k + (if ty' = ty \<and> receiver out = k then unat (out_count out) else 0)"
proof -
  let ?a = "case m (receiver out) of None \<Rightarrow> new_account (receiver out) 0 | Some a \<Rightarrow> a"
  have o: "ordered (balances ?a)" using assms(1) by (auto simp: in_order_def new_account_def split: option.splits)
  have b: "balance_of t m (receiver out) = unat (get_balance t ?a)" for t
    by (simp add: balance_of_def new_account_def get_balance_def split: option.split)
  have "unat (get_balance ty ?a + out_count out) = unat (get_balance ty ?a) + unat (out_count out)" if "ty' = ty"
    using assms(2) [OF that] b [of ty] by (simp add: unat_add_64)
  then show ?thesis using b by (auto simp: ledger_pay_def balance_of_upd get_add_balance [OF o])
qed

lemma pay_total:
  assumes "finite (dom m)" "in_order m" "ty' = ty \<Longrightarrow> asset_total ty m + unat (out_count out) < 2 ^ 64"
  shows "asset_total ty' (ledger_pay ty out m) = asset_total ty' m + (if ty' = ty then unat (out_count out) else 0)"
proof -
  let ?a = "add_balance ty (out_count out) (case m (receiver out) of None \<Rightarrow> new_account (receiver out) 0 | Some a \<Rightarrow> a)"
  have l: "ledger_pay ty out m = m(receiver out \<mapsto> ?a)" by (simp add: ledger_pay_def)
  have "balance_of ty' (ledger_pay ty out m) (receiver out) =
      balance_of ty' m (receiver out) + (if ty' = ty then unat (out_count out) else 0)"
    using pay_balance [OF assms(2), of ty' ty out "receiver out"] assms(3) balance_le_total [OF assms(1), of ty "receiver out"]
    by fastforce
  then show ?thesis using total_upd [OF assms(1), of ty' "receiver out" ?a] by (simp add: l balance_of_upd)
qed

lemma finite_pay: "finite (dom m) \<Longrightarrow> finite (dom (ledger_pay ty out m))"
  by (simp add: ledger_pay_def)

lemma pays_total:
  assumes "finite (dom m)" "in_order m" "ty' = ty \<Longrightarrow> asset_total ty m + sum_list (map (unat \<circ> out_count) os) < 2 ^ 64"
  shows "asset_total ty' (fold (ledger_pay ty) os m) = asset_total ty' m + (if ty' = ty then sum_list (map (unat \<circ> out_count) os) else 0)"
  using assms
proof (induction os arbitrary: m)
  case (Cons out os)
  have s: "asset_total ty' (ledger_pay ty out m) = asset_total ty' m + (if ty' = ty then unat (out_count out) else 0)"
    using pay_total [OF Cons.prems(1,2)] Cons.prems(3) by fastforce
  show ?case
    using Cons.IH [OF finite_pay [OF Cons.prems(1)] pay_in_order [OF Cons.prems(2)], of ty out] Cons.prems(3) s
    by (cases "ty' = ty") simp_all
qed simp

lemma reduce_ok:
  assumes "reduce_balance ty n a = Some b" "ordered (balances a)"
  shows "n \<le> get_balance ty a" "ordered (balances b)" "nonce b = nonce a"
    "get_balance ty' b = (if ty' = ty then get_balance ty a - n else get_balance ty' a)"
proof -
  have b: "n \<le> get_balance ty a" "b = set_balance ty (get_balance ty a - n) a"
    using assms(1) by (auto simp: reduce_balance_cases [OF assms(2)] split: if_splits)
  then show "n \<le> get_balance ty a" "ordered (balances b)" "get_balance ty' b = (if ty' = ty then get_balance ty a - n else get_balance ty' a)"
    using assms(2) by (simp_all add: get_set_balance ordered_set_balance)
  show "nonce b = nonce a" using b(2) by (simp add: set_balance_def split: option.splits)
qed

lemma get_balance_set_nonce [simp]: "get_balance ty (set_nonce n a) = get_balance ty a"
  by (simp add: get_balance_def)

lemma debit_total:
  assumes "finite (dom m)" "in_order m" "m k = Some a" "reduce_balance ty n a = Some b"
  shows "asset_total ty' (m(k \<mapsto> set_nonce x b)) + (if ty' = ty then unat n else 0) = asset_total ty' m"
proof -
  have o: "ordered (balances a)" using assms(2,3) by (simp add: in_order_def)
  have "unat (get_balance ty' b) + (if ty' = ty then unat n else 0) = unat (get_balance ty' a)"
    using reduce_ok [OF assms(4) o] by (simp add: unat_sub word_le_nat_alt)
  then show ?thesis using total_upd [OF assms(1), of ty' k "set_nonce x b"] assms(3) by (simp add: balance_of_def)
qed

lemma ledger_append_total:
  assumes "finite (dom m)" "in_order m" "ledger_append h tsc m = Some m'"
    and "sum_list (map (unat \<circ> out_count) (outs tsc)) = unat (get_count h tsc)"
    and "asset_total (get_asset_type h tsc) m < 2 ^ 64"
  shows "asset_total ty m' = asset_total ty m"
proof -
  let ?ty = "get_asset_type h tsc" and ?n = "get_count h tsc" and ?k = "get_sender tsc"
  obtain a b where ab: "m ?k = Some a" "reduce_balance ?ty ?n a = Some b"
    "m' = fold (ledger_pay ?ty) (outs tsc) (m(?k \<mapsto> set_nonce (get_tx_nonce h tsc + 1) b))"
    using assms(3) by (auto simp: ledger_append_def Option.bind_eq_Some_conv)
  let ?m = "m(?k \<mapsto> set_nonce (get_tx_nonce h tsc + 1) b)"
  have o: "ordered (balances b)" using reduce_ok [OF ab(2)] assms(2) ab(1) by (simp add: in_order_def)
  have d: "asset_total t ?m + (if t = ?ty then unat ?n else 0) = asset_total t m" for t
    using debit_total [OF assms(1,2) ab(1,2)] .
  have "asset_total ty (fold (ledger_pay ?ty) (outs tsc) ?m) = asset_total ty ?m + (if ty = ?ty then unat ?n else 0)"
    using pays_total [of ?m ty ?ty "outs tsc"] assms(1,2,4,5) o d [of ?ty] in_order_upd by simp
  then show ?thesis using d ab(3) by simp
qed

text \<open>The addresses of the accounts have 32 bytes, so there are finitely many.\<close>

lemma finite_accounts: "finite (dom (mpt_map t))"
proof (rule finite_subset)
  show "dom (mpt_map t) \<subseteq> {k. set k \<subseteq> UNIV \<and> length k = Width}"
    by (auto simp: mpt_map_def wf256_def split: if_splits)
qed (rule finite_lists_length_eq [OF finite_class.finite_UNIV])

text \<open>
  C6 Transfers keep the amount of every asset. Let every account be well formed, and let a transfer be
  executed whose outputs add up to its amount as natural numbers (the check of the code adds them modulo
  \<open>2 ^ 64\<close>), of an asset whose total over all accounts is below \<open>2 ^ 64\<close>. Then the sum of the balances
  of all accounts in every asset is what it was.
\<close>

theorem transfer_conserves_assets:
  assumes "mpt_inv env (in_trie s)" "wf_state (mpt_map (in_trie s))" "wf_tx tsc"
    and "get_transaction_operator tsc = Append" "exec_tx env md5 tsc s = (s', Inr ())"
    and "sum_list (map (unat \<circ> out_count) (outs tsc)) = unat (get_count (mpt_host env) tsc)"
    and "asset_total (get_asset_type (mpt_host env) tsc) (mpt_map (in_trie s)) < 2 ^ 64"
  shows "asset_total ty (mpt_map (in_trie s')) = asset_total ty (mpt_map (in_trie s))"
proof -
  have i: "in_order (mpt_map (in_trie s))" using assms(2) by (simp add: in_order_def wf_state_def wf_account_def)
  have "stands env s (mpt_map (in_trie s))" using assms(1) by (simp add: stands_def)
  from exec_tx_ok [OF this assms(3), of md5]
  have "ledger_append (mpt_host env) tsc (mpt_map (in_trie s)) = Some (mpt_map (in_trie s'))"
    using assms(2,4,5) by (auto simp: stands_def ledger_tx_def split: option.splits)
  then show ?thesis using ledger_append_total [OF finite_accounts i _ assms(6,7)] by blast
qed

theorem transfer_conserves_assets_witness:
  "\<exists>t s'. mpt_run sample_env [Insert (sample_key 1) sample_account] = Some t \<and>
     exec_tx sample_env (\<lambda>bs. replicate 16 0) sample_transfer (executing t) = (s', Inr ()) \<and>
     asset_total 1 (mpt_map (in_trie s')) = 500"
proof -
  obtain t where t: "mpt_run sample_env [Insert (sample_key 1) sample_account] = Some t" "mpt_inv sample_env t"
    "mpt_map t = [sample_key 1 \<mapsto> sample_account]" using sample_run by blast
  have h: "mpt_host sample_env = LittleEndian" by (simp add: sample_env_def)
  have n: "asset_total 1 (mpt_map t) = 500"
    by (simp add: t(3) asset_total_def balance_of_def sample_account_def get_balance_def)
  have "stands sample_env (executing t) (mpt_map t)" using t(2) by (simp add: stands_def)
  then obtain s' where s': "exec_tx sample_env (\<lambda>bs. replicate 16 0) sample_transfer (executing t) = (s', Inr ())"
    using exec_tx_ok [of sample_env "executing t" "mpt_map t" sample_transfer "\<lambda>bs. replicate 16 0"] wf_sample_transfer
    by (auto simp: h t(3) sample_transfer_tx)
  have "asset_total 1 (mpt_map (in_trie s')) = asset_total 1 (mpt_map (in_trie (executing t)))"
    by (rule transfer_conserves_assets [OF _ _ wf_sample_transfer _ s'])
       (use t(2,3) wf_sample_state n in \<open>simp_all add: h sample_transfer_fields\<close>)
  then show ?thesis using t(1) s' n by auto
qed

end
