(* ===== verification/Block_Accept.thy ===== *)
theory Block_Accept
  imports Ledger_Safety "HOL-Library.Multiset"
begin

text \<open>
  What the checks of \<open>check_block_body\<close> guarantee for the execution of the block, and what they let
  through (\<open>src/include/db/connector_account.cpp\<close>, \<open>src/include/db/receipt.cpp\<close>).
\<close>

section \<open>The nonces of a receipt\<close>

definition successors :: "u64 \<Rightarrow> nat \<Rightarrow> u64 list" where
  "successors start n = map (\<lambda>i. start + word_of_nat (Suc i)) [0..<n]"

lemma successors_Suc: "successors start (Suc n) = (start + 1) # successors (start + 1) n"
proof -
  have "[0..<Suc n] = 0 # map Suc [0..<n]" by (simp add: upt_conv_Cons map_Suc_upt)
  then show ?thesis by (simp add: successors_def o_def add.assoc)
qed

lemma consecutive_successors: "consecutive (a # ns) \<longleftrightarrow> ns = successors a (length ns)"
proof (induction ns arbitrary: a)
  case (Cons b ns)
  then show ?case by (auto simp: successors_Suc)
qed (simp add: successors_def)

lemma sorted_successors:
  assumes "unat start + n < 2 ^ 64"
  shows "sorted (successors start n)"
proof -
  have u: "unat (start + word_of_nat (Suc i)) = unat start + Suc i" if "i < n" for i
  proof -
    have "unat (word_of_nat (Suc i) :: u64) = Suc i" using that assms by (simp add: unat_of_nat take_bit_nat_eq_self del: of_nat_Suc)
    then show ?thesis using that assms by (simp add: unat_add_64 del: of_nat_Suc)
  qed
  show ?thesis
    by (rule sorted_iff_nth_mono [THEN iffD2])
       (auto simp: successors_def word_le_nat_alt u simp del: of_nat_Suc)
qed

text \<open>
  C30 The check of the nonces. Short of an overflow of 64 bits, \<open>check_nonce\<close> accepts a receipt exactly
  when its nonces are the next ones of the account, without a gap and without repetition, in
  whatever order they stand in the block.
\<close>

theorem check_nonce_exact:
  assumes "unat (nonce_start r) + length (nonces r) < 2 ^ 64"
  shows "snd (check_nonce r) \<longleftrightarrow> mset (nonces r) = mset (successors (nonce_start r) (length (nonces r)))"
proof -
  let ?n = "length (nonces r)" and ?s = "nonce_start r"
  have "mset (nonces r) = mset (successors ?s ?n) \<longleftrightarrow> sort (nonces r) = successors ?s ?n"
    using properties_for_sort [OF _ sorted_successors [OF assms]] by (metis mset_sort)
  moreover have "snd (check_nonce r) \<longleftrightarrow> sort (nonces r) = successors ?s ?n"
  proof (cases "sort (nonces r)")
    case Nil
    then have "nonces r = []" by (metis mset_sort mset_zero_iff)
    then show ?thesis by (simp add: check_nonce_def successors_def)
  next
    case (Cons a ns)
    then have l: "?n = Suc (length ns)" by (metis length_Cons length_sort)
    show ?thesis
    proof (cases ns)
      case Nil
      then obtain b where "nonces r = [b]" using l by (auto simp: length_Suc_conv)
      then show ?thesis by (simp add: check_nonce_def successors_def)
    next
      case (Cons b bs)
      then have "nonces r \<noteq> []" "1 < ?n" using l by auto
      then have "snd (check_nonce r) \<longleftrightarrow> a = ?s + 1 \<and> consecutive (a # ns)"
        using \<open>sort (nonces r) = a # ns\<close> by (simp add: check_nonce_def Let_def)
      then show ?thesis
        using \<open>sort (nonces r) = a # ns\<close> l by (auto simp: consecutive_successors successors_Suc)
    qed
  qed
  ultimately show ?thesis by blast
qed

theorem check_nonce_exact_witness:
  "snd (check_nonce \<lparr>nonce_start = 3, rbalances = [], nonces = [6, 4, 5]\<rparr>) \<and>
   \<not> snd (check_nonce \<lparr>nonce_start = 3, rbalances = [], nonces = [6, 4, 4]\<rparr>)"
  using check_nonce_exact [of "\<lparr>nonce_start = 3, rbalances = [], nonces = [6, 4, 5]\<rparr>"]
    check_nonce_exact [of "\<lparr>nonce_start = 3, rbalances = [], nonces = [6, 4, 4]\<rparr>"]
  by (simp add: successors_def upt_rec add_mset_commute)

section \<open>Accepted transfers can be executed\<close>

definition is_transfer :: "transaction \<Rightarrow> bool" where
  "is_transfer tsc \<longleftrightarrow> get_transaction_operator tsc = Append"

text \<open>What an account spends and receives of an asset in a list of transactions.\<close>

definition spends :: "ByteSequence \<Rightarrow> u32 \<Rightarrow> uint256 \<Rightarrow> transaction \<Rightarrow> bool" where
  "spends h ty k tsc \<longleftrightarrow> get_sender tsc = k \<and> get_asset_type h tsc = ty"

definition spent :: "ByteSequence \<Rightarrow> u32 \<Rightarrow> uint256 \<Rightarrow> transaction list \<Rightarrow> nat" where
  "spent h ty k ts = sum_list (map (\<lambda>tsc. if spends h ty k tsc then unat (get_count h tsc) else 0) ts)"

definition received :: "ByteSequence \<Rightarrow> u32 \<Rightarrow> uint256 \<Rightarrow> transaction list \<Rightarrow> nat" where
  "received h ty k ts = sum_list (map (\<lambda>tsc. if get_asset_type h tsc = ty then paid k (outs tsc) else 0) ts)"

lemma spent_simps [simp]:
  "spent h ty k [] = 0"
  "spent h ty k (tsc # ts) = (if spends h ty k tsc then unat (get_count h tsc) else 0) + spent h ty k ts"
  by (simp_all add: spent_def)

lemma received_simps [simp]:
  "received h ty k [] = 0"
  "received h ty k (tsc # ts) = (if get_asset_type h tsc = ty then paid k (outs tsc) else 0) + received h ty k ts"
  by (simp_all add: received_def)

lemma pays_balance:
  assumes "in_order m" "\<And>k. ty' = ty \<Longrightarrow> balance_of ty m k + paid k os < 2 ^ 64"
  shows "balance_of ty' (fold (ledger_pay ty) os m) k = balance_of ty' m k + (if ty' = ty then paid k os else 0)"
  using assms
proof (induction os arbitrary: m)
  case (Cons out os)
  have s: "balance_of ty' (ledger_pay ty out m) k = balance_of ty' m k + (if ty' = ty \<and> receiver out = k then unat (out_count out) else 0)" for k
    by (rule pay_balance [OF Cons.prems(1)]) (use Cons.prems(2) [of "receiver out"] in simp)
  have "balance_of ty (ledger_pay ty out m) k + paid k os < 2 ^ 64" if "ty' = ty" for k
    using Cons.prems(2) [OF that, of k] s [of k] that by (simp split: if_splits)
  then show ?case using Cons.IH [OF pay_in_order [OF Cons.prems(1)], of ty out] s [of k] by simp
qed simp

lemma pays_in_order: "in_order m \<Longrightarrow> in_order (fold (ledger_pay ty) os m)"
  by (induction os arbitrary: m) (simp_all add: pay_in_order)

text \<open>The ledger executes transfers that no account overspends with.\<close>

lemma ledger_append_balances:
  assumes "in_order m" "0 < get_count h tsc" "unat (get_count h tsc) \<le> balance_of (get_asset_type h tsc) m (get_sender tsc)"
    and "\<And>k. balance_of (get_asset_type h tsc) m k + paid k (outs tsc) < 2 ^ 64"
  shows "\<exists>m'. ledger_append h tsc m = Some m' \<and> in_order m' \<and>
    (\<forall>ty k. balance_of ty m' k + (if spends h ty k tsc then unat (get_count h tsc) else 0) =
      balance_of ty m k + (if get_asset_type h tsc = ty then paid k (outs tsc) else 0))"
proof -
  let ?ty = "get_asset_type h tsc" and ?k = "get_sender tsc" and ?n = "get_count h tsc"
  have "0 < balance_of ?ty m ?k" using assms(2,3) by (simp add: word_less_nat_alt)
  then obtain a where a: "m ?k = Some a" "0 < unat (get_balance ?ty a)" "unat ?n \<le> unat (get_balance ?ty a)"
    using assms(3) by (auto simp: balance_of_def split: option.splits)
  have o: "ordered (balances a)" using assms(1) a(1) by (simp add: in_order_def)
  have "map_of (balances a) ?ty \<noteq> None" using a(2) by (auto simp: get_balance_def split: option.splits)
  then obtain b where b: "reduce_balance ?ty ?n a = Some b"
    using a(3) by (auto simp: reduce_balance_cases [OF o] word_less_nat_alt)
  note r = reduce_ok [OF b o]
  let ?m = "m(?k \<mapsto> set_nonce (get_tx_nonce h tsc + 1) b)"
  have d: "balance_of ty ?m k + (if spends h ty k tsc then unat ?n else 0) = balance_of ty m k" for ty k
    using a(1) r(1) r(4) [of ty] by (auto simp: balance_of_def spends_def unat_sub word_le_nat_alt)
  have i: "in_order ?m" using in_order_upd [OF assms(1)] r(2) by simp
  have w: "balance_of ?ty ?m k + paid k (outs tsc) < 2 ^ 64" for k
    using assms(4) [of k] d [of ?ty k] by linarith
  have "balance_of ty (fold (ledger_pay ?ty) (outs tsc) ?m) k = balance_of ty ?m k + (if ty = ?ty then paid k (outs tsc) else 0)" for ty k
    using pays_balance [OF i, of ty ?ty "outs tsc" k] w by blast
  then have "balance_of ty (fold (ledger_pay ?ty) (outs tsc) ?m) k + (if spends h ty k tsc then unat ?n else 0) =
      balance_of ty m k + (if ?ty = ty then paid k (outs tsc) else 0)" for ty k using d [of ty k] by simp
  moreover have "ledger_append h tsc m = Some (fold (ledger_pay ?ty) (outs tsc) ?m)" using a(1) b by (simp add: ledger_append_def)
  ultimately show ?thesis using pays_in_order [OF i] by blast
qed

lemma ledger_txs_defined:
  assumes "in_order m" "list_all is_transfer ts" "\<forall>tsc \<in> set ts. 0 < get_count h tsc"
    and "\<And>ty k. spent h ty k ts \<le> balance_of ty m k" "\<And>ty k. balance_of ty m k + received h ty k ts < 2 ^ 64"
  shows "\<exists>st. ledger_txs h md5 ts (m, flt) = Some st"
  using assms
proof (induction ts arbitrary: m)
  case (Cons tsc ts)
  have "unat (get_count h tsc) \<le> balance_of (get_asset_type h tsc) m (get_sender tsc)"
    using Cons.prems(4) [of "get_asset_type h tsc" "get_sender tsc"] by (simp add: spends_def)
  moreover have "balance_of (get_asset_type h tsc) m k + paid k (outs tsc) < 2 ^ 64" for k
    using Cons.prems(5) [of "get_asset_type h tsc" k] by simp
  ultimately obtain m' where m': "ledger_append h tsc m = Some m'" "in_order m'"
    "\<And>ty k. balance_of ty m' k + (if spends h ty k tsc then unat (get_count h tsc) else 0) =
      balance_of ty m k + (if get_asset_type h tsc = ty then paid k (outs tsc) else 0)"
    using ledger_append_balances [OF Cons.prems(1), of h tsc] Cons.prems(3) by auto
  have "spent h ty k ts \<le> balance_of ty m' k" "balance_of ty m' k + received h ty k ts < 2 ^ 64" for ty k
    using Cons.prems(4) [of ty k] Cons.prems(5) [of ty k] m'(3) [of ty k] by (simp_all split: if_splits)
  then obtain st where "ledger_txs h md5 ts (m', flt) = Some st"
    using Cons.IH [OF m'(2)] Cons.prems(2,3) by auto
  then show ?case using m'(1) Cons.prems(2) by (auto simp: ledger_tx_def is_transfer_def)
qed simp

text \<open>The receipts hold what each account has and what it spends.\<close>

definition entry :: "receipts \<Rightarrow> uint256 \<Rightarrow> u32 \<Rightarrow> (u64 \<times> u64) option" where
  "entry rs k ty = Option.bind (map_of rs k) (\<lambda>r. map_of (rbalances r) ty)"

definition fair :: "state \<Rightarrow> receipts \<Rightarrow> bool" where
  "fair m rs \<longleftrightarrow> (\<forall>k r. map_of rs k = Some r \<longrightarrow> ordered (rbalances r)) \<and>
     (\<forall>k ty b. entry rs k ty = Some b \<longrightarrow> (\<exists>a. m k = Some a \<and> fst b = get_balance ty a))"

definition sent :: "receipts \<Rightarrow> uint256 \<Rightarrow> u32 \<Rightarrow> u64" where
  "sent rs k ty = (case entry rs k ty of None \<Rightarrow> 0 | Some b \<Rightarrow> snd b)"

lemma check_append_entry:
  assumes "check_append env tsc (m (get_sender tsc)) t rs = Inr rs'" "fair m rs"
  shows "fair m rs' \<and> (\<forall>k ty. entry rs' k ty =
    (if spends (mpt_host env) ty k tsc
     then Some (get_balance ty (the (m k)), sent rs k ty + get_count (mpt_host env) tsc) else entry rs k ty))"
proof (cases "m (get_sender tsc)")
  case None
  then obtain r b where "map_of rs (get_sender tsc) = Some r" "map_of (rbalances r) (get_asset_type (mpt_host env) tsc) = Some b"
    using assms(1) by (auto simp: check_append_def Let_def split: option.splits)
  then have "entry rs (get_sender tsc) (get_asset_type (mpt_host env) tsc) = Some b" by (simp add: entry_def)
  then show ?thesis using assms(2) None unfolding fair_def by fastforce
next
  case (Some a)
  let ?h = "mpt_host env" and ?k = "get_sender tsc"
  let ?ty = "get_asset_type ?h tsc" and ?n = "get_count ?h tsc"
  have f: "ordered (rbalances r)" if "map_of rs ?k = Some r" for r
    using assms(2) that unfolding fair_def by blast
  have g: "fst b = get_balance ?ty a" if "map_of rs ?k = Some r" "map_of (rbalances r) ?ty = Some b" for r b
  proof -
    have "entry rs ?k ?ty = Some b" using that by (simp add: entry_def)
    then show ?thesis using assms(2) Some unfolding fair_def by fastforce
  qed
  have "\<exists>r. rs' = AList.update ?k r rs \<and> ordered (rbalances r) \<and>
    map_of (rbalances r) = (case map_of rs ?k of None \<Rightarrow> Map.empty | Some r \<Rightarrow> map_of (rbalances r))
       (?ty \<mapsto> (get_balance ?ty a, sent rs ?k ?ty + ?n))"
    using assms(1) Some f g
    by (fastforce simp: check_append_def Let_def sent_def entry_def add_spent_def add_nonce_def new_asset_def new_receipt_def
        split: option.splits if_splits)
  then obtain r where r: "rs' = AList.update ?k r rs" "ordered (rbalances r)"
    "map_of (rbalances r) = (case map_of rs ?k of None \<Rightarrow> Map.empty | Some r \<Rightarrow> map_of (rbalances r))
       (?ty \<mapsto> (get_balance ?ty a, sent rs ?k ?ty + ?n))" by blast
  have e: "entry rs' k ty = (if spends ?h ty k tsc then Some (get_balance ty (the (m k)), sent rs k ty + ?n) else entry rs k ty)" for k ty
    using Some by (auto simp: r(1,3) entry_def spends_def AList.update_conv' split: option.splits)
  have "fair m rs'"
    unfolding fair_def
  proof (intro conjI allI impI)
    show "\<exists>a. m k = Some a \<and> fst b = get_balance ty a" if "entry rs' k ty = Some b" for k ty b
      using that Some assms(2) by (cases b) (auto simp: e spends_def fair_def split: if_splits)
    show "ordered (rbalances x)" if "map_of rs' k = Some x" for k x
      using that r(2) assms(2) by (auto simp: fair_def r(1) AList.update_conv' split: if_splits)
  qed
  then show ?thesis using e by blast
qed

lemma check_txs_sent:
  assumes "mpt_inv env t" "list_all is_transfer ts" "list_all wf_tx ts" "fair (mpt_map t) rs"
    and "check_txs env md5 ts (t, rs, flt) = Inr (t', rs', flt')"
  shows "t' = t \<and> fair (mpt_map t) rs' \<and>
    (\<forall>k ty. sent rs' k ty = sent rs k ty + word_of_nat (spent (mpt_host env) ty k ts) \<and>
      (entry rs' k ty = None \<longrightarrow> entry rs k ty = None \<and> spent (mpt_host env) ty k ts = 0))"
  using assms(2-5)
proof (induction ts arbitrary: rs)
  case (Cons tsc ts)
  let ?m = "mpt_map t" and ?h = "mpt_host env"
  have "wf256 (get_sender tsc)" using Cons.prems(2) by (simp add: wf_tx_def)
  then obtain rs1 where rs1: "check_append env tsc (?m (get_sender tsc)) t rs = Inr rs1"
    "check_txs env md5 ts (t, rs1, flt) = Inr (t', rs', flt')"
    using Cons.prems(1,4) mpt_search_ok [OF assms(1), of "get_sender tsc"]
    by (auto simp: check_tx_def checked_def is_transfer_def Let_def chain_def split: sum.splits)
  have e: "fair ?m rs1" "\<And>k ty. entry rs1 k ty = (if spends ?h ty k tsc
      then Some (get_balance ty (the (?m k)), sent rs k ty + get_count ?h tsc) else entry rs k ty)"
    using check_append_entry [OF rs1(1) Cons.prems(3)] by blast+
  have s: "sent rs1 k ty = sent rs k ty + (if spends ?h ty k tsc then get_count ?h tsc else 0)" for k ty
    by (simp add: sent_def [of rs1] e(2)) (simp add: sent_def)
  have ih: "t' = t" "fair ?m rs'" "sent rs' k ty = sent rs1 k ty + word_of_nat (spent ?h ty k ts)"
    "entry rs' k ty = None \<Longrightarrow> entry rs1 k ty = None \<and> spent ?h ty k ts = 0" for k ty
    using Cons.IH [OF _ _ e(1) rs1(2)] Cons.prems(1,2) by simp_all
  have "sent rs' k ty = sent rs k ty + word_of_nat (spent ?h ty k (tsc # ts))" for k ty
    by (simp add: ih(3) s add.assoc)
  moreover have "entry rs k ty = None \<and> spent ?h ty k (tsc # ts) = 0" if "entry rs' k ty = None" for k ty
    using ih(4) [OF that] e(2) [of k ty] by (simp split: if_splits)
  ultimately show ?case using ih(1,2) by blast
qed simp

lemma check_affairs_entry:
  assumes "mpt_inv env t" "\<forall>air \<in> set as. wf256 (af_owner air)" "check_affairs env as (t, rs) = Inr (t', rs')"
  shows "entry rs' = entry rs"
  using assms(2,3)
proof (induction as arbitrary: rs)
  case (Cons air as)
  let ?k = "af_owner air"
  show ?case
  proof (cases "is_db_level_affair_type air")
    case True
    obtain r where r: "check_affairs env as (t, AList.update ?k r rs) = Inr (t', rs')"
      "rbalances r = (case map_of rs ?k of None \<Rightarrow> [] | Some r \<Rightarrow> rbalances r)"
      using Cons.prems True mpt_search_ok [OF assms(1), of ?k]
      by (auto simp: checked_def Let_def chain_def add_nonce_def new_receipt_def split: option.splits)
    have "entry (AList.update ?k r rs) = entry rs"
      using r(2) by (auto simp: entry_def fun_eq_iff AList.update_conv' split: option.splits)
    then show ?thesis using Cons.IH [OF _ r(1)] Cons.prems(1) by simp
  next
    case False
    then show ?thesis using Cons by simp
  qed
qed simp

lemma check_receipt_balances:
  "snd (check_receipt r) \<Longrightarrow> map_of (rbalances r) ty = Some b \<Longrightarrow> snd b \<le> fst b"
  by (auto simp: check_receipt_def check_nonce_def Let_def list_all_iff dest!: map_of_SomeD split: if_splits)

lemma accepted_covers:
  assumes "mpt_inv env t" "list_all is_transfer (transactions b)" "wf_body b"
    and "check_block_body env md5 b flt t = Inr (t', True)"
    and "spent (mpt_host env) ty k (transactions b) < 2 ^ 64"
  shows "spent (mpt_host env) ty k (transactions b) \<le> balance_of ty (mpt_map t) k"
proof -
  let ?h = "mpt_host env" and ?m = "mpt_map t"
  obtain t1 rs flt' rs' where c: "check_txs env md5 (transactions b) (t, [], flt) = Inr (t1, rs, flt')"
    "check_affairs env (affairs b) (t1, rs) = Inr (t', rs')" "list_all (\<lambda>p. snd (check_receipt (snd p))) rs'"
    using assms(4) by (auto simp: check_block_body_def chain_def split: sum.splits check_exit.splits prod.splits)
  have "fair ?m []" by (simp add: fair_def entry_def)
  then have f: "t1 = t" "fair ?m rs" "sent rs k ty = sent [] k ty + word_of_nat (spent ?h ty k (transactions b))"
    "entry rs k ty = None \<longrightarrow> spent ?h ty k (transactions b) = 0"
    using check_txs_sent [OF assms(1,2) _ _ c(1)] assms(3) by (auto simp: wf_body_def)
  have e: "entry rs' = entry rs" using check_affairs_entry [OF assms(1), of "affairs b"] c(2) f(1) assms(3) by (auto simp: wf_body_def)
  show ?thesis
  proof (cases "entry rs k ty")
    case (Some x)
    then obtain r where r: "map_of rs' k = Some r" "map_of (rbalances r) ty = Some x"
      using fun_cong [OF fun_cong [OF e], of k ty] by (auto simp: entry_def Option.bind_eq_Some_conv)
    have "snd x \<le> fst x" using check_receipt_balances [OF _ r(2)] c(3) map_of_SomeD [OF r(1)] by (auto simp: list_all_iff)
    moreover obtain a where a: "?m k = Some a" "fst x = get_balance ty a" using f(2) Some unfolding fair_def by blast
    moreover have "unat (snd x) = spent ?h ty k (transactions b)"
      using f(3) Some assms(5) by (simp add: sent_def entry_def unat_of_nat take_bit_nat_eq_self)
    ultimately show ?thesis by (simp add: balance_of_def word_le_nat_alt)
  qed (use f(4) in simp)
qed

text \<open>
  C8 An accepted block of transfers can be executed. When \<open>check_block_body\<close> accepts a body whose
  transactions are transfers of positive amounts, and neither what an account spends of an asset in the
  block nor what it has and receives overflows 64 bits, the execution of all transactions and
  affairs ends without an exception.
\<close>

theorem accepted_transfers_execute:
  assumes "mpt_inv env (in_trie s)" "wf_state (mpt_map (in_trie s))" "wf_body b"
    and "check_block_body env md5 b flt (in_trie s) = Inr (t', True)"
    and "list_all is_transfer (transactions b)" "\<forall>tsc \<in> set (transactions b). 0 < get_count (mpt_host env) tsc"
    and "\<forall>ty k. spent (mpt_host env) ty k (transactions b) < 2 ^ 64"
    and "\<forall>ty k. balance_of ty (mpt_map (in_trie s)) k + received (mpt_host env) ty k (transactions b) < 2 ^ 64"
  shows "\<exists>s'. seq (exec_txs env md5 (transactions b)) (exec_affairs env (affairs b)) s = (s', Inr ())"
proof -
  let ?m = "mpt_map (in_trie s)" and ?h = "mpt_host env"
  have "spent ?h ty k (transactions b) \<le> balance_of ty ?m k" for ty k
    using accepted_covers [OF assms(1,5,3,4)] assms(7) by blast
  then obtain st where st: "ledger_txs ?h md5 (transactions b) (?m, in_filter s) = Some st"
    using ledger_txs_defined [of ?m "transactions b" ?h md5 "in_filter s"] assms(2,5,6,8)
    by (auto simp: in_order_def wf_state_def wf_account_def)
  have "stands env s ?m" using assms(1) by (simp add: stands_def)
  then obtain s1 where s1: "exec_txs env md5 (transactions b) s = (s1, Inr ())" "stands env s1 (fst st)"
    using exec_txs_ok [OF _ _ st] assms(3) by (auto simp: wf_body_def)
  obtain s' where "exec_affairs env (affairs b) s1 = (s', Inr ())"
    using exec_affairs_ok [OF s1(2), of "affairs b"] assms(3) by (auto simp: wf_body_def)
  then show ?thesis using s1(1) by (simp add: seq_def andthen_def)
qed

theorem accepted_transfers_execute_witness:
  "\<exists>t s'. mpt_run sample_env [Insert (sample_key 1) sample_account] = Some t \<and>
     seq (exec_txs sample_env (\<lambda>bs. replicate 16 0) [sample_transfer]) (exec_affairs sample_env []) (executing t) = (s', Inr ())"
proof -
  obtain t where t: "mpt_run sample_env [Insert (sample_key 1) sample_account] = Some t" "mpt_inv sample_env t"
    "mpt_map t = [sample_key 1 \<mapsto> sample_account]" using sample_run by blast
  have h: "mpt_host sample_env = LittleEndian" by (simp add: sample_env_def)
  let ?b = "\<lparr>transactions = [sample_transfer], affairs = []\<rparr>"
  have c: "check_block_body sample_env (\<lambda>bs. replicate 16 0) ?b new_filter t = Inr (t, True)"
    using sample_transfer_accepted [OF t(2,3)] by (simp add: sample_block_def)
  have "balance_of ty (mpt_map t) k + received LittleEndian ty k [sample_transfer] < 2 ^ 64" for ty k
    by (auto simp: t(3) balance_of_def sample_account_def get_balance_def sample_transfer_fields)
  then have "\<exists>s'. seq (exec_txs sample_env (\<lambda>bs. replicate 16 0) (transactions ?b)) (exec_affairs sample_env (affairs ?b)) (executing t) = (s', Inr ())"
    using wf_sample_state t(2) c
    by (intro accepted_transfers_execute [of sample_env "executing t" ?b "\<lambda>bs. replicate 16 0" new_filter t])
       (simp_all add: h t(3) wf_body_def wf_sample_transfer is_transfer_def sample_transfer_fields)
  then show ?thesis using t(1) by auto
qed

section \<open>What the checks let through\<close>

lemma accept_transfer:
  assumes "mpt_inv env t" "wf256 (get_sender tsc)" "mpt_map t (get_sender tsc) = Some a" "is_transfer tsc"
    and "sum_outs tsc = get_count (mpt_host env) tsc"
  shows "check_tx env md5 tsc (t, [], flt) =
    Inr (t, [(get_sender tsc, \<lparr>nonce_start = nonce a,
      rbalances = [(get_asset_type (mpt_host env) tsc,
        get_balance (get_asset_type (mpt_host env) tsc) a, get_count (mpt_host env) tsc)],
      nonces = [get_tx_nonce (mpt_host env) tsc]\<rparr>)], flt)"
  using assms mpt_search_ok [OF assms(1,2)]
  by (simp add: check_tx_def checked_def check_append_def is_transfer_def Let_def add_nonce_def new_asset_def new_receipt_def)

text \<open>
  C31 Assets out of nothing. The outputs of a transfer are added up with 64 bits, so for every amount \<open>x\<close>
  a transfer with an output of \<open>x\<close> and one of the amount less \<open>x\<close>, which wraps around when \<open>x\<close> is more than the
  sender has, is accepted, and its execution gives the receiver \<open>x\<close>.
\<close>

theorem wrapped_outputs_forge_assets:
  assumes "mpt_inv env (in_trie s)" "wf_tx tsc" "is_transfer tsc"
    and "mpt_map (in_trie s) (get_sender tsc) = Some a" "wf_account a" "0 < get_balance (get_asset_type (mpt_host env) tsc) a"
    and "get_count (mpt_host env) tsc \<le> get_balance (get_asset_type (mpt_host env) tsc) a"
    and "get_tx_nonce (mpt_host env) tsc = nonce a + 1"
    and "outs tsc = [\<lparr>receiver = r, out_count = x\<rparr>, \<lparr>receiver = r2, out_count = get_count (mpt_host env) tsc - x\<rparr>]"
    and "mpt_map (in_trie s) r = None" "r \<noteq> r2"
  shows "check_block_body env md5 \<lparr>transactions = [tsc], affairs = []\<rparr> flt (in_trie s) = Inr (in_trie s, True) \<and>
    (\<exists>s' b. exec_txs env md5 [tsc] s = (s', Inr ()) \<and> mpt_map (in_trie s') r = Some b \<and>
      get_balance (get_asset_type (mpt_host env) tsc) b = x)"
proof -
  let ?h = "mpt_host env" and ?m = "mpt_map (in_trie s)"
  let ?ty = "get_asset_type ?h tsc"
  have "sum_outs tsc = get_count ?h tsc" by (simp add: sum_outs_def assms(9))
  then have "check_block_body env md5 \<lparr>transactions = [tsc], affairs = []\<rparr> flt (in_trie s) = Inr (in_trie s, True)"
    using accept_transfer [OF assms(1) _ assms(4,3)] assms(2,7,8)
    by (simp add: check_block_body_def wf_tx_def check_receipt_def check_nonce_def Let_def)
  moreover have o: "ordered (balances a)" using assms(5) by (simp add: wf_account_def)
  obtain c where c: "reduce_balance ?ty (get_count ?h tsc) a = Some c"
    using assms(6) leD [OF assms(7)] wf_no_asset [OF assms(5), of ?ty] by (simp add: reduce_balance_cases [OF o] word_gt_0)
  obtain m' where m': "ledger_txs ?h md5 [tsc] (?m, in_filter s) = Some (m', in_filter s)"
    "m' = fold (ledger_pay ?ty) (outs tsc) (?m(get_sender tsc \<mapsto> set_nonce (get_tx_nonce ?h tsc + 1) c))"
    using assms(3,4) c by (simp add: ledger_tx_def is_transfer_def ledger_append_def)
  have "r \<noteq> get_sender tsc" using assms(4,10) by auto
  then have "m' r = Some (add_balance ?ty x (new_account r 0))"
    using assms(10,11) by (simp add: m'(2) assms(9) ledger_pay_def)
  moreover have "get_balance ?ty (add_balance ?ty x (new_account r 0)) = x"
    by (simp add: get_balance_def add_balance_def new_account_def)
  moreover have "stands env s ?m" using assms(1) by (simp add: stands_def)
  ultimately show ?thesis using exec_txs_ok [OF _ _ m'(1)] assms(2) by (fastforce simp: stands_def)
qed

definition sample_forgery :: transaction where
  "sample_forgery = push_output (sample_key 3) (5 - 1000000) (push_output (sample_key 2) 1000000
     (append_transaction LittleEndian (replicate 64 0) (sample_key 1) 4 5 1 0 1 Append V0001))"

lemma sample_forgery_fields:
  "get_sender sample_forgery = sample_key 1" "get_transaction_operator sample_forgery = Append"
  "get_asset_type LittleEndian sample_forgery = 1" "get_count LittleEndian sample_forgery = 5"
  "get_tx_nonce LittleEndian sample_forgery = 4"
  "outs sample_forgery = [\<lparr>receiver = sample_key 2, out_count = 1000000\<rparr>, \<lparr>receiver = sample_key 3, out_count = 5 - 1000000\<rparr>]"
  by (simp_all add: sample_forgery_def append_transaction_read Bytes_def)

theorem wrapped_outputs_forge_assets_witness:
  "\<exists>t s' b. mpt_run sample_env [Insert (sample_key 1) sample_account] = Some t \<and>
     exec_txs sample_env (\<lambda>bs. replicate 16 0) [sample_forgery] (executing t) = (s', Inr ()) \<and>
     mpt_map (in_trie s') (sample_key 2) = Some b \<and> get_balance 1 b = 1000000"
proof -
  obtain t where t: "mpt_run sample_env [Insert (sample_key 1) sample_account] = Some t" "mpt_inv sample_env t"
    "mpt_map t = [sample_key 1 \<mapsto> sample_account]" using sample_run by blast
  have h: "mpt_host sample_env = LittleEndian" by (simp add: sample_env_def)
  have b: "get_balance 1 sample_account = 500" "nonce sample_account = 3" by (simp_all add: get_balance_def sample_account_def)
  have "check_block_body sample_env (\<lambda>bs. replicate 16 0) \<lparr>transactions = [sample_forgery], affairs = []\<rparr> new_filter (in_trie (executing t)) =
      Inr (in_trie (executing t), True) \<and>
    (\<exists>s' b. exec_txs sample_env (\<lambda>bs. replicate 16 0) [sample_forgery] (executing t) = (s', Inr ()) \<and>
      mpt_map (in_trie s') (sample_key 2) = Some b \<and> get_balance (get_asset_type (mpt_host sample_env) sample_forgery) b = 1000000)"
    by (rule wrapped_outputs_forge_assets [where a = sample_account and ?r2.0 = "sample_key 3"])
       (simp_all add: t h sample_forgery_fields wf_tx_def is_transfer_def b wf_sample_account)
  then show ?thesis using t(1) unfolding h sample_forgery_fields by blast
qed

text \<open>
  C33 An accepted block that cannot be executed. The receipts add up the whole block before they compare,
  so a transfer of an asset that the sender establishes later in the same block is accepted, and
  the execution, which goes through the block in order, throws at the transfer.
\<close>

theorem accepted_block_fails:
  assumes "mpt_inv env (in_trie s)" "wf_tx tsc" "is_transfer tsc"
    and "mpt_map (in_trie s) (get_sender tsc) = Some a" "wf_state (mpt_map (in_trie s))"
    and "get_balance (get_asset_type (mpt_host env) tsc) a = 0" "unat (nonce a) + 2 < 2 ^ 64"
    and "get_count (mpt_host env) tsc \<le> ASSET_MAX_COUNT" "sum_outs tsc = get_count (mpt_host env) tsc"
    and "get_tx_nonce (mpt_host env) tsc = nonce a + 1"
    and "get_transaction_operator est = Establish" "get_sender est = get_sender tsc"
    and "get_asset_type (mpt_host env) est = get_asset_type (mpt_host env) tsc"
    and "get_tx_nonce (mpt_host env) est = nonce a + 2"
    and "\<not> bloom_test md5 (mpt_host env) flt (get_asset_type (mpt_host env) tsc)"
  shows "check_block_body env md5 \<lparr>transactions = [tsc, est], affairs = []\<rparr> flt (in_trie s) = Inr (in_trie s, True) \<and>
    (\<exists>s' code. exec_txs env md5 [tsc, est] s = (s', Inl (ChainDb code)))"
proof -
  let ?h = "mpt_host env" and ?m = "mpt_map (in_trie s)"
  let ?ty = "get_asset_type ?h tsc"
  have w: "wf256 (get_sender tsc)" "wf_account a" using assms(2,4,5) by (auto simp: wf_tx_def wf_state_def)
  have "unat (nonce a + 1) = unat (nonce a) + 1" "unat (nonce a + 2) = unat (nonce a) + 2"
    using assms(7) by (simp_all add: unat_add_64)
  then have "sort [nonce a + 1, nonce a + 2] = [nonce a + 1, nonce a + 2]" by (simp add: word_le_nat_alt)
  then have "check_block_body env md5 \<lparr>transactions = [tsc, est], affairs = []\<rparr> flt (in_trie s) = Inr (in_trie s, True)"
    using accept_transfer [OF assms(1) w(1) assms(4,3,9)] mpt_search_ok [OF assms(1) w(1)] assms(6,8,10-15)
    by (simp add: check_block_body_def check_tx_def [of env md5 est] checked_def check_establish_def add_available_def add_nonce_def
        check_receipt_def check_nonce_def Let_def add.assoc)
  moreover have "ledger_tx ?h md5 tsc (?m, in_filter s) = None"
    using assms(3,4,6) wf_no_asset [OF w(2), of ?ty]
    by (simp add: ledger_tx_def is_transfer_def ledger_append_def reduce_balance_def)
  then have "\<exists>s' code. exec_tx env md5 tsc s = (s', Inl (ChainDb code))"
    using exec_tx_ok [of env s ?m tsc md5] assms(1,2,5) by (auto simp: stands_def)
  then have "\<exists>s' code. exec_txs env md5 [tsc, est] s = (s', Inl (ChainDb code))" by (auto simp: seq_def andthen_def)
  ultimately show ?thesis by blast
qed

definition sample_spend :: transaction where
  "sample_spend = push_output (sample_key 2) 5
     (append_transaction LittleEndian (replicate 64 0) (sample_key 1) 4 5 77 0 1 Append V0001)"

definition sample_establish :: transaction where
  "sample_establish = append_transaction LittleEndian (replicate 64 0) (sample_key 1) 5 0 77 0 1 Establish V0001"

lemma sample_spend_fields:
  "get_sender sample_spend = sample_key 1" "get_transaction_operator sample_spend = Append"
  "get_asset_type LittleEndian sample_spend = 77" "get_count LittleEndian sample_spend = 5"
  "get_tx_nonce LittleEndian sample_spend = 4" "outs sample_spend = [\<lparr>receiver = sample_key 2, out_count = 5\<rparr>]"
  "get_sender sample_establish = sample_key 1" "get_transaction_operator sample_establish = Establish"
  "get_asset_type LittleEndian sample_establish = 77" "get_tx_nonce LittleEndian sample_establish = 5"
  by (simp_all add: sample_spend_def sample_establish_def append_transaction_read Bytes_def)

theorem accepted_block_fails_witness:
  "\<exists>t s' code. mpt_run sample_env [Insert (sample_key 1) sample_account] = Some t \<and>
     exec_txs sample_env (\<lambda>bs. replicate 16 0) [sample_spend, sample_establish] (executing t) = (s', Inl (ChainDb code))"
proof -
  obtain t where t: "mpt_run sample_env [Insert (sample_key 1) sample_account] = Some t" "mpt_inv sample_env t"
    "mpt_map t = [sample_key 1 \<mapsto> sample_account]" using sample_run by blast
  have h: "mpt_host sample_env = LittleEndian" by (simp add: sample_env_def)
  have b: "get_balance 77 sample_account = 0" "nonce sample_account = 3" by (simp_all add: get_balance_def sample_account_def)
  have n: "\<not> bloom_test (\<lambda>bs. replicate 16 0) LittleEndian new_filter 77"
    by (simp add: bloom_test_def new_filter_def get_bits_places_def Let_def)
  have "check_block_body sample_env (\<lambda>bs. replicate 16 0) \<lparr>transactions = [sample_spend, sample_establish], affairs = []\<rparr>
      new_filter (in_trie (executing t)) = Inr (in_trie (executing t), True) \<and>
    (\<exists>s' code. exec_txs sample_env (\<lambda>bs. replicate 16 0) [sample_spend, sample_establish] (executing t) = (s', Inl (ChainDb code)))"
    by (rule accepted_block_fails [where a = sample_account])
       (simp_all add: t h sample_spend_fields wf_tx_def is_transfer_def b wf_sample_state n sum_outs_def ASSET_MAX_COUNT_def)
  then show ?thesis using t(1) by blast
qed

end
