(* ===== verification/Ledger_Rollback.thy ===== *)
theory Ledger_Rollback
  imports Block_Accept
begin

text \<open>
  The operations that take a transaction back (\<open>append_created_rollback\<close> and \<open>execute_rollback\<close> of
  \<open>src/include/db/connector_account.cpp\<close>) on the map of the accounts, and what they restore.
\<close>

section \<open>Undo operations on the ledger\<close>

definition undo_step :: "rollback_operation \<Rightarrow> state \<Rightarrow> state option" where
  "undo_step otp m =
     (let key = target_address otp
      in case rop_type otp of
           INSERT \<Rightarrow> Some m
         | DELETE_ACCOUNT \<Rightarrow> Some (m(key := None))
         | UPDATE \<Rightarrow>
             (case m key of
                None \<Rightarrow> Some m
              | Some a \<Rightarrow>
                  (case update_type otp of
                     UPDATE_ADD \<Rightarrow> Some (m(key \<mapsto> set_nonce (nonce a - 1) (add_balance (rop_asset otp) (rop_value otp) a)))
                   | UPDATE_DELETE_ASSET \<Rightarrow> Some (m(key \<mapsto> set_nonce (nonce a - 1) (delete_asset (rop_asset otp) a)))
                   | UPDATE_REDUCE \<Rightarrow> map_option (\<lambda>b. m(key \<mapsto> b)) (reduce_balance (rop_asset otp) (rop_value otp) a)
                   | NO_UPDATE \<Rightarrow> Some m))
         | ONLY_REDUCE_NONCE \<Rightarrow>
             (case m key of None \<Rightarrow> Some m | Some a \<Rightarrow> Some (m(key \<mapsto> set_nonce (nonce a - 1) a))))"

primrec undo_steps :: "rollback_operation list \<Rightarrow> state \<Rightarrow> state option" where
  "undo_steps [] m = Some m"
| "undo_steps (otp # rtp) m = Option.bind (undo_step otp m) (undo_steps rtp)"

lemma erase_run:
  assumes "stands env s m" "wf256 key"
  obtains t where "on_trie (mpt_erase env key) s = (s\<lparr>in_trie := t\<rparr>, Inr (m key \<noteq> None))"
    "stands env (s\<lparr>in_trie := t\<rparr>) (m(key := None))"
  using assms mpt_erase_ok [of env "in_trie s" key] on_trie_Inr [of "mpt_erase env key" s] by (auto simp: stands_def)

lemma mark_update:
  assumes "stands env s m" "wf256 key" "m key = Some a" "cont (Some a) = write_account key f"
  shows "\<exists>s'. andthen (on_trie (search_and_mark env key)) cont s = (s', Inr ()) \<and> stands env s' (m(key \<mapsto> f a))"
proof -
  obtain t where t: "on_trie (search_and_mark env key) s = (s\<lparr>in_trie := t\<rparr>, Inr (m key))" "stands_at env key (s\<lparr>in_trie := t\<rparr>) m"
    using mark_run [OF assms(1,2)] .
  obtain t' where t': "write_account key f (s\<lparr>in_trie := t\<rparr>) = (s\<lparr>in_trie := t, in_trie := t'\<rparr>, Inr ())"
    "stands_at env key (s\<lparr>in_trie := t, in_trie := t'\<rparr>) (m(key := map_option f (m key)))" using write_run [OF t(2) assms(2)] .
  show ?thesis using t(1) t'(1) stands_weaken [OF t'(2)] assms(3,4) by (simp add: andthen_def)
qed

lemma mark_skip:
  assumes "stands env s m" "wf256 key" "cont (m key) = ret ()"
  shows "\<exists>s'. andthen (on_trie (search_and_mark env key)) cont s = (s', Inr ()) \<and> stands env s' m"
proof -
  obtain t where t: "on_trie (search_and_mark env key) s = (s\<lparr>in_trie := t\<rparr>, Inr (m key))" "stands_at env key (s\<lparr>in_trie := t\<rparr>) m"
    using mark_run [OF assms(1,2)] .
  then show ?thesis using stands_weaken [OF t(2)] assms(3) by (simp add: andthen_def ret_def)
qed

lemma rollback_step_ok:
  assumes "stands env s m" "wf256 (target_address otp)" "undo_step otp m = Some m'"
  shows "\<exists>s'. rollback_step env otp s = (s', Inr ()) \<and> stands env s' m'"
proof (cases "rop_type otp")
  case INSERT
  then show ?thesis using assms by (simp add: rollback_step_def undo_step_def ret_def)
next
  case DELETE_ACCOUNT
  obtain t where "on_trie (mpt_erase env (target_address otp)) s = (s\<lparr>in_trie := t\<rparr>, Inr (m (target_address otp) \<noteq> None))"
    "stands env (s\<lparr>in_trie := t\<rparr>) (m(target_address otp := None))" using erase_run [OF assms(1,2)] .
  then show ?thesis using DELETE_ACCOUNT assms(3) by (simp add: rollback_step_def undo_step_def ret_def andthen_def)
next
  case ONLY_REDUCE_NONCE
  let ?k = "target_address otp"
  let ?cont = "\<lambda>act. case act of None \<Rightarrow> ret () | Some a \<Rightarrow> write_account ?k (set_nonce (nonce a - 1))"
  have e: "rollback_step env otp = andthen (on_trie (search_and_mark env ?k)) ?cont"
    using ONLY_REDUCE_NONCE by (simp add: rollback_step_def Let_def)
  show ?thesis
  proof (cases "m ?k")
    case None
    then show ?thesis
      using mark_skip [OF assms(1,2), of ?cont] assms(3) ONLY_REDUCE_NONCE by (simp add: e undo_step_def)
  next
    case (Some a)
    then show ?thesis
      using mark_update [OF assms(1,2) Some, of ?cont "set_nonce (nonce a - 1)"] assms(3) ONLY_REDUCE_NONCE
      by (simp add: e undo_step_def)
  qed
next
  case UPDATE
  let ?k = "target_address otp"
  obtain cont where e: "rollback_step env otp = andthen (on_trie (search_and_mark env ?k)) cont" "cont None = ret ()"
    "\<And>a. cont (Some a) = (case update_type otp of
       UPDATE_ADD \<Rightarrow> write_account ?k (\<lambda>_. set_nonce (nonce a - 1) (add_balance (rop_asset otp) (rop_value otp) a))
     | UPDATE_DELETE_ASSET \<Rightarrow> write_account ?k (\<lambda>_. set_nonce (nonce a - 1) (delete_asset (rop_asset otp) a))
     | UPDATE_REDUCE \<Rightarrow> (case reduce_balance (rop_asset otp) (rop_value otp) a of
         None \<Rightarrow> throw (StdException MptRuntimeError) | Some b \<Rightarrow> write_account ?k (\<lambda>_. b))
     | NO_UPDATE \<Rightarrow> ret ())"
    using UPDATE by (simp add: rollback_step_def Let_def)
  have "m' = m \<and> cont (m ?k) = ret () \<or>
      (\<exists>a b. m ?k = Some a \<and> m' = m(?k \<mapsto> b) \<and> cont (Some a) = write_account ?k (\<lambda>_. b))"
    using assms(3) UPDATE
    by (cases "m ?k"; cases "update_type otp") (auto simp: undo_step_def e(2,3))
  then show ?thesis
    using mark_skip [OF assms(1,2), of cont] mark_update [OF assms(1,2), of _ cont] unfolding e(1) by blast
qed

lemma execute_rollback_ok:
  assumes "stands env s m" "\<forall>otp \<in> set ops. wf256 (target_address otp)" "undo_steps ops m = Some m'"
  shows "\<exists>s'. execute_rollback env ops s = (s', Inr ()) \<and> stands env s' m'"
  using assms
proof (induction ops arbitrary: s m)
  case (Cons otp ops)
  obtain m1 where m1: "undo_step otp m = Some m1" "undo_steps ops m1 = Some m'"
    using Cons.prems(3) by (auto simp: Option.bind_eq_Some_conv)
  obtain s1 where s1: "rollback_step env otp s = (s1, Inr ())" "stands env s1 m1"
    using rollback_step_ok [OF Cons.prems(1) _ m1(1)] Cons.prems(2) by auto
  then show ?case using Cons.IH [OF s1(2) _ m1(2)] Cons.prems(2) by (simp add: seq_def andthen_def)
qed (simp add: ret_def)

section \<open>Taking a transfer back\<close>

text \<open>
  The accounts \<open>m1\<close> are those of \<open>m\<close> with the nonces \<open>n\<close> and the amounts of the outputs \<open>os\<close> added; accounts
  that \<open>m\<close> does not have are receivers of \<open>os\<close>.
\<close>

definition with_outs :: "u32 \<Rightarrow> state \<Rightarrow> (uint256 \<Rightarrow> u64) \<Rightarrow> out_entry list \<Rightarrow> state \<Rightarrow> bool" where
  "with_outs ty m n os m1 \<longleftrightarrow> in_order m1 \<and> (\<forall>k. m k = None \<longrightarrow> m1 k \<noteq> None \<longrightarrow> k \<in> receiver ` set os) \<and>
     (\<forall>k. m k \<noteq> None \<longrightarrow> map_option nonce (m1 k) = Some (n k) \<and>
       (\<forall>ty'. balance_of ty' m1 k = balance_of ty' m k + (if ty' = ty then paid k os else 0)))"

lemma in_order_delete: "in_order m \<Longrightarrow> in_order (m(k := None))"
  by (simp add: in_order_def)

lemma undo_out_ok:
  assumes "with_outs ty m n (out # os) m1" "0 < out_count out"
  shows "\<exists>m2. undo_step (undo_out m ty out) m1 = Some m2 \<and> with_outs ty m n os m2"
proof (cases "m (receiver out)")
  case None
  then have "undo_step (undo_out m ty out) m1 = Some (m1(receiver out := None))" by (simp add: undo_step_def undo_out_def)
  moreover have "with_outs ty m n os (m1(receiver out := None))"
    using assms(1) None unfolding with_outs_def by (auto simp: in_order_delete balance_of_def)
  ultimately show ?thesis by blast
next
  case (Some a)
  let ?k = "receiver out"
  have w: "in_order m1" "map_option nonce (m1 ?k) = Some (n ?k)"
    "balance_of ty' m1 ?k = balance_of ty' m ?k + (if ty' = ty then paid ?k (out # os) else 0)" for ty'
    using assms(1) Some unfolding with_outs_def by blast+
  obtain a1 where a1: "m1 ?k = Some a1" "nonce a1 = n ?k" using w(2) by auto
  have o: "ordered (balances a1)" using w(1) a1(1) by (simp add: in_order_def)
  have g: "unat (get_balance ty a1) = balance_of ty m ?k + unat (out_count out) + paid ?k os"
    using w(3) [of ty] a1(1) by (simp add: balance_of_def)
  then have "0 < unat (get_balance ty a1)" using assms(2) by (simp add: word_less_nat_alt)
  then have "map_of (balances a1) ty \<noteq> None" by (auto simp: get_balance_def split: option.splits)
  then obtain b where b: "reduce_balance ty (out_count out) a1 = Some b"
    using g by (auto simp: reduce_balance_cases [OF o] word_less_nat_alt)
  note r = reduce_ok [OF b o]
  have u: "undo_step (undo_out m ty out) m1 = Some (m1(?k \<mapsto> b))" using Some a1(1) b by (simp add: undo_step_def undo_out_def)
  have bal: "balance_of ty' (m1(?k \<mapsto> b)) k = balance_of ty' m k + (if ty' = ty then paid k os else 0)" if "m k \<noteq> None" for k ty'
  proof (cases "k = ?k")
    case True
    then show ?thesis
      using r(1) r(4) [of ty'] w(3) [of ty'] a1(1) g by (cases "ty' = ty") (simp_all add: balance_of_def unat_sub word_le_nat_alt)
  next
    case False
    then show ?thesis using assms(1) that unfolding with_outs_def by (simp add: balance_of_def)
  qed
  have "k \<in> receiver ` set os" if "m k = None" "(m1(?k \<mapsto> b)) k \<noteq> None" for k
  proof -
    have "k \<noteq> ?k" using that(1) Some by auto
    then have "m1 k \<noteq> None" using that(2) by simp
    then show ?thesis using assms(1) that(1) \<open>k \<noteq> ?k\<close> unfolding with_outs_def by auto
  qed
  moreover have "map_option nonce ((m1(?k \<mapsto> b)) k) = Some (n k)" if "m k \<noteq> None" for k
    using assms(1) that a1(2) r(3) unfolding with_outs_def by auto
  ultimately have "with_outs ty m n os (m1(?k \<mapsto> b))"
    unfolding with_outs_def using bal in_order_upd [OF w(1) r(2)] by blast
  then show ?thesis using u by blast
qed

lemma undo_outs_ok:
  assumes "with_outs ty m n os m1" "\<forall>out \<in> set os. 0 < out_count out"
  shows "\<exists>m2. undo_steps (map (undo_out m ty) os) m1 = Some m2 \<and> with_outs ty m n [] m2"
  using assms
proof (induction os arbitrary: m1)
  case (Cons out os)
  obtain m2 where "undo_step (undo_out m ty out) m1 = Some m2" "with_outs ty m n os m2"
    using undo_out_ok [OF Cons.prems(1)] Cons.prems(2) by auto
  then show ?case using Cons.IH [of m2] Cons.prems(2) by simp
qed simp

lemma pays_dom: "dom (fold (ledger_pay ty) os m) \<subseteq> dom m \<union> receiver ` set os"
proof (induction os arbitrary: m)
  case (Cons out os)
  have "dom (ledger_pay ty out m) = insert (receiver out) (dom m)" by (simp add: ledger_pay_def)
  then show ?case using Cons.IH [of "ledger_pay ty out m"] by auto
qed simp

lemma pays_nonce: "m k = Some a \<Longrightarrow> map_option nonce (fold (ledger_pay ty) os m k) = Some (nonce a)"
proof (induction os arbitrary: m a)
  case (Cons out os)
  have "\<exists>b. ledger_pay ty out m k = Some b \<and> nonce b = nonce a"
    using Cons.prems by (auto simp: ledger_pay_def add_balance_def split: option.splits)
  then show ?case using Cons.IH by fastforce
qed simp

lemma transfer_with_outs:
  assumes "in_order m" "ledger_append h tsc m = Some m'" "is_transfer tsc"
    and "\<And>k. balance_of (get_asset_type h tsc) m k + paid k (outs tsc) < 2 ^ 64"
  shows "\<exists>m1. undo_steps (undo_list h tsc m) m' = undo_steps (map (undo_out m (get_asset_type h tsc)) (outs tsc)) m1 \<and>
    with_outs (get_asset_type h tsc) m (\<lambda>k. if k = get_sender tsc then get_tx_nonce h tsc else nonce (the (m k))) (outs tsc) m1"
proof -
  let ?ty = "get_asset_type h tsc" and ?k = "get_sender tsc" and ?c = "get_count h tsc" and ?n = "get_tx_nonce h tsc"
  obtain a b where ab: "m ?k = Some a" "reduce_balance ?ty ?c a = Some b"
    "m' = fold (ledger_pay ?ty) (outs tsc) (m(?k \<mapsto> set_nonce (?n + 1) b))"
    using assms(2) by (auto simp: ledger_append_def Option.bind_eq_Some_conv)
  let ?m = "m(?k \<mapsto> set_nonce (?n + 1) b)"
  have o: "ordered (balances a)" using assms(1) ab(1) by (simp add: in_order_def)
  note r = reduce_ok [OF ab(2) o]
  have i: "in_order ?m" using in_order_upd [OF assms(1)] r(2) by simp
  have d: "balance_of ty ?m k + (if ty = ?ty \<and> k = ?k then unat ?c else 0) = balance_of ty m k" for ty k
    using ab(1) r(1) r(4) [of ty] by (auto simp: balance_of_def unat_sub word_le_nat_alt)
  have w: "balance_of ?ty ?m k + paid k (outs tsc) < 2 ^ 64" for k using assms(4) [of k] d [of ?ty k] by linarith
  have p: "balance_of ty m' k = balance_of ty ?m k + (if ty = ?ty then paid k (outs tsc) else 0)" for ty k
    using pays_balance [OF i, of ty ?ty "outs tsc" k] w ab(3) by blast
  have "map_option nonce (m' ?k) = Some (?n + 1)"
    using pays_nonce [of ?m ?k "set_nonce (?n + 1) b" ?ty "outs tsc"] ab(3) by simp
  then obtain a' where a': "m' ?k = Some a'" "nonce a' = ?n + 1" by auto
  have o': "ordered (balances a')" using pays_in_order [OF i] a'(1) ab(3) by (simp add: in_order_def)
  let ?b = "set_nonce (nonce a' - 1) (add_balance ?ty ?c a')"
  have "undo_steps (undo_list h tsc m) m' = undo_steps (map (undo_out m ?ty) (outs tsc)) (m'(?k \<mapsto> ?b))"
    using assms(3) a'(1) by (simp add: undo_list_def is_transfer_def undo_step_def Let_def)
  moreover have "balance_of ty (m'(?k \<mapsto> ?b)) k = balance_of ty m k + (if ty = ?ty then paid k (outs tsc) else 0)" for ty k
  proof (cases "k = ?k \<and> ty = ?ty")
    case True
    have "unat (get_balance ?ty a') + unat ?c = balance_of ?ty m ?k + paid ?k (outs tsc)"
      using p [of ?ty ?k] d [of ?ty ?k] a'(1) by (simp add: balance_of_def)
    then have "unat (get_balance ?ty a' + ?c) = balance_of ?ty m ?k + paid ?k (outs tsc)"
      using assms(4) [of ?k] by (simp add: unat_add_64)
    then show ?thesis using True by (simp add: balance_of_upd get_add_balance [OF o'])
  next
    case False
    then show ?thesis using p [of ty k] d [of ty k] a'(1) by (auto simp: balance_of_def get_add_balance [OF o'])
  qed
  moreover have "in_order (m'(?k \<mapsto> ?b))"
    using in_order_upd [OF pays_in_order [OF i]] ordered_add_balance [OF o'] ab(3) by simp
  moreover have "k \<in> receiver ` set (outs tsc)" if "m k = None" "(m'(?k \<mapsto> ?b)) k \<noteq> None" for k
    using that pays_dom [of ?ty "outs tsc" ?m] ab(1,3) by (auto split: if_splits)
  moreover have "map_option nonce ((m'(?k \<mapsto> ?b)) k) = Some (if k = ?k then ?n else nonce (the (m k)))" if "m k \<noteq> None" for k
    using that a'(2) pays_nonce [of ?m k] ab(3) by auto
  ultimately show ?thesis unfolding with_outs_def by (intro exI [of _ "m'(?k \<mapsto> ?b)"]) blast
qed

text \<open>
  C11 Taking a transfer back. After a transfer with positive outputs that overflow no balance, the
  operations recorded for it are executed without an exception and restore every balance; the
  accounts the transfer made are gone and no other account is. The nonces are those from before,
  but that of the sender is the nonce of the transaction: the execution sets it to one more, and
  the operation takes one off.
\<close>

theorem rollback_restores_transfer:
  assumes "mpt_inv env (in_trie s)" "wf_state (mpt_map (in_trie s))" "wf_tx tsc" "is_transfer tsc" "in_storage s = []"
    and "exec_tx env md5 tsc s = (s1, Inr ())" "\<forall>out \<in> set (outs tsc). 0 < out_count out"
    and "\<forall>k. balance_of (get_asset_type (mpt_host env) tsc) (mpt_map (in_trie s)) k + paid k (outs tsc) < 2 ^ 64"
  shows "\<exists>s2. execute_rollback env (in_storage s1) s1 = (s2, Inr ()) \<and> mpt_inv env (in_trie s2) \<and>
    dom (mpt_map (in_trie s2)) = dom (mpt_map (in_trie s)) \<and>
    (\<forall>ty k. balance_of ty (mpt_map (in_trie s2)) k = balance_of ty (mpt_map (in_trie s)) k) \<and>
    (\<forall>k a. mpt_map (in_trie s) k = Some a \<longrightarrow> map_option nonce (mpt_map (in_trie s2) k) =
      Some (if k = get_sender tsc then get_tx_nonce (mpt_host env) tsc else nonce a))"
proof -
  let ?m = "mpt_map (in_trie s)" and ?h = "mpt_host env"
  let ?ty = "get_asset_type ?h tsc" and ?n = "\<lambda>k. if k = get_sender tsc then get_tx_nonce ?h tsc else nonce (the (?m k))"
  have i: "in_order ?m" using assms(2) by (simp add: in_order_def wf_state_def wf_account_def)
  have "stands env s ?m" using assms(1) by (simp add: stands_def)
  from exec_tx_ok [OF this assms(3), of md5]
  obtain m' where m': "ledger_append ?h tsc ?m = Some m'" "stands env s1 m'" "in_storage s1 = undo_list ?h tsc ?m"
    using assms(2,4-6) by (auto simp: ledger_tx_def is_transfer_def split: option.splits)
  obtain m1 where m1: "undo_steps (undo_list ?h tsc ?m) m' = undo_steps (map (undo_out ?m ?ty) (outs tsc)) m1"
    "with_outs ?ty ?m ?n (outs tsc) m1"
    using transfer_with_outs [OF i m'(1) assms(4)] assms(8) by blast
  obtain m2 where m2: "undo_steps (undo_list ?h tsc ?m) m' = Some m2" "with_outs ?ty ?m ?n [] m2"
    using undo_outs_ok [OF m1(2) assms(7)] m1(1) by auto
  have "\<forall>otp \<in> set (undo_list ?h tsc ?m). wf256 (target_address otp)"
    using assms(3,4) by (auto simp: undo_list_def undo_out_def is_transfer_def wf_tx_def Let_def)
  then obtain s2 where s2: "execute_rollback env (in_storage s1) s1 = (s2, Inr ())" "stands env s2 m2"
    using execute_rollback_ok [OF m'(2) _ m2(1)] m'(3) by auto
  have "dom m2 = dom ?m"
  proof (intro set_eqI)
    show "k \<in> dom m2 \<longleftrightarrow> k \<in> dom ?m" for k using m2(2) unfolding with_outs_def by (cases "?m k") auto
  qed
  moreover have "balance_of ty m2 k = balance_of ty ?m k" for ty k
  proof (cases "?m k")
    case None
    then have "m2 k = None" using calculation by auto
    then show ?thesis using None by (simp add: balance_of_def)
  qed (use m2(2) in \<open>auto simp: with_outs_def\<close>)
  moreover have "map_option nonce (m2 k) = Some (if k = get_sender tsc then get_tx_nonce ?h tsc else nonce a)"
    if "?m k = Some a" for k a
    using m2(2) that unfolding with_outs_def by force
  ultimately show ?thesis using s2 by (auto simp: stands_def)
qed

theorem rollback_restores_transfer_witness:
  "\<exists>t s1 s2. mpt_run sample_env [Insert (sample_key 1) sample_account] = Some t \<and>
     exec_tx sample_env (\<lambda>bs. replicate 16 0) sample_transfer (executing t) = (s1, Inr ()) \<and>
     execute_rollback sample_env (in_storage s1) s1 = (s2, Inr ()) \<and>
     balance_of 1 (mpt_map (in_trie s2)) (sample_key 1) = 500 \<and>
     map_option nonce (mpt_map (in_trie s2) (sample_key 1)) = Some 4"
proof -
  obtain t where t: "mpt_run sample_env [Insert (sample_key 1) sample_account] = Some t" "mpt_inv sample_env t"
    "mpt_map t = [sample_key 1 \<mapsto> sample_account]" using sample_run by blast
  have h: "mpt_host sample_env = LittleEndian" by (simp add: sample_env_def)
  have b: "balance_of 1 (mpt_map t) k = (if k = sample_key 1 then 500 else 0)" for k
    by (simp add: t(3) balance_of_def sample_account_def get_balance_def)
  have "stands sample_env (executing t) (mpt_map t)" using t(2) by (simp add: stands_def)
  then obtain s1 where s1: "exec_tx sample_env (\<lambda>bs. replicate 16 0) sample_transfer (executing t) = (s1, Inr ())"
    using exec_tx_ok [of sample_env "executing t" "mpt_map t" sample_transfer "\<lambda>bs. replicate 16 0"] wf_sample_transfer
    by (auto simp: h t(3) sample_transfer_tx)
  have "\<exists>s2. execute_rollback sample_env (in_storage s1) s1 = (s2, Inr ()) \<and> mpt_inv sample_env (in_trie s2) \<and>
    dom (mpt_map (in_trie s2)) = dom (mpt_map (in_trie (executing t))) \<and>
    (\<forall>ty k. balance_of ty (mpt_map (in_trie s2)) k = balance_of ty (mpt_map (in_trie (executing t))) k) \<and>
    (\<forall>k a. mpt_map (in_trie (executing t)) k = Some a \<longrightarrow> map_option nonce (mpt_map (in_trie s2) k) =
      Some (if k = get_sender sample_transfer then get_tx_nonce (mpt_host sample_env) sample_transfer else nonce a))"
    by (rule rollback_restores_transfer [OF _ _ wf_sample_transfer _ _ s1])
       (use t(2,3) wf_sample_state b in \<open>simp_all add: h sample_transfer_fields is_transfer_def\<close>)
  then obtain s2 where s2: "execute_rollback sample_env (in_storage s1) s1 = (s2, Inr ())"
    "balance_of 1 (mpt_map (in_trie s2)) (sample_key 1) = balance_of 1 (mpt_map t) (sample_key 1)"
    "map_option nonce (mpt_map (in_trie s2) (sample_key 1)) = Some (get_tx_nonce LittleEndian sample_transfer)"
    unfolding executing_simps h sample_transfer_fields(1) t(3) by (metis fun_upd_same)
  then show ?thesis using t(1) s1 b [of "sample_key 1"] unfolding sample_transfer_fields(5) by auto
qed

end
