(* ===== verification/Connector_Block.thy ===== *)
theory Connector_Block
  imports Connector_Account Block_Package Merkle_Tree Deserialize_View
begin

text \<open>
  The blocks of the chain (\<open>src/include/db/connector_block.cpp\<close>, \<open>src/include/application/application_state.cpp\<close>) and
  the interface of the database (\<open>src/include/db/interface_db.cpp\<close>): blocks wait in a cache, are written to
  LevelDB under their height and read back, the header of the next block is made from its body, and
  expired transactions are removed from the pools. A database is a map, absent when the pointer is
  null; \<open>ok\<close> is the status that LevelDB gives to a write, and a value that is not found is a
  status that is not ok. The locks of the interface make its calls sequential.
\<close>

section \<open>State of the application\<close>

record application_state =
  as_current_height :: u64
  as_top_block_hash :: uint256
  as_initial_block_hash :: uint256

definition STORE_STATE_KEY :: "byte list" where
  "STORE_STATE_KEY = map (of_char :: char \<Rightarrow> byte) ''____CHAIN___APPLICATION___STATE___KEY____''"

text \<open>\<open>MUSE_IBinarySerializable(current_height, top_block_hash, initial_block_hash)\<close>.\<close>

definition application_state_val :: "application_state \<Rightarrow> sval" where
  "application_state_val st =
     VClass [VUInt64 (as_current_height st), uint256_val (as_top_block_hash st), uint256_val (as_initial_block_hash st)]"

definition application_state_eq :: "application_state \<Rightarrow> application_state \<Rightarrow> bool" where
  "application_state_eq a b \<longleftrightarrow> as_current_height a = as_current_height b \<and>
     uint256_eq (as_initial_block_hash a) (as_initial_block_hash b) \<and> uint256_eq (as_top_block_hash a) (as_top_block_hash b)"

section \<open>The connector\<close>

record connector_block =
  leveldb_blocks :: "leveldb option"
  leveldb_chain :: "leveldb option"
  current_height :: u64
  cb_top_block_hash :: uint256
  initial_block_hash :: uint256
  block_queue :: "block list"
  pools :: queues

datatype block_error = WriteError | BlockSerializer ser_error | AssertFailed | NullPointer

definition new_connector_block :: "leveldb option \<Rightarrow> leveldb option \<Rightarrow> application_state \<Rightarrow> connector_block" where
  "new_connector_block blocks chain_state st =
     \<lparr>leveldb_blocks = blocks, leveldb_chain = chain_state, current_height = as_current_height st,
      cb_top_block_hash = as_top_block_hash st, initial_block_hash = as_initial_block_hash st, block_queue = [],
      pools = \<lparr>transactions_queue = [], affairs_queue = []\<rparr>\<rparr>"

definition update_connector :: "u64 \<Rightarrow> uint256 \<Rightarrow> connector_block \<Rightarrow> connector_block" where
  "update_connector n x c = c\<lparr>current_height := n, cb_top_block_hash := x\<rparr>"

text \<open>\<open>push_back\<close> of a reference copies the block, that of an rvalue moves it.\<close>

definition input_block_cache_copy :: "block \<Rightarrow> connector_block \<Rightarrow> connector_block" where
  "input_block_cache_copy blk c = c\<lparr>block_queue := block_queue c @ [copy_block blk]\<rparr>"

definition input_block_cache_move :: "block \<Rightarrow> connector_block \<Rightarrow> connector_block" where
  "input_block_cache_move blk c = c\<lparr>block_queue := block_queue c @ [move_block blk]\<rparr>"

text \<open>The header of the next block; \<open>None\<close> stands for a root computation that takes from an empty queue.\<close>

definition package_next_block_header ::
  "ByteSequence \<Rightarrow> (byte list \<Rightarrow> byte list) \<Rightarrow> chain_ini \<Rightarrow> uint256 list \<Rightarrow> block \<Rightarrow> connector_block \<Rightarrow> (block \<times> bool) option" where
  "package_next_block_header h sha3 ini blacks blk c =
     (if \<not> counts_ok ini (body blk) then Some (blk, False)
      else let hd0 = (header blk)\<lparr>prev_block_hash := cb_top_block_hash c, height := current_height c + 1\<rparr>
           in Option.bind (if affairs (body blk) \<noteq> []
                then map_option (\<lambda>x. hd0\<lparr>affairs_merkle_root := x\<rparr>)
                       (get_merkle_root_queue sha3 (map (affair_hash h sha3) (affairs (body blk))))
                else Some hd0) (\<lambda>hd1.
              Option.bind (if transactions (body blk) \<noteq> []
                then map_option (\<lambda>x. hd1\<lparr>transactions_merkle_root := x\<rparr>)
                       (get_merkle_root_queue sha3 (map (transaction_hash h sha3) (transactions (body blk))))
                else Some hd1) (\<lambda>hd2.
              Some (blk\<lparr>header := if blacks \<noteq> [] then hd2\<lparr>black_block_hashes := blacks\<rparr> else hd2\<rparr>, True))))"

section \<open>Blocks on disk\<close>

text \<open>
  The objects that a view gives back. The elements of a \<open>std::vector\<close> are read into a local object and
  copied into the vector, so a transaction that is read has no signature.
\<close>

definition u64_of_val :: "sval \<Rightarrow> u64" where
  "u64_of_val v = (case v of VUInt64 w \<Rightarrow> w | _ \<Rightarrow> 0)"

definition uchar_of_val :: "sval \<Rightarrow> byte" where
  "uchar_of_val v = (case v of VUChar b \<Rightarrow> b | _ \<Rightarrow> 0)"

definition char_of_val :: "sval \<Rightarrow> byte" where
  "char_of_val v = (case v of VChar b \<Rightarrow> b | _ \<Rightarrow> 0)"

definition elements_of_val :: "sval \<Rightarrow> sval list" where
  "elements_of_val v = (case v of VVector vs \<Rightarrow> vs | VArray vs \<Rightarrow> vs | VClass vs \<Rightarrow> vs | _ \<Rightarrow> [])"

definition out_entry_of_val :: "sval \<Rightarrow> out_entry" where
  "out_entry_of_val v = (let fs = elements_of_val v in \<lparr>receiver = uint256_of_val (fs ! 0), out_count = u64_of_val (fs ! 1)\<rparr>)"

definition transaction_of_val :: "sval \<Rightarrow> transaction" where
  "transaction_of_val v =
     (let fs = elements_of_val v
      in \<lparr>tx_data = map uchar_of_val (elements_of_val (fs ! 0)), outs = map out_entry_of_val (elements_of_val (fs ! 1)),
          signature = string_of_val (fs ! 2)\<rparr>)"

definition affair_of_val :: "sval \<Rightarrow> affair" where
  "affair_of_val v =
     (let fs = elements_of_val v
      in \<lparr>af_nonce = u64_of_val (fs ! 0), af_owner = uint256_of_val (fs ! 1), af_type = uchar_of_val (fs ! 2),
          af_data = map char_of_val (elements_of_val (fs ! 6)), af_signature = string_of_val (fs ! 3),
          af_create_time = u64_of_val (fs ! 4), af_epoch = uchar_of_val (fs ! 5)\<rparr>)"

definition header_of_val :: "sval \<Rightarrow> block_header" where
  "header_of_val v =
     (let fs = elements_of_val v
      in \<lparr>prev_block_hash = uint256_of_val (fs ! 0), assets_blf_hash = uint256_of_val (fs ! 1),
          transactions_merkle_root = uint256_of_val (fs ! 2), affairs_merkle_root = uint256_of_val (fs ! 3),
          merkle_patricia_trie_root = uint256_of_val (fs ! 4),
          black_block_hashes = map uint256_of_val (elements_of_val (fs ! 5)),
          height = u64_of_val (fs ! 6), create_time = u64_of_val (fs ! 7)\<rparr>)"

definition body_of_val :: "sval \<Rightarrow> block_body" where
  "body_of_val v =
     (let fs = elements_of_val v
      in \<lparr>transactions = map (copy_transaction \<circ> transaction_of_val) (elements_of_val (fs ! 0)),
          affairs = map affair_of_val (elements_of_val (fs ! 1))\<rparr>)"

definition block_of_val :: "sval \<Rightarrow> block" where
  "block_of_val v =
     (let fs = elements_of_val v
      in \<lparr>header = header_of_val (fs ! 0), body = body_of_val (fs ! 1), blk_signature = string_of_val (fs ! 2)\<rparr>)"

definition height_key :: "ByteSequence \<Rightarrow> u64 \<Rightarrow> byte list" where
  "height_key h n = mem_of h n"

text \<open>A block and whether it was found; an exception of the view is passed on.\<close>

definition get_block_by_index :: "ByteSequence \<Rightarrow> u64 \<Rightarrow> connector_block \<Rightarrow> block_error + block \<times> bool" where
  "get_block_by_index h n c =
     (case leveldb_blocks c of
        None \<Rightarrow> Inr (block_default, False)
      | Some db \<Rightarrow>
          (case db (height_key h n) of
             None \<Rightarrow> Inr (block_default, False)
           | Some bs \<Rightarrow>
               (case snd (view_output_val std_ops block_type (make_view h bs (length bs))) of
                  Inl e \<Rightarrow> Inl (BlockSerializer e)
                | Inr v \<Rightarrow> Inr (block_of_val v, True))))"

definition store_index_hash :: "ByteSequence \<Rightarrow> u64 \<Rightarrow> uint256 \<Rightarrow> bool \<Rightarrow> connector_block \<Rightarrow> connector_block \<times> bool" where
  "store_index_hash h n x ok c =
     (case leveldb_chain c of
        None \<Rightarrow> (c, False)
      | Some db \<Rightarrow> if ok then (c\<lparr>leveldb_chain := Some (db(height_key h n \<mapsto> take Width x))\<rparr>, True) else (c, False))"

text \<open>Without a database the flag \<open>success\<close> of the caller is left as it is.\<close>

definition load_hash_by_index :: "ByteSequence \<Rightarrow> u64 \<Rightarrow> bool \<Rightarrow> connector_block \<Rightarrow> block_error + uint256 \<times> bool" where
  "load_hash_by_index h n success c =
     (case leveldb_chain c of
        None \<Rightarrow> Inr (base_binary_default, success)
      | Some db \<Rightarrow>
          (case db (height_key h n) of
             None \<Rightarrow> Inr (base_binary_default, False)
           | Some bs \<Rightarrow> if length bs = Width then Inr (bs, True) else Inl AssertFailed))"

definition serialize_object :: "ByteSequence \<Rightarrow> sval \<Rightarrow> block_error + byte list" where
  "serialize_object h v =
     (case input_val v (new_serializer h) of
        (s, Inl e) \<Rightarrow> Inl (BlockSerializer e)
      | (s, Inr _) \<Rightarrow> Inr (byteStream s))"

definition insert_block_to_levelDB :: "ByteSequence \<Rightarrow> block \<Rightarrow> bool \<Rightarrow> connector_block \<Rightarrow> connector_block \<times> (block_error + bool)" where
  "insert_block_to_levelDB h blk ok c =
     (case leveldb_blocks c of
        None \<Rightarrow> (c, Inr False)
      | Some db \<Rightarrow>
          (case serialize_object h (block_val blk) of
             Inl e \<Rightarrow> (c, Inl e)
           | Inr bs \<Rightarrow>
               if ok then (c\<lparr>leveldb_blocks := Some (db(height_key h (height (header blk)) \<mapsto> bs))\<rparr>, Inr True)
               else (c, Inl WriteError)))"

definition insert_block_save_to_disk ::
  "ByteSequence \<Rightarrow> (byte list \<Rightarrow> byte list) \<Rightarrow> bool \<Rightarrow> bool \<Rightarrow> connector_block \<Rightarrow> connector_block \<times> (block_error + bool)" where
  "insert_block_save_to_disk h sha3 ok1 ok2 c =
     (case block_queue c of
        [] \<Rightarrow> (c, Inr False)
      | blk # rest \<Rightarrow>
          (case insert_block_to_levelDB h blk ok1 c of
             (c1, Inl e) \<Rightarrow> (c1, Inl e)
           | (c1, Inr False) \<Rightarrow> (c1, Inr False)
           | (c1, Inr True) \<Rightarrow>
               let app_state = \<lparr>as_current_height = height (header blk), as_top_block_hash = get_block_hash h sha3 (header blk),
                                as_initial_block_hash = initial_block_hash c1\<rparr>
               in (case serialize_object h (application_state_val app_state) of
                     Inl e \<Rightarrow> (c1, Inl e)
                   | Inr bs \<Rightarrow>
                       (case leveldb_chain c1 of
                          None \<Rightarrow> (c1, Inl NullPointer)
                        | Some db \<Rightarrow>
                            if ok2 then (c1\<lparr>leveldb_chain := Some (db(STORE_STATE_KEY \<mapsto> bs)), block_queue := rest\<rparr>, Inr True)
                            else (c1, Inl WriteError)))))"

section \<open>Opening the accounts\<close>

text \<open>
  The constructor of \<open>connector_account\<close> over the databases. The filter of the assets is read under the
  hash and the height of the top block; \<open>put_ok\<close> is the status of the write that a new trie makes, and
  that write is returned. Data too short for the bit set are read past their end.
\<close>

definition store_of_val :: "sval \<Rightarrow> bloom_filter_store" where
  "store_of_val v =
     (let fs = elements_of_val v
      in \<lparr>store_height = u64_of_val (fs ! 1), store_hash = uint256_of_val (fs ! 0), bloom_filter_data = string_of_val (fs ! 2)\<rparr>)"

definition connector_open ::
  "mpt_env \<Rightarrow> bool \<Rightarrow> leveldb option \<Rightarrow> application_state \<Rightarrow> chain_error + connector_account \<times> (byte list \<times> byte list) option" where
  "connector_open env put_ok assets st =
     (case mpt_open env put_ok of
        None \<Rightarrow> Inl Connector_Account.NoReturn
      | Some (Inl e) \<Rightarrow> Inl (StdException e)
      | Some (Inr (t, w)) \<Rightarrow>
          let c = \<lparr>account_mpt = t, asset_bloom_filter = new_filter, mpt_root_hash = base_binary_default,
                   block_height = as_current_height st, top_block_hash = as_top_block_hash st, account_bloom_filters = [],
                   commits = [], rollbacks = [], extensions = []\<rparr>;
              refreshed = (\<lambda>c. case refresh_root env c of (c, Inl e) \<Rightarrow> Inl e | (c, Inr _) \<Rightarrow> Inr (c, w))
          in if 0 < block_height c
             then (case assets of
                     None \<Rightarrow> Inl (ChainDb leveldb_pointer_is_nullptr)
                   | Some db \<Rightarrow>
                       (case db (filter_key (as_top_block_hash st) (as_current_height st)) of
                          None \<Rightarrow> Inr (c, w)
                        | Some bs \<Rightarrow>
                            (case read_object env store_type bs of
                               Inl e \<Rightarrow> Inl (StdException e)
                             | Inr v \<Rightarrow>
                                 (case assign_store (store_of_val v) (asset_bloom_filter c) of
                                    None \<Rightarrow> Inl (StdException MptMemory)
                                  | Some f \<Rightarrow> refreshed (c\<lparr>asset_bloom_filter := f\<rparr>)))))
             else refreshed (c\<lparr>asset_bloom_filter := set_block_height (block_height c)
                                (set_block_hash (top_block_hash c) (asset_bloom_filter c))\<rparr>))"

text \<open>The move constructor; the filter and the hashes of the source are copied.\<close>

definition connector_move :: "connector_account \<Rightarrow> connector_account \<times> connector_account" where
  "connector_move other =
     (other\<lparr>account_mpt := fst (mpt_move (account_mpt other))\<rparr>,
      other\<lparr>account_mpt := snd (mpt_move (account_mpt other)), account_bloom_filters := [], commits := [],
            rollbacks := [], extensions := []\<rparr>)"

section \<open>The interface\<close>

record interface_db =
  cbk :: connector_block
  cat :: connector_account

definition check_asset_exist :: "u32 \<Rightarrow> uint256 \<Rightarrow> bool" where
  "check_asset_exist asset_id blk_hash = False"

definition check_transaction_pool :: "interface_db \<Rightarrow> bool" where
  "check_transaction_pool db = True"

text \<open>The result of the check of the body is not used.\<close>

definition check_block_legitimacy ::
  "mpt_env \<Rightarrow> (byte list \<Rightarrow> byte list) \<Rightarrow> block \<Rightarrow> interface_db \<Rightarrow> (interface_db \<times> bool) mres" where
  "check_block_legitimacy env md5 blk db =
     chain (check_block_body env md5 (body blk) (asset_bloom_filter (cat db)) (account_mpt (cat db))) (\<lambda>(t, content_check).
     Inr (db\<lparr>cat := (cat db)\<lparr>account_mpt := t\<rparr>\<rparr>, True))"

definition check_transaction_legitimacy ::
  "mpt_env \<Rightarrow> (byte list \<Rightarrow> byte list) \<Rightarrow> u64 \<Rightarrow> transaction \<Rightarrow> interface_db \<Rightarrow> (interface_db \<times> bool) mres" where
  "check_transaction_legitimacy env md5 now tsn db =
     chain (check_transaction env md5 now (asset_bloom_filter (cat db)) tsn (account_mpt (cat db))) (\<lambda>(t, ok).
     Inr (db\<lparr>cat := (cat db)\<lparr>account_mpt := t\<rparr>\<rparr>, ok))"

definition check_affair_legitimacy :: "mpt_env \<Rightarrow> affair \<Rightarrow> interface_db \<Rightarrow> (interface_db \<times> bool) mres" where
  "check_affair_legitimacy env afi db =
     chain (check_affair env afi (account_mpt (cat db))) (\<lambda>(t, ok). Inr (db\<lparr>cat := (cat db)\<lparr>account_mpt := t\<rparr>\<rparr>, ok))"

definition account_mpt_hash :: "mpt_env \<Rightarrow> interface_db \<Rightarrow> (interface_db \<times> uint256) mres option" where
  "account_mpt_hash env db =
     map_option (\<lambda>r. chain r (\<lambda>(t, x). Inr (db\<lparr>cat := (cat db)\<lparr>account_mpt := t\<rparr>\<rparr>, x))) (mpt_get_hash env (account_mpt (cat db)))"

definition get_chain_height :: "interface_db \<Rightarrow> u64" where
  "get_chain_height db = block_height (cat db)"

text \<open>The two loops of \<open>transaction_pool_waiting_count\<close> over iterators.\<close>

primrec drop_expired :: "('a \<Rightarrow> u64) \<Rightarrow> u64 \<Rightarrow> 'a list \<Rightarrow> u64 \<Rightarrow> 'a list \<times> u64" where
  "drop_expired expires current [] legal_count = ([], legal_count)"
| "drop_expired expires current (x # xs) legal_count =
     (if expires x < current then drop_expired expires current xs legal_count
      else let (rest, n) = drop_expired expires current xs (legal_count + 1) in (x # rest, n))"

definition transaction_pool_waiting_count :: "ByteSequence \<Rightarrow> u64 \<Rightarrow> interface_db \<Rightarrow> interface_db \<times> u64" where
  "transaction_pool_waiting_count h current db =
     (let q = pools (cbk db);
          (ts, n) = drop_expired (tx_expires h) current (transactions_queue q) 0;
          (afs, m) = drop_expired af_expires current (affairs_queue q) n
      in (db\<lparr>cbk := (cbk db)\<lparr>pools := \<lparr>transactions_queue = ts, affairs_queue = afs\<rparr>\<rparr>\<rparr>, m))"

section \<open>Properties\<close>

lemma bytes_of_uchars [simp]: "bytes_of_val (map VUChar xs) = xs"
  by (induction xs) simp_all

lemma uint256_of_uint256_val [simp]: "uint256_of_val (uint256_val x) = x"
  by (simp add: uint256_of_val_def uint256_val_def)

lemmas of_val_defs = u64_of_val_def uchar_of_val_def char_of_val_def elements_of_val_def string_of_val_def

lemma out_entry_of_out_entry_val [simp]: "out_entry_of_val (out_entry_val x) = x"
  by (simp add: out_entry_of_val_def out_entry_val_def of_val_defs)

lemma transaction_of_transaction_val [simp]: "transaction_of_val (transaction_val t) = t"
  by (simp add: transaction_of_val_def transaction_val_def of_val_defs o_def)

lemma affair_of_affair_val [simp]: "affair_of_val (affair_val a) = a"
  by (simp add: affair_of_val_def affair_val_def of_val_defs o_def numeral_nat)

lemma header_of_header_val [simp]: "header_of_val (header_val x) = x"
  by (simp add: header_of_val_def header_val_def of_val_defs o_def numeral_nat)

lemma body_of_body_val [simp]: "body_of_val (body_val b) = copy_body b"
  by (simp add: body_of_val_def body_val_def copy_body_def of_val_defs o_def)

lemma block_of_block_val [simp]: "block_of_val (block_val b) = b\<lparr>body := copy_body (body b)\<rparr>"
  by (simp add: block_of_val_def block_val_def of_val_defs)

lemma view_reads_back:
  assumes "has_type std_ops t v" "serialize_object LittleEndian v = Inr bs"
  shows "snd (view_output_val std_ops t (make_view h bs (length bs))) = Inr v"
proof -
  have "appends LittleEndian (input_val v) (enc v)" using assms(1) by (rule input_val_appends) simp
  moreover have "writable LittleEndian (new_serializer LittleEndian)"
    by (simp add: writable_def new_serializer_def getByteSequence_host limit_defs)
  ultimately have "bs = enc v" using assms(2) by (auto elim!: appendsD simp: serialize_object_def new_serializer_def)
  then have "view_remaining (make_view h bs (length bs)) = Some (enc v @ [])"
    by (simp add: view_remaining_def make_view_def)
  then show ?thesis using view_reader.out_value [OF assms(1)] by fastforce
qed

lemma serialize_object_ok:
  assumes "has_type std_ops t v"
  shows "\<exists>bs. serialize_object LittleEndian v = Inr bs"
proof -
  have "appends LittleEndian (input_val v) (enc v)" using assms by (rule input_val_appends) simp
  moreover have "writable LittleEndian (new_serializer LittleEndian)"
    by (simp add: writable_def new_serializer_def getByteSequence_host limit_defs)
  ultimately show ?thesis by (auto elim!: appendsD simp: serialize_object_def)
qed

lemma has_type_moved: "has_type std_ops block_type (block_val blk) \<Longrightarrow> has_type std_ops block_type (block_val (move_block blk))"
  by (simp add: block_type_def block_val_def move_block_def)

lemma has_type_copied:
  assumes "has_type std_ops block_type (block_val blk)"
  shows "has_type std_ops block_type (block_val (copy_block blk))"
proof -
  have "has_type std_ops transaction_type (transaction_val t) \<Longrightarrow>
      has_type std_ops transaction_type (transaction_val (copy_transaction t))" for t
    by (simp add: transaction_type_def transaction_val_def copy_transaction_def)
  then show ?thesis
    using assms by (simp add: block_type_def block_val_def copy_block_def body_type_def body_val_def copy_body_def list_all_iff)
qed

lemma save_and_get:
  assumes "block_queue c = blk # rest" "leveldb_blocks c = Some db" "leveldb_chain c = Some db2"
    and "has_type std_ops block_type (block_val blk)" "wf256 (initial_block_hash c)" "wf256 (get_block_hash LittleEndian sha3 (header blk))"
  shows "\<exists>c'. insert_block_save_to_disk LittleEndian sha3 True True c = (c', Inr True) \<and> block_queue c' = rest \<and>
    get_block_by_index LittleEndian (height (header blk)) c' = Inr (blk\<lparr>body := copy_body (body blk)\<rparr>, True)"
proof -
  obtain bs where bs: "serialize_object LittleEndian (block_val blk) = Inr bs" using serialize_object_ok [OF assms(4)] by blast
  have "has_type std_ops (TClass [TUInt64, uint256_type, uint256_type]) (application_state_val \<lparr>as_current_height = height (header blk),
      as_top_block_hash = get_block_hash LittleEndian sha3 (header blk), as_initial_block_hash = initial_block_hash c\<rparr>)"
    using assms(5,6) by (simp add: application_state_val_def uint256_has_type)
  from serialize_object_ok [OF this] show ?thesis
    using assms(1-3) bs view_reads_back [OF assms(4) bs, of LittleEndian]
    by (auto simp: insert_block_save_to_disk_def insert_block_to_levelDB_def get_block_by_index_def Let_def)
qed

text \<open>
  C28 A block on disk. A block within the limits of the serializer that is put in the empty cache, copied or
  moved, and saved, is found under its height with its header, its affairs and its transactions.
  The signatures of the block and of its transactions are not: the constructors of \<open>block\<close> and
  \<open>transaction\<close> leave them out when the block is cached and when it is read.
\<close>

theorem stored_block_read_back:
  assumes "leveldb_blocks c = Some db" "leveldb_chain c = Some db2" "block_queue c = []"
    and "has_type std_ops block_type (block_val blk)" "wf256 (initial_block_hash c)"
    and "wf256 (get_block_hash LittleEndian sha3 (header blk))"
    and "cached = input_block_cache_copy blk c \<or> cached = input_block_cache_move blk c"
  shows "\<exists>c'. insert_block_save_to_disk LittleEndian sha3 True True cached = (c', Inr True) \<and> block_queue c' = [] \<and>
    get_block_by_index LittleEndian (height (header blk)) c' =
      Inr (\<lparr>header = header blk,
            body = \<lparr>transactions = map (\<lambda>t. t\<lparr>signature := []\<rparr>) (transactions (body blk)), affairs = affairs (body blk)\<rparr>,
            blk_signature = []\<rparr>, True)"
proof -
  have k: "copy_transaction = (\<lambda>t. t\<lparr>signature := []\<rparr>)" by (rule ext) (simp add: copy_transaction_def)
  have idem: "copy_transaction (copy_transaction t) = copy_transaction t" for t by (simp add: copy_transaction_def)
  show ?thesis
    using assms(7)
  proof
    assume "cached = input_block_cache_copy blk c"
    then show ?thesis
      using save_and_get [of cached "copy_block blk" "[]" db db2 sha3] assms(1-6) has_type_copied [OF assms(4)]
      by (simp add: input_block_cache_copy_def copy_block_def copy_body_def idem o_def k [symmetric])
  next
    assume "cached = input_block_cache_move blk c"
    then show ?thesis
      using save_and_get [of cached "move_block blk" "[]" db db2 sha3] assms(1-6) has_type_moved [OF assms(4)]
      by (simp add: input_block_cache_move_def move_block_def copy_body_def k [symmetric])
  qed
qed

theorem stored_block_read_back_witness:
  "\<exists>c'. insert_block_save_to_disk LittleEndian (\<lambda>bs. replicate 32 0) True True
      (input_block_cache_move (block_default\<lparr>blk_signature := [1, 2, 3]\<rparr>)
        (new_connector_block (Some Map.empty) (Some Map.empty) \<lparr>as_current_height = 0,
           as_top_block_hash = base_binary_default, as_initial_block_hash = base_binary_default\<rparr>)) = (c', Inr True) \<and>
    get_block_by_index LittleEndian 0 c' = Inr (block_default, True)"
proof -
  let ?c = "new_connector_block (Some Map.empty) (Some Map.empty) \<lparr>as_current_height = 0,
    as_top_block_hash = base_binary_default, as_initial_block_hash = base_binary_default\<rparr>"
  let ?b = "block_default\<lparr>blk_signature := [1, 2, 3]\<rparr>"
  have w: "wf256 (base_binary_fill 0)" "wf256 base_binary_default"
    by (simp_all add: wf256_def base_binary_fill_def base_binary_default_def Width_def)
  have "has_type std_ops block_type (block_val ?b)"
    by (simp add: block_type_def block_val_def block_default_def header_default_def header_type_def header_val_def body_type_def
        body_val_def uint256_has_type w limit_defs)
  then show ?thesis
    using stored_block_read_back [of ?c Map.empty Map.empty ?b "\<lambda>bs. replicate 32 0" "input_block_cache_move ?b ?c"] w
    by (auto simp: new_connector_block_def block_default_def header_default_def get_block_hash_def get_sha3_256_def Let_def wf256_def Width_def)
qed

lemma wf256_transaction_hash:
  assumes "digest_bytes sha3" "wf256 (get_sender t)" "\<forall>out \<in> set (outs t). wf256 (receiver out)"
  shows "wf256 (transaction_hash h sha3 t)"
proof -
  have d: "wf256 (sha3 bs)" for bs using assms(1) by (simp add: digest_bytes_def wf256_def Width_def)
  have "wf256 x \<Longrightarrow> \<forall>out \<in> set os. wf256 (receiver out) \<Longrightarrow> wf256 (outs_sum h sha3 os x)" for os x
    by (induction os arbitrary: x) (auto intro!: wf256_plus d)
  then show ?thesis using assms(2,3) by (auto simp: transaction_hash_def intro!: wf256_plus d)
qed

text \<open>
  C27 The header of the next block. When \<open>package_next_block_header\<close> accepts a block of two or more
  transactions, it leaves the body as it is and links the header to the top of the chain, and every
  transaction of the body has a Merkle proof, made from the hashes of the transactions, that is accepted
  against the root in the header.
\<close>

theorem packaged_header_links:
  assumes "package_next_block_header h sha3 ini blacks blk c = Some (blk', True)" "digest_bytes sha3"
    and "2 \<le> length (transactions (body blk))" "length (transactions (body blk)) < 2 ^ 31"
    and "\<forall>t \<in> set (transactions (body blk)). wf256 (get_sender t) \<and> (\<forall>out \<in> set (outs t). wf256 (receiver out))"
    and "i < length (transactions (body blk))"
  shows "body blk' = body blk \<and> height (header blk') = current_height c + 1 \<and> prev_block_hash (header blk') = cb_top_block_hash c \<and>
    (\<exists>pf. get_merkle_proof sha3 (transaction_hash h sha3 (transactions (body blk) ! i))
        (map (transaction_hash h sha3) (transactions (body blk))) (int i) = Some pf \<and>
      merkle_proof_verify sha3 pf (transaction_hash h sha3 (transactions (body blk) ! i)) (transactions_merkle_root (header blk')))"
proof -
  let ?xs = "map (transaction_hash h sha3) (transactions (body blk))"
  have l: "length ?xs < 2 ^ 31" "2 \<le> length ?xs" "list_all wf256 ?xs" "?xs ! i \<in> set ?xs"
    using assms(2-6) wf256_transaction_hash [OF assms(2)] by (auto simp: list_all_iff)
  have "transactions (body blk) \<noteq> []" using assms(3) by auto
  then have m: "body blk' = body blk" "height (header blk') = current_height c + 1" "prev_block_hash (header blk') = cb_top_block_hash c"
    "transactions_merkle_root (header blk') = get_merkle_root_vector sha3 ?xs"
    using assms(1) root_queue_vector [OF l(1), of sha3]
    by (auto simp: package_next_block_header_def Let_def Option.bind_eq_Some_conv split: if_splits)
  then show ?thesis
    using proof_accepted [OF assms(2) l(2,1,3,4), of "int i"] assms(6) by simp
qed

definition sample_body :: block where
  "sample_body = block_default\<lparr>body := \<lparr>transactions = [transaction_default, push_output base_binary_default 5 transaction_default],
     affairs = [new_affair 1 base_binary_default MaliciousBlock 0 0 [65]]\<rparr>\<rparr>"

theorem packaged_header_links_witness:
  "\<exists>blk' pf. package_next_block_header LittleEndian (\<lambda>x. take 32 (rev x @ replicate 32 1))
      \<lparr>transaction_maximum_number_in_block = 500, affair_maximum_number_in_block = 500,
       transaction_minimum_number_in_block = 1, affair_minimum_number_in_block = 1\<rparr> [] sample_body
      (new_connector_block None None \<lparr>as_current_height = 4, as_top_block_hash = base_binary_fill 9,
         as_initial_block_hash = base_binary_default\<rparr>) = Some (blk', True) \<and> height (header blk') = 5 \<and>
    merkle_proof_verify (\<lambda>x. take 32 (rev x @ replicate 32 1)) pf
      (transaction_hash LittleEndian (\<lambda>x. take 32 (rev x @ replicate 32 1)) transaction_default) (transactions_merkle_root (header blk'))"
proof -
  let ?ini = "\<lparr>transaction_maximum_number_in_block = 500, affair_maximum_number_in_block = 500,
    transaction_minimum_number_in_block = 1, affair_minimum_number_in_block = 1\<rparr>"
  let ?c = "new_connector_block None None \<lparr>as_current_height = 4, as_top_block_hash = base_binary_fill 9,
    as_initial_block_hash = base_binary_default\<rparr>"
  have b: "transactions (body sample_body) = [transaction_default, push_output base_binary_default 5 transaction_default]"
    "affairs (body sample_body) = [new_affair 1 base_binary_default MaliciousBlock 0 0 [65]]"
    by (simp_all add: sample_body_def)
  have "counts_ok ?ini (body sample_body)"
    by (simp add: counts_ok_def b is_db_level_affair_type_def new_affair_def)
  then obtain blk' where p: "package_next_block_header LittleEndian toy_digest ?ini [] sample_body ?c = Some (blk', True)"
    using root_queue_vector [of "map (transaction_hash LittleEndian toy_digest) (transactions (body sample_body))" toy_digest]
      root_queue_vector [of "map (affair_hash LittleEndian toy_digest) (affairs (body sample_body))" toy_digest]
    by (simp add: package_next_block_header_def b Let_def)
  have w: "wf256 (get_sender t) \<and> (\<forall>out \<in> set (outs t). wf256 (receiver out))" if "t \<in> set (transactions (body sample_body))" for t
    using that by (auto simp: b transaction_default_def push_output_def tx_defs wf256_def base_binary_default_def
        Width_def Bytes_def peek_def poke_def)
  show ?thesis
    using packaged_header_links [OF p toy_digest_bytes, of 0] w p by (auto simp: b new_connector_block_def)
qed

lemma drop_expired_filter:
  "drop_expired expires current xs n =
     (let kept = filter (\<lambda>x. current \<le> expires x) xs in (kept, n + word_of_nat (length kept)))"
  by (induction xs arbitrary: n) (auto simp: Let_def not_less)

text \<open>
  The pools. \<open>transaction_pool_waiting_count\<close> removes exactly the expired transactions and affairs, keeps
  the others in their order, and returns how many are left (modulo \<open>2 ^ 64\<close>).
\<close>

theorem waiting_count_exact:
  "transaction_pool_waiting_count h current db =
     (let q = pools (cbk db);
          ts = filter (\<lambda>t. current \<le> tx_expires h t) (transactions_queue q);
          afs = filter (\<lambda>a. current \<le> af_expires a) (affairs_queue q)
      in (db\<lparr>cbk := (cbk db)\<lparr>pools := \<lparr>transactions_queue = ts, affairs_queue = afs\<rparr>\<rparr>\<rparr>, word_of_nat (length ts + length afs)))"
  by (simp add: transaction_pool_waiting_count_def drop_expired_filter Let_def)

text \<open>
  The filter of the assets survives a restart. After \<open>commit_asset_bloom_filter_to_leveldb\<close> has written the
  filter of a block, a node that starts with the state of that block (its hash and its height) opens
  its accounts with exactly this filter.
\<close>

theorem asset_filter_survives_restart:
  assumes "wf_filter f" "0 < filter_height f" "mpt_host env = LittleEndian" "mpt_host env' = LittleEndian"
    and "assets_disk d \<noteq> None" "commit_asset_bloom_filter_to_leveldb env f d = (d', True)"
    and "as_current_height st = filter_height f" "as_top_block_hash st = filter_hash f"
  shows "connector_open env' put_ok (assets_disk d') st =
    (case mpt_open env' put_ok of
       None \<Rightarrow> Inl Connector_Account.NoReturn
     | Some (Inl e) \<Rightarrow> Inl (StdException e)
     | Some (Inr (t, w)) \<Rightarrow>
         (case refresh_root env' \<lparr>account_mpt = t, asset_bloom_filter = f, mpt_root_hash = base_binary_default,
                 block_height = filter_height f, top_block_hash = filter_hash f, account_bloom_filters = [],
                 commits = [], rollbacks = [], extensions = []\<rparr> of
            (c, Inl e) \<Rightarrow> Inl e
          | (c, Inr _) \<Rightarrow> Inr (c, w)))"
proof -
  let ?v = "store_val (to_store f)"
  have l: "length (bloom_filter_data (to_store f)) = 65536"
    by (simp add: to_store_def length_pack_bits BLOOM_FILTER_SIZE_def)
  have t: "has_type std_ops store_type ?v"
    using assms(1) l by (simp add: store_type_def store_val_def uint256_has_type wf_filter_def to_store_def limit_defs)
  obtain bs where bs: "serialize_object LittleEndian ?v = Inr bs" using serialize_object_ok [OF t] by blast
  then have "byteStream (fst (input_val ?v (new_serializer LittleEndian))) = bs"
    by (auto simp: serialize_object_def split: prod.splits sum.splits)
  then obtain db where "assets_disk d' = Some db" "db (filter_key (filter_hash f) (filter_height f)) = Some bs"
    using assms(3,5,6) by (auto simp: commit_asset_bloom_filter_to_leveldb_def next_status_def to_store_def Let_def split: option.splits list.splits if_splits prod.splits)
  moreover have "read_object env' store_type bs = Inr ?v"
    using view_reads_back [OF t bs] by (simp add: read_object_def)
  moreover have "store_of_val ?v = to_store f" by (simp add: store_of_val_def store_val_def of_val_defs)
  ultimately show ?thesis
    using assms(1,2,7,8) assign_roundtrip [of f new_filter]
    by (auto simp: connector_open_def Let_def wf_filter_def split: option.splits sum.splits)
qed

theorem asset_filter_survives_restart_witness:
  "\<exists>d'. commit_asset_bloom_filter_to_leveldb sample_env (fst (bloom_insert (\<lambda>bs. replicate 16 7) LittleEndian 5 (set_block_height 1 new_filter)))
      \<lparr>extensions_disk = None, accounts_disk = None, assets_disk = Some Map.empty, statuses = []\<rparr> = (d', True) \<and>
    connector_open (sample_env\<lparr>extensions_db := Some Map.empty\<rparr>) True (assets_disk d') \<lparr>as_current_height = 1,
      as_top_block_hash = base_binary_fill 0, as_initial_block_hash = base_binary_default\<rparr> =
    (case mpt_open (sample_env\<lparr>extensions_db := Some Map.empty\<rparr>) True of
       None \<Rightarrow> Inl Connector_Account.NoReturn
     | Some (Inl e) \<Rightarrow> Inl (StdException e)
     | Some (Inr (t, w)) \<Rightarrow>
         (case refresh_root (sample_env\<lparr>extensions_db := Some Map.empty\<rparr>) \<lparr>account_mpt = t,
                 asset_bloom_filter = fst (bloom_insert (\<lambda>bs. replicate 16 7) LittleEndian 5 (set_block_height 1 new_filter)),
                 mpt_root_hash = base_binary_default, block_height = 1, top_block_hash = base_binary_fill 0,
                 account_bloom_filters = [], commits = [], rollbacks = [], extensions = []\<rparr> of
            (c, Inl e) \<Rightarrow> Inl e
          | (c, Inr _) \<Rightarrow> Inr (c, w)))"
proof -
  let ?f = "fst (bloom_insert (\<lambda>bs. replicate 16 7) LittleEndian 5 (set_block_height 1 new_filter))"
  let ?d = "\<lparr>extensions_disk = None, accounts_disk = None, assets_disk = Some Map.empty, statuses = []\<rparr>"
  let ?st = "\<lparr>as_current_height = 1, as_top_block_hash = base_binary_fill 0, as_initial_block_hash = base_binary_default\<rparr>"
  obtain d' where d': "commit_asset_bloom_filter_to_leveldb sample_env ?f ?d = (d', True)"
    by (simp add: commit_asset_bloom_filter_to_leveldb_def next_status_def Let_def)
  have h: "mpt_host sample_env = LittleEndian" "mpt_host (sample_env\<lparr>extensions_db := Some Map.empty\<rparr>) = LittleEndian"
    by (simp_all add: sample_env_def)
  have w: "wf_filter ?f" using wf_filter_new by (intro wf_filter_insert) (simp add: wf_filter_def set_block_height_def)
  have f: "filter_height ?f = 1" "filter_hash ?f = base_binary_fill 0"
    by (simp_all add: bloom_insert_def set_block_height_def new_filter_def Let_def)
  from asset_filter_survives_restart [OF w _ h _ d', of ?st] show ?thesis
    using d' unfolding f by auto
qed

end
