(* ===== verification/Interleaving.thy ===== *)
theory Interleaving
  imports Prelude "HOL-Library.Multiset"
begin

text \<open>
  Threads that share memory, as a machine whose actions are the atomic accesses of single threads:
  \<open>step a s\<close> is the state after action \<open>a\<close>, or \<open>None\<close> when the thread of \<open>a\<close> cannot move in \<open>s\<close>
  (it is blocked, or it does not exist). A run is a list of actions; \<open>reach\<close> restricts the actions
  a run may take. The locale \<open>machine_invariant\<close> is what a proof by interleaving has to show:
  that every single action keeps a predicate.
\<close>

inductive reach :: "('a \<Rightarrow> 's \<Rightarrow> 's option) \<Rightarrow> ('a \<Rightarrow> bool) \<Rightarrow> 's \<Rightarrow> 's \<Rightarrow> bool"
  for step :: "'a \<Rightarrow> 's \<Rightarrow> 's option" and ok :: "'a \<Rightarrow> bool" and s\<^sub>0 :: 's where
  reach_start: "reach step ok s\<^sub>0 s\<^sub>0"
| reach_step: "\<lbrakk>reach step ok s\<^sub>0 s; ok a; step a s = Some s'\<rbrakk> \<Longrightarrow> reach step ok s\<^sub>0 s'"

abbreviation any_action :: "'a \<Rightarrow> bool" where "any_action \<equiv> \<lambda>_. True"

lemma reach_run_ops: "\<lbrakk>run_ops step as s = Some s'; list_all ok as; reach step ok s\<^sub>0 s\<rbrakk> \<Longrightarrow> reach step ok s\<^sub>0 s'"
  by (induction as arbitrary: s) (auto simp: bind_eq_Some_conv intro: reach_step)

lemma reach_trans: "\<lbrakk>reach step ok s t; reach step ok r s\<rbrakk> \<Longrightarrow> reach step ok r t"
  by (induction rule: reach.induct) (auto intro: reach_step)

lemma reach_weaken: "\<lbrakk>reach step ok s t; \<And>a. ok a \<Longrightarrow> ok' a\<rbrakk> \<Longrightarrow> reach step ok' s t"
  by (induction rule: reach.induct) (auto intro: reach.intros)

locale machine_invariant =
  fixes step :: "'a \<Rightarrow> 's \<Rightarrow> 's option"
    and ok :: "'a \<Rightarrow> bool"
    and Inv :: "'s \<Rightarrow> bool"
  assumes step_keeps: "\<lbrakk>Inv s; ok a; step a s = Some s'\<rbrakk> \<Longrightarrow> Inv s'"
begin

lemma reach_keeps: "\<lbrakk>reach step ok s t; Inv s\<rbrakk> \<Longrightarrow> Inv t"
  by (induction rule: reach.induct) (auto intro: step_keeps)

lemma run_keeps: "\<lbrakk>run_ops step as s = Some t; list_all ok as; Inv s\<rbrakk> \<Longrightarrow> Inv t"
  by (rule reach_keeps [OF reach_run_ops]) (auto intro: reach_start)

end

text \<open>A slot of a vector of threads is updated: what the threads hold changes in that slot only.\<close>

lemma mset_concat_update:
  "i < length xs \<Longrightarrow>
     mset (concat (map f (xs[i := y]))) + mset (f (xs ! i)) = mset (concat (map f xs)) + mset (f y)"
proof (induction xs arbitrary: i)
  case (Cons x xs)
  show ?case
  proof (cases i)
    case (Suc j)
    with Cons.IH [of j] Cons.prems show ?thesis by (simp add: ac_simps)
  qed (simp add: ac_simps)
qed simp

lemma sum_list_update_slot:
  "i < length xs \<Longrightarrow> sum_list (map f (xs[i := y])) + f (xs ! i) = sum_list (map f xs) + (f y :: nat)"
proof (induction xs arbitrary: i)
  case (Cons x xs)
  then show ?case by (cases i) (auto simp: ac_simps)
qed simp

end
