(* ===== verification/Thread_Pool.thy ===== *)
theory Thread_Pool
  imports Interleaving "HOL-Library.Word"
begin

text \<open>
  The thread pool of the server and of the timers (\<open>src/include/thread_pool/pool.cpp\<close>, with
  \<open>executor.h\<close>, \<open>commit_result.hpp\<close> and \<open>conf.h\<close>). The pool is a machine of interleaved threads:
  the core and dynamic workers, the manager thread, the threads that commit tasks (the first of
  them runs \<open>init\<close> inside \<open>call_once\<close>) and the thread that closes the pool. Each thread has a
  program counter whose values name the next access to shared memory; an action makes one such
  access. Accesses that the mutex \<open>queueMute\<close> protects and that only its holder can observe are
  one action. \<open>condition.wait\<close> evaluates its predicate under the mutex; a thread that finds it
  false then blocks, which releases the mutex in the same action, and goes back to locking when it
  is notified or wakes up spuriously. Between the two actions it cannot be notified.

  Tasks are numbers (the address of the executor). Whether the body of a task throws is the
  parameter \<open>throws\<close>. The answers of the environment are arguments of an action: whether a thread
  can be created, and which blocked thread \<open>notify_one\<close> wakes. The fields \<open>accepted\<close>, \<open>started\<close>,
  \<open>finished\<close>, \<open>returned\<close> and \<open>dropped\<close> record what happened; no action reads them. Undefined
  behaviour and \<open>std::terminate\<close> set \<open>crashed\<close>, after which nothing moves.
\<close>

section \<open>State\<close>

datatype ThreadPoolType = Fixed | Flexible

datatype ThreadPoolCloseStrategy = DiscardAllTasks | WaitAllTaskFinish | ReturnTaskAndClose

datatype RefuseReason =
  NoRefuse | CannotExecuteAgain | ThreadPoolHasStoppedRunning | TaskQueueFulled | MemoryNotEnough

record CommitResult =
  isSuccess :: bool
  reason :: RefuseReason

text \<open>\<open>haveException\<close> is not initialised by the constructor: \<open>None\<close> until a worker stores it.\<close>

record Executor =
  finishState :: bool
  discardState :: bool
  haveException :: "bool option"

definition new_Executor :: Executor where
  "new_Executor = \<lparr>finishState = False, discardState = False, haveException = None\<rparr>"

text \<open>The next access of a worker, in the order of \<open>coreRun\<close> and \<open>dynamicRun\<close>.\<close>

datatype worker_pc =
    W_None | W_Lock | W_Pred | W_PredAlive | W_Wait | W_Blocked | W_RunState | W_Alive | W_Take
  | W_Check nat | W_Run nat | W_Idle | W_Ret

text \<open>\<open>workman\<close>: the pointer to the thread is not null and the thread is joinable.\<close>

record Worker =
  isRunning :: bool
  workman :: bool
  w_pc :: worker_pc

definition new_Worker :: Worker where
  "new_Worker = \<lparr>isRunning = False, workman = False, w_pc = W_None\<rparr>"

datatype job = One nat | Bulk "nat list"

datatype commit_pc =
    P_Idle | P_Once job | P_Init job | P_Spawn job nat | P_Vacant job | P_Manager job
  | P_Stop job | P_Lock job | P_Push job | P_NotifyOne "CommitResult list"
  | P_NotifyAll "CommitResult list" | P_Ret "CommitResult list" | P_Throw

datatype close_pc =
    C_Idle | C_Stop | C_Wait | C_JoinManager | C_RunState | C_Drain | C_Notify | C_Join nat | C_Terminate

datatype manager_pc =
    M_None | M_Loop | M_Read | M_Kill nat | M_KillNotify nat | M_KillJoin nat
  | M_Add nat | M_Spawn nat | M_Ret

datatype once_flag = Once_Fresh | Once_Active | Once_Done

datatype owner = By_Worker nat | By_Commit nat

datatype crash_kind = Undefined_Behaviour | Std_Terminate

record ThreadPool =
  Type :: ThreadPoolType
  closeStrategy :: ThreadPoolCloseStrategy
  cores :: nat
  MaxThreadCount :: nat
  QueueMaxSize :: nat
  workers :: "Worker list"
  initFlag :: once_flag
  dynamicWorkerCount :: nat
  runState :: bool
  vacantThreadsCount :: int
  stopCommitState :: bool
  isTerminated :: bool
  queueTask :: "nat list"
  queueMute :: "owner option"
  managerThread :: manager_pc
  isStart :: bool
  executors :: "nat \<Rightarrow> Executor"
  commits :: "nat \<Rightarrow> commit_pc"
  closer :: close_pc
  accepted :: "nat list"
  started :: "nat list"
  finished :: "nat list"
  returned :: "nat list"
  dropped :: "nat list"
  crashed :: "crash_kind option"

text \<open>
  The constructor. \<open>cores\<close> is an \<open>unsigned int\<close>, so the count is truncated to 32 bits; the check
  is made on the argument, before zero becomes four. \<open>None\<close> is the exception.
\<close>

definition new_ThreadPool ::
  "nat \<Rightarrow> nat \<Rightarrow> nat \<Rightarrow> ThreadPoolType \<Rightarrow> ThreadPoolCloseStrategy \<Rightarrow> (nat \<Rightarrow> Executor) \<Rightarrow> ThreadPool option" where
  "new_ThreadPool coreThreadsCount maxThreadCount queueMaxSize type poolCloseStrategy es =
     (if maxThreadCount < coreThreadsCount then None
      else let c = coreThreadsCount mod 2 ^ 32 in
        Some \<lparr>Type = type, closeStrategy = poolCloseStrategy, cores = (if c \<le> 0 then 4 else c),
          MaxThreadCount = maxThreadCount, QueueMaxSize = queueMaxSize, workers = [],
          initFlag = Once_Fresh, dynamicWorkerCount = 0, runState = False, vacantThreadsCount = 0,
          stopCommitState = False, isTerminated = False, queueTask = [], queueMute = None,
          managerThread = M_None, isStart = False, executors = es, commits = (\<lambda>_. P_Idle),
          closer = C_Idle, accepted = [], started = [], finished = [], returned = [], dropped = [],
          crashed = None\<rparr>)"

definition crash :: "crash_kind \<Rightarrow> ThreadPool \<Rightarrow> ThreadPool" where
  "crash c s = s\<lparr>crashed := Some c\<rparr>"

definition worker_at :: "nat \<Rightarrow> worker_pc \<Rightarrow> ThreadPool \<Rightarrow> ThreadPool" where
  "worker_at i c s = s\<lparr>workers := (workers s)[i := (workers s ! i)\<lparr>w_pc := c\<rparr>]\<rparr>"

definition commit_at :: "nat \<Rightarrow> commit_pc \<Rightarrow> ThreadPool \<Rightarrow> ThreadPool" where
  "commit_at p c s = s\<lparr>commits := (commits s)(p := c)\<rparr>"

section \<open>The condition variable\<close>

definition wake :: "Worker \<Rightarrow> Worker" where
  "wake w = (if w_pc w = W_Blocked then w\<lparr>w_pc := W_Lock\<rparr> else w)"

definition notify_all :: "ThreadPool \<Rightarrow> ThreadPool" where
  "notify_all s = s\<lparr>workers := map wake (workers s)\<rparr>"

definition blocked :: "ThreadPool \<Rightarrow> nat \<Rightarrow> bool" where
  "blocked s i \<longleftrightarrow> i < length (workers s) \<and> w_pc (workers s ! i) = W_Blocked"

definition none_blocked :: "ThreadPool \<Rightarrow> bool" where
  "none_blocked s \<longleftrightarrow> list_all (\<lambda>w. w_pc w \<noteq> W_Blocked) (workers s)"

text \<open>\<open>notify_one\<close> wakes one of the blocked threads, if there is one; \<open>j\<close> is the choice.\<close>

definition notify_one :: "nat \<Rightarrow> ThreadPool \<Rightarrow> ThreadPool option" where
  "notify_one j s =
     (if none_blocked s then Some s
      else if blocked s j then Some (worker_at j W_Lock s)
      else None)"

section \<open>Workers\<close>

text \<open>\<open>return\<close> inside the critical section: the lock is released by its destructor.\<close>

definition worker_return :: "nat \<Rightarrow> ThreadPool \<Rightarrow> ThreadPool" where
  "worker_return i s = worker_at i W_Ret (s\<lparr>queueMute := None\<rparr>)"

definition worker_block :: "nat \<Rightarrow> ThreadPool \<Rightarrow> ThreadPool" where
  "worker_block i s = worker_at i W_Blocked (s\<lparr>queueMute := None\<rparr>)"

definition worker_lock :: "nat \<Rightarrow> ThreadPool \<Rightarrow> ThreadPool option" where
  "worker_lock i s =
     (if queueMute s = None then Some (worker_at i W_Pred (s\<lparr>queueMute := Some (By_Worker i)\<rparr>)) else None)"

text \<open>The front of the queue is moved out; \<open>front\<close> of an empty queue is undefined.\<close>

definition worker_take :: "nat \<Rightarrow> ThreadPool \<Rightarrow> ThreadPool" where
  "worker_take i s =
     (case queueTask s of
        [] \<Rightarrow> crash Undefined_Behaviour s
      | t # q \<Rightarrow> worker_at i (W_Check t)
          (s\<lparr>queueTask := q, vacantThreadsCount := vacantThreadsCount s - 1, queueMute := None\<rparr>))"

definition worker_check :: "nat \<Rightarrow> nat \<Rightarrow> ThreadPool \<Rightarrow> ThreadPool" where
  "worker_check i t s =
     (if finishState (executors s t) then worker_at i W_Idle (s\<lparr>finished := finished s @ [t]\<rparr>)
      else worker_at i (W_Run t) s)"

text \<open>The body of a task is one action: it returns or throws, and its effects are its own.\<close>

definition worker_run :: "(nat \<Rightarrow> bool) \<Rightarrow> nat \<Rightarrow> nat \<Rightarrow> ThreadPool \<Rightarrow> ThreadPool" where
  "worker_run throws i t s =
     (let e = executors s t;
          e' = (if throws t then e\<lparr>haveException := Some True\<rparr> else e)
      in worker_at i W_Idle (s\<lparr>executors := (executors s)(t := e'\<lparr>finishState := True\<rparr>),
           started := started s @ [t], finished := finished s @ [t]\<rparr>))"

definition worker_idle :: "nat \<Rightarrow> ThreadPool \<Rightarrow> ThreadPool" where
  "worker_idle i s = worker_at i W_Lock (s\<lparr>vacantThreadsCount := vacantThreadsCount s + 1\<rparr>)"

definition coreRun :: "(nat \<Rightarrow> bool) \<Rightarrow> nat \<Rightarrow> ThreadPool \<Rightarrow> ThreadPool option" where
  "coreRun throws i s =
     (case w_pc (workers s ! i) of
        W_Lock \<Rightarrow> worker_lock i s
      | W_Pred \<Rightarrow> Some (worker_at i (if queueTask s \<noteq> [] \<or> \<not> runState s then W_RunState else W_Wait) s)
      | W_Wait \<Rightarrow> Some (worker_block i s)
      | W_RunState \<Rightarrow> Some (if \<not> runState s then worker_return i s else worker_at i W_Take s)
      | W_Take \<Rightarrow> Some (worker_take i s)
      | W_Check t \<Rightarrow> Some (worker_check i t s)
      | W_Run t \<Rightarrow> Some (worker_run throws i t s)
      | W_Idle \<Rightarrow> Some (worker_idle i s)
      | _ \<Rightarrow> None)"

definition dynamicRun :: "(nat \<Rightarrow> bool) \<Rightarrow> nat \<Rightarrow> ThreadPool \<Rightarrow> ThreadPool option" where
  "dynamicRun throws i s =
     (case w_pc (workers s ! i) of
        W_Lock \<Rightarrow> worker_lock i s
      | W_Pred \<Rightarrow> Some (worker_at i (if queueTask s \<noteq> [] \<or> \<not> runState s then W_RunState else W_PredAlive) s)
      | W_PredAlive \<Rightarrow> Some (worker_at i (if \<not> isRunning (workers s ! i) then W_RunState else W_Wait) s)
      | W_Wait \<Rightarrow> Some (worker_block i s)
      | W_RunState \<Rightarrow> Some (if \<not> runState s then worker_return i s else worker_at i W_Alive s)
      | W_Alive \<Rightarrow> Some (if \<not> isRunning (workers s ! i) then worker_return i s else worker_at i W_Take s)
      | W_Take \<Rightarrow> Some (worker_take i s)
      | W_Check t \<Rightarrow> Some (worker_check i t s)
      | W_Run t \<Rightarrow> Some (worker_run throws i t s)
      | W_Idle \<Rightarrow> Some (worker_idle i s)
      | _ \<Rightarrow> None)"

text \<open>The slots below \<open>cores\<close> run \<open>coreRun\<close>, the others \<open>dynamicRun\<close>.\<close>

definition worker_step :: "(nat \<Rightarrow> bool) \<Rightarrow> nat \<Rightarrow> ThreadPool \<Rightarrow> ThreadPool option" where
  "worker_step throws i s =
     (if length (workers s) \<le> i then None
      else if i < cores s then coreRun throws i s
      else dynamicRun throws i s)"

definition spurious_wakeup :: "nat \<Rightarrow> ThreadPool \<Rightarrow> ThreadPool option" where
  "spurious_wakeup i s = (if blocked s i then Some (worker_at i W_Lock s) else None)"

section \<open>The manager thread\<close>

text \<open>A thread is started in slot \<open>i\<close>.\<close>

definition spawn :: "nat \<Rightarrow> ThreadPool \<Rightarrow> ThreadPool" where
  "spawn i s = s\<lparr>workers := (workers s)[i := (workers s ! i)\<lparr>isRunning := True, workman := True, w_pc := W_Lock\<rparr>]\<rparr>"

definition set_running :: "nat \<Rightarrow> bool \<Rightarrow> ThreadPool \<Rightarrow> ThreadPool" where
  "set_running i b s = s\<lparr>workers := (workers s)[i := (workers s ! i)\<lparr>isRunning := b\<rparr>]\<rparr>"

definition addDynamicThread :: "nat \<Rightarrow> ThreadPool \<Rightarrow> ThreadPool" where
  "addDynamicThread i s =
     (if MaxThreadCount s \<le> i then s\<lparr>managerThread := M_Loop\<rparr>
      else if \<not> isRunning (workers s ! i) then set_running i True (s\<lparr>managerThread := M_Spawn i\<rparr>)
      else s\<lparr>managerThread := M_Add (Suc i)\<rparr>)"

definition spawnDynamicThread :: "bool \<Rightarrow> nat \<Rightarrow> ThreadPool \<Rightarrow> ThreadPool" where
  "spawnDynamicThread created i s =
     (if created then spawn i (s\<lparr>managerThread := M_Loop, dynamicWorkerCount := Suc (dynamicWorkerCount s)\<rparr>)
      else s\<lparr>managerThread := M_Loop\<rparr>)"

definition killDynamicThread :: "nat \<Rightarrow> ThreadPool \<Rightarrow> ThreadPool" where
  "killDynamicThread i s =
     (if MaxThreadCount s \<le> i then s\<lparr>managerThread := M_Loop\<rparr>
      else if isRunning (workers s ! i) then set_running i False (s\<lparr>managerThread := M_KillNotify i\<rparr>)
      else s\<lparr>managerThread := M_Kill (Suc i)\<rparr>)"

text \<open>The join waits for the thread; a slot whose thread could not be created has a null pointer.\<close>

definition joinDynamicThread :: "nat \<Rightarrow> ThreadPool \<Rightarrow> ThreadPool option" where
  "joinDynamicThread i s =
     (if \<not> workman (workers s ! i) then Some (crash Undefined_Behaviour s)
      else if w_pc (workers s ! i) = W_Ret then
        Some (s\<lparr>workers := (workers s)[i := (workers s ! i)\<lparr>workman := False\<rparr>],
          dynamicWorkerCount := dynamicWorkerCount s - 1, managerThread := M_Loop\<rparr>)
      else None)"

definition managerThreadTask :: "bool \<Rightarrow> ThreadPool \<Rightarrow> ThreadPool option" where
  "managerThreadTask created s =
     (case managerThread s of
        M_Loop \<Rightarrow> Some (s\<lparr>managerThread := (if stopCommitState s then M_Ret else M_Read)\<rparr>)
      | M_Read \<Rightarrow> Some (s\<lparr>managerThread :=
          (if 2 < vacantThreadsCount s then
             (if 0 < dynamicWorkerCount s then M_Kill (cores s) else M_Loop)
           else if vacantThreadsCount s \<le> 1 then
             (if dynamicWorkerCount s < MaxThreadCount s - cores s then M_Add (cores s) else M_Loop)
           else M_Loop)\<rparr>)
      | M_Kill i \<Rightarrow> Some (killDynamicThread i s)
      | M_KillNotify i \<Rightarrow> Some (notify_all (s\<lparr>managerThread := M_KillJoin i\<rparr>))
      | M_KillJoin i \<Rightarrow> joinDynamicThread i s
      | M_Add i \<Rightarrow> Some (addDynamicThread i s)
      | M_Spawn i \<Rightarrow> Some (spawnDynamicThread created i s)
      | _ \<Rightarrow> None)"

section \<open>Committing\<close>

text \<open>
  \<open>init\<close>: assigning a fresh worker to a slot destroys the old one, and destroying a joinable thread
  calls \<open>std::terminate\<close>. A core thread that cannot be created ends \<open>addCoreThread\<close>, whose answer is
  ignored; a manager thread that cannot be created leaves \<open>call_once\<close> by an exception.
\<close>

definition init_workers :: "nat \<Rightarrow> job \<Rightarrow> ThreadPool \<Rightarrow> ThreadPool" where
  "init_workers p j s =
     (if list_ex workman (workers s) then crash Std_Terminate s
      else commit_at p (P_Spawn j 0)
        (s\<lparr>workers := replicate (if Type s = Flexible then MaxThreadCount s else cores s) new_Worker,
           runState := True\<rparr>))"

definition addCoreThread :: "bool \<Rightarrow> nat \<Rightarrow> job \<Rightarrow> nat \<Rightarrow> ThreadPool \<Rightarrow> ThreadPool" where
  "addCoreThread created p j i s =
     (if cores s \<le> i \<or> \<not> created then commit_at p (P_Vacant j) s
      else if length (workers s) \<le> i then crash Undefined_Behaviour s
      else spawn i (commit_at p (P_Spawn j (Suc i)) s))"

definition init_manager :: "bool \<Rightarrow> nat \<Rightarrow> job \<Rightarrow> ThreadPool \<Rightarrow> ThreadPool" where
  "init_manager created p j s =
     (if Type s = Flexible \<and> cores s < MaxThreadCount s then
        (if created then commit_at p (P_Stop j) (s\<lparr>managerThread := M_Loop, isStart := True, initFlag := Once_Done\<rparr>)
         else commit_at p P_Throw (s\<lparr>initFlag := Once_Fresh\<rparr>))
      else commit_at p (P_Stop j) (s\<lparr>isStart := True, initFlag := Once_Done\<rparr>))"

definition ok_result :: CommitResult where
  "ok_result = \<lparr>isSuccess = True, reason = NoRefuse\<rparr>"

definition full_result :: CommitResult where
  "full_result = \<lparr>isSuccess = False, reason = TaskQueueFulled\<rparr>"

definition stopped_result :: CommitResult where
  "stopped_result = \<lparr>isSuccess = False, reason = ThreadPoolHasStoppedRunning\<rparr>"

primrec job_tasks :: "job \<Rightarrow> nat list" where
  "job_tasks (One t) = [t]"
| "job_tasks (Bulk ts) = ts"

text \<open>The free places as the bulk commit computes them: a \<open>size_t\<close> difference stored in an \<open>int\<close>.\<close>

definition leftSlot :: "ThreadPool \<Rightarrow> int" where
  "leftSlot s = sint (word_of_int (int (QueueMaxSize s) - int (length (queueTask s))) :: 32 word)"

text \<open>The two loops of the bulk commit: the tasks that are queued, and the answers.\<close>

fun bulk_loop :: "int \<Rightarrow> int \<Rightarrow> nat list \<Rightarrow> nat list \<times> CommitResult list" where
  "bulk_loop left i [] = ([], [])"
| "bulk_loop left i (t # ts) =
     (if i < left then let (q, rs) = bulk_loop left (i + 1) ts in (t # q, ok_result # rs)
      else ([], map (\<lambda>_. full_result) (t # ts)))"

definition push_one :: "nat \<Rightarrow> nat \<Rightarrow> ThreadPool \<Rightarrow> ThreadPool" where
  "push_one p t s =
     (if length (queueTask s) < QueueMaxSize s then
        commit_at p (P_NotifyOne [ok_result])
          (s\<lparr>executors := (executors s)(t := (executors s t)\<lparr>discardState := False\<rparr>),
             queueTask := queueTask s @ [t], accepted := accepted s @ [t]\<rparr>)
      else commit_at p (P_Ret [full_result]) (s\<lparr>queueMute := None\<rparr>))"

text \<open>\<open>accepted\<close> records the tasks whose answer reports success.\<close>

definition push_bulk :: "nat \<Rightarrow> nat list \<Rightarrow> ThreadPool \<Rightarrow> ThreadPool" where
  "push_bulk p ts s =
     (let (q, rs) = bulk_loop (leftSlot s) 0 ts in
      commit_at p (P_NotifyAll rs)
        (s\<lparr>queueTask := queueTask s @ q,
           accepted := accepted s @ map fst (filter (\<lambda>(t, r). isSuccess r) (zip ts rs))\<rparr>))"

definition commit_step :: "nat \<Rightarrow> bool \<Rightarrow> nat \<Rightarrow> ThreadPool \<Rightarrow> ThreadPool option" where
  "commit_step p created j s =
     (case commits s p of
        P_Idle \<Rightarrow> None
      | P_Once w \<Rightarrow>
          (case initFlag s of
             Once_Fresh \<Rightarrow> Some (commit_at p (P_Init w) (s\<lparr>initFlag := Once_Active\<rparr>))
           | Once_Active \<Rightarrow> None
           | Once_Done \<Rightarrow> Some (commit_at p (P_Stop w) s))
      | P_Init w \<Rightarrow> Some (init_workers p w s)
      | P_Spawn w i \<Rightarrow> Some (addCoreThread created p w i s)
      | P_Vacant w \<Rightarrow> Some (commit_at p (P_Manager w) (s\<lparr>vacantThreadsCount := int (cores s)\<rparr>))
      | P_Manager w \<Rightarrow> Some (init_manager created p w s)
      | P_Stop w \<Rightarrow> Some (commit_at p
          (if stopCommitState s then P_Ret (map (\<lambda>_. stopped_result) (job_tasks w)) else P_Lock w) s)
      | P_Lock w \<Rightarrow> (if queueMute s = None
          then Some (commit_at p (P_Push w) (s\<lparr>queueMute := Some (By_Commit p)\<rparr>)) else None)
      | P_Push w \<Rightarrow> Some (case w of One t \<Rightarrow> push_one p t s | Bulk ts \<Rightarrow> push_bulk p ts s)
      | P_NotifyOne rs \<Rightarrow> map_option (\<lambda>u. commit_at p (P_Ret rs) (u\<lparr>queueMute := None\<rparr>)) (notify_one j s)
      | P_NotifyAll rs \<Rightarrow> Some (commit_at p (P_Ret rs) ((notify_all s)\<lparr>queueMute := None\<rparr>))
      | P_Ret rs \<Rightarrow> Some (commit_at p P_Idle s)
      | P_Throw \<Rightarrow> Some (commit_at p P_Idle s))"

definition taskSize :: "ThreadPool \<Rightarrow> nat option" where
  "taskSize s = (if queueMute s = None then Some (length (queueTask s)) else None)"

section \<open>Closing\<close>

definition discard :: "nat list \<Rightarrow> (nat \<Rightarrow> Executor) \<Rightarrow> nat \<Rightarrow> Executor" where
  "discard ts es = fold (\<lambda>t es. es(t := (es t)\<lparr>discardState := True\<rparr>)) ts es"

definition close_drain :: "ThreadPool \<Rightarrow> ThreadPool" where
  "close_drain s =
     s\<lparr>closer := C_Notify, executors := discard (queueTask s) (executors s), queueTask := [],
       returned := returned s @ (if closeStrategy s = ReturnTaskAndClose then queueTask s else []),
       dropped := dropped s @ (if closeStrategy s = ReturnTaskAndClose then [] else queueTask s)\<rparr>"

text \<open>One worker is joined, or passed over when there is nothing to join.\<close>

definition close_join :: "nat \<Rightarrow> ThreadPool \<Rightarrow> ThreadPool option" where
  "close_join k s =
     (if length (workers s) \<le> k then Some (s\<lparr>closer := C_Terminate\<rparr>)
      else if \<not> workman (workers s ! k) then Some (s\<lparr>closer := C_Join (Suc k)\<rparr>)
      else if w_pc (workers s ! k) = W_Ret then
        Some (s\<lparr>workers := (workers s)[k := (workers s ! k)\<lparr>workman := False\<rparr>], closer := C_Join (Suc k)\<rparr>)
      else None)"

definition close_call :: "ThreadPool \<Rightarrow> ThreadPool option" where
  "close_call s =
     (if closer s = C_Idle then Some (if isTerminated s then s else s\<lparr>closer := C_Stop\<rparr>) else None)"

definition close_step :: "ThreadPool \<Rightarrow> ThreadPool option" where
  "close_step s =
     (case closer s of
        C_Idle \<Rightarrow> None
      | C_Stop \<Rightarrow> Some (s\<lparr>stopCommitState := True,
          closer := (if closeStrategy s = WaitAllTaskFinish then C_Wait else C_JoinManager)\<rparr>)
      | C_Wait \<Rightarrow> (if queueMute s = None
          then Some (s\<lparr>closer := (if queueTask s = [] then C_JoinManager else C_Wait)\<rparr>) else None)
      | C_JoinManager \<Rightarrow> (if managerThread s = M_None \<or> managerThread s = M_Ret
          then Some (s\<lparr>closer := C_RunState\<rparr>) else None)
      | C_RunState \<Rightarrow> Some (s\<lparr>runState := False,
          closer := (if closeStrategy s = WaitAllTaskFinish then C_Notify else C_Drain)\<rparr>)
      | C_Drain \<Rightarrow> (if queueMute s = None then Some (close_drain s) else None)
      | C_Notify \<Rightarrow> Some (notify_all (s\<lparr>closer := C_Join 0\<rparr>))
      | C_Join k \<Rightarrow> close_join k s
      | C_Terminate \<Rightarrow> Some (s\<lparr>isTerminated := True, closer := C_Idle\<rparr>))"

text \<open>
  The destructor: close the pool if it was started and not closed, then destroy the members. A
  worker whose thread is still joinable ends the program.
\<close>

datatype destruction = Destroy_Closes | Destroy_Terminates | Destroyed

definition destroy_ThreadPool :: "ThreadPool \<Rightarrow> destruction" where
  "destroy_ThreadPool s =
     (if isStart s \<and> \<not> isTerminated s then Destroy_Closes
      else if list_ex workman (workers s) then Destroy_Terminates
      else Destroyed)"

section \<open>The machine\<close>

datatype pool_action =
    A_Worker nat | A_Spurious nat | A_Manager bool | A_Commit nat job | A_Committer nat bool nat
  | A_Close | A_Closer

definition pool_step :: "(nat \<Rightarrow> bool) \<Rightarrow> pool_action \<Rightarrow> ThreadPool \<Rightarrow> ThreadPool option" where
  "pool_step throws a s =
     (if crashed s \<noteq> None then None
      else case a of
        A_Worker i \<Rightarrow> worker_step throws i s
      | A_Spurious i \<Rightarrow> spurious_wakeup i s
      | A_Manager created \<Rightarrow> managerThreadTask created s
      | A_Commit p j \<Rightarrow> (if commits s p = P_Idle then Some (commit_at p (P_Once j) s) else None)
      | A_Committer p created j \<Rightarrow> commit_step p created j s
      | A_Close \<Rightarrow> close_call s
      | A_Closer \<Rightarrow> close_step s)"

end
