(* ===== verification/Pool_Invariant.thy ===== *)
theory Pool_Invariant
  imports Thread_Pool
begin

text \<open>
  The invariant of the thread pool: which slots of the vector of workers hold a thread in each
  phase of \<open>init\<close> and of the manager, and who holds the mutex. Every action of every thread keeps
  it, whatever the interleaving, the failures of thread creation and the spurious wake-ups.
\<close>

named_theorems pool_defs

lemmas [pool_defs] =
  worker_at_def commit_at_def crash_def wake_def notify_all_def notify_one_def spurious_wakeup_def
  worker_return_def worker_block_def worker_lock_def worker_take_def worker_check_def worker_run_def
  worker_idle_def coreRun_def dynamicRun_def worker_step_def spawn_def set_running_def
  addDynamicThread_def spawnDynamicThread_def killDynamicThread_def joinDynamicThread_def
  managerThreadTask_def init_workers_def addCoreThread_def init_manager_def push_one_def push_bulk_def
  commit_step_def close_drain_def close_join_def close_call_def close_step_def

definition dead :: "Worker \<Rightarrow> bool" where
  "dead w \<longleftrightarrow> w_pc w = W_None \<or> w_pc w = W_Ret"

primrec initialising :: "commit_pc \<Rightarrow> bool" where
  "initialising P_Idle = False"
| "initialising (P_Once j) = False"
| "initialising (P_Init j) = True"
| "initialising (P_Spawn j k) = True"
| "initialising (P_Vacant j) = True"
| "initialising (P_Manager j) = True"
| "initialising (P_Stop j) = False"
| "initialising (P_Lock j) = False"
| "initialising (P_Push j) = False"
| "initialising (P_NotifyOne rs) = False"
| "initialising (P_NotifyAll rs) = False"
| "initialising (P_Ret rs) = False"
| "initialising P_Throw = False"

text \<open>The slot the manager is working on.\<close>

fun manager_slot :: "manager_pc \<Rightarrow> nat option" where
  "manager_slot (M_Kill i) = Some i"
| "manager_slot (M_KillNotify i) = Some i"
| "manager_slot (M_KillJoin i) = Some i"
| "manager_slot (M_Add i) = Some i"
| "manager_slot (M_Spawn i) = Some i"
| "manager_slot _ = None"

fun killing :: "manager_pc \<Rightarrow> nat \<Rightarrow> bool" where
  "killing (M_KillNotify i) k = (i = k)"
| "killing (M_KillJoin i) k = (i = k)"
| "killing _ k = False"

text \<open>
  A thread that has not returned is joinable; a dynamic slot that is not marked as running has no
  live thread unless the manager is ending it; the manager starts a thread in a free slot only.
\<close>

definition slots_inv :: "nat \<Rightarrow> nat \<Rightarrow> Worker list \<Rightarrow> manager_pc \<Rightarrow> bool" where
  "slots_inv c m ws mg \<longleftrightarrow>
     (\<forall>i < length ws. dead (ws ! i) \<or> workman (ws ! i)) \<and>
     (\<forall>i < length ws. workman (ws ! i) \<longrightarrow> w_pc (ws ! i) \<noteq> W_None) \<and>
     (\<forall>i < length ws. c \<le> i \<longrightarrow> \<not> isRunning (ws ! i) \<longrightarrow> killing mg i \<or> dead (ws ! i)) \<and>
     (\<forall>i. mg = M_Spawn i \<longrightarrow> i < length ws \<and> dead (ws ! i)) \<and>
     (mg \<noteq> M_None \<longrightarrow> length ws = m \<and> c \<le> m) \<and>
     (\<forall>i. manager_slot mg = Some i \<longrightarrow> c \<le> i \<and> i \<le> length ws) \<and>
     (\<forall>i. killing mg i \<longrightarrow> i < length ws)"

text \<open>
  One thread at a time runs \<open>init\<close>, before any manager exists; the slots it has not reached are
  empty, and the vector has its size.
\<close>

definition init_inv ::
  "ThreadPoolType \<Rightarrow> nat \<Rightarrow> nat \<Rightarrow> Worker list \<Rightarrow> (nat \<Rightarrow> commit_pc) \<Rightarrow> once_flag \<Rightarrow> manager_pc \<Rightarrow> bool" where
  "init_inv ty c m ws cs flag mg \<longleftrightarrow>
     (\<forall>p. initialising (cs p) \<longrightarrow> flag = Once_Active) \<and>
     (\<forall>p q. initialising (cs p) \<longrightarrow> initialising (cs q) \<longrightarrow> p = q) \<and>
     (\<forall>p j k. cs p = P_Spawn j k \<longrightarrow> (\<forall>i < length ws. k \<le> i \<longrightarrow> w_pc (ws ! i) = W_None)) \<and>
     (flag \<noteq> Once_Done \<longrightarrow> mg = M_None) \<and>
     (\<forall>p. initialising (cs p) \<longrightarrow> \<not> (\<exists>j. cs p = P_Init j) \<longrightarrow>
        length ws = (if ty = Flexible then m else c))"

abbreviation slots_ok :: "ThreadPool \<Rightarrow> bool" where
  "slots_ok s \<equiv> slots_inv (cores s) (MaxThreadCount s) (workers s) (managerThread s)"

abbreviation init_ok :: "ThreadPool \<Rightarrow> bool" where
  "init_ok s \<equiv> init_inv (Type s) (cores s) (MaxThreadCount s) (workers s) (commits s) (initFlag s) (managerThread s)"

lemma dead_wake [simp]: "dead (wake w) = dead w"
  by (simp add: wake_def dead_def)

lemma dead_fields [simp]: "dead (w\<lparr>isRunning := b\<rparr>) = dead w" "dead (w\<lparr>workman := b\<rparr>) = dead w"
  by (simp_all add: dead_def)

lemma wake_fields [simp]:
  "workman (wake w) = workman w" "isRunning (wake w) = isRunning w"
  "w_pc (wake w) = W_None \<longleftrightarrow> w_pc w = W_None" "w_pc (wake w) \<noteq> W_Blocked"
  by (simp_all add: wake_def)

lemma slots_inv_wake [simp]: "slots_inv c m (map wake ws) mg = slots_inv c m ws mg"
  by (simp add: slots_inv_def cong: conj_cong)

lemma init_inv_wake [simp]: "init_inv ty c m (map wake ws) cs flag mg = init_inv ty c m ws cs flag mg"
  by (simp add: init_inv_def)

lemma nth_slot: "ws[i := w] ! k = (if k = i \<and> i < length ws then w else ws ! k)"
  by (cases "i < length ws") (auto simp: nth_list_update not_less list_update_beyond)

lemma slots_inv_update:
  assumes "slots_inv c m ws mg" and "dead w \<or> workman w" and "workman w \<Longrightarrow> w_pc w \<noteq> W_None"
    and "c \<le> i \<Longrightarrow> \<not> isRunning w \<Longrightarrow> killing mg i \<or> dead w"
    and "mg = M_Spawn i \<Longrightarrow> dead w"
  shows "slots_inv c m (ws[i := w]) mg"
  using assms unfolding slots_inv_def length_list_update by (auto simp: nth_slot)

lemma slots_inv_move:
  assumes "slots_inv c m ws mg" and "\<not> dead (ws ! i)" and "x \<noteq> W_None"
  shows "slots_inv c m (ws[i := (ws ! i)\<lparr>w_pc := x\<rparr>]) mg"
proof (cases "i < length ws")
  case True
  with assms(1,2) have "workman (ws ! i)" "c \<le> i \<Longrightarrow> \<not> isRunning (ws ! i) \<Longrightarrow> killing mg i" "mg \<noteq> M_Spawn i"
    unfolding slots_inv_def by blast+
  with assms(1,3) show ?thesis by (intro slots_inv_update) auto
qed (use assms(1) in \<open>simp add: not_less list_update_beyond\<close>)

lemma init_inv_move:
  assumes "init_inv ty c m ws cs flag mg" and "w_pc (ws ! i) \<noteq> W_None"
  shows "init_inv ty c m (ws[i := (ws ! i)\<lparr>w_pc := x\<rparr>]) cs flag mg"
  using assms unfolding init_inv_def length_list_update by (auto simp: nth_slot)

lemma init_inv_commit:
  assumes "init_inv ty c m ws cs flag mg" and "\<not> initialising x"
  shows "init_inv ty c m ws (cs(p := x)) flag mg"
  using assms unfolding init_inv_def by auto

lemma init_inv_active:
  assumes "init_inv ty c m ws cs flag mg" and "initialising (cs p)"
  shows "flag = Once_Active" and "mg = M_None" and "initialising (cs q) \<Longrightarrow> q = p"
proof -
  show "flag = Once_Active" using assms unfolding init_inv_def by blast
  with assms(1) show "mg = M_None" unfolding init_inv_def by simp
  show "initialising (cs q) \<Longrightarrow> q = p" using assms unfolding init_inv_def by blast
qed

lemma init_inv_length:
  "\<lbrakk>init_inv ty c m ws cs flag mg; initialising (cs p); \<forall>j. cs p \<noteq> P_Init j\<rbrakk> \<Longrightarrow>
     length ws = (if ty = Flexible then m else c)"
  unfolding init_inv_def by blast

lemma init_inv_fresh:
  "\<lbrakk>init_inv ty c m ws cs flag mg; cs p = P_Spawn j k; i < length ws; k \<le> i\<rbrakk> \<Longrightarrow> w_pc (ws ! i) = W_None"
  unfolding init_inv_def by blast

text \<open>The thread that runs \<open>init\<close> is the only one, so the invariant is about its own new state.\<close>

lemma init_inv_own:
  assumes "\<And>q. initialising (cs q) \<Longrightarrow> q = p"
    and "initialising x \<Longrightarrow> flag = Once_Active" and "flag \<noteq> Once_Done \<Longrightarrow> mg = M_None"
    and "\<And>j k i. x = P_Spawn j k \<Longrightarrow> i < length ws \<Longrightarrow> k \<le> i \<Longrightarrow> w_pc (ws ! i) = W_None"
    and "initialising x \<Longrightarrow> \<forall>j. x \<noteq> P_Init j \<Longrightarrow> length ws = (if ty = Flexible then m else c)"
  shows "init_inv ty c m ws (cs(p := x)) flag mg"
proof -
  have q: "\<not> initialising (cs q)" if "q \<noteq> p" for q using assms(1) that by blast
  then have s: "cs q \<noteq> P_Spawn j k" if "q \<noteq> p" for q j k using that by (metis initialising.simps(4))
  show ?thesis
    unfolding init_inv_def using assms(2-5) q s by (simp_all split: if_splits)
qed

section \<open>Workers\<close>

text \<open>An action of a worker moves its own program counter, and leaves the fields of the other threads alone.\<close>

definition worker_frame :: "nat \<Rightarrow> worker_pc \<Rightarrow> ThreadPool \<Rightarrow> ThreadPool \<Rightarrow> bool" where
  "worker_frame i c s s' \<longleftrightarrow>
     i < length (workers s) \<and> \<not> dead (workers s ! i) \<and> c \<noteq> W_None \<and>
     workers s' = (workers s)[i := (workers s ! i)\<lparr>w_pc := c\<rparr>] \<and>
     Type s' = Type s \<and> closeStrategy s' = closeStrategy s \<and> cores s' = cores s \<and>
     MaxThreadCount s' = MaxThreadCount s \<and> QueueMaxSize s' = QueueMaxSize s \<and>
     initFlag s' = initFlag s \<and> dynamicWorkerCount s' = dynamicWorkerCount s \<and>
     runState s' = runState s \<and> stopCommitState s' = stopCommitState s \<and>
     isTerminated s' = isTerminated s \<and> managerThread s' = managerThread s \<and>
     isStart s' = isStart s \<and> commits s' = commits s \<and> closer s' = closer s \<and>
     accepted s' = accepted s \<and> returned s' = returned s \<and> dropped s' = dropped s"

lemma worker_frameI:
  assumes "\<not> length (workers s) \<le> i" "\<not> dead (workers s ! i)" "c \<noteq> W_None"
    and "workers s' = (workers s)[i := (workers s ! i)\<lparr>w_pc := c\<rparr>]"
    and "s'\<lparr>workers := [], queueTask := [], queueMute := None, vacantThreadsCount := 0, executors := undefined,
             started := [], finished := [], crashed := None\<rparr> =
         s\<lparr>workers := [], queueTask := [], queueMute := None, vacantThreadsCount := 0, executors := undefined,
             started := [], finished := [], crashed := None\<rparr>"
  shows "worker_frame i c s s'"
  using assms by (cases s; cases s') (simp add: worker_frame_def)

lemma same_pc: "w_pc (ws ! i) = c \<Longrightarrow> ws[i := (ws ! i)\<lparr>w_pc := c\<rparr>] = ws"
  using list_update_id [of ws i] by (cases "ws ! i") auto

lemma worker_step_frame:
  assumes "worker_step throws i s = Some s'"
  obtains c where "worker_frame i c s s'"
proof -
  have "worker_frame i (w_pc (workers s' ! i)) s s'"
    using assms
    by (cases "w_pc (workers s ! i)"; cases "queueTask s")
       (auto simp: pool_defs dead_def Let_def same_pc split: if_splits intro!: worker_frameI)
  then show thesis by (rule that)
qed

lemma worker_frame_keeps:
  assumes "worker_frame i c s s'"
  shows "slots_ok s \<Longrightarrow> slots_ok s'" and "init_ok s \<Longrightarrow> init_ok s'"
  using assms by (simp_all add: worker_frame_def dead_def slots_inv_move init_inv_move)

lemma blocked_frame: "blocked s i \<Longrightarrow> worker_frame i W_Lock s (worker_at i W_Lock s)"
  by (rule worker_frameI) (auto simp: blocked_def dead_def worker_at_def)

lemma notify_one_keeps:
  assumes "notify_one j s = Some s'"
  shows "slots_ok s \<Longrightarrow> slots_ok s'" and "init_ok s \<Longrightarrow> init_ok s'"
  using assms worker_frame_keeps [OF blocked_frame, of s j] by (simp_all add: notify_one_def split: if_splits)

section \<open>The other threads\<close>

lemma slots_inv_fresh: "slots_inv c m (replicate n new_Worker) M_None"
  by (simp add: slots_inv_def new_Worker_def dead_def)

lemma manager_step_slots:
  assumes "slots_ok s" and "managerThreadTask created s = Some s'"
  shows "slots_ok s'"
proof (cases "managerThread s")
  case (M_Kill i)
  with assms show ?thesis
    by (auto simp: managerThreadTask_def killDynamicThread_def set_running_def slots_inv_def nth_slot split: if_splits)
next
  case (M_KillJoin i)
  with assms show ?thesis
    by (auto simp: managerThreadTask_def joinDynamicThread_def crash_def slots_inv_def nth_slot dead_def split: if_splits)
next
  case (M_Add i)
  with assms show ?thesis
    by (auto simp: managerThreadTask_def addDynamicThread_def set_running_def slots_inv_def nth_slot split: if_splits)
next
  case (M_Spawn i)
  with assms show ?thesis
    by (auto simp: managerThreadTask_def spawnDynamicThread_def spawn_def slots_inv_def nth_slot split: if_splits)
qed (use assms in \<open>auto simp: managerThreadTask_def notify_all_def slots_inv_def split: if_splits\<close>)

lemma manager_step_init:
  assumes "init_ok s" and "managerThreadTask created s = Some s'"
  shows "init_ok s'"
proof -
  have "initFlag s = Once_Done"
    using assms by (auto simp: init_inv_def managerThreadTask_def split: manager_pc.splits)
  then have "\<not> initialising (commits s p)" for p using assms(1) by (auto simp: init_inv_def)
  then have n: "init_inv ty c m ws (commits s) Once_Done mg" for ty c m ws mg
    by (auto simp: init_inv_def dest: arg_cong [where f = initialising])
  have "initFlag s' = Once_Done" "commits s' = commits s"
    using assms(2) \<open>initFlag s = Once_Done\<close>
    by (auto simp: managerThreadTask_def killDynamicThread_def joinDynamicThread_def addDynamicThread_def
        spawnDynamicThread_def spawn_def set_running_def crash_def notify_all_def split: manager_pc.splits if_splits)
  with n show ?thesis by simp
qed

lemma init_workers_keeps:
  assumes "slots_ok s" "init_ok s" "commits s p = P_Init j"
  shows "slots_ok (init_workers p j s)" and "init_ok (init_workers p j s)"
proof -
  have i: "initialising (commits s p)" using assms(3) by simp
  note act = init_inv_active [OF assms(2) i]
  show "slots_ok (init_workers p j s)"
    using assms(1) act slots_inv_fresh by (simp add: init_workers_def crash_def commit_at_def)
  have "init_inv (Type s) (cores s) (MaxThreadCount s) (replicate (if Type s = Flexible then MaxThreadCount s else cores s) new_Worker)
      ((commits s)(p := P_Spawn j 0)) Once_Active M_None"
    by (rule init_inv_own [OF act(3)]) (auto simp: new_Worker_def)
  then show "init_ok (init_workers p j s)"
    using assms(2) act by (simp add: init_workers_def crash_def commit_at_def)
qed

lemma addCoreThread_keeps:
  assumes "slots_ok s" "init_ok s" "commits s p = P_Spawn j i"
  shows "slots_ok (addCoreThread created p j i s)" and "init_ok (addCoreThread created p j i s)"
proof -
  have i: "initialising (commits s p)" using assms(3) by simp
  note act = init_inv_active [OF assms(2) i]
  have len: "length (workers s) = (if Type s = Flexible then MaxThreadCount s else cores s)"
    using init_inv_length [OF assms(2) i] assms(3) by simp
  note fresh = init_inv_fresh [OF assms(2,3)]
  show "slots_ok (addCoreThread created p j i s)"
    using assms(1) act by (auto simp: addCoreThread_def crash_def commit_at_def spawn_def intro!: slots_inv_update)
  have a: "init_inv (Type s) (cores s) (MaxThreadCount s) (workers s) ((commits s)(p := P_Vacant j)) Once_Active M_None"
    using len by (intro init_inv_own [OF act(3)]) auto
  have b: "init_inv (Type s) (cores s) (MaxThreadCount s) ((workers s)[i := w]) ((commits s)(p := P_Spawn j (Suc i))) Once_Active M_None" for w
    using len fresh by (intro init_inv_own [OF act(3)]) (auto simp: nth_slot)
  show "init_ok (addCoreThread created p j i s)"
    using assms(2) act a b by (simp add: addCoreThread_def crash_def commit_at_def spawn_def)
qed

lemma init_manager_keeps:
  assumes "slots_ok s" "init_ok s" "commits s p = P_Manager j"
  shows "slots_ok (init_manager created p j s)" and "init_ok (init_manager created p j s)"
proof -
  have i: "initialising (commits s p)" using assms(3) by simp
  note act = init_inv_active [OF assms(2) i]
  have len: "length (workers s) = (if Type s = Flexible then MaxThreadCount s else cores s)"
    using init_inv_length [OF assms(2) i] assms(3) by simp
  show "slots_ok (init_manager created p j s)"
    using assms(1) act len by (auto simp: init_manager_def commit_at_def slots_inv_def)
  show "init_ok (init_manager created p j s)"
    using act by (auto simp: init_manager_def commit_at_def intro!: init_inv_own)
qed

lemma commit_step_keeps:
  assumes "slots_ok s" "init_ok s" "commit_step p created j s = Some s'"
  shows "slots_ok s' \<and> init_ok s'"
proof (cases "commits s p")
  case (P_Once w)
  then have "init_inv (Type s) (cores s) (MaxThreadCount s) (workers s) ((commits s)(p := P_Init w)) Once_Active (managerThread s)"
    if "initFlag s = Once_Fresh"
    using assms(2) that by (intro init_inv_own) (auto simp: init_inv_def)
  with P_Once assms show ?thesis
    by (auto simp: commit_step_def commit_at_def init_inv_commit split: once_flag.splits)
next
  case (P_Vacant w)
  with init_inv_active [OF assms(2), of p] init_inv_length [OF assms(2), of p]
  have "init_inv (Type s) (cores s) (MaxThreadCount s) (workers s) ((commits s)(p := P_Manager w)) Once_Active M_None"
    by (intro init_inv_own) auto
  with P_Vacant assms init_inv_active [OF assms(2), of p] show ?thesis
    by (auto simp: commit_step_def commit_at_def)
next
  case (P_NotifyOne rs)
  with assms obtain u where u: "notify_one j s = Some u" "s' = commit_at p (P_Ret rs) (u\<lparr>queueMute := None\<rparr>)"
    by (auto simp: commit_step_def)
  then show ?thesis
    using notify_one_keeps [OF u(1)] assms(1,2) by (simp add: commit_at_def init_inv_commit)
next
  case (P_Push w)
  with assms show ?thesis
    by (auto simp: commit_step_def push_one_def push_bulk_def commit_at_def init_inv_commit
        split: job.splits prod.splits)
next
  case (P_NotifyAll rs)
  with assms show ?thesis by (auto simp: commit_step_def commit_at_def notify_all_def init_inv_commit)
next
  case (P_Init w)
  with assms show ?thesis using init_workers_keeps by (auto simp: commit_step_def)
next
  case (P_Spawn w i)
  with assms show ?thesis using addCoreThread_keeps by (auto simp: commit_step_def)
next
  case (P_Manager w)
  with assms show ?thesis using init_manager_keeps by (auto simp: commit_step_def)
qed (use assms in \<open>auto simp: commit_step_def commit_at_def init_inv_commit split: if_splits\<close>)

lemma close_step_keeps:
  assumes "slots_ok s" "init_ok s" "close_step s = Some s'"
  shows "slots_ok s' \<and> init_ok s'"
proof (cases "closer s")
  case (C_Join k)
  have "init_inv ty c m (ws[k := (ws ! k)\<lparr>workman := False\<rparr>]) cs flag mg"
    if "init_inv ty c m ws cs flag mg" for ty c m ws cs flag mg
    using that unfolding init_inv_def length_list_update by (auto simp: nth_slot)
  with C_Join assms show ?thesis
    by (auto simp: close_step_def close_join_def dead_def split: if_splits intro!: slots_inv_update)
qed (use assms in \<open>auto simp: close_step_def notify_all_def close_drain_def split: if_splits\<close>)

section \<open>The mutex\<close>

fun w_critical :: "worker_pc \<Rightarrow> bool" where
  "w_critical c = (c = W_Pred \<or> c = W_PredAlive \<or> c = W_Wait \<or> c = W_RunState \<or> c = W_Alive \<or> c = W_Take)"

primrec p_critical :: "commit_pc \<Rightarrow> bool" where
  "p_critical P_Idle = False"
| "p_critical (P_Once j) = False"
| "p_critical (P_Init j) = False"
| "p_critical (P_Spawn j k) = False"
| "p_critical (P_Vacant j) = False"
| "p_critical (P_Manager j) = False"
| "p_critical (P_Stop j) = False"
| "p_critical (P_Lock j) = False"
| "p_critical (P_Push j) = True"
| "p_critical (P_NotifyOne rs) = True"
| "p_critical (P_NotifyAll rs) = True"
| "p_critical (P_Ret rs) = False"
| "p_critical P_Throw = False"

text \<open>A thread is inside a critical section exactly when it holds the mutex.\<close>

definition mute_inv :: "Worker list \<Rightarrow> (nat \<Rightarrow> commit_pc) \<Rightarrow> owner option \<Rightarrow> bool" where
  "mute_inv ws cs mu \<longleftrightarrow>
     (\<forall>i < length ws. w_critical (w_pc (ws ! i)) \<longleftrightarrow> mu = Some (By_Worker i)) \<and>
     (\<forall>p. p_critical (cs p) \<longleftrightarrow> mu = Some (By_Commit p)) \<and>
     (\<forall>i. mu = Some (By_Worker i) \<longrightarrow> i < length ws)"

abbreviation mute_ok :: "ThreadPool \<Rightarrow> bool" where
  "mute_ok s \<equiv> mute_inv (workers s) (commits s) (queueMute s)"

lemma mute_inv_wake [simp]: "mute_inv (map wake ws) cs mu = mute_inv ws cs mu"
proof -
  have "w_critical (w_pc (wake w)) = w_critical (w_pc w)" for w by (simp add: wake_def)
  then show ?thesis by (simp add: mute_inv_def)
qed

lemma mute_inv_join [simp]:
  "mute_inv (ws[i := (ws ! i)\<lparr>workman := b\<rparr>]) cs mu = mute_inv ws cs mu"
  "mute_inv (ws[i := (ws ! i)\<lparr>isRunning := b\<rparr>]) cs mu = mute_inv ws cs mu"
  by (auto simp: mute_inv_def nth_slot)

text \<open>A worker moves without the mutex, takes it, keeps it, or gives it back.\<close>

lemma mute_inv_move:
  assumes "mute_inv ws cs mu" and "i < length ws"
    and "w_critical x \<longleftrightarrow> mu' = Some (By_Worker i)"
    and "mu' = mu \<or> mu = None \<and> mu' = Some (By_Worker i) \<or> mu = Some (By_Worker i) \<and> mu' = None"
  shows "mute_inv (ws[i := (ws ! i)\<lparr>w_pc := x\<rparr>]) cs mu'"
  using assms unfolding mute_inv_def by (auto simp: nth_slot)

lemma mute_inv_commit:
  assumes "mute_inv ws cs mu"
    and "p_critical x \<longleftrightarrow> mu' = Some (By_Commit p)"
    and "mu' = mu \<or> mu = None \<and> mu' = Some (By_Commit p) \<or> mu = Some (By_Commit p) \<and> mu' = None"
  shows "mute_inv ws (cs(p := x)) mu'"
  using assms unfolding mute_inv_def by auto

lemma mute_inv_new:
  assumes "mute_inv ws cs mu" "\<not> w_critical (w_pc w)" "\<not> w_critical (w_pc (ws ! i))"
  shows "mute_inv (ws[i := w]) cs mu"
  using assms unfolding mute_inv_def by (auto simp: nth_slot)

lemma mute_holder:
  assumes "mute_ok s"
  shows "i < length (workers s) \<Longrightarrow> w_critical (w_pc (workers s ! i)) \<Longrightarrow> queueMute s = Some (By_Worker i)"
    and "p_critical (commits s p) \<Longrightarrow> queueMute s = Some (By_Commit p)"
    and "i < length (workers s) \<Longrightarrow> queueMute s = Some (By_Worker i) \<Longrightarrow> w_critical (w_pc (workers s ! i))"
    and "queueMute s = Some (By_Commit p) \<Longrightarrow> p_critical (commits s p)"
  using assms unfolding mute_inv_def by blast+

lemma worker_step_mute:
  assumes "mute_ok s" and "worker_step throws i s = Some s'"
  shows "mute_ok s'"
proof -
  have i: "i < length (workers s)" using assms(2) by (simp add: worker_step_def split: if_splits)
  note h = mute_holder(1) [OF assms(1) i] mute_holder(3) [OF assms(1) i]
  note mv = mute_inv_move [OF assms(1) i]
  show ?thesis
    using assms i h
    by (cases "w_pc (workers s ! i)"; cases "queueTask s")
       (auto simp: pool_defs Let_def split: if_splits intro!: mv)
qed

lemma spawn_mute:
  assumes "mute_inv ws cs mu" and "dead (ws ! i)"
  shows "mute_inv (ws[i := (ws ! i)\<lparr>isRunning := True, workman := True, w_pc := W_Lock\<rparr>]) cs mu"
  using assms by (intro mute_inv_new) (auto simp: dead_def)

lemma manager_step_mute:
  assumes "mute_ok s" and "slots_ok s" and "managerThreadTask created s = Some s'"
  shows "mute_ok s'"
proof (cases "managerThread s")
  case (M_Spawn i)
  then have "dead (workers s ! i)" using assms(2) by (simp add: slots_inv_def)
  with M_Spawn assms show ?thesis
    by (auto simp: managerThreadTask_def spawnDynamicThread_def spawn_def spawn_mute)
qed (use assms in \<open>auto simp: managerThreadTask_def notify_all_def killDynamicThread_def joinDynamicThread_def
      addDynamicThread_def set_running_def crash_def split: if_splits\<close>)

lemma no_thread_no_holder:
  assumes "slots_ok s" "mute_ok s" "\<not> list_ex workman (workers s)"
  shows "queueMute s \<noteq> Some (By_Worker i)"
proof
  assume q: "queueMute s = Some (By_Worker i)"
  then have i: "i < length (workers s)" using assms(2) by (simp add: mute_inv_def)
  then have "\<not> workman (workers s ! i)" using assms(3) by (simp add: list_ex_iff)
  with assms(1) i have "dead (workers s ! i)" unfolding slots_inv_def by blast
  with mute_holder(3) [OF assms(2) i q] show False by (auto simp: dead_def)
qed

lemma init_workers_mute:
  assumes "slots_ok s" "mute_ok s" "commits s p = P_Init j"
  shows "mute_ok (init_workers p j s)"
proof -
  have "mute_inv (replicate n new_Worker) (commits s) (queueMute s)" if "\<not> list_ex workman (workers s)" for n
    using assms(2) no_thread_no_holder [OF assms(1,2) that] by (simp add: mute_inv_def new_Worker_def)
  with assms show ?thesis
    using mute_holder(4) [OF assms(2), of p]
    by (auto simp: init_workers_def crash_def commit_at_def intro!: mute_inv_commit)
qed

lemma addCoreThread_mute:
  assumes "mute_ok s" "init_ok s" "commits s p = P_Spawn j i"
  shows "mute_ok (addCoreThread created p j i s)"
proof -
  have n: "queueMute s \<noteq> Some (By_Commit p)" using mute_holder(4) [OF assms(1), of p] assms(3) by auto
  have "dead (workers s ! i)" if "i < length (workers s)"
    using init_inv_fresh [OF assms(2,3) that] by (simp add: dead_def)
  with n assms(1) show ?thesis
    by (auto simp: addCoreThread_def crash_def commit_at_def spawn_def intro!: mute_inv_commit spawn_mute)
qed

lemma blocked_mute: "blocked s i \<Longrightarrow> mute_ok s \<Longrightarrow> mute_ok (worker_at i W_Lock s)"
  using mute_holder(3) [of s i] by (auto simp: blocked_def worker_at_def intro!: mute_inv_move)

lemma notify_one_mute: "notify_one j s = Some s' \<Longrightarrow> mute_ok s \<Longrightarrow> mute_ok s'"
  by (auto simp: notify_one_def blocked_mute split: if_splits)

lemma commit_step_mute:
  assumes "mute_ok s" "slots_ok s" "init_ok s" "commit_step p created j s = Some s'"
  shows "mute_ok s'"
proof -
  note h = mute_holder(2) [OF assms(1), of p] mute_holder(4) [OF assms(1), of p]
  show ?thesis
  proof (cases "commits s p")
    case (P_Init w)
    with assms show ?thesis using init_workers_mute by (auto simp: commit_step_def)
  next
    case (P_Spawn w i)
    with assms show ?thesis using addCoreThread_mute by (auto simp: commit_step_def)
  next
    case (P_NotifyOne rs)
    with assms obtain u where u: "notify_one j s = Some u" "s' = commit_at p (P_Ret rs) (u\<lparr>queueMute := None\<rparr>)"
      by (auto simp: commit_step_def)
    then have "commits u = commits s" "queueMute u = queueMute s"
      by (auto simp: notify_one_def worker_at_def split: if_splits)
    with u notify_one_mute [OF u(1) assms(1)] h(1) P_NotifyOne show ?thesis
      by (auto simp: commit_at_def intro!: mute_inv_commit)
  next
    case (P_NotifyAll rs)
    with assms h show ?thesis by (auto simp: commit_step_def commit_at_def notify_all_def intro!: mute_inv_commit)
  next
    case (P_Push w)
    with assms h show ?thesis
      by (auto simp: commit_step_def push_one_def push_bulk_def commit_at_def
          split: job.splits prod.splits if_splits intro!: mute_inv_commit)
  next
    case (P_Manager w)
    with assms h show ?thesis
      by (auto simp: commit_step_def init_manager_def commit_at_def intro!: mute_inv_commit)
  qed (use assms h in \<open>auto simp: commit_step_def commit_at_def intro!: mute_inv_commit
        split: if_splits once_flag.splits\<close>)
qed

lemma close_step_mute:
  assumes "mute_ok s" "close_step s = Some s'"
  shows "mute_ok s'"
  using assms by (cases "closer s")
    (auto simp: close_step_def close_join_def notify_all_def close_drain_def split: if_splits)

section \<open>The invariant\<close>

definition pool_inv :: "ThreadPool \<Rightarrow> bool" where
  "pool_inv s \<longleftrightarrow> slots_ok s \<and> init_ok s \<and> mute_ok s"

lemma new_pool_inv: "new_ThreadPool c m q ty st es = Some s \<Longrightarrow> pool_inv s"
  by (auto simp: new_ThreadPool_def pool_inv_def slots_inv_def init_inv_def mute_inv_def Let_def split: if_splits)

lemma pool_step_inv:
  assumes "pool_inv s" and "pool_step throws a s = Some s'"
  shows "pool_inv s'"
proof -
  have inv: "slots_ok s" "init_ok s" "mute_ok s" using assms(1) by (simp_all add: pool_inv_def)
  have c: "crashed s = None" using assms(2) by (simp add: pool_step_def split: if_splits)
  note st = assms(2) [unfolded pool_step_def]
  show ?thesis
  proof (cases a)
    case (A_Worker i)
    with st c have w: "worker_step throws i s = Some s'" by simp
    then obtain x where "worker_frame i x s s'" by (rule worker_step_frame)
    from worker_frame_keeps [OF this] worker_step_mute [OF inv(3) w] inv show ?thesis by (simp add: pool_inv_def)
  next
    case (A_Spurious i)
    with st c have b: "blocked s i" "s' = worker_at i W_Lock s"
      by (auto simp: spurious_wakeup_def split: if_splits)
    with worker_frame_keeps [OF blocked_frame [OF b(1)]] blocked_mute [OF b(1)] inv show ?thesis
      by (simp add: pool_inv_def)
  next
    case (A_Manager created)
    with st c have m: "managerThreadTask created s = Some s'" by simp
    from manager_step_slots [OF inv(1) m] manager_step_init [OF inv(2) m] manager_step_mute [OF inv(3,1) m]
    show ?thesis by (simp add: pool_inv_def)
  next
    case (A_Commit p j)
    with st c inv mute_holder(4) [OF inv(3), of p] show ?thesis
      by (auto simp: pool_inv_def commit_at_def init_inv_commit intro!: mute_inv_commit split: if_splits)
  next
    case (A_Committer p created j)
    with st c have m: "commit_step p created j s = Some s'" by simp
    from commit_step_keeps [OF inv(1,2) m] commit_step_mute [OF inv(3,1,2) m] show ?thesis
      by (simp add: pool_inv_def)
  next
    case A_Close
    with st c inv show ?thesis by (auto simp: pool_inv_def close_call_def split: if_splits)
  next
    case A_Closer
    with st c have m: "close_step s = Some s'" by simp
    from close_step_keeps [OF inv(1,2) m] close_step_mute [OF inv(3) m] show ?thesis
      by (simp add: pool_inv_def)
  qed
qed

interpretation pool: machine_invariant "pool_step throws" any_action pool_inv
  by unfold_locales (rule pool_step_inv)

lemma reach_inv:
  "\<lbrakk>new_ThreadPool c m q ty st es = Some s\<^sub>0; reach (pool_step throws) ok s\<^sub>0 s\<rbrakk> \<Longrightarrow> pool_inv s"
  by (rule pool.reach_keeps [OF reach_weaken new_pool_inv]) auto

end
