(* ===== verification/Pool_Tasks.thy ===== *)
theory Pool_Tasks
  imports Pool_Invariant
begin

text \<open>
  What happens to a task that the thread pool accepted. In every reachable state, whatever the
  interleaving, each accepted task is in exactly one place: in the queue, held by a worker,
  finished, returned by \<open>close\<close> or dropped by it. No worker takes from an empty queue.
\<close>

section \<open>Accepted tasks are conserved\<close>

fun held_pc :: "worker_pc \<Rightarrow> nat list" where
  "held_pc (W_Check t) = [t]"
| "held_pc (W_Run t) = [t]"
| "held_pc _ = []"

definition held :: "Worker list \<Rightarrow> nat multiset" where
  "held ws = mset (concat (map (\<lambda>w. held_pc (w_pc w)) ws))"

definition balanced :: "nat multiset \<Rightarrow> ThreadPool \<Rightarrow> bool" where
  "balanced ac s \<longleftrightarrow>
     ac = mset (queueTask s) + held (workers s) + mset (finished s) + mset (returned s) + mset (dropped s)"

definition runs_ok :: "nat list \<Rightarrow> nat list \<Rightarrow> (nat \<Rightarrow> Executor) \<Rightarrow> bool" where
  "runs_ok st fi es \<longleftrightarrow> mset st \<subseteq># mset fi \<and> (\<forall>t \<in> set fi. finishState (es t))"

lemma held_update:
  "i < length ws \<Longrightarrow> held (ws[i := w]) + mset (held_pc (w_pc (ws ! i))) = held ws + mset (held_pc (w_pc w))"
  unfolding held_def by (rule mset_concat_update)

lemma held_same:
  assumes "held_pc (w_pc w) = held_pc (w_pc (ws ! i))"
  shows "held (ws[i := w]) = held ws"
proof (cases "i < length ws")
  case True
  from held_update [OF this, of w] assms show ?thesis by simp
qed (simp add: not_less list_update_beyond)

lemma held_wake [simp]: "held (map wake ws) = held ws"
proof -
  have "held_pc (w_pc (wake w)) = held_pc (w_pc w)" for w by (simp add: wake_def)
  then show ?thesis by (simp add: held_def comp_def)
qed

lemma held_Nil [simp]: "held [] = {#}"
  by (simp add: held_def)

lemma held_fresh [simp]: "held (replicate n new_Worker) = {#}"
  by (induction n) (simp_all add: held_def new_Worker_def)

lemma held_dead: "(\<And>i. i < length ws \<Longrightarrow> dead (ws ! i)) \<Longrightarrow> held ws = {#}"
proof -
  assume "\<And>i. i < length ws \<Longrightarrow> dead (ws ! i)"
  then have "held_pc (w_pc w) = []" if "w \<in> set ws" for w
    using that by (metis dead_def held_pc.simps(3) held_pc.simps(13) in_set_conv_nth)
  then show ?thesis by (simp add: held_def)
qed

lemma bulk_loop_result:
  "bulk_loop left i ts = (q, rs) \<Longrightarrow>
     length rs = length ts \<and> map fst (filter (\<lambda>(t, r). isSuccess r) (zip ts rs)) = q"
proof (induction left i ts arbitrary: q rs rule: bulk_loop.induct)
  case (2 left i t ts)
  have f: "filter (\<lambda>(t, r). isSuccess r) (zip xs (map (\<lambda>_. full_result) xs)) = []" for xs :: "nat list"
    by (induction xs) (simp_all add: full_result_def)
  from 2 f [of "t # ts"] show ?case
    by (cases "bulk_loop left (i + 1) ts") (auto simp: ok_result_def split: if_splits)
qed simp

lemma worker_step_balanced:
  assumes "balanced ac s" and "worker_step throws i s = Some s'"
  shows "balanced ac s'"
proof -
  have i: "i < length (workers s)" using assms(2) by (simp add: worker_step_def split: if_splits)
  note u = held_update [OF i] and e = held_same [of _ "workers s" i]
  show ?thesis
  proof (cases "w_pc (workers s ! i)")
    case W_Take
    with assms u [of "(workers s ! i)\<lparr>w_pc := W_Check (hd (queueTask s))\<rparr>"] show ?thesis
      by (cases "queueTask s") (auto simp: pool_defs balanced_def split: if_splits)
  next
    case (W_Check t)
    with assms u [of "(workers s ! i)\<lparr>w_pc := W_Idle\<rparr>"] e [of "(workers s ! i)\<lparr>w_pc := W_Run t\<rparr>"] show ?thesis
      by (auto simp: pool_defs balanced_def split: if_splits)
  next
    case (W_Run t)
    with assms u [of "(workers s ! i)\<lparr>w_pc := W_Idle\<rparr>"] show ?thesis
      by (auto simp: pool_defs balanced_def Let_def split: if_splits)
  qed (use assms e in \<open>auto simp: pool_defs balanced_def split: if_splits\<close>)
qed

lemma manager_step_balanced:
  assumes "slots_ok s" "balanced ac s" "managerThreadTask created s = Some s'"
  shows "balanced ac s'"
proof (cases "managerThread s")
  case (M_Spawn i)
  then have "dead (workers s ! i)" using assms(1) by (simp add: slots_inv_def)
  then have "held ((workers s)[i := (workers s ! i)\<lparr>isRunning := True, workman := True, w_pc := W_Lock\<rparr>]) = held (workers s)"
    by (intro held_same) (auto simp: dead_def)
  with M_Spawn assms show ?thesis
    by (auto simp: managerThreadTask_def spawnDynamicThread_def spawn_def balanced_def)
qed (use assms in \<open>auto simp: managerThreadTask_def notify_all_def killDynamicThread_def joinDynamicThread_def
      addDynamicThread_def set_running_def crash_def balanced_def held_same split: if_splits\<close>)

lemma init_workers_balanced:
  assumes "slots_ok s" "balanced ac s"
  shows "balanced ac (init_workers p j s)" "accepted (init_workers p j s) = accepted s"
proof -
  have "held (workers s) = {#}" if "\<not> list_ex workman (workers s)"
    using that assms(1) by (intro held_dead) (auto simp: slots_inv_def list_ex_iff)
  with assms(2) show "balanced ac (init_workers p j s)" "accepted (init_workers p j s) = accepted s"
    by (simp_all add: init_workers_def crash_def commit_at_def balanced_def)
qed

lemma addCoreThread_balanced:
  assumes "init_ok s" "balanced ac s" "commits s p = P_Spawn j i"
  shows "balanced ac (addCoreThread created p j i s)"
    "accepted (addCoreThread created p j i s) = accepted s"
proof -
  have "held ((workers s)[i := (workers s ! i)\<lparr>isRunning := True, workman := True, w_pc := W_Lock\<rparr>]) = held (workers s)"
    if "i < length (workers s)"
    using init_inv_fresh [OF assms(1,3) that] by (intro held_same) simp
  with assms(2) show "balanced ac (addCoreThread created p j i s)"
    "accepted (addCoreThread created p j i s) = accepted s"
    by (simp_all add: addCoreThread_def crash_def commit_at_def spawn_def balanced_def)
qed

lemma blocked_balanced: "blocked s i \<Longrightarrow> balanced ac (worker_at i W_Lock s) = balanced ac s"
  by (simp add: worker_at_def balanced_def blocked_def held_same)

lemma notify_one_balanced:
  "notify_one j s = Some s' \<Longrightarrow> balanced ac s \<Longrightarrow> accepted s' = accepted s \<and> balanced ac s'"
  using blocked_balanced [of s j ac] by (auto simp: notify_one_def split: if_splits) (simp add: worker_at_def)

lemma commit_step_balanced:
  assumes "slots_ok s" "init_ok s" "balanced (mset (accepted s)) s" "commit_step p created j s = Some s'"
  shows "balanced (mset (accepted s')) s'"
proof (cases "commits s p")
  case (P_Init w)
  with assms show ?thesis using init_workers_balanced [OF assms(1,3)] by (auto simp: commit_step_def)
next
  case (P_Spawn w i)
  with assms show ?thesis using addCoreThread_balanced [OF assms(2,3) P_Spawn] by (auto simp: commit_step_def)
next
  case (P_NotifyOne rs)
  with assms notify_one_balanced show ?thesis
    by (auto simp: commit_step_def commit_at_def balanced_def)
next
  case (P_Push w)
  with assms show ?thesis
    by (auto simp: commit_step_def push_one_def push_bulk_def commit_at_def balanced_def
        split: job.splits prod.splits dest!: bulk_loop_result)
qed (use assms in \<open>auto simp: commit_step_def init_manager_def commit_at_def notify_all_def balanced_def
      split: if_splits once_flag.splits\<close>)

lemma close_step_balanced:
  assumes "balanced ac s" "close_step s = Some s'"
  shows "balanced ac s'"
  using assms by (cases "closer s")
    (auto simp: close_step_def close_join_def notify_all_def close_drain_def balanced_def held_same split: if_splits)

lemma discard_finishState [simp]: "finishState (discard ts es t) = finishState (es t)"
  by (induction ts arbitrary: es) (auto simp: discard_def)

lemma subseteq_add: "A \<subseteq># B \<Longrightarrow> A \<subseteq># add_mset x B"
  by (auto simp: subseteq_mset_def intro: le_SucI)

lemma runs_ok_step:
  assumes "runs_ok (started s) (finished s) (executors s)" and "pool_step throws a s = Some s'"
  shows "runs_ok (started s') (finished s') (executors s')"
proof (cases a)
  case (A_Worker i)
  with assms show ?thesis
    by (cases "w_pc (workers s ! i)"; cases "queueTask s")
       (auto simp: pool_step_def pool_defs runs_ok_def Let_def subseteq_add split: if_splits)
next
  case (A_Manager c)
  with assms show ?thesis
    by (cases "managerThread s") (auto simp: pool_step_def pool_defs split: if_splits)
next
  case (A_Committer p c j)
  with assms show ?thesis
    by (cases "commits s p") (auto simp: pool_step_def pool_defs runs_ok_def split: if_splits once_flag.splits job.splits prod.splits)
next
  case A_Closer
  with assms show ?thesis
    by (cases "closer s") (auto simp: pool_step_def pool_defs runs_ok_def split: if_splits)
qed (use assms in \<open>auto simp: pool_step_def pool_defs split: if_splits\<close>)

definition task_inv :: "ThreadPool \<Rightarrow> bool" where
  "task_inv s \<longleftrightarrow> pool_inv s \<and> balanced (mset (accepted s)) s \<and> runs_ok (started s) (finished s) (executors s)"

lemma task_inv_step:
  assumes "task_inv s" and "pool_step throws a s = Some s'"
  shows "task_inv s'"
proof -
  have c: "crashed s = None" using assms(2) by (simp add: pool_step_def split: if_splits)
  have i: "slots_ok s" "init_ok s" "balanced (mset (accepted s)) s"
    using assms(1) by (simp_all add: task_inv_def pool_inv_def)
  note st = assms(2) [unfolded pool_step_def]
  have "balanced (mset (accepted s')) s'"
  proof (cases a)
    case (A_Worker w)
    with st c have w: "worker_step throws w s = Some s'" by simp
    obtain x where "worker_frame w x s s'" using worker_step_frame [OF w] by blast
    then have "accepted s' = accepted s" by (simp add: worker_frame_def)
    with worker_step_balanced [OF i(3) w] show ?thesis by simp
  next
    case (A_Spurious w)
    with st c i(3) show ?thesis
      by (auto simp: spurious_wakeup_def blocked_balanced split: if_splits) (simp add: worker_at_def)
  next
    case (A_Manager b)
    with st c have m: "managerThreadTask b s = Some s'" by simp
    then have "accepted s' = accepted s"
      by (cases "managerThread s") (auto simp: pool_defs split: if_splits)
    with manager_step_balanced [OF i(1,3) m] show ?thesis by simp
  next
    case (A_Committer p b j)
    with st c commit_step_balanced [OF i] show ?thesis by simp
  next
    case A_Closer
    with st c have m: "close_step s = Some s'" by simp
    then have "accepted s' = accepted s"
      by (cases "closer s") (auto simp: pool_defs split: if_splits)
    with close_step_balanced [OF i(3) m] show ?thesis by simp
  qed (use st c i(3) in \<open>auto simp: close_call_def commit_at_def balanced_def split: if_splits\<close>)
  with assms show ?thesis using pool_step_inv runs_ok_step unfolding task_inv_def by blast
qed

interpretation tasks: machine_invariant "pool_step throws" any_action task_inv
  by unfold_locales (rule task_inv_step)

lemma new_task_inv: "new_ThreadPool c m q ty st es = Some s \<Longrightarrow> task_inv s"
  using new_pool_inv [of c m q ty st es s]
  by (auto simp: new_ThreadPool_def task_inv_def balanced_def runs_ok_def Let_def split: if_splits)

text \<open>A run of a pool with one worker: the first commit starts the pool, the worker runs the task.\<close>

definition first_commit :: "nat \<Rightarrow> pool_action list" where
  "first_commit n = A_Commit 0 (One 7) # replicate (n + 9) (A_Committer 0 True 0)"

definition small_pool :: "ThreadPoolCloseStrategy \<Rightarrow> ThreadPool" where
  "small_pool st = \<lparr>Type = Fixed, closeStrategy = st, cores = 1, MaxThreadCount = 1, QueueMaxSize = 8,
     workers = [], initFlag = Once_Fresh, dynamicWorkerCount = 0, runState = False, vacantThreadsCount = 0,
     stopCommitState = False, isTerminated = False, queueTask = [], queueMute = None,
     managerThread = M_None, isStart = False, executors = (\<lambda>_. new_Executor), commits = (\<lambda>_. P_Idle),
     closer = C_Idle, accepted = [], started = [], finished = [], returned = [], dropped = [], crashed = None\<rparr>"

lemma small_pool_new: "new_ThreadPool 1 1 8 Fixed st (\<lambda>_. new_Executor) = Some (small_pool st)"
  by (simp add: small_pool_def new_ThreadPool_def)

text \<open>
  C9 in every state the pool can reach, under every interleaving of workers, manager, committing
  and closing threads, with failures of thread creation and spurious wake-ups, the tasks whose
  commit reported success are exactly those in the queue, held by a worker, finished, returned by
  \<open>close\<close> or dropped by it, each as often as it was accepted; a body is started at most once per
  accepted commit, and the executor of a finished task is marked as finished.
\<close>

theorem pool_conserves_tasks:
  assumes "new_ThreadPool c m q ty st es = Some s\<^sub>0"
    and "reach (pool_step throws) any_action s\<^sub>0 s"
  shows "mset (accepted s) = mset (queueTask s) + held (workers s) + mset (finished s)
           + mset (returned s) + mset (dropped s) \<and>
         mset (started s) \<subseteq># mset (finished s) \<and> (\<forall>t \<in> set (finished s). finishState (executors s t))"
  using tasks.reach_keeps [OF assms(2) new_task_inv [OF assms(1)]]
  by (simp add: task_inv_def balanced_def runs_ok_def)

lemma small_run:
  "map_option (\<lambda>s. (accepted s, queueTask s, finished s, map w_pc (workers s)))
     (run_ops (pool_step (\<lambda>_. False)) (first_commit 1 @ replicate 6 (A_Worker 0)) (small_pool st)) =
   Some ([7], [], [7], [W_Idle])"
  by (cases st; hypsubst; code_simp)

theorem pool_conserves_tasks_witness:
  "\<exists>s. reach (pool_step (\<lambda>_. False)) any_action (small_pool DiscardAllTasks) s \<and> accepted s = [7] \<and>
     {#7#} = mset (queueTask s) + held (workers s) + mset (finished s) + mset (returned s) + mset (dropped s)"
proof -
  obtain s where s: "run_ops (pool_step (\<lambda>_. False)) (first_commit 1 @ replicate 6 (A_Worker 0))
      (small_pool DiscardAllTasks) = Some s" and a: "accepted s = [7]"
    using small_run [of DiscardAllTasks] by auto
  have r: "reach (pool_step (\<lambda>_. False)) any_action (small_pool DiscardAllTasks) s"
    by (rule reach_run_ops [OF s]) (auto intro: reach_start simp: list_all_iff)
  from pool_conserves_tasks [OF small_pool_new r] r a show ?thesis by auto
qed

end
