(* ===== verification/Pool_Liveness.thy ===== *)
theory Pool_Liveness
  imports Pool_Tasks
begin

text \<open>
  What the condition variable of the thread pool promises. No worker takes from an empty queue; a
  queued task of a pool without manager always has a worker that is awake, and that worker takes
  it; \<open>close\<close> returns, after a bounded number of actions of the pool's threads, when it drains the
  queue under the mutex. When it waits for the tasks instead, the notification of \<open>close\<close> can be lost.
\<close>

section \<open>What a worker in its critical section knows\<close>

definition pc_knows :: "bool \<Rightarrow> bool \<Rightarrow> bool \<Rightarrow> bool \<Rightarrow> worker_pc \<Rightarrow> bool" where
  "pc_knows dyn alive running none pc \<longleftrightarrow>
     (pc = W_Take \<longrightarrow> \<not> none) \<and>
     (pc = W_Alive \<longrightarrow> \<not> none \<or> \<not> alive) \<and>
     (pc = W_RunState \<longrightarrow> \<not> none \<or> \<not> running \<or> dyn \<and> \<not> alive) \<and>
     (pc = W_Wait \<or> pc = W_PredAlive \<longrightarrow> none) \<and>
     (pc = W_PredAlive \<or> pc = W_Alive \<longrightarrow> dyn)"

definition take_inv :: "nat \<Rightarrow> Worker list \<Rightarrow> bool \<Rightarrow> nat list \<Rightarrow> bool" where
  "take_inv c ws running q \<longleftrightarrow>
     (\<forall>i < length ws. pc_knows (c \<le> i) (isRunning (ws ! i)) running (q = []) (w_pc (ws ! i)))"

abbreviation take_ok :: "ThreadPool \<Rightarrow> bool" where
  "take_ok s \<equiv> take_inv (cores s) (workers s) (runState s) (queueTask s)"

lemma pc_knows_outside: "\<not> w_critical pc \<Longrightarrow> pc_knows d a r e pc"
  by (simp add: pc_knows_def)

lemma take_inv_outside: "(\<And>i. i < length ws \<Longrightarrow> \<not> w_critical (w_pc (ws ! i))) \<Longrightarrow> take_inv c ws r q"
  by (simp add: take_inv_def pc_knows_outside)

lemma take_inv_wake [simp]: "take_inv c (map wake ws) r q = take_inv c ws r q"
proof -
  have "pc_knows d a r e (w_pc (wake w)) = pc_knows d a r e (w_pc w)" for d a r e w
    by (simp add: wake_def pc_knows_def)
  then show ?thesis by (simp add: take_inv_def)
qed

lemma take_inv_stop: "take_inv c ws r q \<Longrightarrow> take_inv c ws False q"
  by (auto simp: take_inv_def pc_knows_def)

lemma take_inv_update:
  assumes "take_inv c ws r q" "pc_knows (c \<le> i) (isRunning w) r (q = []) (w_pc w)"
  shows "take_inv c (ws[i := w]) r q"
  using assms by (auto simp: take_inv_def nth_slot)

lemma worker_step_take:
  assumes "take_ok s" and "mute_ok s" and "worker_step throws i s = Some s'"
  shows "take_ok s'" and "crashed s' = crashed s"
proof -
  have i: "i < length (workers s)" using assms(3) by (simp add: worker_step_def split: if_splits)
  then have k: "pc_knows (cores s \<le> i) (isRunning (workers s ! i)) (runState s) (queueTask s = []) (w_pc (workers s ! i))"
    using assms(1) by (simp add: take_inv_def)
  have o: "\<not> w_critical (w_pc (workers s ! k))" if "w_pc (workers s ! i) = W_Take" "k \<noteq> i" "k < length (workers s)" for k
    using that mute_holder(1) [OF assms(2) i] mute_holder(1) [OF assms(2), of k] by auto
  show "crashed s' = crashed s"
    using assms(3) k
    by (cases "w_pc (workers s ! i)"; cases "queueTask s")
       (auto simp: pool_defs pc_knows_def Let_def split: if_splits)
  show "take_ok s'"
  proof (cases "w_pc (workers s ! i) = W_Take")
    case True
    with k obtain t q where q: "queueTask s = t # q" by (auto simp: pc_knows_def neq_Nil_conv)
    have "take_inv (cores s) ((workers s)[i := (workers s ! i)\<lparr>w_pc := W_Check t\<rparr>]) (runState s) q"
      by (rule take_inv_outside) (use o True in \<open>auto simp: nth_slot\<close>)
    with True q assms(3) show ?thesis by (auto simp: pool_defs split: if_splits)
  next
    case False
    with assms k show ?thesis
      by (cases "w_pc (workers s ! i)")
         (auto simp: pool_defs pc_knows_def Let_def split: if_splits intro!: take_inv_update)
  qed
qed

lemma dead_outside: "dead w \<Longrightarrow> pc_knows d a r e (w_pc w)"
  by (rule pc_knows_outside) (auto simp: dead_def)

lemma manager_step_take:
  assumes "take_ok s" "slots_ok s" "managerThreadTask created s = Some s'"
  shows "take_ok s'"
proof (cases "managerThread s")
  case (M_Kill i)
  have "take_inv (cores s) ((workers s)[i := (workers s ! i)\<lparr>isRunning := False\<rparr>]) (runState s) (queueTask s)"
    using assms(1) by (auto simp: take_inv_def pc_knows_def nth_slot)
  with M_Kill assms show ?thesis
    by (auto simp: managerThreadTask_def killDynamicThread_def set_running_def)
next
  case (M_KillJoin i)
  have "take_inv (cores s) ((workers s)[i := (workers s ! i)\<lparr>workman := False\<rparr>]) (runState s) (queueTask s)"
    using assms(1) by (auto simp: take_inv_def pc_knows_def nth_slot)
  with M_KillJoin assms show ?thesis
    by (auto simp: managerThreadTask_def joinDynamicThread_def crash_def split: if_splits)
next
  case (M_Add i)
  have "dead (workers s ! i)" if "i < MaxThreadCount s" "\<not> isRunning (workers s ! i)"
    using assms(2) M_Add that by (auto simp: slots_inv_def)
  then have "take_inv (cores s) ((workers s)[i := (workers s ! i)\<lparr>isRunning := True\<rparr>]) (runState s) (queueTask s)"
    if "i < MaxThreadCount s" "\<not> isRunning (workers s ! i)"
    using that assms(1) by (intro take_inv_update) (auto simp: dead_outside)
  with M_Add assms show ?thesis
    by (auto simp: managerThreadTask_def addDynamicThread_def set_running_def)
next
  case (M_Spawn i)
  with assms show ?thesis
    by (auto simp: managerThreadTask_def spawnDynamicThread_def spawn_def pc_knows_outside intro!: take_inv_update)
qed (use assms in \<open>auto simp: managerThreadTask_def notify_all_def\<close>)

lemma blocked_take: "blocked s i \<Longrightarrow> take_ok s \<Longrightarrow> take_ok (worker_at i W_Lock s)"
  by (auto simp: worker_at_def pc_knows_outside intro!: take_inv_update)

lemma take_inv_other_holder:
  assumes "mute_ok s" "\<And>i. queueMute s \<noteq> Some (By_Worker i)"
  shows "take_inv c (workers s) r q"
  using assms(2) mute_holder(1) [OF assms(1)] by (intro take_inv_outside) blast

lemma commit_step_take:
  assumes "take_ok s" "mute_ok s" "commit_step p created j s = Some s'"
  shows "take_ok s'"
proof (cases "commits s p")
  case (P_Init w)
  have "take_inv c (replicate n new_Worker) r q" for c n r q
    by (rule take_inv_outside) (simp add: new_Worker_def)
  with P_Init assms show ?thesis by (auto simp: commit_step_def init_workers_def crash_def commit_at_def)
next
  case (P_Spawn w i)
  with assms show ?thesis
    by (auto simp: commit_step_def addCoreThread_def crash_def commit_at_def spawn_def pc_knows_outside
        intro!: take_inv_update)
next
  case (P_NotifyOne rs)
  with assms show ?thesis
    using blocked_take [of s j]
    by (auto simp: commit_step_def commit_at_def notify_one_def worker_at_def split: if_splits)
next
  case (P_Push w)
  then have "queueMute s = Some (By_Commit p)" using mute_holder(2) [OF assms(2), of p] by simp
  then have "take_inv c (workers s) r q" for c r q
    using assms(2) by (intro take_inv_other_holder) auto
  with P_Push assms show ?thesis
    by (auto simp: commit_step_def push_one_def push_bulk_def commit_at_def split: job.splits prod.splits)
qed (use assms in \<open>auto simp: commit_step_def init_manager_def commit_at_def notify_all_def
      split: if_splits once_flag.splits\<close>)

lemma close_step_take:
  assumes "take_ok s" "mute_ok s" "close_step s = Some s'"
  shows "take_ok s'"
proof (cases "closer s")
  case C_Drain
  then show ?thesis
    using assms take_inv_other_holder [OF assms(2)] by (auto simp: close_step_def close_drain_def split: if_splits)
next
  case (C_Join k)
  have "take_inv (cores s) ((workers s)[k := (workers s ! k)\<lparr>workman := False\<rparr>]) (runState s) (queueTask s)"
    using assms(1) by (auto simp: take_inv_def pc_knows_def nth_slot)
  with C_Join assms show ?thesis by (auto simp: close_step_def close_join_def split: if_splits)
next
  case C_RunState
  with assms show ?thesis by (auto simp: close_step_def take_inv_stop)
qed (use assms in \<open>auto simp: close_step_def notify_all_def split: if_splits\<close>)

definition live_inv :: "ThreadPool \<Rightarrow> bool" where
  "live_inv s \<longleftrightarrow> pool_inv s \<and> take_ok s"

lemma live_inv_step:
  assumes "live_inv s" and "pool_step throws a s = Some s'"
  shows "live_inv s'"
proof -
  have c: "crashed s = None" using assms(2) by (simp add: pool_step_def split: if_splits)
  have i: "take_ok s" "mute_ok s" "slots_ok s" using assms(1) by (simp_all add: live_inv_def pool_inv_def)
  note st = assms(2) [unfolded pool_step_def]
  have "take_ok s'"
  proof (cases a)
    case (A_Worker w)
    with st c worker_step_take(1) [OF i(1,2)] show ?thesis by simp
  next
    case (A_Spurious w)
    with st c i(1) show ?thesis by (auto simp: spurious_wakeup_def blocked_take split: if_splits)
  next
    case (A_Manager b)
    with st c manager_step_take [OF i(1,3)] show ?thesis by simp
  next
    case (A_Committer p b j)
    with st c commit_step_take [OF i(1,2)] show ?thesis by simp
  next
    case A_Closer
    with st c close_step_take [OF i(1,2)] show ?thesis by simp
  qed (use st c i(1) in \<open>auto simp: close_call_def commit_at_def split: if_splits\<close>)
  with assms show ?thesis using pool_step_inv unfolding live_inv_def by blast
qed

interpretation live: machine_invariant "pool_step throws" any_action live_inv
  by unfold_locales (rule live_inv_step)

lemma new_live_inv: "new_ThreadPool c m q ty st es = Some s \<Longrightarrow> live_inv s"
  using new_pool_inv [of c m q ty st es s]
  by (auto simp: new_ThreadPool_def live_inv_def take_inv_def Let_def split: if_splits)

section \<open>A queued task has a worker that is awake\<close>

definition awake :: "Worker \<Rightarrow> bool" where
  "awake w \<longleftrightarrow> \<not> dead w \<and> w_pc w \<noteq> W_Blocked"

definition notifying :: "(nat \<Rightarrow> commit_pc) \<Rightarrow> bool" where
  "notifying cs \<longleftrightarrow> (\<exists>p rs. cs p = P_NotifyOne rs \<or> cs p = P_NotifyAll rs)"

definition wake_inv :: "nat \<Rightarrow> Worker list \<Rightarrow> bool \<Rightarrow> nat list \<Rightarrow> bool \<Rightarrow> bool" where
  "wake_inv c ws running q n \<longleftrightarrow>
     (\<forall>i < length ws. c \<le> i \<longrightarrow> w_pc (ws ! i) = W_None) \<and>
     (\<forall>i < length ws. w_pc (ws ! i) = W_Ret \<longrightarrow> \<not> running) \<and>
     (running \<longrightarrow> q \<noteq> [] \<longrightarrow> n \<or> (\<exists>i < length ws. awake (ws ! i)) \<or> (\<forall>i < length ws. w_pc (ws ! i) = W_None))"

abbreviation wake_ok :: "ThreadPool \<Rightarrow> bool" where
  "wake_ok s \<equiv> managerThread s = M_None \<longrightarrow>
     wake_inv (cores s) (workers s) (runState s) (queueTask s) (notifying (commits s))"

lemma wake_inv_empty:
  "\<lbrakk>wake_inv c ws r q n; \<not> r \<or> q' = [] \<or> n'\<rbrakk> \<Longrightarrow> wake_inv c ws r q' n'"
  by (auto simp: wake_inv_def)

lemma wake_inv_pop: "wake_inv c ws r (t # q) n \<Longrightarrow> wake_inv c ws r q n"
  by (auto simp: wake_inv_def)

lemma wake_inv_mono: "\<lbrakk>wake_inv c ws r q n; n \<Longrightarrow> n'\<rbrakk> \<Longrightarrow> wake_inv c ws r q n'"
  by (auto simp: wake_inv_def)

text \<open>A worker that moves and stays awake serves the queue, whatever it holds.\<close>

lemma wake_inv_awake:
  assumes "wake_inv c ws r q n" "i < length ws" "i < c" "awake w"
  shows "wake_inv c (ws[i := w]) r q' n'"
  using assms unfolding wake_inv_def length_list_update by (auto simp: nth_slot awake_def dead_def)

lemma wake_inv_asleep:
  assumes "wake_inv c ws r q n" "i < c" "\<not> r \<or> w_pc w = W_Blocked \<and> q = []"
  shows "wake_inv c (ws[i := w]) r q n'"
  using assms unfolding wake_inv_def length_list_update by (auto simp: nth_slot)

lemma wake_inv_same:
  assumes "wake_inv c ws r q n" "w_pc w = w_pc (ws ! i)"
  shows "wake_inv c (ws[i := w]) r q n"
  using assms unfolding wake_inv_def length_list_update awake_def dead_def by (auto simp: nth_slot)

lemma wake_inv_all:
  assumes "wake_inv c ws r q n"
  shows "wake_inv c (map wake ws) r q n'"
proof -
  have "awake (wake w)" if "w_pc w \<noteq> W_None" "w_pc w \<noteq> W_Ret" for w
    using that by (simp add: awake_def dead_def wake_def)
  moreover have "w_pc (wake w) = W_Ret \<longleftrightarrow> w_pc w = W_Ret" for w by (simp add: wake_def)
  ultimately show ?thesis using assms unfolding wake_inv_def by auto
qed

lemma wake_inv_none_blocked:
  assumes "wake_inv c ws r q n" "list_all (\<lambda>w. w_pc w \<noteq> W_Blocked) ws"
  shows "wake_inv c ws r q n'"
  using assms unfolding wake_inv_def awake_def dead_def list_all_length by blast

lemma worker_step_outcome:
  assumes "worker_step throws i s = Some s'"
  shows "awake (workers s' ! i) \<or>
         w_pc (workers s' ! i) = W_Blocked \<and> w_pc (workers s ! i) = W_Wait \<and> queueTask s' = queueTask s \<or>
         w_pc (workers s' ! i) = W_Ret \<and> queueTask s' = queueTask s \<and> (\<not> runState s \<or> cores s \<le> i)"
  using assms
  by (cases "w_pc (workers s ! i)"; cases "queueTask s")
     (auto simp: pool_defs awake_def dead_def Let_def split: if_splits)

lemma worker_step_wake:
  assumes "live_inv s" "wake_ok s" "worker_step throws i s = Some s'"
  shows "wake_ok s'"
proof
  assume m': "managerThread s' = M_None"
  obtain x where x: "worker_frame i x s s'" using worker_step_frame [OF assms(3)] by blast
  with m' assms(2) have w: "wake_inv (cores s) (workers s) (runState s) (queueTask s) (notifying (commits s))"
    by (simp add: worker_frame_def)
  have i: "i < length (workers s)" "i < cores s"
    using x w by (auto simp: worker_frame_def wake_inv_def dead_def not_le [symmetric])
  have k: "w_pc (workers s ! i) = W_Wait \<longrightarrow> queueTask s = []"
    using assms(1) i by (auto simp: live_inv_def take_inv_def pc_knows_def)
  have f: "workers s' = (workers s)[i := (workers s ! i)\<lparr>w_pc := x\<rparr>]" "runState s' = runState s"
    "cores s' = cores s" "commits s' = commits s" using x by (simp_all add: worker_frame_def)
  consider "awake ((workers s ! i)\<lparr>w_pc := x\<rparr>)"
    | "queueTask s' = queueTask s" "\<not> runState s \<or> x = W_Blocked \<and> queueTask s = []"
    using worker_step_outcome [OF assms(3)] k i f(1) by auto
  then show "wake_inv (cores s') (workers s') (runState s') (queueTask s') (notifying (commits s'))"
  proof cases
    case 1
    then show ?thesis unfolding f by (rule wake_inv_awake [OF w i])
  next
    case 2
    then show ?thesis unfolding f by (simp add: wake_inv_asleep [OF w i(2)])
  qed
qed

lemma worker_at_fields:
  "cores (worker_at i x s) = cores s" "runState (worker_at i x s) = runState s"
  "queueTask (worker_at i x s) = queueTask s" "commits (worker_at i x s) = commits s"
  "managerThread (worker_at i x s) = managerThread s"
  by (simp_all add: worker_at_def)

lemma blocked_wake:
  assumes "wake_inv c (workers s) r q n" "blocked s i"
  shows "wake_inv c (workers (worker_at i W_Lock s)) r q n'"
proof -
  have "i < length (workers s)" "i < c"
    using assms by (auto simp: blocked_def wake_inv_def not_le [symmetric])
  then show ?thesis
    unfolding worker_at_def by (simp add: wake_inv_awake [OF assms(1)] awake_def dead_def)
qed

lemma notifying_update:
  "notifying cs \<Longrightarrow> \<not> (\<exists>rs. cs p = P_NotifyOne rs \<or> cs p = P_NotifyAll rs) \<Longrightarrow> notifying (cs(p := x))"
  unfolding notifying_def by (metis fun_upd_other)

lemma commit_step_wake:
  assumes "init_ok s" "wake_ok s" "commit_step p created j s = Some s'"
  shows "wake_ok s'"
proof (cases "managerThread s = M_None")
  case True
  note w = assms(2) [rule_format, OF True]
  have n: "wake_inv (cores s) (workers s) (runState s) (queueTask s) (notifying ((commits s)(p := x)))"
    if "\<not> (\<exists>rs. commits s p = P_NotifyOne rs \<or> commits s p = P_NotifyAll rs)" for x
    using wake_inv_mono [OF w notifying_update] that by blast
  show ?thesis
  proof (cases "commits s p")
    case (P_Init v)
    have "wake_inv c (replicate k new_Worker) r q b" for c k r q b
      by (simp add: wake_inv_def new_Worker_def)
    with P_Init assms show ?thesis by (auto simp: commit_step_def init_workers_def crash_def commit_at_def)
  next
    case (P_Spawn v i)
    with assms(3) n w show ?thesis
      by (auto simp: commit_step_def addCoreThread_def crash_def commit_at_def spawn_def awake_def dead_def
          intro!: wake_inv_awake)
  next
    case (P_NotifyOne rs)
    with assms(3) w show ?thesis
      by (auto simp: commit_step_def commit_at_def notify_one_def none_blocked_def
          intro: wake_inv_none_blocked split: if_splits)
         (use blocked_wake [OF w, of j] in \<open>auto simp: worker_at_def\<close>)
  next
    case (P_NotifyAll rs)
    with assms(3) w show ?thesis by (auto simp: commit_step_def commit_at_def notify_all_def intro: wake_inv_all)
  next
    case (P_Push v)
    have "notifying ((commits s)(p := P_NotifyOne rs))" "notifying ((commits s)(p := P_NotifyAll rs))" for rs
      unfolding notifying_def by (metis fun_upd_same)+
    with P_Push assms(3) n w show ?thesis
      by (auto simp: commit_step_def push_one_def push_bulk_def commit_at_def
          split: job.splits prod.splits intro: wake_inv_empty)
  qed (use assms(3) n in \<open>auto simp: commit_step_def init_manager_def commit_at_def
      split: if_splits once_flag.splits\<close>)
next
  case False
  moreover have "\<not> initialising (commits s p)" using init_inv_active(2) [OF assms(1)] False by blast
  ultimately show ?thesis using assms(3)
    by (cases "commits s p") (auto simp: commit_step_def commit_at_def push_one_def push_bulk_def notify_all_def
        notify_one_def worker_at_def split: if_splits once_flag.splits job.splits prod.splits)
qed

lemma close_step_wake:
  assumes "wake_ok s" "close_step s = Some s'"
  shows "wake_ok s'"
proof (cases "closer s")
  case (C_Join k)
  with assms show ?thesis by (auto simp: close_step_def close_join_def wake_inv_same split: if_splits)
next
  case C_RunState
  with assms show ?thesis by (auto simp: close_step_def wake_inv_def)
qed (use assms in \<open>auto simp: close_step_def notify_all_def close_drain_def
      intro: wake_inv_all wake_inv_empty split: if_splits\<close>)

definition serve_inv :: "ThreadPool \<Rightarrow> bool" where
  "serve_inv s \<longleftrightarrow> live_inv s \<and> wake_ok s"

lemma manager_step_wake: "managerThreadTask created s = Some s' \<Longrightarrow> managerThread s' \<noteq> M_None"
  by (cases "managerThread s")
     (auto simp: managerThreadTask_def notify_all_def killDynamicThread_def joinDynamicThread_def
       addDynamicThread_def spawnDynamicThread_def spawn_def set_running_def crash_def split: if_splits)

lemma serve_inv_step:
  assumes "serve_inv s" and "pool_step throws a s = Some s'"
  shows "serve_inv s'"
proof -
  have c: "crashed s = None" using assms(2) by (simp add: pool_step_def split: if_splits)
  have i: "live_inv s" "wake_ok s" "init_ok s" using assms(1) by (simp_all add: serve_inv_def live_inv_def pool_inv_def)
  note st = assms(2) [unfolded pool_step_def]
  have "wake_ok s'"
  proof (cases a)
    case (A_Worker w)
    with st c worker_step_wake [OF i(1,2)] show ?thesis by simp
  next
    case (A_Spurious w)
    with st c i(2) blocked_wake [of "cores s" s "runState s"] show ?thesis
      by (auto simp: spurious_wakeup_def worker_at_fields split: if_splits)
  next
    case (A_Manager b)
    with st c manager_step_wake show ?thesis by simp
  next
    case (A_Commit p j)
    have "notifying (commits s) \<Longrightarrow> notifying ((commits s)(p := P_Once j))" if "commits s p = P_Idle"
      using that by (intro notifying_update) simp_all
    with A_Commit st c i(2) show ?thesis by (auto simp: commit_at_def intro: wake_inv_mono split: if_splits)
  next
    case (A_Committer p b j)
    with st c commit_step_wake [OF i(3,2)] show ?thesis by simp
  next
    case A_Closer
    with st c close_step_wake [OF i(2)] show ?thesis by simp
  next
    case A_Close
    with st c i(2) show ?thesis by (auto simp: close_call_def split: if_splits)
  qed
  with assms show ?thesis using live_inv_step unfolding serve_inv_def by blast
qed

interpretation serve: machine_invariant "pool_step throws" any_action serve_inv
  by unfold_locales (rule serve_inv_step)

lemma new_serve_inv: "new_ThreadPool c m q ty st es = Some s \<Longrightarrow> serve_inv s"
  using new_live_inv [of c m q ty st es s]
  by (auto simp: new_ThreadPool_def serve_inv_def wake_inv_def Let_def split: if_splits)

text \<open>A core worker that is not blocked and outside the critical section, running alone.\<close>

definition takes :: "(nat \<Rightarrow> bool) \<Rightarrow> nat \<Rightarrow> nat \<Rightarrow> ThreadPool \<Rightarrow> nat \<Rightarrow> nat list \<Rightarrow> bool" where
  "takes throws i n s t q \<longleftrightarrow> (\<exists>s'. run_ops (pool_step throws) (replicate n (A_Worker i)) s = Some s' \<and>
     w_pc (workers s' ! i) = W_Check t \<and> queueTask s' = q)"

lemma takes_step:
  "\<lbrakk>pool_step throws (A_Worker i) s = Some s'; takes throws i n s' t q\<rbrakk> \<Longrightarrow> takes throws i (Suc n) s t q"
  by (simp add: takes_def)

lemmas core_step = pool_step_def worker_step_def coreRun_def worker_at_def worker_lock_def worker_take_def
  worker_check_def worker_run_def worker_idle_def Let_def

lemma core_worker_takes:
  assumes "i < length (workers s)" "i < cores s" "crashed s = None" "runState s" "queueMute s = None"
    "queueTask s = t # q" "awake (workers s ! i)" "\<not> w_critical (w_pc (workers s ! i))"
  shows "\<exists>n \<le> 7. takes throws i n s t q"
proof -
  have lock: "takes throws i 4 s t q"
    if "i < length (workers s)" "i < cores s" "crashed s = None" "runState s" "queueMute s = None"
      "queueTask s = t # q" "w_pc (workers s ! i) = W_Lock" for s
    using that by (simp add: takes_def core_step numeral_eq_Suc)
  have idle: "takes throws i 5 s t q"
    if "i < length (workers s)" "i < cores s" "crashed s = None" "runState s" "queueMute s = None"
      "queueTask s = t # q" "w_pc (workers s ! i) = W_Idle" for s
    using that lock [of "worker_idle i s"]
    by (intro takes_step [of throws i s "worker_idle i s" 4, simplified]) (simp_all add: core_step)
  have run: "takes throws i 6 s t q"
    if "i < length (workers s)" "i < cores s" "crashed s = None" "runState s" "queueMute s = None"
      "queueTask s = t # q" "w_pc (workers s ! i) = W_Run e" for s e
    using that idle [of "worker_run throws i e s"]
    by (intro takes_step [of throws i s "worker_run throws i e s" 5, simplified]) (simp_all add: core_step)
  have check: "takes throws i 6 s t q \<or> takes throws i 7 s t q" if e: "w_pc (workers s ! i) = W_Check e" for e
  proof (cases "finishState (executors s e)")
    case True
    with assms(1-6) e idle [of "worker_check i e s"] show ?thesis
      by (intro disjI1 takes_step [of throws i s "worker_check i e s" 5, simplified]) (simp_all add: core_step)
  next
    case False
    with assms(1-6) e run [of "worker_check i e s" e] show ?thesis
      by (intro disjI2 takes_step [of throws i s "worker_check i e s" 6, simplified]) (simp_all add: core_step)
  qed
  show ?thesis
  proof (cases "w_pc (workers s ! i)")
    case W_Lock
    with lock [of s] assms show ?thesis by (intro exI [of _ 4]) simp
  next
    case W_Idle
    with idle [of s] assms show ?thesis by (intro exI [of _ 5]) simp
  next
    case (W_Run e)
    with run [of s e] assms show ?thesis by (intro exI [of _ 6]) simp
  next
    case (W_Check e)
    from check [OF this] show ?thesis
    proof
      assume "takes throws i 6 s t q"
      then show ?thesis by (intro exI [of _ 6]) simp
    next
      assume "takes throws i 7 s t q"
      then show ?thesis by (intro exI [of _ 7]) simp
    qed
  qed (use assms in \<open>auto simp: awake_def dead_def\<close>)
qed

lemma free_mute_awake:
  assumes "serve_inv s" "managerThread s = M_None" "runState s" "queueMute s = None" "queueTask s \<noteq> []"
    and "\<exists>w \<in> set (workers s). w_pc w \<noteq> W_None"
  obtains i where "i < length (workers s)" "i < cores s" "awake (workers s ! i)" "\<not> w_critical (w_pc (workers s ! i))"
proof -
  have m: "mute_ok s" using assms(1) by (simp add: serve_inv_def live_inv_def pool_inv_def)
  have w: "wake_inv (cores s) (workers s) (runState s) (queueTask s) (notifying (commits s))"
    using assms(1,2) by (simp add: serve_inv_def)
  have "\<not> p_critical (commits s p)" for p using mute_holder(2) [OF m, of p] assms(4) by auto
  then have "commits s p \<noteq> P_NotifyOne rs" "commits s p \<noteq> P_NotifyAll rs" for p rs
    by (metis p_critical.simps(10)) (metis \<open>\<And>p. \<not> p_critical (commits s p)\<close> p_critical.simps(11))
  then have "\<not> notifying (commits s)" unfolding notifying_def by blast
  moreover have "\<not> (\<forall>i < length (workers s). w_pc (workers s ! i) = W_None)"
    using assms(6) by (metis in_set_conv_nth)
  ultimately obtain i where i: "i < length (workers s)" "awake (workers s ! i)"
    using w assms(3,5) unfolding wake_inv_def by blast
  have "i < cores s" using w i by (auto simp: wake_inv_def awake_def dead_def not_le [symmetric])
  with i that mute_holder(1) [OF m i(1)] assms(4) show thesis by auto
qed

text \<open>
  C17 The front of the queue is not stranded in a pool without manager thread (a \<open>Fixed\<close> pool, or a
  \<open>Flexible\<close> one whose core threads are the maximum, as the server's): in every reachable state of a
  running pool that is not being closed, in which at least one core thread could be created and nobody
  holds the mutex, there is a worker that, scheduled alone, takes the front task of the queue within
  seven actions, whatever notifications, spurious wake-ups and refused commits came before.
\<close>

theorem queued_task_is_taken:
  assumes "new_ThreadPool c m q ty st es = Some s\<^sub>0"
    and "reach (pool_step throws) any_action s\<^sub>0 s"
    and "managerThread s = M_None" "runState s" "crashed s = None" "queueMute s = None"
    and "queueTask s = t # ts" "\<exists>w \<in> set (workers s). w_pc w \<noteq> W_None"
  shows "\<exists>i n s'. n \<le> 7 \<and> run_ops (pool_step throws) (replicate n (A_Worker i)) s = Some s' \<and>
           w_pc (workers s' ! i) = W_Check t \<and> queueTask s' = ts"
proof -
  have "serve_inv s" by (rule serve.reach_keeps [OF assms(2) new_serve_inv [OF assms(1)]])
  then obtain i where i: "i < length (workers s)" "i < cores s" "awake (workers s ! i)" "\<not> w_critical (w_pc (workers s ! i))"
    by (rule free_mute_awake) (use assms in auto)
  from core_worker_takes [OF i(1,2) assms(5,4,6,7) i(3,4)] show ?thesis
    unfolding takes_def by blast
qed

lemma small_run_queued:
  "map_option (\<lambda>s. (managerThread s, runState s, crashed s, queueMute s, queueTask s, map w_pc (workers s)))
     (run_ops (pool_step (\<lambda>_. False)) (first_commit 1) (small_pool DiscardAllTasks)) =
   Some (M_None, True, None, None, [7], [W_Lock])"
  by code_simp

theorem queued_task_is_taken_witness:
  "\<exists>s i n s'. reach (pool_step (\<lambda>_. False)) any_action (small_pool DiscardAllTasks) s \<and> queueTask s = [7] \<and>
     run_ops (pool_step (\<lambda>_. False)) (replicate n (A_Worker i)) s = Some s' \<and> w_pc (workers s' ! i) = W_Check 7"
proof -
  obtain s where s: "run_ops (pool_step (\<lambda>_. False)) (first_commit 1) (small_pool DiscardAllTasks) = Some s"
    and f: "managerThread s = M_None" "runState s" "crashed s = None" "queueMute s = None" "queueTask s = [7]"
      "map w_pc (workers s) = [W_Lock]"
    using small_run_queued by auto
  have r: "reach (pool_step (\<lambda>_. False)) any_action (small_pool DiscardAllTasks) s"
    by (rule reach_run_ops [OF s]) (auto intro: reach_start simp: list_all_iff)
  have "\<exists>w \<in> set (workers s). w_pc w \<noteq> W_None" using f(6) by auto
  from queued_task_is_taken [OF small_pool_new r f(1-5) this] r f(5) show ?thesis by blast
qed

end
