(* ===== verification/Pool_Close.thy ===== *)
theory Pool_Close
  imports Pool_Liveness
begin

text \<open>
  Closing the pool. With \<open>DiscardAllTasks\<close> and \<open>ReturnTaskAndClose\<close> the closing thread takes the
  mutex between clearing \<open>runState\<close> and notifying, so no worker can miss the notification and
  \<open>close\<close> returns. With \<open>WaitAllTaskFinish\<close> it does not, and a worker between the evaluation of
  its predicate and the wait misses it: \<open>close\<close> joins a thread that nobody wakes.
\<close>

section \<open>Phases of closing\<close>

fun close_rank :: "close_pc \<Rightarrow> nat" where
  "close_rank C_RunState = 1"
| "close_rank C_Drain = 2"
| "close_rank C_Notify = 3"
| "close_rank (C_Join k) = 4"
| "close_rank C_Terminate = 4"
| "close_rank _ = 0"

definition none_at :: "worker_pc set \<Rightarrow> Worker list \<Rightarrow> bool" where
  "none_at X ws \<longleftrightarrow> (\<forall>i < length ws. w_pc (ws ! i) \<notin> X)"

text \<open>The state of the pool in each phase; \<open>drains\<close>: the strategy takes the mutex.\<close>

definition phase_inv :: "bool \<Rightarrow> close_pc \<Rightarrow> manager_pc \<Rightarrow> bool \<Rightarrow> Worker list \<Rightarrow> bool" where
  "phase_inv drains cl mg running ws \<longleftrightarrow>
     (1 \<le> close_rank cl \<longrightarrow> mg = M_None \<or> mg = M_Ret) \<and>
     (2 \<le> close_rank cl \<longrightarrow> \<not> running) \<and>
     (drains \<longrightarrow> 3 \<le> close_rank cl \<longrightarrow> none_at {W_Wait, W_PredAlive} ws) \<and>
     (drains \<longrightarrow> 4 \<le> close_rank cl \<longrightarrow> none_at {W_Blocked} ws) \<and>
     (\<forall>k. cl = C_Join k \<longrightarrow> k \<le> length ws)"

abbreviation phase_ok :: "ThreadPool \<Rightarrow> bool" where
  "phase_ok s \<equiv> phase_inv (closeStrategy s \<noteq> WaitAllTaskFinish) (closer s) (managerThread s) (runState s) (workers s)"

definition close_inv :: "ThreadPool \<Rightarrow> bool" where
  "close_inv s \<longleftrightarrow> live_inv s \<and> initFlag s = Once_Done \<and> phase_ok s"

lemma done_not_initialising: "init_ok s \<Longrightarrow> initFlag s = Once_Done \<Longrightarrow> \<not> initialising (commits s p)"
  using init_inv_active(1) by force

lemma none_at_wake: "none_at X ws \<Longrightarrow> W_Lock \<notin> X \<Longrightarrow> none_at X (map wake ws)"
  by (auto simp: none_at_def wake_def)

lemma none_blocked_wake: "none_at {W_Blocked} (map wake ws)"
  by (auto simp: none_at_def)

lemma none_at_update: "none_at X ws \<Longrightarrow> w_pc w \<notin> X \<Longrightarrow> none_at X (ws[i := w])"
  by (auto simp: none_at_def nth_slot)

text \<open>A worker starts to wait only while \<open>runState\<close> is set, and blocks only after that.\<close>

lemma worker_step_waits:
  assumes "worker_step throws i s = Some s'"
  shows "w_pc (workers s' ! i) \<in> {W_Wait, W_PredAlive} \<longrightarrow> runState s \<or> w_pc (workers s ! i) = W_PredAlive"
    and "w_pc (workers s' ! i) = W_Blocked \<longrightarrow> w_pc (workers s ! i) = W_Wait"
  using assms
  by (cases "w_pc (workers s ! i)"; cases "queueTask s"; auto simp: pool_defs Let_def split: if_splits)+

lemma worker_step_phase:
  assumes "phase_ok s" "worker_step throws i s = Some s'"
  shows "phase_ok s'"
proof -
  obtain x where x: "worker_frame i x s s'" using worker_step_frame [OF assms(2)] by blast
  then have f: "workers s' = (workers s)[i := (workers s ! i)\<lparr>w_pc := x\<rparr>]" "runState s' = runState s"
    "closer s' = closer s" "managerThread s' = managerThread s" "closeStrategy s' = closeStrategy s"
    and i: "i < length (workers s)" by (simp_all add: worker_frame_def)
  have "x = W_Wait \<or> x = W_PredAlive \<Longrightarrow> runState s \<or> w_pc (workers s ! i) = W_PredAlive"
    and "x = W_Blocked \<Longrightarrow> w_pc (workers s ! i) = W_Wait"
    using worker_step_waits [OF assms(2)] f(1) i by auto
  with assms(1) i show ?thesis
    unfolding f phase_inv_def by (auto intro!: none_at_update simp: none_at_def nth_slot)
qed

lemma commit_step_phase:
  assumes "phase_ok s" "\<not> initialising (commits s p)" "initFlag s = Once_Done" "commit_step p created j s = Some s'"
  shows "phase_ok s'" and "initFlag s' = Once_Done" and "crashed s' = crashed s"
proof -
  have m: "phase_inv d cl mg r (map wake ws)" if "phase_inv d cl mg r ws" for d cl mg r ws
    using that none_blocked_wake by (auto simp: phase_inv_def none_at_wake)
  have u: "phase_inv d cl mg r (ws[j := (ws ! j)\<lparr>w_pc := W_Lock\<rparr>])" if "phase_inv d cl mg r ws" for d cl mg r ws
    using that by (auto simp: phase_inv_def none_at_update)
  show "phase_ok s'" "initFlag s' = Once_Done" "crashed s' = crashed s"
    using assms m u
    by (cases "commits s p"; auto simp: commit_step_def commit_at_def push_one_def push_bulk_def notify_all_def
        notify_one_def worker_at_def split: if_splits job.splits prod.splits)+
qed

lemma close_step_phase:
  assumes "phase_ok s" "mute_ok s" "close_step s = Some s'"
  shows "phase_ok s'" and "initFlag s' = initFlag s"
proof -
  have d: "none_at {W_Wait, W_PredAlive} (workers s)" if "queueMute s = None"
    using mute_holder(1) [OF assms(2)] that by (fastforce simp: none_at_def)
  have j: "none_at X (ws[k := (ws ! k)\<lparr>workman := False\<rparr>])" if "none_at X ws" for X k ws
    using that by (auto simp: none_at_def nth_slot)
  have w: "none_at {W_Wait, W_PredAlive} (map wake ws)" if "none_at {W_Wait, W_PredAlive} ws" for ws
    using that by (rule none_at_wake) simp
  show "phase_ok s'"
    using assms(1,3) d j w none_blocked_wake
    by (cases "closer s")
       (auto simp: close_step_def close_join_def close_drain_def notify_all_def phase_inv_def split: if_splits)
  show "initFlag s' = initFlag s"
    using assms(3) by (cases "closer s")
      (auto simp: close_step_def close_join_def close_drain_def notify_all_def split: if_splits)
qed

lemma manager_step_phase:
  assumes "phase_ok s" "managerThreadTask created s = Some s'"
  shows "phase_ok s'" and "initFlag s' = initFlag s"
proof -
  have r: "close_rank (closer s) = 0"
    using assms by (auto simp: phase_inv_def managerThreadTask_def)
  have c: "closer s' = closer s" "initFlag s' = initFlag s"
    using assms(2) by (cases "managerThread s"; auto simp: pool_defs split: if_splits)+
  from c show "initFlag s' = initFlag s" by simp
  from r c show "phase_ok s'" by (auto simp: phase_inv_def)
qed

lemma blocked_phase: "blocked s i \<Longrightarrow> phase_ok s \<Longrightarrow> phase_ok (worker_at i W_Lock s)"
  by (auto simp: phase_inv_def worker_at_def none_at_update)

lemma close_inv_step:
  assumes "close_inv s" and "pool_step throws a s = Some s'"
  shows "close_inv s'"
proof -
  have c: "crashed s = None" using assms(2) by (simp add: pool_step_def split: if_splits)
  have i: "phase_ok s" "initFlag s = Once_Done" "mute_ok s" "init_ok s"
    using assms(1) unfolding close_inv_def live_inv_def pool_inv_def by blast+
  note st = assms(2) [unfolded pool_step_def]
  have "phase_ok s' \<and> initFlag s' = Once_Done"
  proof (cases a)
    case (A_Worker w)
    with st c have w: "worker_step throws w s = Some s'" by simp
    obtain x where "worker_frame w x s s'" using worker_step_frame [OF w] by blast
    with worker_step_phase [OF i(1) w] i(2) show ?thesis by (simp add: worker_frame_def)
  next
    case (A_Spurious w)
    with st c i(1,2) show ?thesis
      using blocked_phase by (auto simp: spurious_wakeup_def split: if_splits) (simp add: worker_at_def)
  next
    case (A_Manager b)
    with st c manager_step_phase [OF i(1)] i(2) show ?thesis by simp
  next
    case (A_Committer p b j)
    with st c commit_step_phase [OF i(1) done_not_initialising [OF i(4,2)] i(2)] show ?thesis by simp
  next
    case A_Closer
    with st c close_step_phase [OF i(1,3)] i(2) show ?thesis by simp
  next
    case A_Close
    with st c i(1,2) show ?thesis by (auto simp: close_call_def phase_inv_def split: if_splits)
  next
    case (A_Commit p j)
    with st c i(1,2) show ?thesis by (auto simp: commit_at_def split: if_splits)
  qed
  with assms show ?thesis using live_inv_step unfolding close_inv_def by blast
qed

interpretation closing: machine_invariant "pool_step throws" any_action close_inv
  by unfold_locales (rule close_inv_step)

section \<open>The pool joins its workers\<close>

fun pc_work :: "worker_pc \<Rightarrow> nat" where
  "pc_work W_Alive = 8"
| "pc_work W_Take = 7"
| "pc_work (W_Check t) = 6"
| "pc_work (W_Run t) = 5"
| "pc_work W_Idle = 4"
| "pc_work W_Lock = 3"
| "pc_work W_Pred = 2"
| "pc_work W_RunState = 1"
| "pc_work _ = 0"

fun close_work :: "nat \<Rightarrow> close_pc \<Rightarrow> nat" where
  "close_work n (C_Join k) = n + 2 - k"
| "close_work n C_Terminate = 1"
| "close_work n _ = 0"

definition pool_work :: "ThreadPool \<Rightarrow> nat" where
  "pool_work s = sum_list (map (\<lambda>w. pc_work (w_pc w)) (workers s)) + close_work (length (workers s)) (closer s)"

text \<open>The state of the pool from the moment \<open>close\<close> starts to join, also after it has returned.\<close>

definition joining_inv :: "ThreadPool \<Rightarrow> bool" where
  "joining_inv s \<longleftrightarrow> live_inv s \<and> initFlag s = Once_Done \<and> crashed s = None \<and> \<not> runState s \<and>
     (managerThread s = M_None \<or> managerThread s = M_Ret) \<and>
     none_at {W_Wait, W_PredAlive, W_Blocked} (workers s) \<and>
     (closer s = C_Terminate \<or> (\<exists>k \<le> length (workers s). closer s = C_Join k) \<or> closer s = C_Idle \<and> isTerminated s)"

fun pool_thread :: "pool_action \<Rightarrow> bool" where
  "pool_thread (A_Worker i) = True"
| "pool_thread A_Closer = True"
| "pool_thread _ = False"

lemma close_inv_joining:
  assumes "close_inv s" "closer s = C_Join k" "closeStrategy s \<noteq> WaitAllTaskFinish" "crashed s = None"
  shows "joining_inv s"
  using assms by (auto simp: close_inv_def joining_inv_def phase_inv_def none_at_def)

lemma none_at_same: "none_at {W_Blocked} ws \<Longrightarrow> map wake ws = ws"
  by (rule nth_equalityI) (auto simp: none_at_def wake_def)

lemma none_at_none_blocked: "none_at X (workers s) \<Longrightarrow> W_Blocked \<in> X \<Longrightarrow> none_blocked s"
  by (auto simp: none_at_def none_blocked_def list_all_length)

lemma worker_step_work:
  assumes "take_ok s" "\<not> runState s" "none_at {W_Wait, W_PredAlive, W_Blocked} (workers s)"
    and "worker_step throws i s = Some s'"
  shows "none_at {W_Wait, W_PredAlive, W_Blocked} (workers s')" and "pool_work s' < pool_work s"
proof -
  have i: "i < length (workers s)" using assms(4) by (simp add: worker_step_def split: if_splits)
  obtain x where "worker_frame i x s s'" using worker_step_frame [OF assms(4)] by blast
  then have f: "workers s' = (workers s)[i := (workers s ! i)\<lparr>w_pc := x\<rparr>]" "closer s' = closer s"
    by (simp_all add: worker_frame_def)
  have k: "pc_knows (cores s \<le> i) (isRunning (workers s ! i)) (runState s) (queueTask s = []) (w_pc (workers s ! i))"
    using assms(1) i by (simp add: take_inv_def)
  have n: "w_pc (workers s ! i) \<notin> {W_Wait, W_PredAlive, W_Blocked}" using assms(3) i by (simp add: none_at_def)
  have "w_pc (workers s' ! i) \<notin> {W_Wait, W_PredAlive, W_Blocked} \<and> pc_work (w_pc (workers s' ! i)) < pc_work (w_pc (workers s ! i))"
    using assms(2,4) k n
    by (cases "w_pc (workers s ! i)"; cases "queueTask s")
       (auto simp: pool_defs pc_knows_def Let_def split: if_splits)
  then have x: "x \<notin> {W_Wait, W_PredAlive, W_Blocked}" "pc_work x < pc_work (w_pc (workers s ! i))"
    using f(1) i by auto
  show "none_at {W_Wait, W_PredAlive, W_Blocked} (workers s')"
    unfolding f using assms(3) x(1) by (intro none_at_update) auto
  show "pool_work s' < pool_work s"
    using sum_list_update_slot [OF i, of "\<lambda>w. pc_work (w_pc w)" "(workers s ! i)\<lparr>w_pc := x\<rparr>"] x(2)
    by (simp add: pool_work_def f)
qed

lemma commit_step_joining:
  assumes "\<not> initialising (commits s p)" "initFlag s = Once_Done" "none_at {W_Wait, W_PredAlive, W_Blocked} (workers s)"
    and "commit_step p created j s = Some s'"
  shows "workers s' = workers s" "closer s' = closer s" "runState s' = runState s" "initFlag s' = Once_Done"
    "managerThread s' = managerThread s" "isTerminated s' = isTerminated s" "crashed s' = crashed s"
proof -
  have "map wake (workers s) = workers s" using assms(3) by (intro none_at_same) (auto simp: none_at_def)
  moreover have "none_blocked s" using assms(3) by (rule none_at_none_blocked) simp
  ultimately show "workers s' = workers s" "closer s' = closer s" "runState s' = runState s" "initFlag s' = Once_Done"
    "managerThread s' = managerThread s" "isTerminated s' = isTerminated s" "crashed s' = crashed s"
    using assms(1,2,4)
    by (cases "commits s p"; auto simp: commit_step_def commit_at_def push_one_def push_bulk_def notify_all_def
        notify_one_def split: if_splits job.splits prod.splits)+
qed

lemma close_join_cases:
  assumes "close_join k s = Some s'"
  obtains "length (workers s) \<le> k" "s' = s\<lparr>closer := C_Terminate\<rparr>"
    | "k < length (workers s)" "s' = s\<lparr>closer := C_Join (Suc k)\<rparr>"
    | "k < length (workers s)"
      "s' = s\<lparr>workers := (workers s)[k := (workers s ! k)\<lparr>workman := False\<rparr>], closer := C_Join (Suc k)\<rparr>"
  using assms unfolding close_join_def by (metis not_le option.distinct(1) option.inject)

lemma map_pc_join: "map w_pc (ws[k := (ws ! k)\<lparr>workman := b\<rparr>]) = map w_pc ws"
  by (rule nth_equalityI) (auto simp: nth_slot)

lemma pool_work_pcs:
  "pool_work s = sum_list (map pc_work (map w_pc (workers s))) + close_work (length (workers s)) (closer s)"
  by (simp add: pool_work_def comp_def)

lemma close_step_work:
  assumes "closer s = C_Terminate \<or> (\<exists>k \<le> length (workers s). closer s = C_Join k)" "close_step s = Some s'"
  shows "pool_work s' < pool_work s \<and> map w_pc (workers s') = map w_pc (workers s) \<and>
    runState s' = runState s \<and> initFlag s' = initFlag s \<and> managerThread s' = managerThread s \<and> crashed s' = crashed s \<and>
    (closer s' = C_Terminate \<or> (\<exists>k \<le> length (workers s'). closer s' = C_Join k) \<or> closer s' = C_Idle \<and> isTerminated s')"
  using assms(1)
proof
  assume "closer s = C_Terminate"
  with assms(2) have "s' = s\<lparr>isTerminated := True, closer := C_Idle\<rparr>" by (simp add: close_step_def)
  with \<open>closer s = C_Terminate\<close> show ?thesis by (simp add: pool_work_pcs)
next
  assume "\<exists>k \<le> length (workers s). closer s = C_Join k"
  then obtain k where k: "k \<le> length (workers s)" "closer s = C_Join k" by blast
  with assms(2) have "close_join k s = Some s'" by (simp add: close_step_def)
  then show ?thesis
    by (cases rule: close_join_cases) (use k in \<open>simp_all add: pool_work_pcs map_pc_join Suc_le_eq del: map_map map_update\<close>)
qed

lemma none_at_map: "map w_pc ws' = map w_pc ws \<Longrightarrow> none_at X ws' = none_at X ws"
  unfolding none_at_def by (metis length_map nth_map)

lemma joining_step:
  assumes "joining_inv s" "pool_step throws a s = Some s'"
  shows "joining_inv s' \<and> pool_work s' + (if pool_thread a then 1 else 0) \<le> pool_work s"
proof -
  have j: "live_inv s" "initFlag s = Once_Done" "crashed s = None" "\<not> runState s"
      "managerThread s = M_None \<or> managerThread s = M_Ret" "none_at {W_Wait, W_PredAlive, W_Blocked} (workers s)"
      "closer s = C_Terminate \<or> (\<exists>k \<le> length (workers s). closer s = C_Join k) \<or> closer s = C_Idle \<and> isTerminated s"
    using assms(1) unfolding joining_inv_def by blast+
  have o: "take_ok s" "mute_ok s" "init_ok s" using j(1) unfolding live_inv_def pool_inv_def by blast+
  have l: "live_inv s'" by (rule live_inv_step [OF j(1) assms(2)])
  note st = assms(2) [unfolded pool_step_def]
  show ?thesis
  proof (cases a)
    case (A_Worker w)
    with st j(3) have w: "worker_step throws w s = Some s'" by simp
    obtain x where "worker_frame w x s s'" using worker_step_frame [OF w] by blast
    with worker_step_work [OF o(1) j(4,6) w] worker_step_take(2) [OF o(1,2) w] j l A_Worker show ?thesis
      by (simp add: joining_inv_def worker_frame_def)
  next
    case (A_Spurious w)
    with st j(3,6) show ?thesis
      by (auto simp: spurious_wakeup_def blocked_def none_at_def split: if_splits)
  next
    case (A_Manager b)
    with st j(3,5) show ?thesis by (auto simp: managerThreadTask_def)
  next
    case (A_Commit p u)
    with st j l show ?thesis by (auto simp: joining_inv_def commit_at_def pool_work_def split: if_splits)
  next
    case (A_Committer p b u)
    with st j(3) have m: "commit_step p b u s = Some s'" by simp
    note k = commit_step_joining [OF done_not_initialising [OF o(3) j(2)] j(2,6) m]
    from A_Committer j l show ?thesis by (simp add: joining_inv_def pool_work_def k)
  next
    case A_Close
    with st j l show ?thesis by (auto simp: close_call_def joining_inv_def split: if_splits)
  next
    case A_Closer
    with st j(3) have m: "close_step s = Some s'" by simp
    then have c: "closer s = C_Terminate \<or> (\<exists>k \<le> length (workers s). closer s = C_Join k)"
      using j(7) by (auto simp: close_step_def)
    note k = close_step_work [OF c m]
    then have "none_at X (workers s') = none_at X (workers s)" for X by (intro none_at_map) blast
    with A_Closer j l k show ?thesis by (simp add: joining_inv_def)
  qed
qed

lemma joining_run:
  "\<lbrakk>run_ops (pool_step throws) as s = Some t; joining_inv s\<rbrakk> \<Longrightarrow>
     joining_inv t \<and> pool_work t + length (filter pool_thread as) \<le> pool_work s"
proof (induction as arbitrary: s)
  case (Cons a as)
  then obtain u where u: "pool_step throws a s = Some u" "run_ops (pool_step throws) as u = Some t"
    by (auto simp: bind_eq_Some_conv)
  from joining_step [OF Cons.prems(2) u(1)] Cons.IH [OF u(2)] show ?case by (auto split: if_splits)
qed simp

lemma pool_work_bound: "pool_work s \<le> 9 * length (workers s) + 2"
proof -
  have "pc_work c \<le> 8" for c by (cases c) auto
  then have "sum_list (map (\<lambda>w. pc_work (w_pc w)) ws) \<le> 8 * length ws" for ws
    by (induction ws) (auto simp: add_mono)
  from this [of "workers s"] show ?thesis
    by (cases "closer s") (auto simp: pool_work_def)
qed

text \<open>While \<open>close\<close> joins, one of the pool's threads can move, or the committing thread that holds the mutex.\<close>

definition can_move :: "(nat \<Rightarrow> bool) \<Rightarrow> ThreadPool \<Rightarrow> bool" where
  "can_move throws s \<longleftrightarrow> (\<exists>a s'. pool_step throws a s = Some s' \<and>
     (pool_thread a \<or> (\<exists>p b j. a = A_Committer p b j \<and> queueMute s = Some (By_Commit p))))"

lemma worker_can_move:
  assumes "crashed s = None" "i < length (workers s)" "\<not> dead (workers s ! i)" "w_pc (workers s ! i) \<noteq> W_Blocked"
    "w_pc (workers s ! i) \<in> {W_PredAlive, W_Alive} \<longrightarrow> cores s \<le> i"
    "w_pc (workers s ! i) = W_Lock \<longrightarrow> queueMute s = None"
  shows "can_move throws s"
proof -
  have "\<exists>s'. pool_step throws (A_Worker i) s = Some s'"
    using assms by (cases "w_pc (workers s ! i)")
      (auto simp: pool_step_def worker_step_def coreRun_def dynamicRun_def worker_lock_def dead_def)
  then show ?thesis unfolding can_move_def by (meson pool_thread.simps(1))
qed

lemma holder_can_move:
  assumes "joining_inv s" "queueMute s \<noteq> None"
  shows "can_move throws s"
proof -
  have j: "live_inv s" "crashed s = None" "none_at {W_Wait, W_PredAlive, W_Blocked} (workers s)"
    using assms(1) unfolding joining_inv_def by blast+
  have o: "take_ok s" "mute_ok s" using j(1) unfolding live_inv_def pool_inv_def by blast+
  from assms(2) consider i where "queueMute s = Some (By_Worker i)" | p where "queueMute s = Some (By_Commit p)"
    by (metis not_None_eq owner.exhaust)
  then show ?thesis
  proof cases
    case 1
    then have i: "i < length (workers s)" using o(2) by (simp add: mute_inv_def)
    have c: "w_critical (w_pc (workers s ! i))" by (rule mute_holder(3) [OF o(2) i 1])
    have "w_pc (workers s ! i) \<in> {W_PredAlive, W_Alive} \<longrightarrow> cores s \<le> i"
      using o(1) i by (auto simp: take_inv_def pc_knows_def)
    with i c j show ?thesis by (intro worker_can_move [of s i]) (auto simp: dead_def)
  next
    case 2
    have n: "none_blocked s" using j(3) by (rule none_at_none_blocked) simp
    have "\<exists>s'. pool_step throws (A_Committer p False 0) s = Some s'"
      using mute_holder(4) [OF o(2) 2] n j(2)
      by (cases "commits s p") (auto simp: pool_step_def commit_step_def notify_one_def)
    with 2 show ?thesis unfolding can_move_def by blast
  qed
qed

lemma joining_can_move:
  assumes "joining_inv s" "\<not> isTerminated s"
  shows "can_move throws s"
proof -
  have j: "live_inv s" "crashed s = None" "none_at {W_Wait, W_PredAlive, W_Blocked} (workers s)"
    "closer s = C_Terminate \<or> (\<exists>k. closer s = C_Join k)"
    using assms unfolding joining_inv_def by blast+
  have o: "take_ok s" "slots_ok s" using j(1) unfolding live_inv_def pool_inv_def by blast+
  show ?thesis
  proof (cases "\<exists>s'. close_step s = Some s'")
    case True
    with j(2) have "\<exists>s'. pool_step throws A_Closer s = Some s'" by (simp add: pool_step_def)
    then show ?thesis unfolding can_move_def by (meson pool_thread.simps(2))
  next
    case False
    then have "closer s \<noteq> C_Terminate" by (auto simp: close_step_def)
    with j(4) obtain k where "closer s = C_Join k" by blast
    with False have k: "k < length (workers s)" "workman (workers s ! k)" "w_pc (workers s ! k) \<noteq> W_Ret"
      by (simp_all add: close_step_def close_join_def split: if_splits)
    have d: "\<not> dead (workers s ! k)" using o(2) k by (auto simp: slots_inv_def dead_def)
    show ?thesis
    proof (cases "queueMute s = None")
      case True
      have "w_pc (workers s ! k) \<in> {W_PredAlive, W_Alive} \<longrightarrow> cores s \<le> k"
        using o(1) k by (auto simp: take_inv_def pc_knows_def)
      with True k d j show ?thesis by (intro worker_can_move [of s k]) (auto simp: none_at_def)
    next
      case False
      then show ?thesis by (rule holder_can_move [OF assms(1)])
    qed
  qed
qed

text \<open>
  C18 \<open>close\<close> returns from its joins when the strategy is \<open>DiscardAllTasks\<close> or \<open>ReturnTaskAndClose\<close>.
  Let it be called after the first commit has initialised the pool, and let it have reached the joins
  of the workers, the manager thread, if there is one, being joined already (before that it can wait
  for a manager that does not end). In every run from there, under any interleaving with committing
  threads and spurious wake-ups, the workers and the closing thread together make at most nine actions
  per worker and two more, and as long as \<open>close\<close> has not returned one of them can move, or a
  committing thread that is inside its own critical section: no worker is blocked on the condition.
\<close>

theorem close_returns:
  assumes "new_ThreadPool c m q ty st es = Some s\<^sub>0"
    and "reach (pool_step throws) any_action s\<^sub>0 s\<^sub>1" "initFlag s\<^sub>1 = Once_Done" "closer s\<^sub>1 = C_Idle"
    and "reach (pool_step throws) any_action s\<^sub>1 s\<^sub>2" "closer s\<^sub>2 = C_Join k" "crashed s\<^sub>2 = None"
    and "closeStrategy s\<^sub>2 \<noteq> WaitAllTaskFinish"
    and "run_ops (pool_step throws) as s\<^sub>2 = Some s\<^sub>3"
  shows "length (filter pool_thread as) \<le> 9 * length (workers s\<^sub>2) + 2 \<and> (isTerminated s\<^sub>3 \<or> can_move throws s\<^sub>3)"
proof -
  have "live_inv s\<^sub>1" by (rule live.reach_keeps [OF assms(2) new_live_inv [OF assms(1)]])
  then have "close_inv s\<^sub>1" using assms(3,4) by (simp add: close_inv_def phase_inv_def)
  then have "close_inv s\<^sub>2" by (rule closing.reach_keeps [OF assms(5)])
  then have "joining_inv s\<^sub>2" by (rule close_inv_joining [OF _ assms(6,8,7)])
  from joining_run [OF assms(9) this] pool_work_bound [of s\<^sub>2] joining_can_move [of s\<^sub>3 throws]
  show ?thesis by auto
qed

definition close_actions :: "pool_action list" where
  "close_actions = A_Close # replicate 5 A_Closer"

lemma small_run_closing:
  "map_option (\<lambda>s. (initFlag s, closer s)) (run_ops (pool_step (\<lambda>_. False)) (first_commit 1) (small_pool DiscardAllTasks)) =
     Some (Once_Done, C_Idle)"
  "map_option (\<lambda>s. (closer s, crashed s, closeStrategy s, length (workers s)))
     (run_ops (pool_step (\<lambda>_. False)) (first_commit 1 @ close_actions) (small_pool DiscardAllTasks)) =
     Some (C_Join 0, None, DiscardAllTasks, 1)"
  "map_option isTerminated (run_ops (pool_step (\<lambda>_. False))
     (first_commit 1 @ close_actions @ replicate 3 (A_Worker 0) @ replicate 3 A_Closer) (small_pool DiscardAllTasks)) = Some True"
  by code_simp+

theorem close_returns_witness:
  "\<exists>s\<^sub>2 s\<^sub>3. closer s\<^sub>2 = C_Join 0 \<and> length (workers s\<^sub>2) = 1 \<and>
     run_ops (pool_step (\<lambda>_. False)) (replicate 3 (A_Worker 0) @ replicate 3 A_Closer) s\<^sub>2 = Some s\<^sub>3 \<and> isTerminated s\<^sub>3 \<and>
     length (filter pool_thread (replicate 3 (A_Worker 0) @ replicate 3 A_Closer)) \<le> 9 * length (workers s\<^sub>2) + 2"
proof -
  obtain s\<^sub>1 where r1: "run_ops (pool_step (\<lambda>_. False)) (first_commit 1) (small_pool DiscardAllTasks) = Some s\<^sub>1"
    and f1: "initFlag s\<^sub>1 = Once_Done" "closer s\<^sub>1 = C_Idle" using small_run_closing(1) by auto
  obtain s\<^sub>2 where r2: "run_ops (pool_step (\<lambda>_. False)) close_actions s\<^sub>1 = Some s\<^sub>2"
    and f2: "closer s\<^sub>2 = C_Join 0" "crashed s\<^sub>2 = None" "closeStrategy s\<^sub>2 = DiscardAllTasks" "length (workers s\<^sub>2) = 1"
    using small_run_closing(2) r1 by (auto simp: run_ops_append)
  have "run_ops (pool_step (\<lambda>_. False)) (first_commit 1 @ close_actions @ w) (small_pool DiscardAllTasks) =
      run_ops (pool_step (\<lambda>_. False)) w s\<^sub>2" for w
    by (simp only: run_ops_append r1 r2 bind.bind_lunit)
  then obtain s\<^sub>3 where r3: "run_ops (pool_step (\<lambda>_. False)) (replicate 3 (A_Worker 0) @ replicate 3 A_Closer) s\<^sub>2 = Some s\<^sub>3"
    and f3: "isTerminated s\<^sub>3"
    using small_run_closing(3) by auto
  have a: "reach (pool_step (\<lambda>_. False)) any_action (small_pool DiscardAllTasks) s\<^sub>1"
    "reach (pool_step (\<lambda>_. False)) any_action s\<^sub>1 s\<^sub>2"
    by (rule reach_run_ops [OF r1]; auto intro: reach_start simp: list_all_iff)
       (rule reach_run_ops [OF r2]; auto intro: reach_start simp: list_all_iff)
  have "closeStrategy s\<^sub>2 \<noteq> WaitAllTaskFinish" using f2(3) by simp
  from close_returns [OF small_pool_new a(1) f1 a(2) f2(1,2) this r3] f2 f3 r3 show ?thesis by blast
qed

section \<open>The lost notification\<close>

fun no_spurious :: "pool_action \<Rightarrow> bool" where
  "no_spurious (A_Spurious i) = False"
| "no_spurious _ = True"

primrec will_refuse :: "commit_pc \<Rightarrow> bool" where
  "will_refuse P_Idle = True"
| "will_refuse (P_Once j) = True"
| "will_refuse (P_Init j) = False"
| "will_refuse (P_Spawn j k) = False"
| "will_refuse (P_Vacant j) = False"
| "will_refuse (P_Manager j) = False"
| "will_refuse (P_Stop j) = True"
| "will_refuse (P_Lock j) = False"
| "will_refuse (P_Push j) = False"
| "will_refuse (P_NotifyOne rs) = False"
| "will_refuse (P_NotifyAll rs) = False"
| "will_refuse (P_Ret rs) = True"
| "will_refuse P_Throw = True"

text \<open>\<open>close\<close> joins the first worker, which is blocked, and no thread is left that would notify it.\<close>

definition hung :: "ThreadPool \<Rightarrow> bool" where
  "hung s \<longleftrightarrow> closer s = C_Join 0 \<and> blocked s 0 \<and> workman (workers s ! 0) \<and> \<not> isTerminated s \<and>
     stopCommitState s \<and> initFlag s = Once_Done \<and> (managerThread s = M_None \<or> managerThread s = M_Ret) \<and>
     (\<forall>p. will_refuse (commits s p))"

lemma blocked_no_step: "blocked s i \<Longrightarrow> worker_step throws i s = None"
  by (simp add: worker_step_def coreRun_def dynamicRun_def blocked_def)

lemma hung_step:
  assumes "hung s" "no_spurious a" "pool_step throws a s = Some s'"
  shows "hung s'"
proof -
  have h: "closer s = C_Join 0" "blocked s 0" "workman (workers s ! 0)" "\<not> isTerminated s" "stopCommitState s"
    "initFlag s = Once_Done" "managerThread s = M_None \<or> managerThread s = M_Ret" "\<And>p. will_refuse (commits s p)"
    using assms(1) unfolding hung_def by blast+
  have c: "crashed s = None" using assms(3) by (simp add: pool_step_def split: if_splits)
  note st = assms(3) [unfolded pool_step_def]
  show ?thesis
  proof (cases a)
    case (A_Worker w)
    with st c have w: "worker_step throws w s = Some s'" by simp
    obtain x where x: "worker_frame w x s s'" using worker_step_frame [OF w] by blast
    have "w \<noteq> 0" using w blocked_no_step [OF h(2), of throws] by (cases "w = 0") simp_all
    with x h show ?thesis by (simp add: hung_def worker_frame_def blocked_def)
  next
    case (A_Committer p b j)
    with st c have m: "commit_step p b j s = Some s'" by simp
    have k: "will_refuse (commits s' p)" "s' = commit_at p (commits s' p) s"
      using m h(5,6) h(8) [of p] by (cases "commits s p"; auto simp: commit_step_def commit_at_def)+
    define x where "x = commits s' p"
    with k have "will_refuse x" "s' = s\<lparr>commits := (commits s)(p := x)\<rparr>" by (simp_all add: commit_at_def)
    with h show ?thesis by (simp add: hung_def blocked_def)
  qed (use st c h assms(2) in \<open>auto simp: hung_def commit_at_def blocked_def managerThreadTask_def
      close_call_def close_step_def close_join_def split: if_splits\<close>)
qed

interpretation hang: machine_invariant "pool_step throws" no_spurious hung
  by unfold_locales (rule hung_step)

text \<open>A thread that does not commit stays outside \<open>commit_executor\<close>.\<close>

fun commits_as :: "nat \<Rightarrow> pool_action \<Rightarrow> bool" where
  "commits_as p (A_Commit p' j) = (p' = p)"
| "commits_as p (A_Committer p' b j) = (p' = p)"
| "commits_as p _ = True"

lemma pool_step_commits:
  assumes "commits_as p a" "pool_step throws a s = Some s'" "r \<noteq> p"
  shows "commits s' r = commits s r"
proof (cases a)
  case (A_Worker w)
  with assms(2) have "worker_step throws w s = Some s'" by (simp add: pool_step_def split: if_splits)
  then obtain x where "worker_frame w x s s'" by (rule worker_step_frame)
  then show ?thesis by (simp add: worker_frame_def)
next
  case (A_Committer p' b j)
  with assms show ?thesis
    by (cases "commits s p") (auto simp: pool_step_def commit_step_def commit_at_def init_workers_def crash_def
        addCoreThread_def spawn_def init_manager_def push_one_def push_bulk_def notify_all_def notify_one_def worker_at_def
        split: if_splits once_flag.splits job.splits prod.splits)
next
  case (A_Manager b)
  with assms(2) show ?thesis by (cases "managerThread s") (auto simp: pool_step_def pool_defs split: if_splits)
next
  case A_Closer
  with assms(2) show ?thesis by (cases "closer s") (auto simp: pool_step_def pool_defs split: if_splits)
qed (use assms in \<open>auto simp: pool_step_def spurious_wakeup_def worker_at_def commit_at_def close_call_def split: if_splits\<close>)

interpretation alone: machine_invariant "pool_step throws" "commits_as p" "\<lambda>s. \<forall>r. r \<noteq> p \<longrightarrow> commits s r = P_Idle"
  by unfold_locales (use pool_step_commits in metis)

text \<open>The pool of the server, as \<open>Threads\<close> constructs it from the constants of the reactor.\<close>

definition REACTOR_MIN_THREAD :: nat where "REACTOR_MIN_THREAD = 4"
definition REACTOR_MAX_THREAD :: nat where "REACTOR_MAX_THREAD = 4"
definition REACTOR_QUEUE_LENGTH :: nat where "REACTOR_QUEUE_LENGTH = 4096"

definition Threads :: "(nat \<Rightarrow> Executor) \<Rightarrow> ThreadPool option" where
  "Threads es = new_ThreadPool REACTOR_MIN_THREAD REACTOR_MAX_THREAD REACTOR_QUEUE_LENGTH Flexible WaitAllTaskFinish es"

definition server_pool :: ThreadPool where
  "server_pool = \<lparr>Type = Flexible, closeStrategy = WaitAllTaskFinish, cores = 4, MaxThreadCount = 4, QueueMaxSize = 4096,
     workers = [], initFlag = Once_Fresh, dynamicWorkerCount = 0, runState = False, vacantThreadsCount = 0,
     stopCommitState = False, isTerminated = False, queueTask = [], queueMute = None,
     managerThread = M_None, isStart = False, executors = (\<lambda>_. new_Executor), commits = (\<lambda>_. P_Idle),
     closer = C_Idle, accepted = [], started = [], finished = [], returned = [], dropped = [], crashed = None\<rparr>"

lemma server_pool_new: "Threads (\<lambda>_. new_Executor) = Some server_pool"
  by (simp add: Threads_def REACTOR_MIN_THREAD_def REACTOR_MAX_THREAD_def REACTOR_QUEUE_LENGTH_def
      server_pool_def new_ThreadPool_def)

definition lost_wakeup_run :: "pool_action list" where
  "lost_wakeup_run = first_commit 4 @ replicate 6 (A_Worker 0) @ [A_Close, A_Closer, A_Closer, A_Closer]
     @ replicate 3 (A_Worker 0) @ [A_Closer, A_Closer, A_Worker 0]"

lemma lost_wakeup_state:
  "map_option (\<lambda>s. (closer s, map w_pc (take 1 (workers s)), map workman (take 1 (workers s)), isTerminated s,
       stopCommitState s, initFlag s, managerThread s, commits s 0, finished s))
     (run_ops (pool_step (\<lambda>_. False)) lost_wakeup_run server_pool) =
   Some (C_Join 0, [W_Blocked], [True], False, True, Once_Done, M_None, P_Ret [ok_result], [7])"
  by code_simp

lemma lost_wakeup_hung:
  obtains s where "run_ops (pool_step (\<lambda>_. False)) lost_wakeup_run server_pool = Some s" "hung s" "finished s = [7]"
proof -
  obtain s where r: "run_ops (pool_step (\<lambda>_. False)) lost_wakeup_run server_pool = Some s"
    and f: "closer s = C_Join 0" "map w_pc (take 1 (workers s)) = [W_Blocked]" "map workman (take 1 (workers s)) = [True]"
      "\<not> isTerminated s" "stopCommitState s" "initFlag s = Once_Done" "managerThread s = M_None"
      "commits s 0 = P_Ret [ok_result]" "finished s = [7]"
    using lost_wakeup_state by auto
  have "\<forall>r. r \<noteq> 0 \<longrightarrow> commits s r = P_Idle"
    by (rule alone.run_keeps [OF r]) (simp_all add: lost_wakeup_run_def first_commit_def list_all_iff server_pool_def)
  with f(8) have "will_refuse (commits s p)" for p by (cases "p = 0") auto
  moreover from f(2,3) obtain w ws where "workers s = w # ws" "w_pc w = W_Blocked" "workman w"
    by (cases "workers s") auto
  ultimately have "hung s" using f by (simp add: hung_def blocked_def)
  with r f(9) that show thesis by blast
qed

text \<open>
  C19 the pool of the server (\<open>Threads\<close>, four core threads, \<open>WaitAllTaskFinish\<close>) can hang in
  \<open>close\<close>. There is a run, without failures, in which the only task was executed and \<open>close\<close> was
  called, that leads to a state from which \<open>close\<close> never returns, whatever the threads do later:
  a worker had evaluated the predicate of the condition while \<open>runState\<close> was set, \<open>close\<close> cleared
  it and notified without taking the mutex, and then the worker blocked. Only a spurious wake-up
  of the condition variable would end the wait.
\<close>

theorem close_can_hang:
  "\<exists>s\<^sub>0 s. Threads (\<lambda>_. new_Executor) = Some s\<^sub>0 \<and> reach (pool_step (\<lambda>_. False)) no_spurious s\<^sub>0 s \<and> finished s = [7] \<and>
     (\<forall>s'. reach (pool_step (\<lambda>_. False)) no_spurious s s' \<longrightarrow> closer s' = C_Join 0 \<and> \<not> isTerminated s')"
proof -
  obtain s where s: "run_ops (pool_step (\<lambda>_. False)) lost_wakeup_run server_pool = Some s" "hung s" "finished s = [7]"
    by (rule lost_wakeup_hung)
  have r: "reach (pool_step (\<lambda>_. False)) no_spurious server_pool s"
    by (rule reach_run_ops [OF s(1)])
       (auto intro: reach_start simp: lost_wakeup_run_def first_commit_def list_all_iff)
  have "closer s' = C_Join 0 \<and> \<not> isTerminated s'" if "reach (pool_step (\<lambda>_. False)) no_spurious s s'" for s'
    using hang.reach_keeps [OF that s(2)] by (simp add: hung_def)
  with server_pool_new r s(3) show ?thesis by blast
qed

theorem close_can_hang_witness:
  "\<exists>s. reach (pool_step (\<lambda>_. False)) no_spurious server_pool s \<and> closer s = C_Join 0 \<and> \<not> isTerminated s"
  using close_can_hang server_pool_new reach_start by (metis option.inject)

end
