(* ===== verification/Pool_Manager.thy ===== *)
theory Pool_Manager
  imports Pool_Liveness
begin

text \<open>
  The counter \<open>vacantThreadsCount\<close> on which the manager thread decides. It counts the core threads
  minus the workers, core or dynamic, that are at a task: a dynamic thread that waits is not
  counted as vacant. So the manager of a pool with at most two core threads never ends a dynamic
  thread.
\<close>

fun busy_pc :: "worker_pc \<Rightarrow> nat" where
  "busy_pc (W_Check t) = 1"
| "busy_pc (W_Run t) = 1"
| "busy_pc W_Idle = 1"
| "busy_pc _ = 0"

definition busy_workers :: "Worker list \<Rightarrow> nat" where
  "busy_workers ws = sum_list (map (\<lambda>w. busy_pc (w_pc w)) ws)"

primrec admitted :: "commit_pc \<Rightarrow> bool" where
  "admitted P_Idle = False"
| "admitted (P_Once j) = False"
| "admitted (P_Init j) = False"
| "admitted (P_Spawn j k) = False"
| "admitted (P_Vacant j) = False"
| "admitted (P_Manager j) = False"
| "admitted (P_Stop j) = False"
| "admitted (P_Lock j) = True"
| "admitted (P_Push j) = True"
| "admitted (P_NotifyOne rs) = False"
| "admitted (P_NotifyAll rs) = False"
| "admitted (P_Ret rs) = False"
| "admitted P_Throw = False"

text \<open>Before \<open>init\<close> has finished no task is queued and no worker is busy.\<close>

definition count_inv :: "ThreadPool \<Rightarrow> bool" where
  "count_inv s \<longleftrightarrow>
     (initFlag s \<noteq> Once_Done \<longrightarrow> queueTask s = [] \<and> busy_workers (workers s) = 0 \<and>
        (\<forall>p. \<not> admitted (commits s p) \<and> (\<forall>j. commits s p \<noteq> P_Stop j))) \<and>
     (initFlag s = Once_Done \<or> (\<exists>p j. commits s p = P_Manager j) \<longrightarrow>
        vacantThreadsCount s = int (cores s) - int (busy_workers (workers s)))"

lemma busy_update:
  "i < length ws \<Longrightarrow> busy_workers (ws[i := w]) + busy_pc (w_pc (ws ! i)) = busy_workers ws + busy_pc (w_pc w)"
  unfolding busy_workers_def by (rule sum_list_update_slot)

lemma busy_same: "busy_pc (w_pc w) = busy_pc (w_pc (ws ! i)) \<Longrightarrow> busy_workers (ws[i := w]) = busy_workers ws"
  by (cases "i < length ws") (use busy_update [of i ws w] in \<open>auto simp: not_less list_update_beyond\<close>)

lemma busy_wake [simp]: "busy_workers (map wake ws) = busy_workers ws"
proof -
  have "busy_pc (w_pc (wake w)) = busy_pc (w_pc w)" for w by (simp add: wake_def)
  then show ?thesis by (simp add: busy_workers_def comp_def)
qed

lemma busy_fresh [simp]: "busy_workers (replicate n new_Worker) = 0"
  by (induction n) (simp_all add: busy_workers_def new_Worker_def)

lemma busy_spawn:
  "dead (ws ! i) \<Longrightarrow> busy_workers (ws[i := (ws ! i)\<lparr>isRunning := True, workman := True, w_pc := W_Lock\<rparr>]) = busy_workers ws"
  by (rule busy_same) (auto simp: dead_def)

lemma worker_step_busy:
  assumes "take_ok s" "worker_step throws i s = Some s'"
  shows "vacantThreadsCount s' + int (busy_workers (workers s')) = vacantThreadsCount s + int (busy_workers (workers s))"
    and "queueTask s = [] \<Longrightarrow> queueTask s' = [] \<and> busy_workers (workers s') \<le> busy_workers (workers s)"
proof -
  have i: "i < length (workers s)" using assms(2) by (simp add: worker_step_def split: if_splits)
  obtain x where "worker_frame i x s s'" using worker_step_frame [OF assms(2)] by blast
  then have f: "workers s' = (workers s)[i := (workers s ! i)\<lparr>w_pc := x\<rparr>]" by (simp add: worker_frame_def)
  have k: "w_pc (workers s ! i) = W_Take \<longrightarrow> queueTask s \<noteq> []"
    using assms(1) i by (auto simp: take_inv_def pc_knows_def)
  have "vacantThreadsCount s' + int (busy_pc (w_pc (workers s' ! i))) = vacantThreadsCount s + int (busy_pc (w_pc (workers s ! i))) \<and>
      (queueTask s = [] \<longrightarrow> queueTask s' = [] \<and> busy_pc (w_pc (workers s' ! i)) \<le> busy_pc (w_pc (workers s ! i)))"
    using assms(2) i k
    by (cases "w_pc (workers s ! i)"; cases "queueTask s") (auto simp: pool_defs Let_def split: if_splits)
  with busy_update [OF i, of "(workers s ! i)\<lparr>w_pc := x\<rparr>"] i
  show "vacantThreadsCount s' + int (busy_workers (workers s')) = vacantThreadsCount s + int (busy_workers (workers s))"
    "queueTask s = [] \<Longrightarrow> queueTask s' = [] \<and> busy_workers (workers s') \<le> busy_workers (workers s)"
    unfolding f by auto
qed

lemma worker_step_count:
  assumes "count_inv s" "take_ok s" "worker_step throws i s = Some s'"
  shows "count_inv s'"
proof -
  obtain x where "worker_frame i x s s'" using worker_step_frame [OF assms(3)] by blast
  then have "initFlag s' = initFlag s" "commits s' = commits s" "cores s' = cores s" by (simp_all add: worker_frame_def)
  with assms(1) worker_step_busy [OF assms(2,3)] show ?thesis unfolding count_inv_def by auto
qed

lemma count_inv_same:
  assumes "count_inv s" "initFlag s' = initFlag s" "commits s' = commits s" "cores s' = cores s"
    "vacantThreadsCount s' = vacantThreadsCount s" "queueTask s' = queueTask s"
    "busy_workers (workers s') = busy_workers (workers s)"
  shows "count_inv s'"
  using assms unfolding count_inv_def by simp

lemma manager_step_count:
  assumes "count_inv s" "slots_ok s" "managerThreadTask created s = Some s'"
  shows "count_inv s'"
proof (cases "managerThread s")
  case (M_Spawn i)
  then have "dead (workers s ! i)" using assms(2) by (simp add: slots_inv_def)
  with M_Spawn assms(3) show ?thesis
    by (intro count_inv_same [OF assms(1)])
       (auto simp: managerThreadTask_def spawnDynamicThread_def spawn_def busy_spawn split: if_splits)
qed (rule count_inv_same [OF assms(1)]; use assms(3) in \<open>auto simp: managerThreadTask_def notify_all_def
      killDynamicThread_def joinDynamicThread_def addDynamicThread_def set_running_def crash_def busy_same
      split: if_splits\<close>)+

text \<open>A committing thread moves and leaves the workers, the queue and the counter alone.\<close>

lemma count_inv_commit:
  assumes "count_inv s" "\<And>j. x \<noteq> P_Manager j" "initFlag s = Once_Done \<or> \<not> admitted x \<and> (\<forall>j. x \<noteq> P_Stop j)"
    "initFlag s' = initFlag s" "commits s' = (commits s)(p := x)" "cores s' = cores s"
    "vacantThreadsCount s' = vacantThreadsCount s" "queueTask s' = queueTask s \<or> initFlag s = Once_Done"
    "busy_workers (workers s') = busy_workers (workers s)"
  shows "count_inv s'"
proof -
  have "(\<exists>q j. commits s' q = P_Manager j) \<Longrightarrow> (\<exists>q j. commits s q = P_Manager j)"
    using assms(2,5) by (metis fun_upd_apply)
  with assms(1,3-9) show ?thesis unfolding count_inv_def by auto
qed

lemma count_inv_admitted:
  "\<lbrakk>count_inv s; admitted (commits s p) \<or> (\<exists>j. commits s p = P_Stop j)\<rbrakk> \<Longrightarrow> initFlag s = Once_Done"
  unfolding count_inv_def by blast

lemma init_step_count:
  assumes "count_inv s" "slots_ok s" "init_ok s" "initialising (commits s p)" "commit_step p created j s = Some s'"
  shows "count_inv s'"
proof -
  have a: "initFlag s = Once_Active" by (rule init_inv_active(1) [OF assms(3,4)])
  with assms(1) have b: "busy_workers (workers s) = 0" "queueTask s = []"
    "\<And>q. \<not> admitted (commits s q)" "\<And>q j. commits s q \<noteq> P_Stop j" unfolding count_inv_def by auto
  show ?thesis
  proof (cases "commits s p")
    case (P_Init w)
    with assms(5) show ?thesis
      by (cases "list_ex workman (workers s)")
         (auto simp: commit_step_def init_workers_def crash_def commit_at_def b a
          intro: count_inv_same [OF assms(1)] count_inv_commit [OF assms(1), where p = p and x = "P_Spawn w 0"])
  next
    case (P_Spawn w i)
    have d: "dead (workers s ! i)" if "i < length (workers s)"
      using init_inv_fresh [OF assms(3) P_Spawn that] by (simp add: dead_def)
    then have e: "busy_workers ((workers s)[i := (workers s ! i)\<lparr>isRunning := True, workman := True, w_pc := W_Lock\<rparr>]) = 0"
      if "i < length (workers s)"
      using that b(1) by (simp add: busy_spawn)
    from P_Spawn assms(5) consider "s' = commit_at p (P_Vacant w) s" | "s' = crash Undefined_Behaviour s"
      | "i < length (workers s)" "s' = spawn i (commit_at p (P_Spawn w (Suc i)) s)"
      by (auto simp: commit_step_def addCoreThread_def not_le split: if_splits)
    then show ?thesis
    proof cases
      case 1
      then show ?thesis by (intro count_inv_commit [OF assms(1), where x = "P_Vacant w"]) (auto simp: commit_at_def)
    next
      case 2
      then show ?thesis by (intro count_inv_same [OF assms(1)]) (auto simp: crash_def)
    next
      case 3
      then show ?thesis
        by (intro count_inv_commit [OF assms(1), where x = "P_Spawn w (Suc i)"]) (auto simp: commit_at_def spawn_def e b)
    qed
  next
    case (P_Vacant w)
    with assms(5) b a show ?thesis
      by (auto simp: commit_step_def commit_at_def count_inv_def split: if_splits)
  next
    case (P_Manager w)
    then have "vacantThreadsCount s = int (cores s)" using assms(1) b(1) by (auto simp: count_inv_def)
    with P_Manager assms(5) b a show ?thesis
      by (auto simp: commit_step_def init_manager_def commit_at_def count_inv_def split: if_splits)
  qed (use assms(4) in simp_all)
qed

lemma commit_step_count:
  assumes "count_inv s" "slots_ok s" "init_ok s" "commit_step p created j s = Some s'"
  shows "count_inv s'"
proof (cases "initialising (commits s p)")
  case False
  note q = count_inv_admitted [OF assms(1), of p]
  have lock: "busy_workers ((workers s)[i := (workers s ! i)\<lparr>w_pc := W_Lock\<rparr>]) = busy_workers (workers s)" if "blocked s i" for i
    using that by (intro busy_same) (simp add: blocked_def)
  show ?thesis
  proof (cases "commits s p")
    case (P_Once w)
    with assms(1,4) show ?thesis
      by (auto simp: commit_step_def commit_at_def split: once_flag.splits
          intro: count_inv_commit [OF assms(1), where p = p and x = "P_Stop w"])
         (auto simp: count_inv_def split: if_splits)
  next
    case (P_NotifyOne rs)
    with assms(4) lock show ?thesis
      by (intro count_inv_commit [OF assms(1), where p = p and x = "P_Ret rs"])
         (auto simp: commit_step_def commit_at_def notify_one_def worker_at_def split: if_splits)
  next
    case (P_NotifyAll rs)
    with assms(4) show ?thesis
      by (intro count_inv_commit [OF assms(1), where p = p and x = "P_Ret rs"])
         (auto simp: commit_step_def commit_at_def notify_all_def)
  next
    case (P_Stop w)
    with assms(4) q show ?thesis
      by (intro count_inv_commit [OF assms(1), where p = p and x = "commits s' p"])
         (auto simp: commit_step_def commit_at_def split: if_splits)
  next
    case (P_Push w)
    with assms(4) q show ?thesis
      by (intro count_inv_commit [OF assms(1), where p = p and x = "commits s' p"])
         (auto simp: commit_step_def commit_at_def push_one_def push_bulk_def split: job.splits prod.splits if_splits)
  qed (use False assms(4) q in \<open>auto simp: commit_step_def commit_at_def split: if_splits
      intro: count_inv_commit [OF assms(1), where p = p and x = "P_Push _"] count_inv_commit [OF assms(1), where p = p and x = P_Idle]\<close>)
qed (rule init_step_count [OF assms(1-3) _ assms(4)])

lemma close_step_count:
  assumes "count_inv s" "close_step s = Some s'"
  shows "count_inv s'"
proof (cases "closer s = C_Drain")
  case True
  with assms show ?thesis by (auto simp: close_step_def close_drain_def count_inv_def split: if_splits)
next
  case False
  with assms(2) show ?thesis
    by (intro count_inv_same [OF assms(1)]; cases "closer s")
       (auto simp: close_step_def close_join_def notify_all_def busy_same split: if_splits)
qed

definition manager_inv :: "ThreadPool \<Rightarrow> bool" where
  "manager_inv s \<longleftrightarrow> live_inv s \<and> count_inv s \<and>
     (cores s \<le> 2 \<longrightarrow> (\<forall>i. managerThread s \<noteq> M_Kill i \<and> managerThread s \<noteq> M_KillNotify i \<and> managerThread s \<noteq> M_KillJoin i))"

lemma manager_step_kill:
  assumes "count_inv s" "init_ok s" "cores s \<le> 2" "managerThreadTask created s = Some s'"
    and "\<forall>i. managerThread s \<noteq> M_Kill i \<and> managerThread s \<noteq> M_KillNotify i \<and> managerThread s \<noteq> M_KillJoin i"
  shows "managerThread s' \<noteq> M_Kill i \<and> managerThread s' \<noteq> M_KillNotify i \<and> managerThread s' \<noteq> M_KillJoin i"
proof -
  have "initFlag s = Once_Done"
    using assms(2,4) by (auto simp: init_inv_def managerThreadTask_def split: manager_pc.splits)
  then have "vacantThreadsCount s \<le> 2" using assms(1,3) by (simp add: count_inv_def)
  with assms(4,5) show ?thesis
    by (cases "managerThread s") (auto simp: managerThreadTask_def addDynamicThread_def set_running_def
        spawnDynamicThread_def spawn_def split: if_splits)
qed

lemma pool_step_manager:
  assumes "pool_step throws a s = Some s'" "\<forall>b. a \<noteq> A_Manager b"
  shows "cores s' = cores s \<and> (managerThread s' = managerThread s \<or> managerThread s' = M_Loop)"
proof (cases a)
  case (A_Worker w)
  with assms(1) have "worker_step throws w s = Some s'" by (simp add: pool_step_def split: if_splits)
  then obtain x where "worker_frame w x s s'" by (rule worker_step_frame)
  then show ?thesis by (simp add: worker_frame_def)
next
  case (A_Committer p b j)
  with assms show ?thesis
    by (cases "commits s p") (auto simp: pool_step_def commit_step_def commit_at_def init_workers_def crash_def
        addCoreThread_def spawn_def init_manager_def push_one_def push_bulk_def notify_all_def notify_one_def worker_at_def
        split: if_splits once_flag.splits job.splits prod.splits)
next
  case A_Closer
  with assms(1) show ?thesis by (cases "closer s") (auto simp: pool_step_def pool_defs split: if_splits)
qed (use assms in \<open>auto simp: pool_step_def spurious_wakeup_def worker_at_def commit_at_def close_call_def split: if_splits\<close>)

lemma count_inv_step:
  assumes "count_inv s" "live_inv s" "pool_step throws a s = Some s'"
  shows "count_inv s'"
proof -
  have c: "crashed s = None" using assms(3) by (simp add: pool_step_def split: if_splits)
  have i: "take_ok s" "slots_ok s" "init_ok s" using assms(2) unfolding live_inv_def pool_inv_def by blast+
  note st = assms(3) [unfolded pool_step_def]
  show ?thesis
  proof (cases a)
    case (A_Worker w)
    with st c worker_step_count [OF assms(1) i(1)] show ?thesis by simp
  next
    case (A_Spurious w)
    with st c show ?thesis
      by (intro count_inv_same [OF assms(1)])
         (auto simp: spurious_wakeup_def worker_at_def blocked_def busy_same split: if_splits)
  next
    case (A_Manager b)
    with st c manager_step_count [OF assms(1) i(2)] show ?thesis by simp
  next
    case (A_Committer p b j)
    with st c commit_step_count [OF assms(1) i(2,3)] show ?thesis by simp
  next
    case A_Closer
    with st c close_step_count [OF assms(1)] show ?thesis by simp
  next
    case (A_Commit p j)
    with st c show ?thesis
      by (intro count_inv_commit [OF assms(1), where p = p and x = "P_Once j"]) (auto simp: commit_at_def split: if_splits)
  next
    case A_Close
    with st c show ?thesis
      by (intro count_inv_same [OF assms(1)]) (auto simp: close_call_def split: if_splits)
  qed
qed

lemma manager_inv_step:
  assumes "manager_inv s" "pool_step throws a s = Some s'"
  shows "manager_inv s'"
proof -
  have m: "live_inv s" "count_inv s" using assms(1) by (simp_all add: manager_inv_def)
  have k: "\<forall>i. managerThread s' \<noteq> M_Kill i \<and> managerThread s' \<noteq> M_KillNotify i \<and> managerThread s' \<noteq> M_KillJoin i"
    if "cores s' \<le> 2"
  proof (cases "\<exists>b. a = A_Manager b")
    case True
    then obtain b where "managerThreadTask b s = Some s'"
      using assms(2) by (auto simp: pool_step_def split: if_splits)
    moreover from this have "cores s' = cores s"
      by (cases "managerThread s") (auto simp: pool_defs split: if_splits)
    moreover have "init_ok s" using m(1) unfolding live_inv_def pool_inv_def by blast
    ultimately show ?thesis using manager_step_kill [OF m(2)] assms(1) that by (auto simp: manager_inv_def)
  next
    case False
    then have "cores s' = cores s" "managerThread s' = managerThread s \<or> managerThread s' = M_Loop"
      using pool_step_manager [OF assms(2)] by blast+
    with assms(1) that show ?thesis unfolding manager_inv_def by (metis manager_pc.distinct(19,21,23))
  qed
  with live_inv_step [OF m(1) assms(2)] count_inv_step [OF m(2,1) assms(2)] show ?thesis
    by (simp add: manager_inv_def)
qed

interpretation managed: machine_invariant "pool_step throws" any_action manager_inv
  by unfold_locales (rule manager_inv_step)

lemma new_manager_inv: "new_ThreadPool c m q ty st es = Some s \<Longrightarrow> manager_inv s"
  using new_live_inv [of c m q ty st es s]
  by (auto simp: new_ThreadPool_def manager_inv_def count_inv_def busy_workers_def Let_def split: if_splits)

text \<open>
  C34 in every reachable state after \<open>init\<close>, the counter the manager reads is the number of core
  threads minus the number of workers, core and dynamic, that are at a task; it never counts the
  dynamic threads that wait. Hence the manager of a pool with at most two core threads is never in
  \<open>killDynamicThread\<close>: the dynamic threads it adds are kept until the pool is closed.
\<close>

theorem vacant_counts_core_threads:
  assumes "new_ThreadPool c m q ty st es = Some s\<^sub>0"
    and "reach (pool_step throws) any_action s\<^sub>0 s" and "initFlag s = Once_Done"
  shows "vacantThreadsCount s = int (cores s) - int (busy_workers (workers s)) \<and>
         (cores s \<le> 2 \<longrightarrow> (\<forall>i. managerThread s \<noteq> M_Kill i \<and> managerThread s \<noteq> M_KillNotify i \<and> managerThread s \<noteq> M_KillJoin i))"
  using managed.reach_keeps [OF assms(2) new_manager_inv [OF assms(1)]] assms(3)
  unfolding manager_inv_def count_inv_def by simp

text \<open>An idle pool with one core thread: the manager adds dynamic threads although no task is queued.\<close>

definition flexible_pool :: ThreadPool where
  "flexible_pool = (small_pool DiscardAllTasks)\<lparr>Type := Flexible, MaxThreadCount := 3\<rparr>"

lemma flexible_pool_new: "new_ThreadPool 1 3 8 Flexible DiscardAllTasks (\<lambda>_. new_Executor) = Some flexible_pool"
  by (simp add: flexible_pool_def small_pool_def new_ThreadPool_def)

lemma flexible_run:
  "map_option (\<lambda>s. (initFlag s, vacantThreadsCount s, cores s, queueTask s, map w_pc (workers s)))
     (run_ops (pool_step (\<lambda>_. False)) (first_commit 1 @ replicate 7 (A_Worker 0) @ replicate 9 (A_Manager True)) flexible_pool) =
   Some (Once_Done, 1, 1, [], [W_Lock, W_Lock, W_Lock])"
  by code_simp

theorem vacant_counts_core_threads_witness:
  "\<exists>s. reach (pool_step (\<lambda>_. False)) any_action flexible_pool s \<and> length (workers s) = 3 \<and>
     vacantThreadsCount s = 1 - int (busy_workers (workers s)) \<and> (\<forall>i. managerThread s \<noteq> M_Kill i)"
proof -
  obtain s where r: "run_ops (pool_step (\<lambda>_. False)) (first_commit 1 @ replicate 7 (A_Worker 0) @ replicate 9 (A_Manager True))
      flexible_pool = Some s"
    and f: "initFlag s = Once_Done" "cores s = 1" "map w_pc (workers s) = [W_Lock, W_Lock, W_Lock]"
    using flexible_run by auto
  have a: "reach (pool_step (\<lambda>_. False)) any_action flexible_pool s"
    by (rule reach_run_ops [OF r]) (auto intro: reach_start simp: list_all_iff)
  have "length (workers s) = 3" using f(3) by (metis length_map length_Cons list.size(3) numeral_3_eq_3)
  with vacant_counts_core_threads [OF flexible_pool_new a f(1)] a f(2) show ?thesis by auto
qed

end
