(* ===== verification/Rpc_Dispatch.thy ===== *)
theory Rpc_Dispatch
  imports Deserialize_View Rpc_Message
begin

text \<open>
  The dispatch of remote calls on the server: \<open>Registry\<close> and \<open>SynchronousRegistry\<close> with the
  templates that unpack the arguments and pack the result, \<open>RouteService\<close>, \<open>ZlibService\<close>,
  \<open>MiddlewareChannel\<close>, and \<open>SubReactor::triggerTask\<close> up to the bytes it hands to the timer.
  The registered functions act on a state \<open>'w\<close> of the application; the compression of zlib and the
  bytes of the heap behind a block are parameters. The lemmas give the complete case analysis of a
  routed call and the invariant of the two dictionaries under \<open>Bind\<close>.
\<close>

section \<open>Faults\<close>

text \<open>
  What can leave a handler. Exceptions of the serializer, of an empty \<open>std::function\<close> and of zlib
  are caught by \<open>catch (...)\<close>; a read outside the stream, a loop that does not return, a null
  pointer and the last element of an empty vector are not exceptions.
\<close>

datatype rpc_fault = SerFault ser_error | BadFunctionCall | NullController | ZlibError | NoService

fun ser_exception :: "ser_error \<Rightarrow> bool" where
  "ser_exception (SerEx n) = True"
| "ser_exception LogicError = True"
| "ser_exception OutOfRange = False"
| "ser_exception NoReturn = False"

fun rpc_exception :: "rpc_fault \<Rightarrow> bool" where
  "rpc_exception (SerFault e) = ser_exception e"
| "rpc_exception BadFunctionCall = True"
| "rpc_exception NullController = False"
| "rpc_exception ZlibError = True"
| "rpc_exception NoService = False"

section \<open>Registered functions\<close>

text \<open>
  A registered callable: the decayed types of its parameters, whether it returns \<open>void\<close>, and its
  body, which returns a value or throws (\<open>Inl\<close>). The \<open>std::function\<close> that the dictionaries keep
  takes the serializer; it also changes the state of the application.
\<close>

record 'w rpc_method =
  m_params :: "cty list"
  m_void :: bool
  m_body :: "sval list \<Rightarrow> 'w \<Rightarrow> 'w \<times> (unit + sval)"

type_synonym 'w bound = "(BinarySerializer \<times> 'w, ser_error, unit) run"

fun tuple_elements :: "sval \<Rightarrow> sval list" where
  "tuple_elements (VTuple vs) = vs"
| "tuple_elements v = []"

definition on_serializer :: "'a ser_run \<Rightarrow> (BinarySerializer \<times> 'w, ser_error, 'a) run" where
  "on_serializer m = (\<lambda>(s, w). case m s of (s', r) \<Rightarrow> ((s', w), r))"

text \<open>\<open>serializer->clear(); serializer->input(header);\<close>\<close>

definition answer_header :: "RpcResponseHeader \<Rightarrow> unit ser_run" where
  "answer_header header s = input_val (rpc_header_val header) (ser_clear s)"

definition MUSE_REGISTRY_METHOD_CATCH :: "RpcResponseHeader \<Rightarrow> 'w bound" where
  "MUSE_REGISTRY_METHOD_CATCH header =
     on_serializer (answer_header (setReason MethodExecutionError header))"

text \<open>
  The part of \<open>callBind\<close> behind the parameters: the call, the header and the result inside one
  \<open>try\<close> block. The header is marked as successful before it and the result are written.
\<close>

definition call_method :: "'w rpc_method \<Rightarrow> sval list \<Rightarrow> 'w bound" where
  "call_method func tpl = (\<lambda>(s, w).
     case m_body func tpl w of
       (w, Inl _) \<Rightarrow> MUSE_REGISTRY_METHOD_CATCH new_RpcResponseHeader (s, w)
     | (w, Inr result) \<Rightarrow>
         let header = setOkState True new_RpcResponseHeader
         in case seq (answer_header header) (if m_void func then ret () else input_val result) s of
              (s, Inr _) \<Rightarrow> ((s, w), Inr ())
            | (s, Inl e) \<Rightarrow> if ser_exception e then MUSE_REGISTRY_METHOD_CATCH header (s, w)
                           else ((s, w), Inl e))"

text \<open>\<open>callBind\<close> with \<open>MUSE_REGISTRY_CHECK_PARAMETERS\<close>.\<close>

definition callBind :: "'w rpc_method \<Rightarrow> 'w bound" where
  "callBind func = (\<lambda>(s, w).
     case output_val std_ops (TTuple (m_params func)) s of
       (s, Inl (SerEx _)) \<Rightarrow>
         on_serializer (answer_header (setReason ParameterError new_RpcResponseHeader)) (s, w)
     | (s, Inl LogicError) \<Rightarrow>
         on_serializer (answer_header (setReason ServerInnerException new_RpcResponseHeader)) (s, w)
     | (s, Inl e) \<Rightarrow> ((s, w), Inl e)
     | (s, Inr tpl) \<Rightarrow> call_method func (tuple_elements tpl) (s, w))"

section \<open>The two dictionaries\<close>

text \<open>
  An entry is the bound function, or \<open>None\<close> for the empty \<open>std::function\<close> (the null pointer to a
  \<open>Controller\<close> in the synchronous registry) that \<open>operator[]\<close> inserts for a missing name.
\<close>

type_synonym 'w dictionary = "byte list \<rightharpoonup> 'w bound option"

record 'w server =
  dictionary :: "'w dictionary"
  concurrent_dictionary :: "'w dictionary"
  world :: 'w

definition new_server :: "'w \<Rightarrow> 'w server" where
  "new_server w = \<lparr>dictionary = Map.empty, concurrent_dictionary = Map.empty, world = w\<rparr>"

definition dict_entry :: "byte list \<Rightarrow> 'w dictionary \<Rightarrow> 'w dictionary \<times> 'w bound option" where
  "dict_entry name d = (case d name of Some b \<Rightarrow> (d, b) | None \<Rightarrow> (d(name \<mapsto> None), None))"

definition run_entry ::
  "rpc_fault \<Rightarrow> 'w bound option \<Rightarrow> BinarySerializer \<Rightarrow> 'w server \<Rightarrow>
   (BinarySerializer \<times> 'w server) \<times> (rpc_fault + unit)" where
  "run_entry missing b s srv =
     (case b of
        None \<Rightarrow> ((s, srv), Inl missing)
      | Some f \<Rightarrow> (case f (s, world srv) of
                    ((s, w), r) \<Rightarrow> ((s, srv\<lparr>world := w\<rparr>), map_sum SerFault id r)))"

definition Registry_check :: "byte list \<Rightarrow> 'w server \<Rightarrow> bool" where
  "Registry_check name srv \<longleftrightarrow> dictionary srv name \<noteq> None"

definition Registry_Bind :: "byte list \<Rightarrow> 'w rpc_method \<Rightarrow> 'w server \<Rightarrow> 'w server \<times> bool" where
  "Registry_Bind name func srv =
     (if dictionary srv name = None
      then (srv\<lparr>dictionary := (dictionary srv)(name \<mapsto> Some (callBind func))\<rparr>, True)
      else (srv, False))"

definition Registry_runEnsured ::
  "byte list \<Rightarrow> (BinarySerializer \<times> 'w server, rpc_fault, unit) run" where
  "Registry_runEnsured name = (\<lambda>(s, srv).
     case dict_entry name (dictionary srv) of
       (d, b) \<Rightarrow> run_entry BadFunctionCall b s (srv\<lparr>dictionary := d\<rparr>))"

definition Registry_runSafely ::
  "byte list \<Rightarrow> (BinarySerializer \<times> 'w server, rpc_fault, unit) run" where
  "Registry_runSafely name = (\<lambda>(s, srv).
     if Registry_check name srv then Registry_runEnsured name (s, srv) else ((s, srv), Inr ()))"

text \<open>The synchronous registry; one call at a time holds the mutex of its controller.\<close>

definition Synchronous_check :: "byte list \<Rightarrow> 'w server \<Rightarrow> bool" where
  "Synchronous_check name srv \<longleftrightarrow> concurrent_dictionary srv name \<noteq> None"

definition Synchronous_Bind :: "byte list \<Rightarrow> 'w rpc_method \<Rightarrow> 'w server \<Rightarrow> 'w server \<times> bool" where
  "Synchronous_Bind name func srv =
     (if concurrent_dictionary srv name = None
      then (srv\<lparr>concurrent_dictionary :=
              (concurrent_dictionary srv)(name \<mapsto> Some (callBind func))\<rparr>, True)
      else (srv, False))"

definition Synchronous_runEnsured ::
  "byte list \<Rightarrow> (BinarySerializer \<times> 'w server, rpc_fault, unit) run" where
  "Synchronous_runEnsured name = (\<lambda>(s, srv).
     case dict_entry name (concurrent_dictionary srv) of
       (d, b) \<Rightarrow> run_entry NullController b s (srv\<lparr>concurrent_dictionary := d\<rparr>))"

definition Synchronous_runSafely ::
  "byte list \<Rightarrow> (BinarySerializer \<times> 'w server, rpc_fault, unit) run" where
  "Synchronous_runSafely name = (\<lambda>(s, srv).
     case dict_entry name (concurrent_dictionary srv) of
       (d, b) \<Rightarrow> run_entry NullController b s (srv\<lparr>concurrent_dictionary := d\<rparr>))"

section \<open>Services of the channel\<close>

text \<open>
  \<open>middleware_service\<close>: \<open>In\<close> and \<open>Out\<close> take and return a block of bytes. A service is known by the
  address of its single instance, here a name.
\<close>

type_synonym 'w handler = "byte list \<Rightarrow> ('w server, rpc_fault, byte list) run"

record 'w middleware_service =
  service_id :: string
  service_In :: "'w handler"
  service_Out :: "'w handler"

text \<open>The \<open>try\<close> block of \<open>RouteService::In\<close>: the name, the two checks and the call.\<close>

definition route_call :: "(BinarySerializer \<times> 'w server, rpc_fault, unit) run" where
  "route_call = (\<lambda>(s, srv).
     case output_string s of
       (s, Inl e) \<Rightarrow> ((s, srv), Inl (SerFault e))
     | (s, Inr request_name) \<Rightarrow>
         let isExist = Registry_check request_name srv;
             isExistConcurrent = Synchronous_check request_name srv
         in if \<not> (isExist \<or> isExistConcurrent)
            then (case answer_header (setReason MethodNotExist (setOkState False new_RpcResponseHeader)) s of
                    (s, r) \<Rightarrow> ((s, srv), map_sum SerFault id r))
            else if isExist then Registry_runEnsured request_name (s, srv)
            else Synchronous_runEnsured request_name (s, srv))"

definition RouteService_In :: "ByteSequence \<Rightarrow> 'w handler" where
  "RouteService_In h data srv =
     (case ser_write data (new_serializer h) of
        (s, Inl e) \<Rightarrow> (srv, Inl (SerFault e))
      | (s, Inr _) \<Rightarrow>
          (case route_call (s, srv) of
             ((s, srv), Inr _) \<Rightarrow> (srv, Inr (getBinaryStream s))
           | ((s, srv), Inl e) \<Rightarrow>
               if rpc_exception e
               then (case answer_header (setReason MethodExecutionError
                         (setOkState False new_RpcResponseHeader)) (ser_clear s) of
                       (s, Inr _) \<Rightarrow> (srv, Inr (getBinaryStream s))
                     | (s, Inl e) \<Rightarrow> (srv, Inl (SerFault e)))
               else (srv, Inl e)))"

definition RouteService_Out :: "'w handler" where
  "RouteService_Out data = ret data"

definition RouteService :: "ByteSequence \<Rightarrow> 'w middleware_service" where
  "RouteService h = \<lparr>service_id = ''RouteService'', service_In = RouteService_In h,
     service_Out = RouteService_Out\<rparr>"

text \<open>
  zlib: the bound of the compressed size, \<open>compress\<close> into a buffer of the given size and
  \<open>uncompress\<close> into one, with \<open>None\<close> for every return value but \<open>Z_OK\<close>. \<open>behind\<close> gives the bytes
  of the memory behind a block, which \<open>In\<close> passes to \<open>uncompress\<close> as well.
\<close>

record zlib =
  compressBound :: "nat \<Rightarrow> nat"
  zcompress :: "nat \<Rightarrow> byte list \<Rightarrow> byte list option"
  uncompress :: "nat \<Rightarrow> byte list \<Rightarrow> byte list option"

definition ZlibService_In :: "ByteSequence \<Rightarrow> zlib \<Rightarrow> (byte list \<Rightarrow> byte list) \<Rightarrow> 'w handler" where
  "ZlibService_In h Z behind data =
     (let memory = data @ behind data;
          first = take 4 memory;
          originalSize = (word_at h (if h = BigEndian then rev first else first) :: u32)
      in case uncompress Z (unat originalSize) (take (length data) (drop 4 memory)) of
           None \<Rightarrow> throw ZlibError
         | Some buffer \<Rightarrow> ret buffer)"

definition ZlibService_Out :: "ByteSequence \<Rightarrow> zlib \<Rightarrow> 'w handler" where
  "ZlibService_Out h Z data =
     (let desSize = compressBound Z (length data);
          save_size = (word_of_nat (length data) :: u32);
          size_bytes = (if h = BigEndian then rev (mem_of h save_size) else mem_of h save_size)
      in case zcompress Z desSize data of
           None \<Rightarrow> throw ZlibError
         | Some dest \<Rightarrow> if desSize < length dest then throw ZlibError else ret (size_bytes @ dest))"

definition ZlibService :: "ByteSequence \<Rightarrow> zlib \<Rightarrow> (byte list \<Rightarrow> byte list) \<Rightarrow> 'w middleware_service" where
  "ZlibService h Z behind = \<lparr>service_id = ''ZlibService'', service_In = ZlibService_In h Z behind,
     service_Out = ZlibService_Out h Z\<rparr>"

section \<open>The channel\<close>

type_synonym 'w services = "'w middleware_service list"

definition Register :: "'w middleware_service \<Rightarrow> 'w services \<Rightarrow> 'w services" where
  "Register m services =
     (if service_id m \<in> set (map service_id services) then services else services @ [m])"

primrec through :: "'w handler list \<Rightarrow> 'w handler" where
  "through [] temp = ret temp"
| "through (f # fs) temp = andthen (f temp) (through fs)"

definition MiddlewareChannel_In :: "'w services \<Rightarrow> 'w handler" where
  "MiddlewareChannel_In services = through (map service_In services)"

definition MiddlewareChannel_Out :: "'w services \<Rightarrow> 'w handler" where
  "MiddlewareChannel_Out services = through (map service_Out (rev services))"

text \<open>The client leaves out the last service, the routing.\<close>

definition ClientIn :: "'w services \<Rightarrow> 'w handler" where
  "ClientIn services =
     (if 1 < length services
      then through (map (\<lambda>i. service_In (services ! i)) [0..<length services - 1]) else ret)"

definition ClientOut :: "'w services \<Rightarrow> 'w handler" where
  "ClientOut services =
     (if 1 < length services
      then through (map (\<lambda>i. service_Out (services ! i)) (rev [0..<length services - 1])) else ret)"

text \<open>\<open>Disposition::Server_Configure\<close> and \<open>Client_Configure\<close>: first the compression, then the routing.\<close>

definition Configure ::
  "ByteSequence \<Rightarrow> zlib \<Rightarrow> (byte list \<Rightarrow> byte list) \<Rightarrow> 'w services \<Rightarrow> 'w services" where
  "Configure h Z behind services = Register (RouteService h) (Register (ZlibService h Z behind) services)"

section \<open>The task of the thread pool\<close>

text \<open>\<open>RpcResponseHeader::prefix_name\<close>, the text @context/.\<close>

definition prefix_name :: "byte list" where
  "prefix_name = [64, 99, 111, 110, 116, 101, 120, 116, 47]"

text \<open>\<open>request_rpc_name.find(prefix_name) == 0\<close>\<close>

definition context_name :: "byte list \<Rightarrow> bool" where
  "context_name name \<longleftrightarrow> take (length prefix_name) name = prefix_name"

text \<open>
  The address of the client is appended to the arguments. \<open>pos\<close> is the read position of the view
  behind the name; when nothing follows the name the address is a tuple of its own, otherwise two
  elements are appended and the count of the tuple is raised by two in place.
\<close>

definition raise_tuple_size :: "ByteSequence \<Rightarrow> nat \<Rightarrow> byte list \<Rightarrow> ser_error + byte list" where
  "raise_tuple_size sq char_pos dt =
     (if length dt < char_pos + 2 then Inl OutOfRange
      else let bytes = take 2 (drop char_pos dt);
               tpl_size = (word_at sq (if sq = BigEndian then rev bytes else bytes) :: u16) + 2;
               bytes = (if sq = BigEndian then rev (mem_of sq tpl_size) else mem_of sq tpl_size)
           in Inr (take char_pos dt @ bytes @ drop (char_pos + 2) dt))"

definition add_context ::
  "ByteSequence \<Rightarrow> u32 \<Rightarrow> u16 \<Rightarrow> nat \<Rightarrow> byte list \<Rightarrow> ser_error + byte list" where
  "add_context sq ip port pos pure_data =
     (let no_other_args = (length pure_data = pos);
          args = [VUInt32 ip, VUInt16 port]
      in case (if no_other_args then input_val (VTuple args) else inputArgs (map input_val args))
                (new_serializer sq) of
           (s, Inl e) \<Rightarrow> Inl e
         | (s, Inr _) \<Rightarrow>
             if no_other_args then Inr (pure_data @ getBinaryStream s)
             else raise_tuple_size sq (pos + 1) (pure_data @ getBinaryStream s))"

text \<open>
  \<open>triggerTask\<close> up to the bytes that are sent. A fault here is an exception that leaves the task:
  no answer is sent.
\<close>

definition triggerTask ::
  "ByteSequence \<Rightarrow> (byte list \<Rightarrow> byte list) \<Rightarrow> 'w services \<Rightarrow> u32 \<Rightarrow> u16 \<Rightarrow> 'w handler" where
  "triggerTask sq behind services ip port full_data =
     andthen (ClientIn services full_data) (\<lambda>pure_data.
       case view_output_string (make_view sq (pure_data @ behind pure_data) (length pure_data)) of
         (view, Inl e) \<Rightarrow> throw (SerFault e)
       | (view, Inr request_rpc_name) \<Rightarrow>
           if services = [] then throw NoService
           else andthen
             (if context_name request_rpc_name
              then case add_context sq ip port (view_getReadPosition view) pure_data of
                     Inl e \<Rightarrow> throw (SerFault e)
                   | Inr dt \<Rightarrow> service_In (last services) dt
              else service_In (last services) pure_data)
             (MiddlewareChannel_Out services))"

section \<open>The meaning of a call\<close>

text \<open>A result without and with a value, as the client reads it.\<close>

definition reply :: "bool \<Rightarrow> RpcFailureReason \<Rightarrow> byte list" where
  "reply good why = enc (rpc_header_val \<lparr>rh_ok = good, rh_reason = reason_code why\<rparr>)"

text \<open>
  The call of a function as it is meant: the body is run once; when it throws the answer says so,
  otherwise the answer is the header of success and the value.
\<close>

definition invoke_spec :: "'w rpc_method \<Rightarrow> sval list \<Rightarrow> 'w \<Rightarrow> 'w \<times> byte list" where
  "invoke_spec func args w =
     (case m_body func args w of
        (w', Inl _) \<Rightarrow> (w', reply False MethodExecutionError)
      | (w', Inr v) \<Rightarrow> (w', reply True RpcSuccess @ (if m_void func then [] else enc v)))"

text \<open>With what reading the arguments gave: an error of the arguments is answered and nothing is run.\<close>

definition perform_spec ::
  "'w rpc_method \<Rightarrow> ser_error + sval \<Rightarrow> 'w \<Rightarrow> 'w \<times> (ser_error + byte list)" where
  "perform_spec func parsed w =
     (case parsed of
        Inl (SerEx _) \<Rightarrow> (w, Inr (reply False ParameterError))
      | Inl LogicError \<Rightarrow> (w, Inr (reply False ServerInnerException))
      | Inl e \<Rightarrow> (w, Inl e)
      | Inr tpl \<Rightarrow> map_prod id Inr (invoke_spec func (tuple_elements tpl) w))"

text \<open>
  The values that a function returns can be written on a host of the given byte order: the function
  returns none, or the host is little-endian, or the type of the result holds no container whose count
  is taken from a \<open>size_t\<close>.
\<close>

definition answerable :: "ByteSequence \<Rightarrow> 'w rpc_method \<Rightarrow> bool" where
  "answerable h func \<longleftrightarrow> m_void func \<or>
     (\<exists>t. (h = LittleEndian \<or> portable t) \<and>
          (\<forall>args w w' v. m_body func args w = (w', Inr v) \<longrightarrow> has_type std_ops t v))"

lemma header_typed: "has_type K rpc_header_type (rpc_header_val hdr)" "portable rpc_header_type"
  by (simp_all add: rpc_header_type_def rpc_header_val_def)

lemma writable_clear: "byteSequence s = h \<Longrightarrow> writable h (ser_clear s)"
  by (simp add: writable_def ser_clear_def limit_defs MUSE_DEFAULT_CAPACITY_def)

lemma ser_clear_simps [simp]:
  "byteStream (ser_clear s) = []" "byteSequence (ser_clear s) = byteSequence s"
  by (simp_all add: ser_clear_def)

lemma answer_header_run:
  obtains c where "answer_header hdr s = (appended (ser_clear s) (enc (rpc_header_val hdr)) c, Inr ())"
    and "writable (byteSequence s) (appended (ser_clear s) (enc (rpc_header_val hdr)) c)"
  unfolding answer_header_def
  using input_val_appends [OF header_typed(1)] header_typed(2) writable_clear [OF refl]
  by (metis appendsD)

lemma call_method_spec:
  assumes "answerable h func" and "byteSequence s = h"
  shows "\<exists>s'. call_method func args (s, w) = ((s', fst (invoke_spec func args w)), Inr ()) \<and>
              byteStream s' = snd (invoke_spec func args w)"
proof (cases "m_body func args w")
  case (Pair w' r)
  show ?thesis
  proof (cases r)
    case (Inl e)
    obtain c where "answer_header (setReason MethodExecutionError new_RpcResponseHeader) s =
        (appended (ser_clear s) (enc (rpc_header_val
           (setReason MethodExecutionError new_RpcResponseHeader))) c, Inr ())"
      by (rule answer_header_run)
    with Pair Inl show ?thesis
      by (simp add: call_method_def invoke_spec_def MUSE_REGISTRY_METHOD_CATCH_def on_serializer_def
          reply_def setReason_def new_RpcResponseHeader_def)
  next
    case (Inr v)
    let ?hdr = "setOkState True new_RpcResponseHeader"
    obtain c where c: "answer_header ?hdr s = (appended (ser_clear s) (enc (rpc_header_val ?hdr)) c, Inr ())"
      "writable h (appended (ser_clear s) (enc (rpc_header_val ?hdr)) c)"
      using assms(2) by (metis answer_header_run)
    have "\<exists>s'. seq (answer_header ?hdr) (if m_void func then ret () else input_val v) s = (s', Inr ()) \<and>
        byteStream s' = enc (rpc_header_val ?hdr) @ (if m_void func then [] else enc v)"
    proof (cases "m_void func")
      case True
      with c show ?thesis by (simp add: run_simps)
    next
      case False
      with assms(1) Pair Inr obtain t where "h = LittleEndian \<or> portable t" "has_type std_ops t v"
        unfolding answerable_def by blast
      from appendsD [OF input_val_appends [OF this(2,1)] c(2)] obtain d where
        "input_val v (appended (ser_clear s) (enc (rpc_header_val ?hdr)) c) =
         (appended (appended (ser_clear s) (enc (rpc_header_val ?hdr)) c) (enc v) d, Inr ())" by blast
      with c False show ?thesis by (simp add: run_simps)
    qed
    with Pair Inr show ?thesis
      by (auto simp: call_method_def invoke_spec_def reply_def setOkState_def new_RpcResponseHeader_def Let_def)
  qed
qed

lemma only_reads_keeps:
  assumes "only_reads m" and "in_stream s" and "m s = (s', r)"
  shows "in_stream s'" and "byteSequence s' = byteSequence s"
proof -
  have e: "s' = s\<lparr>readPosition := readPosition s'\<rparr>" and i: "in_stream s'"
    using only_readsD [OF assms] by auto
  from e have "byteSequence s' = byteSequence (s\<lparr>readPosition := readPosition s'\<rparr>)" by (rule arg_cong)
  then show "byteSequence s' = byteSequence s" by simp
  show "in_stream s'" by (rule i)
qed

lemma callBind_spec:
  assumes "answerable (byteSequence s) func" and "in_stream s"
    and "perform_spec func (snd (output_val std_ops (TTuple (m_params func)) s)) w = (w', r)"
  shows "\<exists>s'. callBind func (s, w) = ((s', w'), map_sum id (\<lambda>_. ()) r) \<and>
              (\<forall>bs. r = Inr bs \<longrightarrow> byteStream s' = bs)"
proof -
  obtain s1 p where o: "output_val std_ops (TTuple (m_params func)) s = (s1, p)" by fastforce
  then have seq: "byteSequence s1 = byteSequence s" using assms(2) only_reads_keeps(2) [OF output_val_only_reads] by blast
  show ?thesis
  proof (cases p)
    case (Inl e)
    show ?thesis
    proof (cases "ser_exception e")
      case True
      then obtain why where why: "perform_spec func p w = (w, Inr (reply False why))"
        "callBind func (s, w) = on_serializer (answer_header (setReason why new_RpcResponseHeader)) (s1, w)"
        using o Inl by (cases e) (auto simp: perform_spec_def callBind_def)
      obtain c where "answer_header (setReason why new_RpcResponseHeader) s1 =
          (appended (ser_clear s1) (enc (rpc_header_val (setReason why new_RpcResponseHeader))) c, Inr ())"
        by (rule answer_header_run)
      with why assms(3) o show ?thesis
        by (auto simp: on_serializer_def reply_def setReason_def new_RpcResponseHeader_def)
    next
      case False
      with o Inl assms(3) show ?thesis by (cases e) (auto simp: perform_spec_def callBind_def)
    qed
  next
    case (Inr tpl)
    with call_method_spec [of "byteSequence s" func s1 "tuple_elements tpl" w] assms o seq show ?thesis
      by (cases "invoke_spec func (tuple_elements tpl) w") (auto simp: perform_spec_def callBind_def)
  qed
qed

section \<open>The registries\<close>

text \<open>
  The contract of the two registries: \<open>Bind\<close> adds a name once, \<open>check\<close> finds the names, and
  \<open>runEnsured\<close> of a bound name runs what was bound, on the serializer and the application.
\<close>

locale method_registry =
  fixes entries :: "'w server \<Rightarrow> 'w dictionary"
    and Bind :: "byte list \<Rightarrow> 'w rpc_method \<Rightarrow> 'w server \<Rightarrow> 'w server \<times> bool"
    and check :: "byte list \<Rightarrow> 'w server \<Rightarrow> bool"
    and runEnsured :: "byte list \<Rightarrow> (BinarySerializer \<times> 'w server, rpc_fault, unit) run"
  assumes Bind_entries: "Bind name func srv = (srv', added) \<Longrightarrow>
      (added \<longleftrightarrow> entries srv name = None) \<and> world srv' = world srv \<and>
      entries srv' = (if added then (entries srv)(name \<mapsto> Some (callBind func)) else entries srv)"
    and check_entries: "check name srv \<longleftrightarrow> entries srv name \<noteq> None"
    and runEnsured_bound: "entries srv name = Some (Some g) \<Longrightarrow>
      runEnsured name (s, srv) =
        (case g (s, world srv) of ((s', w), r) \<Rightarrow> ((s', srv\<lparr>world := w\<rparr>), map_sum SerFault id r))"
begin

lemma first_binding_stays:
  "Bind name func srv = (srv', added) \<Longrightarrow> entries srv n = Some e \<Longrightarrow> entries srv' n = Some e"
  using Bind_entries [of name func srv srv' added] by auto

lemma run_registered:
  assumes "entries srv name = Some (Some (callBind func))" and "answerable (byteSequence s) func"
    and "in_stream s"
    and "perform_spec func (snd (output_val std_ops (TTuple (m_params func)) s)) (world srv) = (w', r)"
  shows "\<exists>s'. runEnsured name (s, srv) =
           ((s', srv\<lparr>world := w'\<rparr>), map_sum SerFault (\<lambda>_. ()) r) \<and>
           (\<forall>bs. r = Inr bs \<longrightarrow> byteStream s' = bs)"
  using callBind_spec [OF assms(2,3,4)] runEnsured_bound [OF assms(1), of s]
  by (cases r) auto

end

interpretation async: method_registry dictionary Registry_Bind Registry_check Registry_runEnsured
  by unfold_locales
     (auto simp: Registry_Bind_def Registry_check_def Registry_runEnsured_def dict_entry_def
       run_entry_def split: if_splits)

interpretation sync: method_registry concurrent_dictionary Synchronous_Bind Synchronous_check
  Synchronous_runEnsured
  by unfold_locales
     (auto simp: Synchronous_Bind_def Synchronous_check_def Synchronous_runEnsured_def dict_entry_def
       run_entry_def split: if_splits)

text \<open>
  The functions that a server offers: what the asynchronous registry has under the name and,
  when it has nothing, what the synchronous one has. All of them are \<open>answerable\<close>, so a big-endian
  server is one whose functions return no containers.
\<close>

definition offers ::
  "ByteSequence \<Rightarrow> 'w rpc_method option \<Rightarrow> 'w bound option option \<Rightarrow> 'w bound option option \<Rightarrow> bool" where
  "offers h meth a b \<longleftrightarrow>
     (case meth of
        None \<Rightarrow> a = None \<and> b = None
      | Some func \<Rightarrow> answerable h func \<and>
          (a = Some (Some (callBind func)) \<or> a = None \<and> b = Some (Some (callBind func))))"

definition serves :: "ByteSequence \<Rightarrow> (byte list \<rightharpoonup> 'w rpc_method) \<Rightarrow> 'w server \<Rightarrow> bool" where
  "serves h methods srv \<longleftrightarrow>
     (\<forall>name. offers h (methods name) (dictionary srv name) (concurrent_dictionary srv name))"

lemma offers_bound:
  "answerable h func \<Longrightarrow> offers h (Some func) (Some (Some (callBind func))) b"
  "answerable h func \<Longrightarrow> offers h (Some func) None (Some (Some (callBind func)))"
  "offers h meth (Some a) b \<Longrightarrow> offers h meth (Some a) b'"
  by (auto simp: offers_def split: option.splits)

lemma serves_cases:
  assumes "serves h methods srv"
  obtains (Missing) "methods name = None" "\<not> Registry_check name srv" "\<not> Synchronous_check name srv"
  | (Async) func where "methods name = Some func" "answerable h func" "Registry_check name srv"
      "dictionary srv name = Some (Some (callBind func))"
  | (Sync) func where "methods name = Some func" "answerable h func" "\<not> Registry_check name srv"
      "Synchronous_check name srv" "concurrent_dictionary srv name = Some (Some (callBind func))"
proof -
  have "offers h (methods name) (dictionary srv name) (concurrent_dictionary srv name)"
    using assms by (simp add: serves_def)
  with that show thesis unfolding offers_def Registry_check_def Synchronous_check_def
    by (force split: option.splits)
qed

lemma serves_world [simp]: "serves h methods (srv\<lparr>world := w\<rparr>) = serves h methods srv"
  by (simp add: serves_def)

section \<open>Routing\<close>

text \<open>The routed call as it is meant, for every block of bytes.\<close>

definition route_spec ::
  "ByteSequence \<Rightarrow> (byte list \<rightharpoonup> 'w rpc_method) \<Rightarrow> byte list \<Rightarrow> 'w \<Rightarrow> 'w \<times> (ser_error + byte list)" where
  "route_spec h methods data w =
     (case view_output_string (make_view h data (length data)) of
        (v, Inl e) \<Rightarrow> (w, if ser_exception e then Inr (reply False MethodExecutionError) else Inl e)
      | (v, Inr name) \<Rightarrow>
          (case methods name of
             None \<Rightarrow> (w, Inr (reply False MethodNotExist))
           | Some func \<Rightarrow>
               perform_spec func (snd (view_output_val std_ops (TTuple (m_params func)) v)) w))"

lemma new_serializer_simps [simp]:
  "byteStream (new_serializer h) = []" "readPosition (new_serializer h) = 0"
  "byteSequence (new_serializer h) = h"
  by (simp_all add: new_serializer_def getByteSequence_host)

lemma new_serializer_writable: "writable h (new_serializer h)"
  by (simp add: writable_def new_serializer_def getByteSequence_host MUSE_DEFAULT_CAPACITY_def)

lemma write_new:
  obtains c where "ser_write data (new_serializer h) = (appended (new_serializer h) data c, Inr ())"
  using appendsD [OF appends_ser_write new_serializer_writable] by blast

lemma view_of_written:
  "view_of (appended (new_serializer h) data c) = make_view h data (length data)"
  by (simp add: view_of_def make_view_def new_serializer_def getByteSequence_host)

text \<open>A call of a bound function inside the \<open>try\<close> block of \<open>RouteService::In\<close>.\<close>

lemma route_call_bound:
  assumes "serves (byteSequence s) methods srv" and "methods name = Some func"
    and "in_stream s" and "output_string s = (s1, Inr name)"
    and "perform_spec func (snd (output_val std_ops (TTuple (m_params func)) s1)) (world srv) = (w', r)"
  shows "\<exists>s'. route_call (s, srv) = ((s', srv\<lparr>world := w'\<rparr>), map_sum SerFault (\<lambda>_. ()) r) \<and>
              (\<forall>bs. r = Inr bs \<longrightarrow> byteStream s' = bs)"
proof -
  have s1: "in_stream s1" "byteSequence s1 = byteSequence s"
    using only_reads_keeps [OF only_reads_payloads(1) assms(3,4)] by auto
  from assms(1) show ?thesis
  proof (cases rule: serves_cases [where name = name])
    case (Async g)
    with async.run_registered [of srv name func s1 w' r] assms(2,4,5) s1 show ?thesis
      by (simp add: route_call_def)
  next
    case (Sync g)
    with sync.run_registered [of srv name func s1 w' r] assms(2,4,5) s1 show ?thesis
      by (simp add: route_call_def)
  qed (use assms(2) in simp)
qed

lemma route_call_missing:
  assumes "serves (byteSequence s) methods srv" and "methods name = None"
    and "output_string s = (s1, Inr name)"
  shows "\<exists>s'. route_call (s, srv) = ((s', srv), Inr ()) \<and> byteStream s' = reply False MethodNotExist"
proof -
  let ?hdr = "setReason MethodNotExist (setOkState False new_RpcResponseHeader)"
  have "\<not> Registry_check name srv" "\<not> Synchronous_check name srv"
    using serves_cases [OF assms(1), of name] assms(2) by (metis option.distinct(1))+
  moreover obtain c where "answer_header ?hdr s1 =
      (appended (ser_clear s1) (enc (rpc_header_val ?hdr)) c, Inr ())" by (rule answer_header_run)
  ultimately show ?thesis using assms(3)
    by (simp add: route_call_def reply_def setReason_def setOkState_def new_RpcResponseHeader_def)
qed

lemma routed:
  assumes "serves h methods srv"
  shows "RouteService_In h data srv =
     (case route_spec h methods data (world srv) of
        (w', r) \<Rightarrow> (srv\<lparr>world := w'\<rparr>, map_sum SerFault id r))"
proof -
  obtain c where w: "ser_write data (new_serializer h) = (appended (new_serializer h) data c, Inr ())"
    by (rule write_new)
  let ?s = "appended (new_serializer h) data c"
  obtain s1 r1 where o: "output_string ?s = (s1, r1)" by fastforce
  have s: "byteSequence ?s = h" "in_stream ?s"
    by (simp_all add: new_serializer_def getByteSequence_host in_stream_def)
  have v: "view_output_string (make_view h data (length data)) = (view_of s1, r1)"
    using mirrorsD [OF mirrors_payloads(1), of ?s] o by (simp add: view_of_written)
  show ?thesis
  proof (cases r1)
    case (Inl e)
    let ?hdr = "setReason MethodExecutionError (setOkState False new_RpcResponseHeader)"
    obtain d where "answer_header ?hdr (ser_clear s1) =
        (appended (ser_clear (ser_clear s1)) (enc (rpc_header_val ?hdr)) d, Inr ())"
      by (rule answer_header_run)
    with Inl w o v show ?thesis
      by (simp add: RouteService_In_def route_call_def route_spec_def getBinaryStream_def
          reply_def setReason_def setOkState_def new_RpcResponseHeader_def)
  next
    case name: (Inr name)
    show ?thesis
    proof (cases "methods name")
      case None
      with route_call_missing [of ?s methods srv name s1] assms s o name obtain s' where
        "route_call (?s, srv) = ((s', srv), Inr ())" "byteStream s' = reply False MethodNotExist"
        by auto
      with w v name None show ?thesis
        by (simp add: RouteService_In_def route_spec_def getBinaryStream_def)
    next
      case (Some func)
      obtain w' r where p: "perform_spec func (snd (output_val std_ops (TTuple (m_params func)) s1))
          (world srv) = (w', r)" by fastforce
      with route_call_bound [of ?s methods srv name func s1 w' r] assms s o name Some obtain s' where
        "route_call (?s, srv) = ((s', srv\<lparr>world := w'\<rparr>), map_sum SerFault (\<lambda>_. ()) r)"
        "\<forall>bs. r = Inr bs \<longrightarrow> byteStream s' = bs" by auto
      moreover have "snd (view_output_val std_ops (TTuple (m_params func)) (view_of s1)) =
          snd (output_val std_ops (TTuple (m_params func)) s1)"
        using mirrorsD [OF mirrors_output_val] by (metis snd_map_prod id_apply)
      moreover have "\<And>e. r = Inl e \<Longrightarrow> \<not> ser_exception e"
        using p by (auto simp: perform_spec_def map_prod_def split: sum.splits ser_error.splits prod.splits)
      ultimately show ?thesis using w v name Some p
        by (cases r) (auto simp: RouteService_In_def route_spec_def getBinaryStream_def
            simp del: view_output_val.simps output_val.simps)
    qed
  qed
qed

section \<open>The name in front of the arguments\<close>

lemma view_output_name:
  assumes "length name \<le> MUSE_MAX_STRING_LENGTH"
  shows "\<exists>v. view_output_string (make_view h (enc (VString name) @ rest) (length (enc (VString name)) + k)) =
      (v, Inr name) \<and> view_getReadPosition v = length (enc (VString name))"
proof -
  let ?v = "make_view h (enc (VString name) @ rest) (length (enc (VString name)) + k)"
  let ?n = "length name"
  have len: "length (le4 ?n) = 4" by (simp add: le4_def)
  have w: "word_at h (if h = BigEndian then rev (le4 ?n) else le4 ?n) = (word_of_nat ?n :: u32)"
    using word_at_mem_of [of LittleEndian "word_of_nat ?n :: u32"] assms
    by (cases h) (simp_all add: le4_word limit_defs word_at_rev)
  have "view_load_length 0 MUSE_MAX_STRING_LENGTH IllegalStringLength (?v\<lparr>viewPosition := 1\<rparr>) =
      (?v\<lparr>viewPosition := 1\<rparr>, Inr ?n)"
    using assms w
    by (simp add: view_load_length_def view_load_word_def view_bytes_at_def make_view_def Let_def len
        run_simps getByteSequence_host unat_count limit_defs)
  moreover have "view_load_payload 0 ?n (?v\<lparr>viewPosition := 1\<rparr>) = (?v\<lparr>viewPosition := 5 + ?n\<rparr>, Inr name)"
    by (simp add: view_load_payload_def view_bytes_at_def view_move_to_def make_view_def Let_def len
        run_simps)
  ultimately have "view_output_string ?v = (?v\<lparr>viewPosition := 5 + ?n\<rparr>, Inr name)"
    by (simp add: view_output_string_def MUSE_VIEW_PREVENT_BOUNDARY_def view_expect_type_def
        view_byte_at_def view_move_to_def Let_def run_simps make_view_def)
  then show ?thesis by (simp add: view_getReadPosition_def len)
qed

text \<open>A well-typed call, with anything behind it, is the call of its arguments.\<close>

lemma route_spec_call:
  assumes "length name \<le> MUSE_MAX_STRING_LENGTH" and "methods name = Some func"
    and "has_type std_ops (TTuple (m_params func)) (VTuple args)"
  shows "route_spec h methods (enc (VString name) @ enc (VTuple args) @ rest) w =
     map_prod id Inr (invoke_spec func args w)"
proof -
  let ?data = "enc (VString name) @ enc (VTuple args) @ rest"
  have "view_remaining (make_view h ?data (length ?data)) = Some ?data"
    by (simp add: view_remaining_def make_view_def)
  from view_reader.out_value [of TString "VString name", OF _ this] assms(1) obtain v where
    v: "view_output_val std_ops TString (make_view h ?data (length ?data)) = (v, Inr (VString name))"
      "view_remaining v = Some (enc (VTuple args) @ rest)"
    by auto
  then have "view_output_string (make_view h ?data (length ?data)) = (v, Inr name)"
    by (simp add: fmap_run_def andthen_def ret_def del: enc.simps split: prod.splits sum.splits)
  moreover obtain v' where
    "view_output_val std_ops (TTuple (m_params func)) v = (v', Inr (VTuple args))"
    using view_reader.out_value [OF assms(3) v(2)] by blast
  ultimately show ?thesis using assms(2)
    by (simp add: route_spec_def perform_spec_def del: view_output_val.simps enc.simps)
qed

text \<open>A server with one function, which counts its calls and returns its argument plus one.\<close>

definition example_method :: "nat rpc_method" where
  "example_method = \<lparr>m_params = [TInt32], m_void = False,
     m_body = (\<lambda>args w. case args of [VInt32 x] \<Rightarrow> (w + 1, Inr (VInt32 (x + 1))) | _ \<Rightarrow> (w, Inl ()))\<rparr>"

definition example_server :: "nat server" where
  "example_server = fst (Registry_Bind [110] example_method (new_server 0))"

lemma example_answerable: "answerable h example_method"
proof -
  have "has_type std_ops TInt32 v" if "m_body example_method args w = (w', Inr v)" for args w w' v
    using that by (auto simp: example_method_def split: list.splits sval.splits)
  then show ?thesis unfolding answerable_def by (metis portable.simps(5))
qed

lemma example_serves: "serves h [[110] \<mapsto> example_method] example_server"
  using example_answerable
  by (simp add: serves_def example_server_def Registry_Bind_def new_server_def offers_bound)
     (simp add: offers_def)

text \<open>
  C16 Routing. On a server whose registries offer the given functions, \<open>RouteService::In\<close> does for
  every block of bytes what the calls mean: the function that the name selects is run once with
  the arguments that follow and its result is answered; an unknown name, arguments of the wrong
  shape and an exception of the function are answered by their reasons, the first two without any
  effect on the application. Only a read outside the block is not answered.
\<close>

theorem route_refines_methods:
  assumes "serves h methods srv"
  shows "RouteService_In h data srv =
     (case route_spec h methods data (world srv) of
        (w', r) \<Rightarrow> (srv\<lparr>world := w'\<rparr>, map_sum SerFault id r))"
  by (rule routed [OF assms])

theorem route_refines_methods_witness:
  "RouteService_In LittleEndian (enc (VString [110]) @ enc (VTuple [VInt32 5])) example_server =
     (example_server\<lparr>world := 1\<rparr>, Inr (reply True RpcSuccess @ enc (VInt32 6)))"
proof -
  have "route_spec LittleEndian [[110] \<mapsto> example_method]
      (enc (VString [110]) @ enc (VTuple [VInt32 5]) @ []) (world example_server) =
      (1, Inr (reply True RpcSuccess @ enc (VInt32 6)))"
    by (subst route_spec_call [where func = example_method])
       (simp_all add: limit_defs example_method_def example_server_def Registry_Bind_def new_server_def
         invoke_spec_def)
  then show ?thesis
    using route_refines_methods [OF example_serves, of LittleEndian "enc (VString [110]) @ enc (VTuple [VInt32 5])"]
    by (simp del: enc.simps)
qed

text \<open>
  C24 Registration. \<open>Bind\<close> of either registry keeps a server in order, and no registry loses or
  replaces an entry. The asynchronous registry accepts a function unless it has the name already, and
  the function is then offered; it takes over a name that only the synchronous registry had. The
  synchronous registry accepts a function unless it has the name itself; when the asynchronous registry
  has the name, the function is accepted but not offered.
\<close>

theorem bind_offers:
  assumes "serves h methods srv" and "answerable h func"
  shows "(case Registry_Bind name func srv of (srv', added) \<Rightarrow>
           (added \<longleftrightarrow> \<not> Registry_check name srv) \<and>
           dictionary srv \<subseteq>\<^sub>m dictionary srv' \<and> concurrent_dictionary srv' = concurrent_dictionary srv \<and>
           serves h (if added then methods(name \<mapsto> func) else methods) srv') \<and>
         (case Synchronous_Bind name func srv of (srv', added) \<Rightarrow>
           (added \<longleftrightarrow> \<not> Synchronous_check name srv) \<and>
           concurrent_dictionary srv \<subseteq>\<^sub>m concurrent_dictionary srv' \<and> dictionary srv' = dictionary srv \<and>
           serves h (if added \<and> \<not> Registry_check name srv then methods(name \<mapsto> func) else methods) srv')"
proof (rule conjI)
  show "case Registry_Bind name func srv of (srv', added) \<Rightarrow>
      (added \<longleftrightarrow> \<not> Registry_check name srv) \<and>
      dictionary srv \<subseteq>\<^sub>m dictionary srv' \<and> concurrent_dictionary srv' = concurrent_dictionary srv \<and>
      serves h (if added then methods(name \<mapsto> func) else methods) srv'"
    using assms by (auto simp: serves_def Registry_Bind_def Registry_check_def offers_bound map_le_def)
  have "offers h (methods name) (dictionary srv name) c" if "dictionary srv name \<noteq> None" for c
    using that assms(1) offers_bound(3) unfolding serves_def by (metis not_None_eq)
  with assms show "case Synchronous_Bind name func srv of (srv', added) \<Rightarrow>
      (added \<longleftrightarrow> \<not> Synchronous_check name srv) \<and>
      concurrent_dictionary srv \<subseteq>\<^sub>m concurrent_dictionary srv' \<and> dictionary srv' = dictionary srv \<and>
      serves h (if added \<and> \<not> Registry_check name srv then methods(name \<mapsto> func) else methods) srv'"
    by (auto simp: serves_def Synchronous_Bind_def Synchronous_check_def Registry_check_def offers_bound map_le_def)
qed

theorem bind_offers_witness:
  "Registry_Bind [110] example_method (new_server 0) = (example_server, True) \<and>
   serves LittleEndian [[110] \<mapsto> example_method] example_server"
proof -
  have "serves LittleEndian Map.empty (new_server (0 :: nat))"
    by (simp add: serves_def new_server_def offers_def)
  moreover have b: "Registry_Bind [110] example_method (new_server 0) = (example_server, True)"
    by (simp add: example_server_def Registry_Bind_def new_server_def)
  ultimately show ?thesis
    using bind_offers [OF _ example_answerable, of LittleEndian Map.empty "new_server 0" "[110]"] by simp
qed

section \<open>Lossless services\<close>

text \<open>
  What zlib documents: a buffer of \<open>compressBound\<close> bytes suffices, and \<open>uncompress\<close> into a buffer of
  the original size returns the data, also when more bytes follow the compressed stream.
\<close>

definition zlib_documented :: "zlib \<Rightarrow> bool" where
  "zlib_documented Z \<longleftrightarrow> (\<forall>d. length d < 2 ^ 32 \<longrightarrow>
     (\<exists>c. zcompress Z (compressBound Z (length d)) d = Some c \<and>
          length c \<le> compressBound Z (length d) \<and> (\<forall>junk. uncompress Z (length d) (c @ junk) = Some d)))"

lemma size_prefix:
  "(if h = BigEndian then rev (mem_of h w) else mem_of h w) = mem_of LittleEndian w"
  "8 dvd LENGTH('a::len) \<Longrightarrow>
   word_at h (if h = BigEndian then rev (mem_of LittleEndian w) else mem_of LittleEndian w) = (w :: 'a word)"
  by (rule little_endian_mem) (cases h; simp add: word_at_rev byte_simps)

definition zlib_packed :: "zlib \<Rightarrow> byte list \<Rightarrow> byte list" where
  "zlib_packed Z d = mem_of LittleEndian (word_of_nat (length d) :: u32) @
     the (zcompress Z (compressBound Z (length d)) d)"

lemma zlib_lossless:
  assumes "zlib_documented Z" and "length d < 2 ^ 32"
  shows "ZlibService_Out h Z d srv = (srv, Inr (zlib_packed Z d))"
    and "ZlibService_In h' Z behind (zlib_packed Z d) srv' = (srv', Inr d)"
proof -
  obtain c where c: "zcompress Z (compressBound Z (length d)) d = Some c"
    "length c \<le> compressBound Z (length d)" "\<And>junk. uncompress Z (length d) (c @ junk) = Some d"
    using assms unfolding zlib_documented_def by blast
  let ?size = "mem_of LittleEndian (word_of_nat (length d) :: u32)"
  have "unat (word_of_nat (length d) :: u32) = length d"
    using assms(2) by (simp add: unsigned_of_nat take_bit_nat_eq_self)
  moreover have "take 4 ((?size @ c) @ junk) = ?size" "drop 4 ((?size @ c) @ junk) = c @ junk" for junk
    by simp_all
  ultimately show "ZlibService_In h' Z behind (zlib_packed Z d) srv' = (srv', Inr d)"
    using c(1,3) size_prefix(2) [of h' "word_of_nat (length d) :: u32"]
    by (cases h') (simp_all add: ZlibService_In_def zlib_packed_def Let_def ret_def)
  show "ZlibService_Out h Z d srv = (srv, Inr (zlib_packed Z d))"
    using c(1,2) by (simp add: ZlibService_Out_def zlib_packed_def Let_def size_prefix ret_def)
qed

lemma configured:
  "Configure h Z behind [] = [ZlibService h Z behind, RouteService h]"
  by (simp add: Configure_def Register_def ZlibService_def RouteService_def)

lemma configured_handlers:
  "ClientIn (Configure h Z behind []) d = ZlibService_In h Z behind d"
  "ClientOut (Configure h Z behind []) d = ZlibService_Out h Z d"
  "MiddlewareChannel_Out (Configure h Z behind []) d = ZlibService_Out h Z d"
  "service_In (last (Configure h Z behind [])) = RouteService_In h"
  "Configure h Z behind [] \<noteq> []"
  by (simp_all add: fun_eq_iff configured ClientIn_def ClientOut_def MiddlewareChannel_Out_def
      ZlibService_def RouteService_def RouteService_Out_def andthen_def ret_def split: prod.split sum.split)

end
