(* ===== verification/Rpc_Call.thy ===== *)
theory Rpc_Call
  imports Rpc_Dispatch Rpc_Transfer
begin

text \<open>
  A remote call from end to end: \<open>Client::call\<close> and \<open>Outcome\<close> on top of the invoker, and the
  theorems on the way of a call through the serializer, the compression, the address that the
  server appends for functions of the context, the routing and back.
\<close>

section \<open>The client\<close>

text \<open>\<open>Outcome\<close>; the value is \<open>None\<close> until it is read (and for \<open>void\<close>).\<close>

record Outcome =
  oc_value :: "sval option"
  oc_response :: RpcResponseHeader
  oc_protocolReason :: FailureReason

definition new_Outcome :: Outcome where
  "new_Outcome = \<lparr>oc_value = None, oc_response = new_RpcResponseHeader, oc_protocolReason = FailureOK\<rparr>"

definition Outcome_isOK :: "Outcome \<Rightarrow> bool" where
  "Outcome_isOK result \<longleftrightarrow> rh_ok (oc_response result) \<and> oc_protocolReason result = FailureOK"

datatype call_fault = CallSerializer ser_error | CallNetwork rpc_error | CallUninitialised

text \<open>The name and the tuple of the arguments; an exception here leaves \<open>call\<close>.\<close>

definition package_call :: "ByteSequence \<Rightarrow> byte list \<Rightarrow> sval list \<Rightarrow> ser_error + byte list" where
  "package_call h name args =
     (case seq (input_val (VString name)) (input_val (VTuple args)) (new_serializer h) of
        (s, Inl e) \<Rightarrow> Inl e
      | (s, Inr _) \<Rightarrow> Inr (getBinaryStream s))"

fun header_of_val :: "sval \<Rightarrow> RpcResponseHeader" where
  "header_of_val (VClass [VBool b, VInt32 w]) = \<lparr>rh_ok = b, rh_reason = w\<rparr>"
| "header_of_val v = new_RpcResponseHeader"

text \<open>The \<open>try\<close> block: the header and, for a function with a value (\<open>Some\<close> type), the value.\<close>

definition response_value :: "cty option \<Rightarrow> sval \<Rightarrow> Outcome ser_run" where
  "response_value rt v =
     (let result = new_Outcome\<lparr>oc_response := header_of_val v\<rparr>
      in case rt of
           None \<Rightarrow> ret result
         | Some t \<Rightarrow> if rh_ok (oc_response result)
                     then fmap_run (\<lambda>x. result\<lparr>oc_value := Some x\<rparr>) (output_val std_ops t)
                     else ret result)"

definition try_response :: "cty option \<Rightarrow> byte list \<Rightarrow> Outcome ser_run" where
  "try_response rt data =
     seq (ser_write data) (andthen (output_val std_ops rpc_header_type) (response_value rt))"

definition read_response :: "ByteSequence \<Rightarrow> cty option \<Rightarrow> byte list \<Rightarrow> ser_error + Outcome" where
  "read_response h rt data =
     (case try_response rt data (ser_clear (new_serializer h)) of
        (s, Inr result) \<Rightarrow> Inr result
      | (s, Inl e) \<Rightarrow>
          if ser_exception e
          then Inr (new_Outcome\<lparr>oc_response :=
                      setReason UnexpectedReturnValue (setOkState False new_RpcResponseHeader)\<rparr>)
          else Inl e)"

text \<open>
  \<open>call\<close>. The reason of a failed transfer is assigned for \<open>void\<close> only: with a value the statement
  is a comparison without effect.
\<close>

definition Client_call ::
  "ByteSequence \<Rightarrow> (byte list \<Rightarrow> byte list) \<Rightarrow> (byte option list \<Rightarrow> u32 \<Rightarrow> byte list) \<Rightarrow> u64 \<Rightarrow>
   byte list \<Rightarrow> sval list \<Rightarrow> cty option \<Rightarrow> Invoker \<Rightarrow> call_fault + Outcome \<times> Invoker" where
  "Client_call h clientOut clientIn message_id name args rt invoker =
     (case package_call h name args of
        Inl e \<Rightarrow> Inl (CallSerializer e)
      | Inr stream \<Rightarrow>
          (case request h clientOut clientIn message_id stream invoker of
             Inl e \<Rightarrow> Inl (CallNetwork e)
           | Inr (responseData, invoker) \<Rightarrow>
               if rd_isSuccess responseData
               then (case those (take (unat (rd_total_size responseData)) (rd_data responseData)) of
                       None \<Rightarrow> Inl CallUninitialised
                     | Some bytes \<Rightarrow>
                         (case read_response h rt bytes of
                            Inl e \<Rightarrow> Inl (CallSerializer e)
                          | Inr result \<Rightarrow> Inr (result, invoker)))
               else Inr ((if rt = None then new_Outcome\<lparr>oc_protocolReason := rd_reason responseData\<rparr>
                          else new_Outcome), invoker)))"

section \<open>Reading what the server wrote\<close>

lemma header_of_val_header [simp]: "header_of_val (rpc_header_val hdr) = hdr"
  by (simp add: rpc_header_val_def)

lemma std_key_order: "key_order (key_less std_ops)"
  by (simp add: std_ops_def std.key_order_axioms)

lemma reads_value: "has_type std_ops t v \<Longrightarrow> reads (output_val std_ops t) (enc v) v"
  by (rule output_val_reads [OF std_key_order])

lemma clear_new: "ser_clear (new_serializer h) = new_serializer h"
  by (simp add: ser_clear_def new_serializer_def)

lemma read_reply:
  assumes "reads (response_value rt (rpc_header_val hdr)) bs result"
  shows "read_response h rt (enc (rpc_header_val hdr) @ bs @ rest) = Inr result"
proof -
  let ?data = "enc (rpc_header_val hdr) @ bs @ rest"
  obtain c where w: "ser_write ?data (new_serializer h) = (appended (new_serializer h) ?data c, Inr ())"
    by (rule write_new)
  have "reads (andthen (output_val std_ops rpc_header_type) (response_value rt))
      (enc (rpc_header_val hdr) @ bs) result"
    by (rule reads_andthen [where a = "rpc_header_val hdr"]) (rule reads_value [OF header_typed(1)], rule assms)
  from readsD [OF this, of "appended (new_serializer h) ?data c" rest] w show ?thesis
    by (simp add: read_response_def try_response_def clear_new run_simps unread_def)
qed

definition answered :: "bool \<Rightarrow> RpcFailureReason \<Rightarrow> sval option \<Rightarrow> Outcome" where
  "answered good why v = \<lparr>oc_value = v,
     oc_response = \<lparr>rh_ok = good, rh_reason = reason_code why\<rparr>, oc_protocolReason = FailureOK\<rparr>"

lemma reads_response_value:
  "has_type std_ops t v \<Longrightarrow>
     reads (response_value (Some t) (rpc_header_val \<lparr>rh_ok = True, rh_reason = reason_code why\<rparr>)) (enc v)
       (answered True why (Some v))"
  "reads (response_value None (rpc_header_val \<lparr>rh_ok = good, rh_reason = reason_code why\<rparr>)) []
     (answered good why None)"
  "reads (response_value rt (rpc_header_val \<lparr>rh_ok = False, rh_reason = reason_code why\<rparr>)) []
     (answered False why None)"
  using reads_fmap [OF reads_value, of t v "\<lambda>v. answered True why (Some v)"] reads_ret
  by (auto simp: response_value_def Let_def answered_def new_Outcome_def split: option.split)

lemma read_reply_value:
  "has_type std_ops t v \<Longrightarrow>
   read_response h (Some t) (reply True RpcSuccess @ enc v) = Inr (answered True RpcSuccess (Some v))"
  using read_reply [OF reads_response_value(1) [of t v RpcSuccess], of h "[]"]
  by (simp only: reply_def append_Nil2)

lemma read_reply_other:
  "read_response h None (reply good why @ rest) = Inr (answered good why None)"
  "read_response h rt (reply False why @ rest) = Inr (answered False why None)"
  using read_reply [OF reads_response_value(2)] read_reply [OF reads_response_value(3)]
  by (simp_all only: reply_def append_Nil)

section \<open>Writing a call\<close>

lemma package_call_bytes:
  assumes "length name \<le> MUSE_MAX_STRING_LENGTH" and "has_type std_ops (TTuple ts) (VTuple args)"
    and "h = LittleEndian \<or> portable (TTuple ts)"
  shows "package_call h name args = Inr (enc (VString name) @ enc (VTuple args))"
proof -
  have "appends h (input_val (VString name)) (enc (VString name))"
    using assms(1) by (intro input_val_appends [of std_ops TString]) auto
  from appends_seq [OF this input_val_appends [OF assms(2,3)]] new_serializer_writable [of h] show ?thesis
    by (elim appendsD) (auto simp: package_call_def getBinaryStream_def simp del: enc.simps input_val.simps)
qed

section \<open>The address of the client\<close>

text \<open>The arguments that the function receives.\<close>

definition call_args :: "byte list \<Rightarrow> u32 \<Rightarrow> u16 \<Rightarrow> sval list \<Rightarrow> sval list" where
  "call_args name ip port args =
     (if context_name name then args @ [VUInt32 ip, VUInt16 port] else args)"

lemma tuple_size_raised:
  fixes w :: u16
  assumes "n + 2 < 65536" and "w = word_at h (if h = BigEndian then rev (le_nat 2 n) else le_nat 2 n) + 2"
  shows "(if h = BigEndian then rev (mem_of h w) else mem_of h w) = le_nat 2 (n + 2)"
proof -
  have "word_at h (if h = BigEndian then rev (le_nat 2 n) else le_nat 2 n) = (word_of_nat n :: u16)"
    using size_prefix(2) [of h "word_of_nat n :: u16"] le2_word [of n] assms(1) by (cases h) simp_all
  then have "w = word_of_nat (n + 2)" using assms(2) by simp
  then show ?thesis using le2_word [of "n + 2"] assms(1) by (simp add: size_prefix(1))
qed

lemma raise_tuple_size_bytes:
  assumes "n + 2 < 65536"
  shows "raise_tuple_size h (length pre) (pre @ le_nat 2 n @ rest) = Inr (pre @ le_nat 2 (n + 2) @ rest)"
proof -
  have "take 2 (drop (length pre) (pre @ le_nat 2 n @ rest)) = le_nat 2 n" by simp
  then show ?thesis using tuple_size_raised [OF assms refl, of h]
    by (cases h) (simp_all add: raise_tuple_size_def Let_def)
qed

text \<open>The bytes that \<open>triggerTask\<close> makes of a name and what follows it.\<close>

lemma appends_address:
  "appends h (input_val (VTuple [VUInt32 ip, VUInt16 port])) (enc (VTuple [VUInt32 ip, VUInt16 port]))"
  "appends h (inputArgs (map input_val [VUInt32 ip, VUInt16 port])) (enc (VUInt32 ip) @ enc (VUInt16 port))"
proof -
  show "appends h (input_val (VTuple [VUInt32 ip, VUInt16 port])) (enc (VTuple [VUInt32 ip, VUInt16 port]))"
    by (rule input_val_appends [of std_ops "TTuple [TUInt32, TUInt16]"]) (simp_all add: limit_defs)
  have "appends h (input_val (VUInt32 ip)) (enc (VUInt32 ip))"
    "appends h (input_val (VUInt16 port)) (enc (VUInt16 port))"
    using input_val_appends [of std_ops TUInt32 "VUInt32 ip" h] input_val_appends [of std_ops TUInt16 "VUInt16 port" h]
    by simp_all
  from appends_seq [OF this(1) appends_seq [OF this(2) appends_ret]]
  show "appends h (inputArgs (map input_val [VUInt32 ip, VUInt16 port])) (enc (VUInt32 ip) @ enc (VUInt16 port))"
    by simp
qed

lemma add_context_bytes:
  shows "add_context h ip port (length name) name = Inr (name @ enc (VTuple [VUInt32 ip, VUInt16 port]))"
    and "n + 2 < 65536 \<Longrightarrow>
      add_context h ip port (length name) (name @ type_code TUPLE # le_nat 2 n @ rest) =
      Inr (name @ type_code TUPLE # le_nat 2 (n + 2) @ rest @ enc (VUInt32 ip) @ enc (VUInt16 port))"
proof -
  obtain c where "input_val (VTuple [VUInt32 ip, VUInt16 port]) (new_serializer h) =
      (appended (new_serializer h) (enc (VTuple [VUInt32 ip, VUInt16 port])) c, Inr ())"
    using appendsD [OF appends_address(1) new_serializer_writable] by blast
  then show "add_context h ip port (length name) name = Inr (name @ enc (VTuple [VUInt32 ip, VUInt16 port]))"
    by (simp add: add_context_def Let_def getBinaryStream_def del: input_val.simps enc.simps)
  assume n: "n + 2 < 65536"
  obtain c where "inputArgs (map input_val [VUInt32 ip, VUInt16 port]) (new_serializer h) =
      (appended (new_serializer h) (enc (VUInt32 ip) @ enc (VUInt16 port)) c, Inr ())"
    using appendsD [OF appends_address(2) new_serializer_writable] by blast
  with raise_tuple_size_bytes [OF n, of h "name @ [type_code TUPLE]"
      "rest @ enc (VUInt32 ip) @ enc (VUInt16 port)"]
  show "add_context h ip port (length name) (name @ type_code TUPLE # le_nat 2 n @ rest) =
      Inr (name @ type_code TUPLE # le_nat 2 (n + 2) @ rest @ enc (VUInt32 ip) @ enc (VUInt16 port))"
    by (simp add: add_context_def Let_def getBinaryStream_def del: input_val.simps enc.simps inputArgs.simps list.map)
qed

section \<open>A call on the server\<close>

lemma route_in_call:
  assumes "serves h methods srv" and "length name \<le> MUSE_MAX_STRING_LENGTH"
    and "methods name = Some func" and "has_type std_ops (TTuple (m_params func)) (VTuple args)"
    and "invoke_spec func args (world srv) = (w', rep)"
  shows "RouteService_In h (enc (VString name) @ enc (VTuple args) @ rest) srv = (srv\<lparr>world := w'\<rparr>, Inr rep)"
  using route_spec_call [of name methods func args h rest "world srv", OF assms(2,3,4)] assms(5)
  by (simp add: routed [OF assms(1)] del: enc.simps)

text \<open>
  \<open>triggerTask\<close> on a packet that the compression unpacks to a name and \<open>tail\<close>: the function is run
  with the arguments that the routed bytes hold, with the address of the client for a function of
  the context.
\<close>

lemma triggerTask_runs:
  assumes "serves h methods srv" and "length name \<le> MUSE_MAX_STRING_LENGTH"
    and "methods name = Some func" and "has_type std_ops (TTuple (m_params func)) (VTuple args)"
    and "invoke_spec func args (world srv) = (w', rep)"
    and "ZlibService_In h Z behind pkt srv = (srv, Inr (enc (VString name) @ tail))"
    and "ZlibService_Out h Z rep (srv\<lparr>world := w'\<rparr>) = (srv\<lparr>world := w'\<rparr>, Inr ans)"
    and "if context_name name
         then add_context h ip port (length (enc (VString name))) (enc (VString name) @ tail) =
              Inr (enc (VString name) @ enc (VTuple args) @ rest)
         else tail = enc (VTuple args) @ rest"
  shows "triggerTask h behind (Configure h Z behind []) ip port pkt srv = (srv\<lparr>world := w'\<rparr>, Inr ans)"
proof -
  let ?pure = "enc (VString name) @ tail"
  obtain v where v: "view_output_string (make_view h (?pure @ behind ?pure) (length ?pure)) = (v, Inr name)"
    "view_getReadPosition v = length (enc (VString name))"
    using view_output_name [OF assms(2), of h "tail @ behind ?pure" "length tail"]
    by (auto simp del: enc.simps)
  have r: "RouteService_In h (enc (VString name) @ enc (VTuple args) @ rest) srv =
      (srv\<lparr>world := w'\<rparr>, Inr rep)"
    by (rule route_in_call [OF assms(1-5)])
  show ?thesis
  proof (cases "context_name name")
    case True
    with assms(6-8) v r show ?thesis
      by (simp add: triggerTask_def configured_handlers run_simps del: enc.simps)
  next
    case False
    with assms(6-8) v r show ?thesis
      by (simp add: triggerTask_def configured_handlers run_simps del: enc.simps)
  qed
qed

text \<open>What the server appends to the arguments of a caller.\<close>

lemma add_context_call:
  assumes "length args + 2 < 65536"
  shows "add_context h ip port (length (enc (VString name))) (enc (VString name) @ enc (VTuple args)) =
     Inr (enc (VString name) @ enc (VTuple (args @ [VUInt32 ip, VUInt16 port])))"
proof (cases "args = []")
  case True
  then show ?thesis using add_context_bytes(1) [of h ip port "enc (VString name)"] by simp
next
  case False
  then show ?thesis
    using add_context_bytes(2) [OF assms, of h ip port "enc (VString name)" "concat (map enc args)"] by simp
qed

text \<open>The instance of zlib that stores the data, and a server with a function of the context.\<close>

definition stored_zlib :: zlib where
  "stored_zlib = \<lparr>compressBound = id, zcompress = (\<lambda>cap d. if length d \<le> cap then Some d else None),
     uncompress = (\<lambda>cap d. if length d < cap then None else Some (take cap d))\<rparr>"

lemma stored_zlib_documented: "zlib_documented stored_zlib"
  by (simp add: zlib_documented_def stored_zlib_def)

definition peer_method :: "nat rpc_method" where
  "peer_method = \<lparr>m_params = [TUInt32, TUInt16], m_void = False,
     m_body = (\<lambda>args w. case args of [VUInt32 ip, VUInt16 port] \<Rightarrow> (w + 1, Inr (VUInt32 ip)) | _ \<Rightarrow> (w, Inl ()))\<rparr>"

definition peer_name :: "byte list" where
  "peer_name = prefix_name @ [105]"

definition peer_server :: "nat server" where
  "peer_server = fst (Registry_Bind peer_name peer_method (new_server 0))"

lemma peer_serves: "serves h [peer_name \<mapsto> peer_method] peer_server"
proof -
  have "has_type std_ops TUInt32 v" if "m_body peer_method args w = (w', Inr v)" for args w w' v
    using that by (auto simp: peer_method_def split: list.splits sval.splits)
  then have "answerable h peer_method" unfolding answerable_def by (metis portable.simps(8))
  then show ?thesis
    by (simp add: serves_def peer_server_def Registry_Bind_def new_server_def offers_bound)
       (simp add: offers_def)
qed

lemma peer_facts:
  "context_name peer_name" "world peer_server = 0" "length peer_name = 10"
  "length peer_name \<le> MUSE_MAX_STRING_LENGTH"
  by (simp_all add: context_name_def peer_name_def prefix_name_def peer_server_def Registry_Bind_def
      new_server_def limit_defs)

section \<open>Properties\<close>

text \<open>What the caller of a function gets to see of its result.\<close>

definition outcome_of :: "'w rpc_method \<Rightarrow> unit + sval \<Rightarrow> Outcome" where
  "outcome_of func r =
     (case r of
        Inl _ \<Rightarrow> answered False MethodExecutionError None
      | Inr v \<Rightarrow> answered True RpcSuccess (if m_void func then None else Some v))"

lemma those_map_Some: "those (map Some xs) = Some xs"
  by (induction xs) simp_all

lemma invoke_spec_read:
  assumes "m_body func args w = (w', r)" and "invoke_spec func args w = (w'', rep)"
    and "case rt of None \<Rightarrow> m_void func | Some t \<Rightarrow> \<not> m_void func \<and> (\<forall>v. r = Inr v \<longrightarrow> has_type std_ops t v)"
  shows "w'' = w'" and "read_response h rt rep = Inr (outcome_of func r)"
proof -
  show "w'' = w'" using assms(1,2) by (cases r) (auto simp: invoke_spec_def)
  show "read_response h rt rep = Inr (outcome_of func r)"
  proof (cases r)
    case (Inl e)
    with assms(1,2) read_reply_other(2) [of h rt MethodExecutionError "[]"] show ?thesis
      by (auto simp: invoke_spec_def outcome_of_def)
  next
    case (Inr v)
    with assms read_reply_other(1) [of h True RpcSuccess "[]"] read_reply_value [of _ v h] show ?thesis
      by (cases rt) (auto simp: invoke_spec_def outcome_of_def)
  qed
qed

lemma Client_call_delivered:
  assumes "package_call h name args = Inr msg"
    and "request h clientOut clientIn ident msg st = Inr (rd, st')" and "rd_isSuccess rd"
    and "rd_data rd = map Some rep" and "unat (rd_total_size rd) = length rep"
    and "read_response h rt rep = Inr result"
  shows "Client_call h clientOut clientIn ident name args rt st = Inr (result, st')"
  using assms by (simp add: Client_call_def those_map_Some)

text \<open>
  C4 A remote call. A client of byte order \<open>hc\<close> calls a function that a server of byte order \<open>hs\<close>
  offers, with the compression as it is configured on both sides. The client is little-endian, or the
  types of the arguments hold no container whose count is taken from a \<open>size_t\<close>; the server is
  little-endian, or its functions return no such container (which \<open>serves\<close> says of every function it
  offers). The server runs the function exactly once on the state of the application, with the
  arguments of the caller and, for a name in @context/, the address of the caller behind them; from the
  answer \<open>Client::call\<close> makes the value that the function returned, or the error that it threw, whenever
  the invoker delivers the unpacked answer. The arguments and the result have the types that both
  sides declare, the name is within the limit, and the sizes of the message and of the answer fit into
  the 32 bits of the compression.
\<close>

theorem remote_call:
  assumes "zlib_documented Z" and "serves hs methods srv" and "methods name = Some func"
    and "length name \<le> MUSE_MAX_STRING_LENGTH"
    and "has_type std_ops (TTuple ts) (VTuple args)" and "hc = LittleEndian \<or> portable (TTuple ts)"
    and "has_type std_ops (TTuple (m_params func)) (VTuple (call_args name ip port args))"
    and "m_body func (call_args name ip port args) (world srv) = (w', r)"
    and "case rt of None \<Rightarrow> m_void func | Some t \<Rightarrow> \<not> m_void func \<and> (\<forall>v. r = Inr v \<longrightarrow> has_type std_ops t v)"
    and "length (enc (VString name) @ enc (VTuple args)) < 2 ^ 32"
    and "length (snd (invoke_spec func (call_args name ip port args) (world srv))) < 2 ^ 32"
  shows "\<exists>msg pkt ans rep.
     package_call hc name args = Inr msg \<and>
     (\<forall>cl. ClientOut (Configure hc Z bc []) msg (cl :: 'c server) = (cl, Inr pkt)) \<and>
     triggerTask hs bs (Configure hs Z bs []) ip port pkt srv = (srv\<lparr>world := w'\<rparr>, Inr ans) \<and>
     (\<forall>cl. ClientIn (Configure hc Z bc []) ans (cl :: 'c server) = (cl, Inr rep)) \<and>
     (\<forall>clientOut clientIn ident st rd st'.
        request hc clientOut clientIn ident msg st = Inr (rd, st') \<and> rd_isSuccess rd \<and>
        rd_data rd = map Some rep \<and> unat (rd_total_size rd) = length rep \<longrightarrow>
        Client_call hc clientOut clientIn ident name args rt st = Inr (outcome_of func r, st'))"
proof -
  let ?msg = "enc (VString name) @ enc (VTuple args)"
  obtain rep where i: "invoke_spec func (call_args name ip port args) (world srv) = (w', rep)"
    "length rep < 2 ^ 32" and read: "read_response hc rt rep = Inr (outcome_of func r)"
    using invoke_spec_read [OF assms(8) prod.collapse [symmetric] assms(9)] assms(11)
    by (metis prod.collapse)
  note pkt = zlib_lossless [OF assms(1,10)] and ans = zlib_lossless [OF assms(1) i(2)]
  let ?pkt = "zlib_packed Z ?msg" and ?ans = "zlib_packed Z rep"
  have p: "package_call hc name args = Inr ?msg" by (rule package_call_bytes [OF assms(4-6)])
  have "length args + 2 < 65536" using assms(5) by (simp add: limit_defs)
  then have "triggerTask hs bs (Configure hs Z bs []) ip port ?pkt srv = (srv\<lparr>world := w'\<rparr>, Inr ?ans)"
    using add_context_call [of args hs ip port name]
    by (intro triggerTask_runs [OF assms(2,4,3,7) i(1) pkt(2) ans(1), where rest = "[]"])
       (auto simp: call_args_def simp del: enc.simps)
  with p pkt(1) ans(2) Client_call_delivered [OF p _ _ _ _ read] show ?thesis
    unfolding configured_handlers by blast
qed

theorem remote_call_witness:
  "\<exists>msg pkt ans rep.
     package_call BigEndian peer_name [] = Inr msg \<and>
     (\<forall>cl. ClientOut (Configure BigEndian stored_zlib (\<lambda>_. []) []) msg (cl :: unit server) = (cl, Inr pkt)) \<and>
     triggerTask LittleEndian (\<lambda>_. []) (Configure LittleEndian stored_zlib (\<lambda>_. []) []) 77 80 pkt peer_server =
       (peer_server\<lparr>world := 1\<rparr>, Inr ans) \<and>
     (\<forall>cl. ClientIn (Configure BigEndian stored_zlib (\<lambda>_. []) []) ans (cl :: unit server) = (cl, Inr rep)) \<and>
     (\<forall>clientOut clientIn ident st rd st'.
        request BigEndian clientOut clientIn ident msg st = Inr (rd, st') \<and> rd_isSuccess rd \<and>
        rd_data rd = map Some rep \<and> unat (rd_total_size rd) = length rep \<longrightarrow>
        Client_call BigEndian clientOut clientIn ident peer_name [] (Some TUInt32) st =
          Inr (outcome_of peer_method (Inr (VUInt32 77)), st'))"
  by (rule remote_call [OF stored_zlib_documented peer_serves, where ts = "[]"])
     (simp_all add: peer_facts call_args_def peer_method_def invoke_spec_def reply_def rpc_header_val_def
       limit_defs le4_def)

text \<open>
  C22 A forged address. A caller who declares two elements less than he sends gets them taken for
  the address that the server appends: whatever the real address is, a function of the context is
  run with the address of his choice.
\<close>

theorem context_address_forged:
  assumes "zlib_documented Z" and "serves hs methods srv" and "methods name = Some func"
    and "length name \<le> MUSE_MAX_STRING_LENGTH" and "context_name name"
    and "has_type std_ops (TTuple (m_params func)) (VTuple (args @ [VUInt32 ip', VUInt16 port']))"
    and "forged = enc (VString name) @ type_code TUPLE # le_nat 2 (length args) @
           concat (map enc (args @ [VUInt32 ip', VUInt16 port']))"
    and "length forged < 2 ^ 32"
    and "invoke_spec func (args @ [VUInt32 ip', VUInt16 port']) (world srv) = (w', rep)"
    and "length rep < 2 ^ 32"
  shows "\<exists>pkt ans.
     (\<forall>cl. ClientOut (Configure hc Z bc []) forged (cl :: 'c server) = (cl, Inr pkt)) \<and>
     (\<forall>ip port. triggerTask hs bs (Configure hs Z bs []) ip port pkt srv = (srv\<lparr>world := w'\<rparr>, Inr ans)) \<and>
     (\<forall>cl. ClientIn (Configure hc Z bc []) ans (cl :: 'c server) = (cl, Inr rep))"
proof -
  let ?args = "args @ [VUInt32 ip', VUInt16 port']"
  note pkt = zlib_lossless [OF assms(1,8)] and ans = zlib_lossless [OF assms(1,10)]
  have n: "length args + 2 < 65536" using assms(6) by (simp add: limit_defs)
  have "triggerTask hs bs (Configure hs Z bs []) ip port (zlib_packed Z forged) srv =
      (srv\<lparr>world := w'\<rparr>, Inr (zlib_packed Z rep))" for ip port
    using pkt(2) add_context_bytes(2) [OF n, of hs ip port "enc (VString name)" "concat (map enc ?args)"]
    unfolding assms(7)
    by (intro triggerTask_runs [OF assms(2,4,3,6,9) _ ans(1),
          where rest = "enc (VUInt32 ip) @ enc (VUInt16 port)"])
       (simp_all add: assms(5) del: enc.simps(9) enc.simps(12))
  with pkt(1) ans(2) show ?thesis unfolding configured_handlers by blast
qed

theorem context_address_forged_witness:
  "\<exists>pkt ans.
     (\<forall>cl. ClientOut (Configure LittleEndian stored_zlib (\<lambda>_. []) [])
        (enc (VString peer_name) @ type_code TUPLE # le_nat 2 0 @ concat (map enc [VUInt32 99, VUInt16 1]))
        (cl :: unit server) = (cl, Inr pkt)) \<and>
     (\<forall>ip port. triggerTask LittleEndian (\<lambda>_. []) (Configure LittleEndian stored_zlib (\<lambda>_. []) []) ip port
        pkt peer_server = (peer_server\<lparr>world := 1\<rparr>, Inr ans)) \<and>
     (\<forall>cl. ClientIn (Configure LittleEndian stored_zlib (\<lambda>_. []) []) ans (cl :: unit server) =
        (cl, Inr (reply True RpcSuccess @ enc (VUInt32 99))))"
  by (rule context_address_forged [OF stored_zlib_documented peer_serves, where args = "[]" and name = peer_name
        and func = peer_method and ip' = 99 and port' = 1])
     (simp_all add: peer_facts peer_method_def invoke_spec_def reply_def rpc_header_val_def
       limit_defs le4_def)

lemma failed_transfer:
  assumes "package_call h name args = Inr msg"
    and "request h clientOut clientIn ident msg st = Inr (rd, st')" and "\<not> rd_isSuccess rd"
  shows "Client_call h clientOut clientIn ident name args rt st =
     Inr ((if rt = None then new_Outcome\<lparr>oc_protocolReason := rd_reason rd\<rparr> else new_Outcome), st')"
  using assms by (simp add: Client_call_def)

text \<open>
  C23 A call that nobody answers. When no datagram arrives, \<open>Client::call\<close> returns after the first
  window of pieces and three requests for an acknowledgement, with an outcome that is not OK. The
  timeout is its reason for a \<open>void\<close> function only; for a function with a value the reason stays OK.
\<close>

theorem unanswered_call_returns:
  assumes "package_call h name args = Inr msg" and "length msg \<le> 1024 * 1024 * 100"
    and "clientOut msg \<noteq> []" and "pieces_of (clientOut msg) < 2 ^ 16"
    and "inv_inputs st = []" and "length (inv_buffer st) = FullPieceSize + 1"
  shows "\<exists>result st'. Client_call h clientOut clientIn ident name args rt st = Inr (result, st') \<and>
     \<not> Outcome_isOK result \<and>
     oc_protocolReason result = (if rt = None then NetworkTimeout else FailureOK) \<and>
     length (inv_sent st') = length (inv_sent st) +
       min (window (clientOut msg)) (pieces_of (clientOut msg)) + 3"
proof -
  obtain st' where r: "request h clientOut clientIn ident msg st =
      Inr (new_ResponseData\<lparr>rd_reason := NetworkTimeout\<rparr>, st')"
    and s: "inv_sent st' = inv_sent st @ map (piece_packet PhaseRequest ident (clientOut msg))
        [0..<min (window (clientOut msg)) (pieces_of (clientOut msg))] @
      replicate 3 (ask_ack_packet ident (clientOut msg))"
    using request_silent [of msg clientOut st, OF assms(2-6)] by blast
  from failed_transfer [OF assms(1) r, of rt] s show ?thesis
    by (simp add: new_ResponseData_def Outcome_isOK_def new_Outcome_def new_RpcResponseHeader_def)
qed

theorem unanswered_call_returns_witness:
  "\<exists>result st'. Client_call LittleEndian id (\<lambda>_ _. []) 7 [110] [] (Some TInt32) (new_Invoker []) =
       Inr (result, st') \<and>
     \<not> Outcome_isOK result \<and> oc_protocolReason result = FailureOK \<and> length (inv_sent st') = 4"
proof -
  have p: "package_call LittleEndian [110] [] = Inr (enc (VString [110]))"
    using package_call_bytes [of "[110]" "[]" "[]" LittleEndian] by (simp add: limit_defs)
  have l: "length (enc (VString [110])) = 6" "enc (VString [110]) \<noteq> []" by (simp_all add: le4_def)
  then have n: "pieces_of (enc (VString [110])) = 1" by (simp add: pieces_of_def)
  then have "window (enc (VString [110])) = 1" unfolding window_def by (simp add: getSendCount_def)
  with l n show ?thesis
    using unanswered_call_returns [OF p, of id "new_Invoker []" "\<lambda>_ _. []" 7 "Some TInt32"]
    by (simp add: new_Invoker_def del: enc.simps)
qed

end
