(* ===== verification/Spec2Isabelle.thy ===== *)
theory Spec2Isabelle
  imports Serializer_Safety Deserialize_View Protocol Uint256 Merkle_Tree Bloom_Filter Timer_Tree Timer_Wheel Rpc_Transfer Reactor_Safety
    Rpc_Message Sub_Reactor Invoker Account Mpt_Refinement Block_Package Ledger_Rollback Connector_Block
    Pool_Close Pool_Manager Rpc_Call
begin

text \<open>
  \<^bold>\<open>Verification of the muse-chain library (\<open>src/include\<close>)\<close>

  The program is a block chain node: a binary serializer, a remote procedure call layer over UDP
  that cuts messages into pieces, timers, and the storage core of the chain with its accounts,
  hashes and authenticated tries.

  \<^bold>\<open>Theories and sources\<close>

  \<^item> \<open>Prelude\<close>: words and byte orders, computations with a state and an error, sequences of
    operations and their refinement (locale \<open>refines_spec\<close>).
  \<^item> \<open>Serializer\<close>, \<open>Std_Keys\<close>, \<open>Wire_Format\<close>, \<open>Serializer_Safety\<close>: \<open>serializer/binarySerializer\<close>. The object is a
    record of its bytes, capacity and read position; every \<open>input\<close> and \<open>output\<close> overload is a
    definition. \<open>Wire_Format\<close> gives the bytes of a value and shows that reading inverts writing; the
    locale \<open>key_order\<close> is what an ordered container needs of its keys.
  \<^item> \<open>Deserialize_View\<close>: \<open>serializer/binaryDeserializeView\<close>; the locale \<open>value_reader\<close> is the contract that both
    readers satisfy.
  \<^item> \<open>Protocol\<close>: \<open>rpc/protocol\<close>; the locale \<open>header_field\<close> is the contract of the setters of a header.
  \<^item> \<open>Rpc_Message\<close>, \<open>Sub_Reactor\<close>, \<open>Invoker\<close>: requests and responses (\<open>rpc/server/request.cpp\<close>, \<open>response.cpp\<close>,
    \<open>rpc/client/response_data.cpp\<close>), the handlers of the server's reactor thread
    (\<open>rpc/server/sub_reactor.cpp\<close>) and the blocking client (\<open>rpc/client/invoker.cpp\<close>). The locale
    \<open>piece_store\<close> is the contract of a message that is put together from its pieces; server and
    client interpret it. \<open>reactor_loop\<close> is the event loop: rounds of a run of the timer, the new connections
    and the ready events. \<open>Rpc_Transfer\<close> composes them: the loop refines an abstract machine of every
    message (\<open>message_step\<close>: pieces held, time of the last one, answers of the thread pool), which gives
    the hand-over of intact requests, once each while the message is kept alive; further the reassembly
    of a response and the behaviour on a silent network. \<open>Reactor_Safety\<close> shows where the handlers leave
    their memory.
  \<^item> \<open>Rpc_Dispatch\<close> models the calls on the server: the two registries (\<open>registry.hpp\<close>,
    \<open>synchronous_registry.hpp\<close>), whose contract is the locale \<open>method_registry\<close> interpreted on both, the
    routing, the compression and the channel (\<open>route_service.cpp\<close>, \<open>zlib_service.cpp\<close>,
    \<open>middleware_channel.cpp\<close>) and \<open>SubReactor::triggerTask\<close>. Registered functions act on an abstract
    state of the application; \<open>route_refines_methods\<close> gives every branch of a routed call.
    \<open>Rpc_Call\<close> adds \<open>Client::call\<close> on top of \<open>Invoker.request\<close> and follows a call from its packing to
    the outcome, with the documented behaviour of zlib as the hypothesis \<open>zlib_documented\<close>.
  \<^item> \<open>Timer_Tree\<close>, \<open>Timer_Wheel\<close>: \<open>timer/\<close>. The loop of the tree is analysed for callbacks that set further
    timeouts, which the callbacks of the reactor are shown to be (\<open>timer_exec_arms_later\<close>). The wheel hands
    a callback over by running it or by committing it to an injected thread pool, whose runs are steps
    of their own.
  \<^item> \<open>Uint256\<close>, \<open>Merkle_Tree\<close>, \<open>Bloom_Filter\<close>, \<open>Account\<close>: \<open>db/uint256.hpp\<close>, \<open>db/merkle_tree.cpp\<close>, \<open>db/bloom_filter.cpp\<close>,
    \<open>db/account.cpp\<close>. Digests (SHA-3, MD5) are parameters.
  \<^item> \<open>Mpt\<close>: \<open>db/merkle_patricia_trie.hpp\<close> with its nodes and tables. \<open>Mpt_Shape\<close> has the well-formed trees,
    their contents and insertion, \<open>Mpt_Erase\<close> deletion, \<open>Mpt_Canonical\<close> that contents determine the tree,
    \<open>Mpt_Hash\<close> the two loops of the root hash, \<open>Mpt_Refinement\<close> the resulting properties.
  \<^item> \<open>Chain_Data\<close>: transactions, affairs, blocks and receipts (\<open>db/transaction.cpp\<close>, \<open>affair.cpp\<close>, \<open>block.cpp\<close>,
    \<open>block_header.cpp\<close>, \<open>block_body.cpp\<close>, \<open>receipt.cpp\<close>).
  \<^item> \<open>Block_Check\<close>, \<open>Block_Package\<close>, \<open>Connector_Account\<close>: \<open>db/connector_account.cpp\<close>. The checks of transactions and
    blocks, the packaging of the next block from the pools, and the execution of a block on the trie of
    the accounts with its exception handlers, undo operations, rollback and commits. The state during
    the execution is the record \<open>inserting\<close> (the locals of \<open>insert_block\<close>), the state between blocks the record
    \<open>connector_account\<close>.
  \<^item> \<open>Connector_Block\<close>: \<open>db/connector_block.cpp\<close>, \<open>application/application_state.cpp\<close>, \<open>db/interface_db.cpp\<close> and the
    constructor of the accounts over the databases.
  \<^item> \<open>Ledger\<close> is the specification of the execution: a partial function on maps from addresses to
    accounts, and the lemmas that the execution on the trie refines it. \<open>Ledger_Safety\<close> has atomicity and
    conservation, \<open>Block_Accept\<close> what the checks guarantee and what they let through, \<open>Ledger_Rollback\<close> what the
    undo operations restore.
  \<^item> \<open>Interleaving\<close>: threads that share memory as a machine of atomic actions, reachability and the locale
    \<open>machine_invariant\<close>. \<open>Thread_Pool\<close>: \<open>thread_pool/pool.cpp\<close> with its executors and results. The state is the
    record \<open>ThreadPool\<close>, extended by the program counters of the threads and by a record of what
    happened to each task; an action is one access of one thread. \<open>Pool_Invariant\<close> has the invariant of
    the slots, of \<open>init\<close> and of the mutex, \<open>Pool_Tasks\<close> the conservation of accepted tasks, \<open>Pool_Liveness\<close> that the
    front of the queue is not stranded, \<open>Pool_Close\<close> when \<open>close\<close> returns and when it can hang, \<open>Pool_Manager\<close> the counter
    of the manager thread. Every property holds for all interleavings; the number of threads and
    tasks is not bounded. The body of a task is one action that ends, so the bounds count actions of
    threads and say nothing about time.

  \<^bold>\<open>Loops\<close>

  Loops over data are recursive functions. The loops that may not end are options or have fuel:
  the growth of the serializer's buffer (\<open>expansion_loop\<close>, shown to return on every object with
  storage), the first loop of the root hash (\<open>collect\<close>, shown to return on every tree kept in memory), the
  loops that package a block (\<open>package_pass\<close>, \<open>affair_pass\<close>, which in fact do not always end),
  and the client's loops, which consume the list of datagrams and timeouts the network gives them.

  \<^bold>\<open>Not modelled\<close>

  The threads of the reactors, sockets and epoll (their answers are inputs), the main reactor that accepts new clients, the
  asynchronous client \<open>Transmitter\<close> (a second driver of the same protocol), logging, the LevelDB, OpenSSL and zlib
  libraries (they are parameters), the concurrent pool and the two dictionaries \<open>Trie\<close> and \<open>patricia_trie\<close> (unused by the rest), network, consensus, configuration files and
  command line, and the start-up of the application.
\<close>

end
